(* ===== verification/Prelude.thy ===== *)
theory Prelude
  imports Main "HOL-Library.Word"
begin

text \<open>
  What every other theory shares: the machine integer types of the Rust code, the result type
  (\<open>Inl\<close> is Rust's \<open>Err\<close>, \<open>Inr\<close> its \<open>Ok\<close>) with the bind that models the question-mark operator,
  the little-endian byte conversions of the integer types, decimal and hexadecimal formatting
  and parsing, and generic lemmas on lists and maps.  The collections \<open>result_simps\<close> and
  \<open>codec_intros\<close> are filled here and in the component theories.
\<close>

named_theorems result_simps \<open>unfold a Rust Result and its question-mark operator\<close>
named_theorems codec_intros \<open>a decoder reads back what its encoder wrote\<close>

subsection \<open>Machine integers\<close>

type_synonym u8 = "8 word"
type_synonym u16 = "16 word"
type_synonym u32 = "32 word"
type_synonym u64 = "64 word"
type_synonym bytes = "u8 list"

subsection \<open>Results\<close>

definition rbind :: "'e + 'a \<Rightarrow> ('a \<Rightarrow> 'e + 'b) \<Rightarrow> 'e + 'b" where
  "rbind m f = (case m of Inl e \<Rightarrow> Inl e | Inr x \<Rightarrow> f x)"

definition ok_or :: "'a option \<Rightarrow> 'e \<Rightarrow> 'e + 'a" where
  "ok_or m e = (case m of None \<Rightarrow> Inl e | Some x \<Rightarrow> Inr x)"

definition map_err :: "('e \<Rightarrow> 'f) \<Rightarrow> 'e + 'a \<Rightarrow> 'f + 'a" where
  "map_err g m = (case m of Inl e \<Rightarrow> Inl (g e) | Inr x \<Rightarrow> Inr x)"

definition is_ok :: "'e + 'a \<Rightarrow> bool" where
  "is_ok m \<longleftrightarrow> (case m of Inl _ \<Rightarrow> False | Inr _ \<Rightarrow> True)"

lemma rbind_Inl [simp]: "rbind (Inl e) f = Inl e"
  by (simp add: rbind_def)

lemma rbind_Inr [simp]: "rbind (Inr x) f = f x"
  by (simp add: rbind_def)

lemma rbind_eq_Inr [result_simps]: "rbind m f = Inr y \<longleftrightarrow> (\<exists>x. m = Inr x \<and> f x = Inr y)"
  by (cases m) auto

lemma rbind_eq_Inl [result_simps]:
  "rbind m f = Inl e \<longleftrightarrow> m = Inl e \<or> (\<exists>x. m = Inr x \<and> f x = Inl e)"
  by (cases m) auto

lemma rbind_assoc: "rbind (rbind m f) g = rbind m (\<lambda>x. rbind (f x) g)"
  by (cases m) auto

lemma rbind_cong [fundef_cong]:
  "m = m' \<Longrightarrow> (\<And>x. m' = Inr x \<Longrightarrow> f x = g x) \<Longrightarrow> rbind m f = rbind m' g"
  by (cases m') auto

lemma rbindE:
  assumes "rbind m f = Inr y"
  obtains x where "m = Inr x" and "f x = Inr y"
  using assms by (auto simp: rbind_eq_Inr)

lemma ok_or_simps [simp]: "ok_or None e = Inl e" "ok_or (Some x) e = Inr x"
  by (simp_all add: ok_or_def)

lemma ok_or_eq_Inr [result_simps]: "ok_or m e = Inr x \<longleftrightarrow> m = Some x"
  by (cases m) auto

lemma map_err_simps [simp]: "map_err g (Inl e) = Inl (g e)" "map_err g (Inr x) = Inr x"
  by (simp_all add: map_err_def)

lemma map_err_eq_Inr [result_simps]: "map_err g m = Inr x \<longleftrightarrow> m = Inr x"
  by (cases m) auto

lemma map_err_eq_Inl [result_simps]: "map_err g m = Inl e \<longleftrightarrow> (\<exists>e'. m = Inl e' \<and> e = g e')"
  by (cases m) auto

lemma is_ok_simps [simp]: "is_ok (Inr x)" "\<not> is_ok (Inl e)"
  by (simp_all add: is_ok_def)

subsection \<open>Little-endian bytes\<close>

text \<open>
  \<open>le_bytes n k\<close> are the \<open>n\<close> low bytes of \<open>k\<close>, least significant first: Rust's \<open>to_le_bytes\<close> of an
  \<open>8 * n\<close> bit integer; \<open>le_nat\<close> is \<open>from_le_bytes\<close>.
\<close>

primrec le_bytes :: "nat \<Rightarrow> nat \<Rightarrow> bytes" where
  "le_bytes 0 k = []"
| "le_bytes (Suc n) k = of_nat (k mod 256) # le_bytes n (k div 256)"

primrec le_nat :: "bytes \<Rightarrow> nat" where
  "le_nat [] = 0"
| "le_nat (b # bs) = unat b + 256 * le_nat bs"

lemma length_le_bytes [simp]: "length (le_bytes n k) = n"
  by (induction n arbitrary: k) auto

lemma unat_byte_less [simp]: "unat (b :: u8) < 256"
  using unsigned_less [of b, where ?'a = nat] by simp

lemma unat_of_nat_byte: "unat (of_nat k :: u8) = k mod 256"
  by (simp add: unat_of_nat take_bit_eq_mod)

lemma le_nat_le_bytes: "le_nat (le_bytes n k) = k mod 256 ^ n"
proof (induction n arbitrary: k)
  case (Suc n)
  then show ?case by (simp add: unat_of_nat_byte mod_mult2_eq)
qed simp

lemma add_le_imp_aux: "r < (m :: nat) \<Longrightarrow> k + m \<le> n \<Longrightarrow> r + k < n"
  by simp

lemma le_nat_less: "le_nat bs < 256 ^ length bs"
proof (induction bs)
  case (Cons b bs)
  have "unat b < 256" by (rule unat_byte_less)
  moreover have "256 * (le_nat bs + 1) \<le> 256 * 256 ^ length bs"
    using Cons by (intro mult_le_mono2) simp
  then have "256 * le_nat bs + 256 \<le> 256 ^ length (b # bs)"
    by simp
  ultimately have "unat b + 256 * le_nat bs < 256 ^ length (b # bs)"
    by (rule add_le_imp_aux)
  then show ?case by simp
qed simp

lemma le_bytes_le_nat: "le_bytes (length bs) (le_nat bs) = bs"
proof (induction bs)
  case (Cons b bs)
  have "unat b < 256" by (rule unat_byte_less)
  then have "(unat b + 256 * le_nat bs) mod 256 = unat b"
    and "(unat b + 256 * le_nat bs) div 256 = le_nat bs"
    by auto
  with Cons show ?case by simp
qed simp

definition u16_to_le :: "u16 \<Rightarrow> bytes" where "u16_to_le v = le_bytes 2 (unat v)"
definition u32_to_le :: "u32 \<Rightarrow> bytes" where "u32_to_le v = le_bytes 4 (unat v)"
definition u64_to_le :: "u64 \<Rightarrow> bytes" where "u64_to_le v = le_bytes 8 (unat v)"
definition u16_from_le :: "bytes \<Rightarrow> u16" where "u16_from_le bs = of_nat (le_nat bs)"
definition u32_from_le :: "bytes \<Rightarrow> u32" where "u32_from_le bs = of_nat (le_nat bs)"
definition u64_from_le :: "bytes \<Rightarrow> u64" where "u64_from_le bs = of_nat (le_nat bs)"

lemma length_to_le [simp]:
  "length (u16_to_le a) = 2" "length (u32_to_le b) = 4" "length (u64_to_le c) = 8"
  by (simp_all add: u16_to_le_def u32_to_le_def u64_to_le_def)

lemma to_le_not_Nil [simp]: "u16_to_le a \<noteq> []" "u32_to_le b \<noteq> []" "u64_to_le c \<noteq> []"
  by (metis length_to_le list.size(3) zero_neq_numeral)+

lemma from_to_le [simp]:
  "u16_from_le (u16_to_le a) = a" "u32_from_le (u32_to_le b) = b" "u64_from_le (u64_to_le c) = c"
  using unsigned_less [of a, where ?'a = nat] unsigned_less [of b, where ?'a = nat]
    unsigned_less [of c, where ?'a = nat]
  by (simp_all add: u16_from_le_def u16_to_le_def u32_from_le_def u32_to_le_def u64_from_le_def
      u64_to_le_def le_nat_le_bytes)

lemma to_from_le16: "length bs = 2 \<Longrightarrow> u16_to_le (u16_from_le bs) = bs"
  using le_bytes_le_nat [of bs] le_nat_less [of bs]
  by (simp add: u16_from_le_def u16_to_le_def unat_of_nat take_bit_eq_mod)

lemma to_from_le32: "length bs = 4 \<Longrightarrow> u32_to_le (u32_from_le bs) = bs"
  using le_bytes_le_nat [of bs] le_nat_less [of bs]
  by (simp add: u32_from_le_def u32_to_le_def unat_of_nat take_bit_eq_mod)

lemma to_from_le64: "length bs = 8 \<Longrightarrow> u64_to_le (u64_from_le bs) = bs"
  using le_bytes_le_nat [of bs] le_nat_less [of bs]
  by (simp add: u64_from_le_def u64_to_le_def unat_of_nat take_bit_eq_mod)

lemma to_le_inject [simp]:
  "u16_to_le a = u16_to_le a' \<longleftrightarrow> a = a'"
  "u32_to_le b = u32_to_le b' \<longleftrightarrow> b = b'"
  "u64_to_le c = u64_to_le c' \<longleftrightarrow> c = c'"
  by (metis from_to_le(1)) (metis from_to_le(2), metis from_to_le(3))

subsection \<open>Decimal and hexadecimal text\<close>

text \<open>
  Rust strings are UTF-8 byte sequences; a HOL \<open>char\<close> is one byte, so a Rust string is a HOL
  \<open>string\<close> of its bytes.
\<close>

definition digit_char :: "nat \<Rightarrow> char" where
  "digit_char d = char_of (if d < 10 then 48 + d else 87 + d)"

fun dec_string :: "nat \<Rightarrow> string" where
  "dec_string n = (if n < 10 then [digit_char n] else dec_string (n div 10) @ [digit_char (n mod 10)])"

declare dec_string.simps [simp del]

primrec hex_digits :: "nat \<Rightarrow> nat \<Rightarrow> string" where
  "hex_digits 0 k = []"
| "hex_digits (Suc n) k = hex_digits n (k div 16) @ [digit_char (k mod 16)]"

definition digit_val :: "char \<Rightarrow> nat option" where
  "digit_val c = (let k = of_char c in if 48 \<le> k \<and> k < 58 then Some (k - 48) else None)"

fun digits_val :: "nat \<Rightarrow> string \<Rightarrow> nat option" where
  "digits_val acc [] = Some acc"
| "digits_val acc (c # cs) =
     (case digit_val c of None \<Rightarrow> None | Some d \<Rightarrow> digits_val (10 * acc + d) cs)"

text \<open>Rust's \<open>str::parse\<close> of an unsigned integer type with values below \<open>bound\<close>.\<close>

definition parse_unsigned :: "nat \<Rightarrow> string \<Rightarrow> nat option" where
  "parse_unsigned bound s =
     (let ds = (case s of [] \<Rightarrow> [] | c # cs \<Rightarrow> if c = CHR ''+'' then cs else s) in
      if ds = [] then None
      else (case digits_val 0 ds of
              None \<Rightarrow> None
            | Some n \<Rightarrow> if n < bound then Some n else None))"

lemma of_char_digit_char [simp]: "d < 16 \<Longrightarrow> of_char (digit_char d) = (if d < 10 then 48 + d else 87 + d)"
  by (simp add: digit_char_def)

lemma digit_val_digit_char [simp]: "d < 10 \<Longrightarrow> digit_val (digit_char d) = Some d"
  by (simp add: digit_val_def)

lemma digits_val_append:
  "digits_val acc (xs @ ys) = (case digits_val acc xs of None \<Rightarrow> None | Some a \<Rightarrow> digits_val a ys)"
  by (induction acc xs rule: digits_val.induct) (auto split: option.splits)

lemma digits_val_zeros: "digits_val 0 (replicate n (CHR ''0'') @ s) = digits_val 0 s"
  by (induction n) (simp_all add: digit_val_def)

lemma digits_val_dec_string: "digits_val 0 (dec_string n) = Some n"
proof (induction n rule: dec_string.induct)
  case (1 n)
  show ?case
  proof (cases "n < 10")
    case True
    then show ?thesis by (simp add: dec_string.simps)
  next
    case False
    with 1 show ?thesis by (subst dec_string.simps) (simp add: digits_val_append)
  qed
qed

lemma digit_char_not_plus: "d < 10 \<Longrightarrow> digit_char d \<noteq> CHR ''+''"
proof
  assume d: "d < 10" and eq: "digit_char d = CHR ''+''"
  have "(of_char (digit_char d) :: nat) = of_char CHR ''+''"
    by (simp add: eq)
  with d show False by simp
qed

lemma dec_string_not_Nil [simp]: "dec_string n \<noteq> []"
  by (subst dec_string.simps) simp

lemma dec_string_digits: "\<forall>c \<in> set (dec_string n). \<exists>d < 10. c = digit_char d"
proof (induction n rule: dec_string.induct)
  case (1 n)
  show ?case
  proof (cases "n < 10")
    case True
    then show ?thesis by (subst dec_string.simps) auto
  next
    case False
    have "n mod 10 < 10" by simp
    then have "\<exists>d < 10. digit_char (n mod 10) = digit_char d" by blast
    with False 1 show ?thesis by (subst dec_string.simps) auto
  qed
qed

lemma parse_dec_string: "parse_unsigned bound (dec_string n) = (if n < bound then Some n else None)"
proof -
  obtain c cs where eq: "dec_string n = c # cs"
    by (cases "dec_string n") auto
  have "c \<noteq> CHR ''+''"
    using dec_string_digits [of n] digit_char_not_plus by (auto simp: eq)
  then show ?thesis
    using digits_val_dec_string [of n] by (simp add: parse_unsigned_def eq)
qed

lemma length_hex_digits [simp]: "length (hex_digits n k) = n"
  by (induction n arbitrary: k) auto

lemma digit_char_inject: "a < 16 \<Longrightarrow> b < 16 \<Longrightarrow> digit_char a = digit_char b \<longleftrightarrow> a = b"
proof
  assume ab: "a < 16" "b < 16" and "digit_char a = digit_char b"
  then have "(of_char (digit_char a) :: nat) = of_char (digit_char b)"
    by simp
  with ab show "a = b" by (simp split: if_splits)
qed simp

lemma hex_digits_inject: "hex_digits n a = hex_digits n b \<longleftrightarrow> a mod 16 ^ n = b mod 16 ^ n"
proof (induction n arbitrary: a b)
  case (Suc n)
  have split16: "x mod 16 ^ Suc n = 16 * ((x div 16) mod 16 ^ n) + x mod 16" for x :: nat
    by (simp add: mod_mult2_eq)
  have cancel: "16 * p + r = 16 * q + s \<longleftrightarrow> p = q \<and> r = s" if "r < 16" "s < 16" for p q r s :: nat
    using that by presburger
  show ?case
    unfolding split16 by (simp add: cancel Suc.IH digit_char_inject)
qed simp

subsection \<open>Splitting text\<close>

text \<open>Rust's \<open>str::split\<close> on a character: never empty, one part more than separators.\<close>

fun split_on :: "char \<Rightarrow> string \<Rightarrow> string list" where
  "split_on sep [] = [[]]"
| "split_on sep (c # cs) =
     (if c = sep then [] # split_on sep cs
      else (c # hd (split_on sep cs)) # tl (split_on sep cs))"

lemma split_on_not_Nil [simp]: "split_on sep s \<noteq> []"
  by (cases s) auto

lemma split_on_absent: "sep \<notin> set s \<Longrightarrow> split_on sep s = [s]"
  by (induction s) auto

lemma split_on_append: "sep \<notin> set s \<Longrightarrow> split_on sep (s @ sep # t) = s # split_on sep t"
  by (induction s) auto

subsection \<open>Lists\<close>

text \<open>The first position whose element satisfies \<open>P\<close>: Rust's \<open>Iterator::position\<close>.\<close>

fun position :: "('a \<Rightarrow> bool) \<Rightarrow> 'a list \<Rightarrow> nat option" where
  "position P [] = None"
| "position P (x # xs) = (if P x then Some 0 else map_option Suc (position P xs))"

definition list_remove :: "nat \<Rightarrow> 'a list \<Rightarrow> 'a list" where
  "list_remove i xs = take i xs @ drop (Suc i) xs"

definition list_insert :: "nat \<Rightarrow> 'a \<Rightarrow> 'a list \<Rightarrow> 'a list" where
  "list_insert i x xs = take i xs @ x # drop i xs"

lemma position_None: "position P xs = None \<longleftrightarrow> (\<forall>x \<in> set xs. \<not> P x)"
  by (induction xs) auto

lemma position_Some:
  "position P xs = Some i \<longleftrightarrow> i < length xs \<and> P (xs ! i) \<and> (\<forall>j < i. \<not> P (xs ! j))"
proof (induction xs arbitrary: i)
  case (Cons x xs)
  then show ?case by (cases i) (auto simp: less_Suc_eq_0_disj)
qed simp

lemma position_SomeE:
  assumes "position P xs = Some i"
  obtains ys x zs where "xs = ys @ x # zs" "length ys = i" "xs ! i = x" "P x" "\<forall>y \<in> set ys. \<not> P y"
    "list_remove i xs = ys @ zs"
proof -
  from assms have i: "i < length xs" and P: "P (xs ! i)" and "\<forall>j < i. \<not> P (xs ! j)"
    by (auto simp: position_Some)
  then have "\<forall>y \<in> set (take i xs). \<not> P y" by (auto simp: in_set_conv_nth)
  with i P show thesis
    by (intro that [of "take i xs" "xs ! i" "drop (Suc i) xs"])
      (auto simp: list_remove_def id_take_nth_drop [symmetric])
qed

lemma position_append_None: "\<forall>y \<in> set ys. \<not> P y \<Longrightarrow>
    position P (ys @ zs) = map_option (\<lambda>i. i + length ys) (position P zs)"
  by (induction ys) (auto simp: option.map_comp comp_def option.map_ident)

lemma takeWhile_split: "takeWhile P xs @ dropWhile P xs = xs"
  by simp

subsection \<open>Sorted lists\<close>

text \<open>In an ordered list, a property closed towards the front holds on a prefix.\<close>

lemma takeWhile_eq_filter_sorted:
  assumes "sorted_wrt r xs" "\<And>x y. x \<in> set xs \<Longrightarrow> y \<in> set xs \<Longrightarrow> r x y \<Longrightarrow> Q y \<Longrightarrow> Q x"
  shows "takeWhile Q xs = filter Q xs"
  using assms
proof (induction xs)
  case (Cons x xs)
  show ?case
  proof (cases "Q x")
    case True
    have "takeWhile Q xs = filter Q xs"
    proof (rule Cons.IH)
      show "sorted_wrt r xs" using Cons.prems(1) by simp
      show "Q a" if "a \<in> set xs" "b \<in> set xs" "r a b" "Q b" for a b
        by (rule Cons.prems(2) [of a b]) (use that in simp_all)
    qed
    with True show ?thesis by simp
  next
    case False
    with Cons.prems have "\<forall>y \<in> set xs. \<not> Q y" by auto
    with False show ?thesis by simp
  qed
qed simp

text \<open>A list strictly ordered by a key is determined by its elements.\<close>

lemma sorted_by_key_unique:
  fixes f :: "'a \<Rightarrow> 'b::linorder"
  assumes "sorted_wrt (<) (map f xs)" "sorted_wrt (<) (map f ys)" "set xs = set ys"
  shows "xs = ys"
proof (rule map_inj_on)
  show "map f xs = map f ys"
    using assms by (intro sorted_distinct_set_unique) (auto simp: strict_sorted_iff)
  have "inj_on f (set xs)" using assms(1) by (simp add: strict_sorted_iff distinct_map)
  then show "inj_on f (set xs \<union> set ys)" using assms(3) by simp
qed

end
