(* ===== verification/Utf8.thy ===== *)
theory Utf8
  imports Prelude
begin

text \<open>
  Rust strings as byte sequences: \<open>as_bytes\<close>, the validation of \<open>String::from_utf8\<close> and the
  replacement of ill-formed parts by \<open>OsStr::to_string_lossy\<close>, both by the standard library's
  scan (the code uses them for every string of a database row).  A path is the byte string of
  its operating-system representation, not always valid UTF-8.
\<close>

definition as_bytes :: "string \<Rightarrow> bytes" where
  "as_bytes s = map (\<lambda>c. of_nat (of_char c)) s"

definition of_bytes :: "bytes \<Rightarrow> string" where
  "of_bytes bs = map (\<lambda>b. char_of (unat b)) bs"

lemma of_bytes_as_bytes [simp]: "of_bytes (as_bytes s) = s"
proof -
  have "char_of (unat (of_nat (of_char c) :: u8)) = c" for c :: char
    using of_char_mod_256 [of c, where ?'a = nat] by (simp add: unat_of_nat_byte)
  then show ?thesis by (simp add: of_bytes_def as_bytes_def comp_def)
qed

lemma length_as_bytes [simp]: "length (as_bytes s) = length s"
  by (simp add: as_bytes_def)

lemma as_bytes_inject [simp]: "as_bytes s = as_bytes t \<longleftrightarrow> s = t"
  by (metis of_bytes_as_bytes)

subsection \<open>The scan of one encoded character\<close>

definition utf8_cont :: "nat \<Rightarrow> bool" where
  "utf8_cont b \<longleftrightarrow> 128 \<le> b \<and> b < 192"

definition utf8_get :: "string \<Rightarrow> nat \<Rightarrow> nat" where
  "utf8_get s i = (if i < length s then of_char (s ! i) else 0)"

definition utf8_second :: "nat \<Rightarrow> nat \<Rightarrow> bool" where
  "utf8_second b c \<longleftrightarrow>
     (if b = 0xE0 then 0xA0 \<le> c \<and> c \<le> 0xBF
      else if b = 0xED then 0x80 \<le> c \<and> c \<le> 0x9F
      else if b = 0xF0 then 0x90 \<le> c \<and> c \<le> 0xBF
      else if b = 0xF4 then 0x80 \<le> c \<and> c \<le> 0x8F
      else utf8_cont c)"

text \<open>
  For the first byte \<open>b\<close> of a character and the bytes after it: whether the character is well
  formed, and how many bytes after \<open>b\<close> belong to it (or to the ill-formed part).
\<close>

definition utf8_more :: "nat \<Rightarrow> string \<Rightarrow> bool \<times> nat" where
  "utf8_more b s =
     (if b < 0x80 then (True, 0)
      else if 0xC2 \<le> b \<and> b \<le> 0xDF then
        (if utf8_cont (utf8_get s 0) then (True, 1) else (False, 0))
      else if 0xE0 \<le> b \<and> b \<le> 0xEF then
        (if \<not> utf8_second b (utf8_get s 0) then (False, 0)
         else if \<not> utf8_cont (utf8_get s 1) then (False, 1) else (True, 2))
      else if 0xF0 \<le> b \<and> b \<le> 0xF4 then
        (if \<not> utf8_second b (utf8_get s 0) then (False, 0)
         else if \<not> utf8_cont (utf8_get s 1) then (False, 1)
         else if \<not> utf8_cont (utf8_get s 2) then (False, 2) else (True, 3))
      else (False, 0))"

function utf8_valid :: "string \<Rightarrow> bool" where
  "utf8_valid [] = True"
| "utf8_valid (c # s) =
     (fst (utf8_more (of_char c) s) \<and> utf8_valid (drop (snd (utf8_more (of_char c) s)) s))"
  by pat_completeness auto
termination
  by (relation "measure length") auto

definition utf8_replacement :: string where
  "utf8_replacement = [CHR 0xEF, CHR 0xBF, CHR 0xBD]"

function to_string_lossy :: "string \<Rightarrow> string" where
  "to_string_lossy [] = []"
| "to_string_lossy (c # s) =
     (if fst (utf8_more (of_char c) s)
      then c # take (snd (utf8_more (of_char c) s)) s else utf8_replacement)
     @ to_string_lossy (drop (snd (utf8_more (of_char c) s)) s)"
  by pat_completeness auto
termination
  by (relation "measure length") auto

declare utf8_valid.simps(2) [simp del] to_string_lossy.simps(2) [simp del]

text \<open>
  The text of the \<open>Utf8Error\<close> at the first ill-formed part: a character cut off by the end of
  the input is incomplete, any other is invalid with its length.
\<close>

definition utf8_error_text :: "nat \<Rightarrow> nat \<Rightarrow> nat \<Rightarrow> nat \<Rightarrow> string" where
  "utf8_error_text i b m avail =
     (if 0xC2 \<le> b \<and> b \<le> 0xF4 \<and> avail \<le> m
      then ''incomplete utf-8 byte sequence from index '' @ dec_string i
      else ''invalid utf-8 sequence of '' @ dec_string (Suc m) @ '' bytes from index '' @ dec_string i)"

function utf8_error :: "nat \<Rightarrow> string \<Rightarrow> string option" where
  "utf8_error i [] = None"
| "utf8_error i (c # s) =
     (let (ok, m) = utf8_more (of_char c) s in
      if ok then utf8_error (Suc (i + m)) (drop m s)
      else Some (utf8_error_text i (of_char c) m (length s)))"
  by pat_completeness auto
termination
  by (relation "measure (\<lambda>(i, s). length s)") auto

declare utf8_error.simps(2) [simp del]

definition from_utf8 :: "bytes \<Rightarrow> string + string" where
  "from_utf8 bs = (case utf8_error 0 (of_bytes bs) of None \<Rightarrow> Inr (of_bytes bs) | Some e \<Rightarrow> Inl e)"

lemma utf8_error_None: "utf8_error i s = None \<longleftrightarrow> utf8_valid s"
proof (induction i s rule: utf8_error.induct)
  case (2 i c s)
  obtain ok m where m: "utf8_more (of_char c) s = (ok, m)"
    by (cases "utf8_more (of_char c) s")
  with "2.IH" [OF m [symmetric] refl] show ?case
    by (cases ok) (simp_all add: utf8_error.simps(2) utf8_valid.simps(2))
qed simp

lemma utf8_cont_get: "utf8_cont (utf8_get s i) \<Longrightarrow> Suc i \<le> length s"
  by (auto simp: utf8_cont_def utf8_get_def split: if_splits)

lemma utf8_second_get: "utf8_second b (utf8_get s 0) \<Longrightarrow> Suc 0 \<le> length s"
  by (cases s) (auto simp: utf8_second_def utf8_cont_def utf8_get_def split: if_splits)

lemma utf8_get_take: "i < m \<Longrightarrow> i < length s \<Longrightarrow> utf8_get (take m s @ t) i = utf8_get s i"
  by (auto simp: utf8_get_def nth_append)

lemma utf8_more_True:
  assumes "utf8_more b s = (True, m)"
  shows utf8_more_length: "m \<le> length s"
    and utf8_more_take: "utf8_more b (take m s @ t) = (True, m)"
proof -
  show len: "m \<le> length s"
    using assms utf8_second_get [of b s] utf8_cont_get [of s 0] utf8_cont_get [of s 1]
      utf8_cont_get [of s 2]
    by (auto simp: utf8_more_def split: if_splits)
  have "utf8_get (take m s @ t) i = utf8_get s i" if "i < m" for i
    using that len by (intro utf8_get_take) auto
  with assms show "utf8_more b (take m s @ t) = (True, m)"
    by (auto simp: utf8_more_def split: if_splits)
qed

lemma to_string_lossy_valid: "utf8_valid s \<Longrightarrow> to_string_lossy s = s"
proof (induction s rule: utf8_valid.induct)
  case (2 c s)
  then show ?case by (simp add: utf8_valid.simps(2) to_string_lossy.simps(2))
qed simp

lemma utf8_valid_step:
  "utf8_more (of_char c) s = (True, m) \<Longrightarrow> utf8_valid t \<Longrightarrow> utf8_valid (c # take m s @ t)"
  using utf8_more_take [of "of_char c" s m t] utf8_more_length [of "of_char c" s m]
  by (simp add: utf8_valid.simps(2))

lemma utf8_valid_append: "utf8_valid s \<Longrightarrow> utf8_valid t \<Longrightarrow> utf8_valid (s @ t)"
proof (induction s rule: utf8_valid.induct)
  case (2 c s)
  obtain m where m: "utf8_more (of_char c) s = (True, m)"
    using 2 by (cases "utf8_more (of_char c) s") (simp add: utf8_valid.simps(2))
  with 2 have "utf8_valid (drop m s @ t)"
    by (simp add: utf8_valid.simps(2))
  with m have "utf8_valid (c # take m s @ drop m s @ t)"
    by (rule utf8_valid_step)
  then show ?case by (metis append_Cons append_assoc append_take_drop_id)
qed simp

lemma utf8_valid_replacement: "utf8_valid utf8_replacement"
  by (simp add: utf8_replacement_def utf8_valid.simps(2) utf8_more_def utf8_second_def
      utf8_cont_def utf8_get_def)

lemma utf8_valid_to_string_lossy: "utf8_valid (to_string_lossy s)"
proof (induction s rule: to_string_lossy.induct)
  case (2 c s)
  show ?case
  proof (cases "utf8_more (of_char c) s")
    case (Pair ok m)
    with 2 utf8_valid_step [of c s m] show ?thesis
      by (cases ok) (auto simp: to_string_lossy.simps(2)
          intro!: utf8_valid_append utf8_valid_replacement)
  qed
qed simp

lemma utf8_valid_ascii: "\<forall>c \<in> set s. (of_char c :: nat) < 128 \<Longrightarrow> utf8_valid s"
  by (induction s) (auto simp: utf8_valid.simps(2) utf8_more_def)

lemma utf8_valid_dec_string: "utf8_valid (dec_string n)"
  using dec_string_digits [of n] by (intro utf8_valid_ascii) auto

lemma from_utf8_eq_Inr: "from_utf8 bs = Inr s \<longleftrightarrow> s = of_bytes bs \<and> utf8_valid s"
  by (auto simp: from_utf8_def utf8_error_None [of 0, symmetric] split: option.splits)

lemma from_utf8_as_bytes [simp]: "utf8_valid s \<Longrightarrow> from_utf8 (as_bytes s) = Inr s"
  by (simp add: from_utf8_eq_Inr)

end
