(* ===== verification/Errors.thy ===== *)
theory Errors
  imports Utf8
begin

text \<open>
  The engine's error type (\<open>tpt-av-asset-utils/src/error.rs\<close>): its constructors, the shorthand
  constructors of the code, its \<open>Display\<close> text and the conversion from \<open>std::io::Error\<close>.
\<close>

datatype io_kind = NotFoundKind | UnexpectedEofKind | OtherKind

datatype io_error = IoError (io_error_kind: io_kind) (io_error_text: string)

datatype asset_error =
    Io io_error
  | Db string
  | Codec string
  | Validation string
  | UnsupportedFormat string
  | NotFound string
  | Cancelled
  | JobNotFound u64
  | ChannelClosed

definition validation :: "string \<Rightarrow> asset_error" where "validation msg = Validation msg"
definition db :: "string \<Rightarrow> asset_error" where "db msg = Db msg"
definition codec :: "string \<Rightarrow> asset_error" where "codec msg = Codec msg"

definition path_display :: "string \<Rightarrow> string" where "path_display p = to_string_lossy p"

fun error_display :: "asset_error \<Rightarrow> string" where
  "error_display (Io e) = ''I/O error: '' @ io_error_text e"
| "error_display (Db msg) = ''database error: '' @ msg"
| "error_display (Codec msg) = ''codec error: '' @ msg"
| "error_display (Validation msg) = ''validation error: '' @ msg"
| "error_display (UnsupportedFormat p) = ''unsupported media format: '' @ path_display p"
| "error_display (NotFound p) = ''not found: '' @ path_display p"
| "error_display Cancelled = ''operation cancelled''"
| "error_display (JobNotFound i) = ''unknown job id '' @ dec_string (unat i)"
| "error_display ChannelClosed = ''channel closed''"

fun error_source :: "asset_error \<Rightarrow> io_error option" where
  "error_source (Io e) = Some e"
| "error_source _ = None"

definition from_io_error :: "io_error \<Rightarrow> asset_error" where "from_io_error e = Io e"

text \<open>The question-mark operator on an I/O result.\<close>

definition io_try :: "io_error + 'a \<Rightarrow> asset_error + 'a" where
  "io_try r = map_err from_io_error r"

lemma io_try_simps [simp]: "io_try (Inr x) = Inr x" "io_try (Inl e) = Inl (Io e)"
  by (simp_all add: io_try_def from_io_error_def)

lemma io_try_eq_Inr [result_simps]: "io_try r = Inr x \<longleftrightarrow> r = Inr x"
  by (cases r) auto

lemma io_try_eq_Inl [result_simps]: "io_try r = Inl e \<longleftrightarrow> (\<exists>e'. r = Inl e' \<and> e = Io e')"
  by (cases r) auto

end
