(* ===== verification/AssetIds.thy ===== *)
theory AssetIds
  imports Errors
begin

text \<open>
  Asset identifiers (\<open>tpt-av-asset-utils/src/asset_id.rs\<close>): the FNV-1a path hash, the combined
  hash that names cache files, the 24-byte database key and its inverse, and the identifier of
  a file.  The file system's answers to \<open>metadata\<close>, \<open>modified\<close> and \<open>canonicalize\<close> are the
  record \<open>os_files\<close>; a modification time is in nanoseconds since the Unix epoch.
\<close>

unbundle bit_operations_syntax

definition FNV_OFFSET :: u64 where "FNV_OFFSET = 0xcbf29ce484222325"
definition FNV_PRIME :: u64 where "FNV_PRIME = 0x100000001b3"

record asset_id =
  path_hash :: u64
  mtime_ms :: u64
  id_size :: u64

definition from_parts :: "u64 \<Rightarrow> u64 \<Rightarrow> u64 \<Rightarrow> asset_id" where
  "from_parts ph mt sz = \<lparr>path_hash = ph, mtime_ms = mt, id_size = sz\<rparr>"

definition hash :: "asset_id \<Rightarrow> u64" where
  "hash i =
     (let h = path_hash i;
          h = (h * 0x9E3779B97F4A7C15) XOR (mtime_ms i * 0xFF51AFD7ED558CCD);
          h = (h * 0x9E3779B97F4A7C15) XOR (id_size i * 0xC4CEB9FE1A85EC53);
          h = h XOR drop_bit 33 h;
          h = h * 0xFF51AFD7ED558CCD;
          h = h XOR drop_bit 33 h
      in h)"

definition key_bytes :: "asset_id \<Rightarrow> bytes" where
  "key_bytes i = u64_to_le (path_hash i) @ u64_to_le (mtime_ms i) @ u64_to_le (id_size i)"

definition from_key_bytes :: "bytes \<Rightarrow> asset_error + asset_id" where
  "from_key_bytes bs =
     (if length bs \<noteq> 24
      then Inl (validation (''asset key must be 24 bytes, got '' @ dec_string (length bs)))
      else Inr \<lparr>path_hash = u64_from_le (take 8 bs),
                mtime_ms = u64_from_le (take 8 (drop 8 bs)),
                id_size = u64_from_le (take 8 (drop 16 bs))\<rparr>)"

definition fnv_step :: "u64 \<Rightarrow> u8 \<Rightarrow> u64" where
  "fnv_step h b = (h XOR ucast b) * FNV_PRIME"

definition hash_path :: "string \<Rightarrow> u64" where
  "hash_path p = foldl fnv_step FNV_OFFSET (as_bytes (to_string_lossy p))"

record file_meta =
  meta_modified :: "io_error + int"
  meta_len :: u64

record os_files =
  os_metadata :: "string \<Rightarrow> io_error + file_meta"
  os_canonicalize :: "string \<Rightarrow> io_error + string"

definition canonical_or_self :: "os_files \<Rightarrow> string \<Rightarrow> string" where
  "canonical_or_self os p = (case os_canonicalize os p of Inl _ \<Rightarrow> p | Inr c \<Rightarrow> c)"

definition from_path :: "os_files \<Rightarrow> string \<Rightarrow> asset_error + asset_id" where
  "from_path os p =
     rbind (io_try (os_metadata os p)) (\<lambda>meta.
     rbind (io_try (meta_modified meta)) (\<lambda>mtime.
     rbind (if mtime < 0 then Inl (validation ''mtime before the Unix epoch'')
            else Inr (of_nat (nat mtime div 1000000))) (\<lambda>mtime_millis.
     Inr \<lparr>path_hash = hash_path (canonical_or_self os p),
          mtime_ms = mtime_millis, id_size = meta_len meta\<rparr>)))"

subsection \<open>The combined hash\<close>

lemma odd_mult_cancel:
  fixes a b c inv :: u64
  assumes "c * inv = 1"
  shows "a * c = b * c \<longleftrightarrow> a = b"
proof
  assume "a * c = b * c"
  then have "a * (c * inv) = b * (c * inv)" by (simp only: mult.assoc [symmetric])
  with assms show "a = b" by simp
qed simp

lemma xorshift33_inject: "(a :: u64) XOR drop_bit 33 a = b XOR drop_bit 33 b \<longleftrightarrow> a = b"
proof
  have undo: "(x XOR drop_bit 33 x) XOR drop_bit 33 (x XOR drop_bit 33 x) = x" for x :: u64
    by (rule bit_word_eqI) (auto simp: bit_xor_iff bit_drop_bit_eq dest: bit_imp_le_length)
  assume "a XOR drop_bit 33 a = b XOR drop_bit 33 b"
  then show "a = b" using undo [of a] undo [of b] by metis
qed simp

lemma xor_cancel [simp]:
  "(a :: 'a::len word) XOR b = a XOR c \<longleftrightarrow> b = c"
  "(b :: 'a::len word) XOR a = c XOR a \<longleftrightarrow> b = c"
  by (metis xor.assoc xor.left_neutral xor_self_eq) (metis xor.assoc xor.right_neutral xor_self_eq)

lemma mult_inject_phi: "(a :: u64) * 0x9E3779B97F4A7C15 = b * 0x9E3779B97F4A7C15 \<longleftrightarrow> a = b"
  by (rule odd_mult_cancel [where inv = "0xF1DE83E19937733D"]) simp

lemma mult_inject_fmix1: "(a :: u64) * 0xFF51AFD7ED558CCD = b * 0xFF51AFD7ED558CCD \<longleftrightarrow> a = b"
  by (rule odd_mult_cancel [where inv = "0x4F74430C22A54005"]) simp

lemma mult_inject_fmix2: "(a :: u64) * 0xC4CEB9FE1A85EC53 = b * 0xC4CEB9FE1A85EC53 \<longleftrightarrow> a = b"
  by (rule odd_mult_cancel [where inv = "0x9CB4B2F8129337DB"]) simp

lemma mult_inject_fnv: "(a :: u64) * FNV_PRIME = b * FNV_PRIME \<longleftrightarrow> a = b"
  by (rule odd_mult_cancel [where inv = "0xCE965057AFF6957B"]) (simp add: FNV_PRIME_def)

lemmas hash_inject = xorshift33_inject mult_inject_phi mult_inject_fmix1 mult_inject_fmix2

text \<open>The state before the final mixing decides the hash.\<close>

lemma hash_eq_iff:
  "hash i = hash j \<longleftrightarrow>
     ((path_hash i * 0x9E3779B97F4A7C15) XOR (mtime_ms i * 0xFF51AFD7ED558CCD)) * 0x9E3779B97F4A7C15
       XOR (id_size i * 0xC4CEB9FE1A85EC53) =
     ((path_hash j * 0x9E3779B97F4A7C15) XOR (mtime_ms j * 0xFF51AFD7ED558CCD)) * 0x9E3779B97F4A7C15
       XOR (id_size j * 0xC4CEB9FE1A85EC53)"
  unfolding hash_def Let_def by (simp only: hash_inject)

lemma fnv_step_inject_state: "fnv_step h b = fnv_step h' b \<longleftrightarrow> h = h'"
  by (simp add: fnv_step_def mult_inject_fnv)

lemma fnv_step_inject_byte: "fnv_step h b = fnv_step h c \<longleftrightarrow> b = c"
proof
  assume "fnv_step h b = fnv_step h c"
  then have "(ucast b :: u64) = ucast c" by (simp add: fnv_step_def mult_inject_fnv)
  then have "(ucast (ucast b :: u64) :: u8) = ucast (ucast c :: u64)" by simp
  moreover have "(ucast (ucast x :: u64) :: u8) = x" for x :: u8
    by (rule bit_word_eqI) (simp add: bit_unsigned_iff)
  ultimately show "b = c" by simp
qed simp

lemma fnv_foldl_inject: "foldl fnv_step h bs = foldl fnv_step h' bs \<longleftrightarrow> h = h'"
  by (induction bs arbitrary: h h') (auto simp: fnv_step_inject_state)

subsection \<open>Database keys\<close>

lemma length_key_bytes [simp]: "length (key_bytes i) = 24"
  by (simp add: key_bytes_def)

lemma key_bytes_inject [simp]: "key_bytes i = key_bytes j \<longleftrightarrow> i = j"
  by (auto simp: key_bytes_def)

lemma from_key_bytes_key_bytes [simp]: "from_key_bytes (key_bytes i) = Inr i"
  by (simp add: from_key_bytes_def key_bytes_def)

lemma key_bytes_from_key_bytes: "from_key_bytes bs = Inr i \<Longrightarrow> key_bytes i = bs"
proof -
  assume h: "from_key_bytes bs = Inr i"
  then have len: "length bs = 24" by (simp add: from_key_bytes_def split: if_splits)
  have "take 8 (drop 16 bs) = drop 16 bs" by (simp add: len)
  moreover have "take 8 (drop 8 bs) @ drop 16 bs = drop 8 bs"
    by (metis append_take_drop_id drop_drop numeral_Bit0 numeral_plus_numeral add_num_simps)
  ultimately show ?thesis
    using h len by (auto simp: from_key_bytes_def key_bytes_def to_from_le64)
qed

end
