(* ===== verification/Floats.thy ===== *)
theory Floats
  imports Prelude
begin

text \<open>
  IEEE binary floating point as the Rust code uses it.  A float is its bit pattern (that is what
  \<open>to_le_bytes\<close> writes): a sign bit above a magnitude, and for numbers the order of the
  magnitudes is the order of the absolute values.  Comparisons, \<open>max\<close>, \<open>min\<close> and \<open>clamp\<close> work on
  a signed integer key; arithmetic computes the exact quotient of two natural numbers and rounds
  it to nearest, ties to even.  The two formats are the parameters \<open>mb\<close> (fraction bits) and \<open>eb\<close>
  (exponent bits): 52 and 11 for \<open>f64\<close>, 23 and 8 for \<open>f32\<close>.
\<close>

type_synonym f64 = u64
type_synonym f32 = u32

subsection \<open>Rounding, for any format\<close>

text \<open>
  \<open>fp_scaled mb m\<close> is the value of the finite magnitude \<open>m\<close> as a multiple of the smallest
  subnormal; \<open>fp_round_mag mb p q\<close> is the magnitude nearest to \<open>p / q\<close> such multiples.
\<close>

definition fp_scaled :: "nat \<Rightarrow> nat \<Rightarrow> nat" where
  "fp_scaled mb m =
     (if m div 2 ^ mb = 0 then m else (2 ^ mb + m mod 2 ^ mb) * 2 ^ (m div 2 ^ mb - 1))"

fun bit_length :: "nat \<Rightarrow> nat" where
  "bit_length n = (if n = 0 then 0 else Suc (bit_length (n div 2)))"

declare bit_length.simps [simp del]

definition round_half_even :: "nat \<Rightarrow> nat \<Rightarrow> nat" where
  "round_half_even p q =
     (let m = p div q; r = p mod q in
      if 2 * r < q then m else if q < 2 * r then Suc m else if even m then m else Suc m)"

definition fp_round_mag :: "nat \<Rightarrow> nat \<Rightarrow> nat \<Rightarrow> nat" where
  "fp_round_mag mb p q =
     (let k = bit_length (p div q) - Suc mb in k * 2 ^ mb + round_half_even p (q * 2 ^ k))"

definition fp_inf :: "nat \<Rightarrow> nat \<Rightarrow> nat" where
  "fp_inf mb eb = (2 ^ eb - 1) * 2 ^ mb"

subsection \<open>Double precision: bits, order\<close>

definition f64_neg :: "f64 \<Rightarrow> bool" where "f64_neg x \<longleftrightarrow> 2 ^ 63 \<le> unat x"
definition f64_mag :: "f64 \<Rightarrow> nat" where "f64_mag x = unat x mod 2 ^ 63"
definition f64_make :: "bool \<Rightarrow> nat \<Rightarrow> f64" where
  "f64_make neg m = of_nat (if neg then 2 ^ 63 + m else m)"
definition f64_inf :: nat where "f64_inf = fp_inf 52 11"
definition f64_nan :: f64 where "f64_nan = 0x7FF8000000000000"
definition f64_zero :: f64 where "f64_zero = 0"
definition f64_one :: f64 where "f64_one = 0x3FF0000000000000"

definition f64_is_nan :: "f64 \<Rightarrow> bool" where "f64_is_nan x \<longleftrightarrow> f64_inf < f64_mag x"
definition f64_is_finite :: "f64 \<Rightarrow> bool" where "f64_is_finite x \<longleftrightarrow> f64_mag x < f64_inf"

definition f64_key :: "f64 \<Rightarrow> int" where
  "f64_key x = (if f64_neg x then - int (f64_mag x) else int (f64_mag x))"

definition f64_lt :: "f64 \<Rightarrow> f64 \<Rightarrow> bool" where
  "f64_lt a b \<longleftrightarrow> \<not> f64_is_nan a \<and> \<not> f64_is_nan b \<and> f64_key a < f64_key b"

definition f64_le :: "f64 \<Rightarrow> f64 \<Rightarrow> bool" where
  "f64_le a b \<longleftrightarrow> \<not> f64_is_nan a \<and> \<not> f64_is_nan b \<and> f64_key a \<le> f64_key b"

definition f64_eq :: "f64 \<Rightarrow> f64 \<Rightarrow> bool" where
  "f64_eq a b \<longleftrightarrow> \<not> f64_is_nan a \<and> \<not> f64_is_nan b \<and> f64_key a = f64_key b"

definition f64_max :: "f64 \<Rightarrow> f64 \<Rightarrow> f64" where
  "f64_max a b = (if f64_is_nan a then b else if f64_is_nan b then a else if f64_lt a b then b else a)"

definition f64_min :: "f64 \<Rightarrow> f64 \<Rightarrow> f64" where
  "f64_min a b = (if f64_is_nan a then b else if f64_is_nan b then a else if f64_lt b a then b else a)"

definition f64_clamp :: "f64 \<Rightarrow> f64 \<Rightarrow> f64 \<Rightarrow> f64" where
  "f64_clamp x lo hi =
     (let y = (if f64_lt x lo then lo else x) in if f64_lt hi y then hi else y)"

subsection \<open>Double precision: arithmetic\<close>

text \<open>One is \<open>f64_unit\<close> of the smallest subnormals.\<close>

definition f64_unit :: nat where "f64_unit = 2 ^ 1074"

lemma f64_unit_pos [simp]: "0 < f64_unit"
  by (simp add: f64_unit_def)

definition f64_pack :: "bool \<Rightarrow> nat \<Rightarrow> nat \<Rightarrow> f64" where
  "f64_pack neg p q = f64_make neg (min f64_inf (fp_round_mag 52 p q))"

definition f64_div :: "f64 \<Rightarrow> f64 \<Rightarrow> f64" where
  "f64_div a b =
     (let s = (f64_neg a \<noteq> f64_neg b); ma = f64_mag a; mb = f64_mag b in
      if f64_is_nan a \<or> f64_is_nan b then f64_nan
      else if ma = f64_inf then (if mb = f64_inf then f64_nan else f64_make s f64_inf)
      else if mb = f64_inf then f64_make s 0
      else if mb = 0 then (if ma = 0 then f64_nan else f64_make s f64_inf)
      else f64_pack s (fp_scaled 52 ma * f64_unit) (fp_scaled 52 mb))"

definition f64_mul :: "f64 \<Rightarrow> f64 \<Rightarrow> f64" where
  "f64_mul a b =
     (let s = (f64_neg a \<noteq> f64_neg b); ma = f64_mag a; mb = f64_mag b in
      if f64_is_nan a \<or> f64_is_nan b then f64_nan
      else if ma = f64_inf \<or> mb = f64_inf then
        (if ma = 0 \<or> mb = 0 then f64_nan else f64_make s f64_inf)
      else f64_pack s (fp_scaled 52 ma * fp_scaled 52 mb) f64_unit)"

definition f64_signed :: "f64 \<Rightarrow> int" where
  "f64_signed a = (if f64_neg a then - int (fp_scaled 52 (f64_mag a)) else int (fp_scaled 52 (f64_mag a)))"

definition f64_uminus :: "f64 \<Rightarrow> f64" where
  "f64_uminus a = f64_make (\<not> f64_neg a) (f64_mag a)"

definition f64_add :: "f64 \<Rightarrow> f64 \<Rightarrow> f64" where
  "f64_add a b =
     (if f64_is_nan a \<or> f64_is_nan b then f64_nan
      else if f64_mag a = f64_inf then
        (if f64_mag b = f64_inf \<and> f64_neg a \<noteq> f64_neg b then f64_nan else a)
      else if f64_mag b = f64_inf then b
      else (let v = f64_signed a + f64_signed b in
            if v = 0 then f64_make (f64_neg a \<and> f64_neg b) 0
            else f64_pack (v < 0) (nat \<bar>v\<bar>) 1))"

definition f64_sub :: "f64 \<Rightarrow> f64 \<Rightarrow> f64" where
  "f64_sub a b = f64_add a (f64_uminus b)"

text \<open>\<open>n as f64\<close> for an unsigned integer.\<close>

definition f64_of_nat :: "nat \<Rightarrow> f64" where
  "f64_of_nat n = f64_pack False (n * f64_unit) 1"

subsection \<open>Text\<close>

text \<open>
  Rust's \<open>Display\<close> of an \<open>f64\<close>: the shortest decimal that reads back as the same float, the
  nearest to its value among those, without an exponent.  \<open>f64_digits mag t\<close> looks for a
  multiple of \<open>10 ^ (t - 1100)\<close>, first at \<open>t\<close> and then at smaller ones; every finite float is a
  multiple of the last one.
\<close>

definition dec_unit :: nat where "dec_unit = 10 ^ 1100"

definition f64_reads_back :: "nat \<Rightarrow> nat \<Rightarrow> nat \<Rightarrow> bool" where
  "f64_reads_back mag t d \<longleftrightarrow> fp_round_mag 52 (d * 10 ^ t * f64_unit) dec_unit = mag"

definition f64_near :: "nat \<Rightarrow> nat \<Rightarrow> nat" where
  "f64_near mag t = round_half_even (fp_scaled 52 mag * dec_unit) (f64_unit * 10 ^ t)"

definition f64_far :: "nat \<Rightarrow> nat \<Rightarrow> nat" where
  "f64_far mag t =
     (let lo = fp_scaled 52 mag * dec_unit div (f64_unit * 10 ^ t)
      in if f64_near mag t = lo then Suc lo else lo)"

primrec f64_digits :: "nat \<Rightarrow> nat \<Rightarrow> nat \<times> nat" where
  "f64_digits mag 0 = (f64_near mag 0, 0)"
| "f64_digits mag (Suc t) =
     (if f64_reads_back mag (Suc t) (f64_near mag (Suc t)) then (f64_near mag (Suc t), Suc t)
      else if f64_reads_back mag (Suc t) (f64_far mag (Suc t)) then (f64_far mag (Suc t), Suc t)
      else f64_digits mag t)"

definition decimal_text :: "nat \<Rightarrow> nat \<Rightarrow> string" where
  "decimal_text d t =
     (if 1100 \<le> t then dec_string (d * 10 ^ (t - 1100))
      else (let k = 1100 - t; s = dec_string d;
                padded = replicate (Suc k - length s) (CHR ''0'') @ s;
                n = length padded - k
            in take n padded @ CHR ''.'' # drop n padded))"

definition f64_display :: "f64 \<Rightarrow> string" where
  "f64_display x =
     (let sign = (if f64_neg x then ''-'' else '''') in
      if f64_is_nan x then ''NaN''
      else if f64_mag x = f64_inf then sign @ ''inf''
      else if f64_mag x = 0 then sign @ ''0''
      else (let whole = fp_scaled 52 (f64_mag x) div f64_unit;
                start = 1100 + length (dec_string whole);
                (d, t) = f64_digits (f64_mag x) start
            in sign @ decimal_text d t))"

subsection \<open>Order lemmas\<close>

lemma f64_inf_eq: "f64_inf = 2047 * 2 ^ 52"
  by (simp add: f64_inf_def fp_inf_def)

lemma f64_lt_irrefl [simp]: "\<not> f64_lt a a"
  by (simp add: f64_lt_def)

lemma f64_lt_asym: "f64_lt a b \<Longrightarrow> \<not> f64_lt b a"
  by (auto simp: f64_lt_def)

lemma f64_lt_trans: "f64_lt a b \<Longrightarrow> f64_lt b c \<Longrightarrow> f64_lt a c"
  by (auto simp: f64_lt_def)

lemma f64_le_lt_trans: "f64_le a b \<Longrightarrow> f64_lt b c \<Longrightarrow> f64_lt a c"
  by (auto simp: f64_lt_def f64_le_def)

lemma f64_lt_le_trans: "f64_lt a b \<Longrightarrow> f64_le b c \<Longrightarrow> f64_lt a c"
  by (auto simp: f64_lt_def f64_le_def)

lemma f64_le_trans: "f64_le a b \<Longrightarrow> f64_le b c \<Longrightarrow> f64_le a c"
  by (auto simp: f64_le_def)

lemma f64_not_lt: "\<not> f64_is_nan a \<Longrightarrow> \<not> f64_is_nan b \<Longrightarrow> \<not> f64_lt a b \<longleftrightarrow> f64_le b a"
  by (auto simp: f64_lt_def f64_le_def)

lemma f64_lt_imp_le: "f64_lt a b \<Longrightarrow> f64_le a b"
  by (simp add: f64_lt_def f64_le_def)

lemma f64_finite_not_nan: "f64_is_finite a \<Longrightarrow> \<not> f64_is_nan a"
  by (simp add: f64_is_finite_def f64_is_nan_def)

lemma f64_lt_max: "\<not> f64_is_nan a \<Longrightarrow> \<not> f64_is_nan b \<Longrightarrow> f64_lt (f64_max a b) c \<longleftrightarrow> f64_lt a c \<and> f64_lt b c"
  by (auto simp: f64_max_def f64_lt_def)

lemma f64_max_le: "\<not> f64_is_nan a \<Longrightarrow> \<not> f64_is_nan b \<Longrightarrow> f64_le (f64_max a b) c \<longleftrightarrow> f64_le a c \<and> f64_le b c"
  by (auto simp: f64_max_def f64_lt_def f64_le_def)

lemma f64_lt_min: "\<not> f64_is_nan a \<Longrightarrow> \<not> f64_is_nan b \<Longrightarrow> f64_lt c (f64_min a b) \<longleftrightarrow> f64_lt c a \<and> f64_lt c b"
  by (auto simp: f64_min_def f64_lt_def)

lemma f64_max_cases: "f64_max a b = a \<or> f64_max a b = b"
  by (simp add: f64_max_def)

lemma f64_min_cases: "f64_min a b = a \<or> f64_min a b = b"
  by (simp add: f64_min_def)

lemma f64_zero_facts [simp]:
  "f64_mag f64_zero = 0" "\<not> f64_neg f64_zero" "f64_key f64_zero = 0" "\<not> f64_is_nan f64_zero"
  "f64_is_finite f64_zero"
  by (simp_all add: f64_zero_def f64_mag_def f64_neg_def f64_key_def f64_is_nan_def
      f64_is_finite_def f64_inf_eq)

lemma f64_one_facts [simp]:
  "f64_mag f64_one = 0x3FF0000000000000" "\<not> f64_neg f64_one"
  "f64_key f64_one = 0x3FF0000000000000" "\<not> f64_is_nan f64_one" "f64_is_finite f64_one"
  by (simp_all add: f64_one_def f64_mag_def f64_neg_def f64_key_def f64_is_nan_def
      f64_is_finite_def f64_inf_eq)

text \<open>A fraction of completed work: a number between 0 and 1.\<close>

definition unit_fraction :: "f64 \<Rightarrow> bool" where
  "unit_fraction x \<longleftrightarrow> f64_le f64_zero x \<and> f64_le x f64_one"

lemma unit_fraction_bounds [simp]: "unit_fraction f64_zero" "unit_fraction f64_one"
  by (simp_all add: unit_fraction_def f64_le_def)

lemma unit_fraction_clamp: "\<not> f64_is_nan x \<Longrightarrow> unit_fraction (f64_clamp x f64_zero f64_one)"
  by (simp add: unit_fraction_def f64_clamp_def f64_lt_def f64_le_def Let_def)

lemma f64_clamp_unit: "unit_fraction x \<Longrightarrow> f64_clamp x f64_zero f64_one = x"
  by (simp add: unit_fraction_def f64_clamp_def f64_lt_def f64_le_def Let_def)

lemma f64_clamp_nan: "f64_is_nan x \<Longrightarrow> f64_clamp x f64_zero f64_one = x"
  by (simp add: f64_clamp_def f64_lt_def Let_def)

lemma unit_fraction_not_nan: "unit_fraction x \<Longrightarrow> \<not> f64_is_nan x"
  by (simp add: unit_fraction_def f64_le_def)

subsection \<open>Rounding is exact on the floats\<close>

lemma bit_length_bounds: "n \<noteq> 0 \<Longrightarrow> 2 ^ (bit_length n - 1) \<le> n \<and> n < 2 ^ bit_length n"
proof (induction n rule: bit_length.induct)
  case (1 n)
  show ?case
  proof (cases "n div 2 = 0")
    case True
    with 1 have "n = 1" by linarith
    moreover have "bit_length (Suc 0) = Suc 0"
      by (simp add: bit_length.simps [of "Suc 0"] bit_length.simps [of 0])
    ultimately show ?thesis by simp
  next
    case False
    with 1 have IH: "2 ^ (bit_length (n div 2) - 1) \<le> n div 2" "n div 2 < 2 ^ bit_length (n div 2)"
      by auto
    have "bit_length (n div 2) \<noteq> 0"
      using False by (subst bit_length.simps) simp
    then have "2 * 2 ^ (bit_length (n div 2) - 1) = (2::nat) ^ bit_length (n div 2)"
      by (metis power_Suc Suc_pred neq0_conv diff_Suc_1 One_nat_def)
    with IH have "2 ^ bit_length (n div 2) \<le> n" "n < 2 * 2 ^ bit_length (n div 2)"
      by linarith+
    with \<open>n \<noteq> 0\<close> show ?thesis by (subst (1 2) bit_length.simps) simp
  qed
qed

lemma bit_length_eqI: "2 ^ k \<le> n \<Longrightarrow> n < 2 ^ Suc k \<Longrightarrow> bit_length n = Suc k"
proof -
  assume lo: "2 ^ k \<le> n" and hi: "n < 2 ^ Suc k"
  from lo have "n \<noteq> 0" using zero_less_power [of "2::nat" k] by linarith
  then have b: "2 ^ (bit_length n - 1) \<le> n" "n < 2 ^ bit_length n"
    using bit_length_bounds by auto
  from lo b(2) have "(2::nat) ^ k < 2 ^ bit_length n" by (rule le_less_trans)
  then have "k < bit_length n" by simp
  moreover from b(1) hi have "(2::nat) ^ (bit_length n - 1) < 2 ^ Suc k" by (rule le_less_trans)
  then have "bit_length n - 1 < Suc k" by (simp del: power_Suc)
  ultimately show ?thesis by simp
qed

lemma bit_length_less: "n < 2 ^ k \<Longrightarrow> bit_length n \<le> k"
proof (cases "n = 0")
  case False
  assume "n < 2 ^ k"
  with bit_length_bounds [OF False] have "(2::nat) ^ (bit_length n - 1) < 2 ^ k" by linarith
  then have "bit_length n - 1 < k" by simp
  then show ?thesis by simp
qed (simp add: bit_length.simps)

lemma round_half_even_exact: "0 < q \<Longrightarrow> round_half_even (m * q) q = m"
  by (simp add: round_half_even_def)

lemma fp_round_mag_exact:
  assumes "0 < c"
  shows "fp_round_mag mb (fp_scaled mb m * c) c = m"
proof (cases "m div 2 ^ mb = 0")
  case True
  then have "m < 2 ^ mb" by (simp add: div_eq_0_iff)
  then have "bit_length m \<le> mb" by (rule bit_length_less)
  with assms True show ?thesis
    by (simp add: fp_round_mag_def fp_scaled_def round_half_even_exact)
next
  case False
  define e f where "e = m div 2 ^ mb" and "f = m mod 2 ^ mb"
  have e: "e \<noteq> 0" and f: "f < 2 ^ mb" and m: "m = e * 2 ^ mb + f"
    using False by (simp_all only: e_def f_def mod_less_divisor zero_less_power zero_less_numeral
        div_mult_mod_eq not_False_eq_True)
  have scaled: "fp_scaled mb m = (2 ^ mb + f) * 2 ^ (e - 1)"
    using False by (simp add: fp_scaled_def e_def f_def)
  have lo: "2 ^ (mb + (e - 1)) \<le> fp_scaled mb m"
    by (simp add: scaled power_add algebra_simps)
  have "(2 ^ mb + f) * 2 ^ (e - 1) < (2 * 2 ^ mb) * 2 ^ (e - 1)"
    using f by (intro mult_less_mono1) auto
  then have hi: "fp_scaled mb m < 2 ^ Suc (mb + (e - 1))"
    by (simp add: scaled power_add mult.assoc)
  from lo hi have "bit_length (fp_scaled mb m) = Suc (mb + (e - 1))"
    by (rule bit_length_eqI)
  moreover have "fp_scaled mb m * c = (2 ^ mb + f) * (c * 2 ^ (e - 1))"
    by (simp add: scaled mult_ac)
  then have "round_half_even (fp_scaled mb m * c) (c * 2 ^ (e - 1)) = 2 ^ mb + f"
    using assms by (simp only: round_half_even_exact nat_0_less_mult_iff zero_less_power
        zero_less_numeral simp_thms)
  ultimately have "fp_round_mag mb (fp_scaled mb m * c) c = (e - 1) * 2 ^ mb + (2 ^ mb + f)"
    using assms by (simp add: fp_round_mag_def Let_def)
  with e m show ?thesis
    by (metis add.assoc mult_Suc add.commute Suc_pred neq0_conv diff_Suc_1 One_nat_def)
qed

lemma f64_make_parts: "f64_make (f64_neg x) (f64_mag x) = x"
proof -
  have "unat x < 2 ^ 64" using unsigned_less [of x, where ?'a = nat] by simp
  then have "(if f64_neg x then 2 ^ 63 + f64_mag x else f64_mag x) = unat x"
    by (auto simp: f64_neg_def f64_mag_def le_mod_geq)
  then show ?thesis by (simp add: f64_make_def)
qed

lemma f64_mag_make [simp]: "m < 2 ^ 63 \<Longrightarrow> f64_mag (f64_make neg m) = m"
  by (auto simp: f64_mag_def f64_make_def unat_of_nat take_bit_eq_mod)

lemma f64_neg_make [simp]: "m < 2 ^ 63 \<Longrightarrow> f64_neg (f64_make neg m) = neg"
  by (auto simp: f64_neg_def f64_make_def unat_of_nat take_bit_eq_mod)

text \<open>Dividing a positive finite float by itself gives one; multiplying by one gives it back.\<close>

lemma f64_mul_one: "f64_is_finite x \<Longrightarrow> f64_mul x f64_one = x"
proof -
  assume fin: "f64_is_finite x"
  have "fp_scaled 52 (f64_mag f64_one) = f64_unit"
    by (simp add: fp_scaled_def f64_unit_def)
  moreover have "fp_round_mag 52 (fp_scaled 52 (f64_mag x) * f64_unit) f64_unit = f64_mag x"
    by (rule fp_round_mag_exact) simp
  ultimately have "f64_pack (f64_neg x) (fp_scaled 52 (f64_mag x) * fp_scaled 52 (f64_mag f64_one)) f64_unit
      = f64_make (f64_neg x) (min f64_inf (f64_mag x))"
    by (simp only: f64_pack_def)
  also have "\<dots> = x"
    using fin f64_make_parts [of x] by (simp add: f64_is_finite_def min_def)
  finally show ?thesis
    using fin f64_finite_not_nan [OF fin]
    by (simp add: f64_mul_def Let_def f64_is_finite_def f64_inf_eq)
qed

end
