(* ===== verification/Paths.thy ===== *)
theory Paths
  imports Utf8
begin

text \<open>
  What the code uses of \<open>std::path::Path\<close> on Unix.  A path is its byte string; \<open>components\<close> splits
  it at separators, dropping empty parts and the \<open>.\<close> parts that are not in front.
\<close>

definition is_absolute :: "string \<Rightarrow> bool" where
  "is_absolute p \<longleftrightarrow> p \<noteq> [] \<and> hd p = CHR ''/''"

definition components :: "string \<Rightarrow> string list" where
  "components p =
     (case split_on (CHR ''/'') p of
        [] \<Rightarrow> []
      | c # cs \<Rightarrow> (if c = [] then [] else [c]) @ filter (\<lambda>c. c \<noteq> [] \<and> c \<noteq> ''.'') cs)"

text \<open>Equality of paths compares components, the leading separator being one.\<close>

definition path_eq :: "string \<Rightarrow> string \<Rightarrow> bool" where
  "path_eq a b \<longleftrightarrow> is_absolute a = is_absolute b \<and> components a = components b"

definition file_name :: "string \<Rightarrow> string option" where
  "file_name p =
     (let cs = components p in
      if cs = [] \<or> last cs = ''..'' \<or> last cs = ''.'' then None else Some (last cs))"

fun join_components :: "string list \<Rightarrow> string" where
  "join_components [] = []"
| "join_components [c] = c"
| "join_components (c # cs) = c @ CHR ''/'' # join_components cs"

text \<open>The parent in its normal form (equal to Rust's as a path, whose equality is by component).\<close>

definition path_parent :: "string \<Rightarrow> string option" where
  "path_parent p =
     (let cs = components p in
      if cs = [] then None
      else Some ((if is_absolute p then ''/'' else '''') @ join_components (butlast cs)))"

definition path_join :: "string \<Rightarrow> string \<Rightarrow> string" where
  "path_join a b =
     (if is_absolute b then b
      else if a = [] \<or> last a = CHR ''/'' then a @ b
      else a @ CHR ''/'' # b)"

lemma path_join_relative:
  "a \<noteq> [] \<Longrightarrow> last a \<noteq> CHR ''/'' \<Longrightarrow> \<not> is_absolute b \<Longrightarrow> path_join a b = a @ CHR ''/'' # b"
  by (simp add: path_join_def)

lemma path_join_inject: "\<not> is_absolute b \<Longrightarrow> \<not> is_absolute c \<Longrightarrow> path_join a b = path_join a c \<longleftrightarrow> b = c"
  by (auto simp: path_join_def)

text \<open>The parent of an absolute path has the components but the last one.\<close>

lemma split_on_part: "c \<in> set (split_on sep s) \<Longrightarrow> sep \<notin> set c"
proof (induction s arbitrary: c)
  case (Cons x s)
  have "hd (split_on sep s) \<in> set (split_on sep s)" by (rule hd_in_set) simp
  with Cons show ?case by (fastforce split: if_splits dest: list.set_sel(2) [rotated])
qed simp

lemma split_on_join: "cs \<noteq> [] \<Longrightarrow> \<forall>c \<in> set cs. CHR ''/'' \<notin> set c \<Longrightarrow> split_on (CHR ''/'') (join_components cs) = cs"
  by (induction cs rule: join_components.induct) (simp_all add: split_on_absent split_on_append)

lemma parent_components:
  assumes "is_absolute p" "components p = cs @ [n]"
  obtains q where "path_parent p = Some q" "is_absolute q" "components q = cs"
proof -
  let ?q = "CHR ''/'' # join_components cs"
  obtain r where r: "p = CHR ''/'' # r" using assms(1) by (cases p) (auto simp: is_absolute_def)
  have ok: "CHR ''/'' \<notin> set c" "c \<noteq> []" "c \<noteq> ''.''" if "c \<in> set cs" for c
  proof -
    have "c \<in> set (components p)" using that assms(2) by simp
    then have "c \<in> set (filter (\<lambda>c. c \<noteq> [] \<and> c \<noteq> ''.'') (split_on (CHR ''/'') r))" by (simp add: r components_def)
    then show "CHR ''/'' \<notin> set c" "c \<noteq> []" "c \<noteq> ''.''" using split_on_part by auto
  qed
  have "filter (\<lambda>c. c \<noteq> [] \<and> c \<noteq> ''.'') (split_on (CHR ''/'') (join_components cs)) = cs"
  proof (cases "cs = []")
    case False
    have "split_on (CHR ''/'') (join_components cs) = cs" by (rule split_on_join [OF False]) (use ok(1) in blast)
    then show ?thesis using ok(2,3) by simp
  qed simp
  then have "is_absolute ?q" "components ?q = cs" by (simp_all add: is_absolute_def components_def)
  moreover have "path_parent p = Some ?q" using assms by (simp add: path_parent_def)
  ultimately show ?thesis by (intro that)
qed

end
