(* ===== verification/Media.thy ===== *)
theory Media
  imports AssetIds Floats Paths
begin

text \<open>
  Media metadata and job priorities (\<open>tpt-av-asset-utils/src/media_info.rs\<close>, \<open>priority.rs\<close>): the
  enums with their wire tags, the metadata structs and the constructor \<open>MediaInfo::new\<close>.
\<close>

datatype media_type = Audio | Video | Image

fun media_type_as_u8 :: "media_type \<Rightarrow> u8" where
  "media_type_as_u8 Audio = 0"
| "media_type_as_u8 Video = 1"
| "media_type_as_u8 Image = 2"

definition media_type_from_u8 :: "u8 \<Rightarrow> media_type option" where
  "media_type_from_u8 tag =
     (if tag = 0 then Some Audio else if tag = 1 then Some Video
      else if tag = 2 then Some Image else None)"

datatype priority = Low | Normal | High | Critical

definition priority_default :: priority where "priority_default = Normal"
definition priority_MAX :: priority where "priority_MAX = Critical"
definition priority_MIN :: priority where "priority_MIN = Low"

fun priority_as_u8 :: "priority \<Rightarrow> u8" where
  "priority_as_u8 Low = 0"
| "priority_as_u8 Normal = 1"
| "priority_as_u8 High = 2"
| "priority_as_u8 Critical = 3"

definition priority_from_u8 :: "u8 \<Rightarrow> priority option" where
  "priority_from_u8 tag =
     (if tag = 0 then Some Low else if tag = 1 then Some Normal
      else if tag = 2 then Some High else if tag = 3 then Some Critical else None)"

fun priority_display :: "priority \<Rightarrow> string" where
  "priority_display Low = ''Low''"
| "priority_display Normal = ''Normal''"
| "priority_display High = ''High''"
| "priority_display Critical = ''Critical''"

text \<open>The derived \<open>Ord\<close> is the order of declaration.\<close>

fun priority_rank :: "priority \<Rightarrow> nat" where
  "priority_rank Low = 0"
| "priority_rank Normal = 1"
| "priority_rank High = 2"
| "priority_rank Critical = 3"

lemma priority_rank_inject [simp]: "priority_rank a = priority_rank b \<longleftrightarrow> a = b"
  by (cases a; cases b) auto

instantiation priority :: linorder
begin

definition less_eq_priority :: "priority \<Rightarrow> priority \<Rightarrow> bool" where
  "less_eq_priority a b \<longleftrightarrow> priority_rank a \<le> priority_rank b"

definition less_priority :: "priority \<Rightarrow> priority \<Rightarrow> bool" where
  "less_priority a b \<longleftrightarrow> priority_rank a < priority_rank b"

instance
  by intro_classes (auto simp: less_eq_priority_def less_priority_def)

end

record video_info =
  width :: u32
  height :: u32
  frame_rate :: f64
  video_codec :: string
  pixel_format :: string
  video_bit_rate :: "u64 option"
  frame_count :: u32
  video_duration_secs :: f64

text \<open>The derived equality compares the floats as numbers, not their bits.\<close>

definition video_equivalent :: "video_info \<Rightarrow> video_info \<Rightarrow> bool" where
  "video_equivalent a b \<longleftrightarrow>
     width a = width b \<and> height a = height b \<and> f64_eq (frame_rate a) (frame_rate b) \<and>
     video_codec a = video_codec b \<and> pixel_format a = pixel_format b \<and>
     video_bit_rate a = video_bit_rate b \<and> frame_count a = frame_count b \<and>
     f64_eq (video_duration_secs a) (video_duration_secs b)"

record audio_info =
  sample_rate :: u32
  channels :: u16
  bit_depth :: u16
  audio_codec :: string
  audio_bit_rate :: "u64 option"
  audio_duration_secs :: f64

record media_info =
  id :: asset_id
  path :: string
  name :: string
  info_size :: u64
  media_type :: media_type
  duration_secs :: "f64 option"
  video :: "video_info option"
  audio :: "audio_info option"

definition media_info_new :: "asset_id \<Rightarrow> string \<Rightarrow> media_type \<Rightarrow> media_info" where
  "media_info_new i p t =
     \<lparr>id = i, path = p,
      name = (case file_name p of None \<Rightarrow> [] | Some n \<Rightarrow> to_string_lossy n),
      info_size = id_size i, media_type = t, duration_secs = None, video = None, audio = None\<rparr>"

definition is_video :: "media_info \<Rightarrow> bool" where "is_video m \<longleftrightarrow> media_type m = Video"
definition is_audio :: "media_info \<Rightarrow> bool" where "is_audio m \<longleftrightarrow> media_type m = Audio"

lemma media_type_tags [simp]: "media_type_from_u8 (media_type_as_u8 t) = Some t"
  by (cases t) (simp_all add: media_type_from_u8_def)

lemma media_type_from_u8_Some: "media_type_from_u8 tag = Some t \<Longrightarrow> media_type_as_u8 t = tag"
  by (auto simp: media_type_from_u8_def split: if_splits)

lemma priority_tags [simp]: "priority_from_u8 (priority_as_u8 p) = Some p"
  by (cases p) (simp_all add: priority_from_u8_def)

lemma priority_from_u8_Some: "priority_from_u8 tag = Some p \<Longrightarrow> priority_as_u8 p = tag"
  by (auto simp: priority_from_u8_def split: if_splits)

lemma priority_tag_order: "p \<le> q \<longleftrightarrow> priority_as_u8 p \<le> priority_as_u8 q"
  by (cases p; cases q) (simp_all add: less_eq_priority_def word_le_nat_alt)

lemma priority_bounds: "priority_MIN \<le> p \<and> p \<le> priority_MAX"
  by (cases p) (simp_all add: priority_MIN_def priority_MAX_def less_eq_priority_def)

lemma media_info_new_simps [simp]:
  "id (media_info_new i p t) = i" "path (media_info_new i p t) = p"
  "info_size (media_info_new i p t) = id_size i" "media_type (media_info_new i p t) = t"
  "duration_secs (media_info_new i p t) = None" "video (media_info_new i p t) = None"
  "audio (media_info_new i p t) = None"
  by (simp_all add: media_info_new_def)

lemma utf8_valid_name_new: "utf8_valid (name (media_info_new i p t))"
  by (simp add: media_info_new_def utf8_valid_to_string_lossy split: option.splits)

end
