(* ===== verification/Schema.thy ===== *)
theory Schema
  imports AssetIds Floats
begin

text \<open>
  The row codec of the database (\<open>tpt-av-asset-db/src/schema.rs\<close>): table keys, the encoder (each
  method appends to the buffer) and the decoder over a byte slice with a position.  The locale
  \<open>row_codec\<close> is the contract the tables rely on: a field reads back what was written, wherever
  it stands in a row, and a row cut inside the field is refused with a database error.  It is
  interpreted for every field type the code writes.  Positions are natural numbers: \<open>pos + n\<close>
  cannot overflow a 64-bit \<open>usize\<close>, as a slice is shorter than \<open>2 ^ 63\<close> bytes and \<open>n\<close> comes from a
  \<open>u32\<close>.
\<close>

definition asset_key :: "asset_id \<Rightarrow> bytes" where
  "asset_key i = key_bytes i"

definition cache_key :: "asset_id \<Rightarrow> u8 \<Rightarrow> bytes" where
  "cache_key i cache_type = key_bytes i @ [cache_type]"

subsection \<open>Encoder\<close>

definition enc_new :: bytes where "enc_new = []"
definition enc_u8 :: "u8 \<Rightarrow> bytes \<Rightarrow> bytes" where "enc_u8 v buf = buf @ [v]"
definition enc_u16 :: "u16 \<Rightarrow> bytes \<Rightarrow> bytes" where "enc_u16 v buf = buf @ u16_to_le v"
definition enc_u32 :: "u32 \<Rightarrow> bytes \<Rightarrow> bytes" where "enc_u32 v buf = buf @ u32_to_le v"
definition enc_u64 :: "u64 \<Rightarrow> bytes \<Rightarrow> bytes" where "enc_u64 v buf = buf @ u64_to_le v"
definition enc_f64 :: "f64 \<Rightarrow> bytes \<Rightarrow> bytes" where "enc_f64 v buf = buf @ u64_to_le v"

definition enc_bytes :: "bytes \<Rightarrow> bytes \<Rightarrow> bytes" where
  "enc_bytes v buf = enc_u32 (of_nat (length v)) buf @ v"

definition enc_str :: "string \<Rightarrow> bytes \<Rightarrow> bytes" where
  "enc_str v buf = enc_bytes (as_bytes v) buf"

definition enc_opt_u64 :: "u64 option \<Rightarrow> bytes \<Rightarrow> bytes" where
  "enc_opt_u64 v buf = (case v of Some x \<Rightarrow> enc_u64 x (enc_u8 1 buf) | None \<Rightarrow> enc_u8 0 buf)"

definition enc_opt_f64 :: "f64 option \<Rightarrow> bytes \<Rightarrow> bytes" where
  "enc_opt_f64 v buf = (case v of Some x \<Rightarrow> enc_f64 x (enc_u8 1 buf) | None \<Rightarrow> enc_u8 0 buf)"

subsection \<open>Decoder\<close>

record dec =
  dec_data :: bytes
  dec_pos :: nat

type_synonym 'a decoder = "dec \<Rightarrow> asset_error + ('a \<times> dec)"

definition dbind :: "'a decoder \<Rightarrow> ('a \<Rightarrow> 'b decoder) \<Rightarrow> 'b decoder" where
  "dbind p f d = rbind (p d) (\<lambda>(x, d'). f x d')"

definition dreturn :: "'a \<Rightarrow> 'a decoder" where "dreturn x d = Inr (x, d)"

text \<open>A result that reads nothing.\<close>

definition dlift :: "asset_error + 'a \<Rightarrow> 'a decoder" where
  "dlift r d = rbind r (\<lambda>x. Inr (x, d))"

definition dec_new :: "bytes \<Rightarrow> dec" where "dec_new bs = \<lparr>dec_data = bs, dec_pos = 0\<rparr>"

definition dec_take :: "nat \<Rightarrow> bytes decoder" where
  "dec_take n d =
     (let stop = dec_pos d + n in
      if length (dec_data d) < stop
      then Inl (db (''corrupt row: needed '' @ dec_string n @ '' bytes at offset ''
             @ dec_string (dec_pos d) @ '', row is '' @ dec_string (length (dec_data d)) @ '' bytes''))
      else Inr (take n (drop (dec_pos d) (dec_data d)), d\<lparr>dec_pos := stop\<rparr>))"

definition dec_u8 :: "u8 decoder" where "dec_u8 = dbind (dec_take 1) (\<lambda>bs. dreturn (hd bs))"
definition dec_u16 :: "u16 decoder" where "dec_u16 = dbind (dec_take 2) (\<lambda>bs. dreturn (u16_from_le bs))"
definition dec_u32 :: "u32 decoder" where "dec_u32 = dbind (dec_take 4) (\<lambda>bs. dreturn (u32_from_le bs))"
definition dec_u64 :: "u64 decoder" where "dec_u64 = dbind (dec_take 8) (\<lambda>bs. dreturn (u64_from_le bs))"
definition dec_f64 :: "f64 decoder" where "dec_f64 = dbind (dec_take 8) (\<lambda>bs. dreturn (u64_from_le bs))"

definition dec_bytes :: "bytes decoder" where
  "dec_bytes = dbind dec_u32 (\<lambda>len. dec_take (unat len))"

definition dec_str :: "string decoder" where
  "dec_str = dbind dec_bytes (\<lambda>bs. dlift (map_err (\<lambda>e. db (''corrupt row: '' @ e)) (from_utf8 bs)))"

definition dec_opt_u64 :: "u64 option decoder" where
  "dec_opt_u64 = dbind dec_u8 (\<lambda>t. if t = 1 then dbind dec_u64 (\<lambda>x. dreturn (Some x)) else dreturn None)"

definition dec_opt_f64 :: "f64 option decoder" where
  "dec_opt_f64 = dbind dec_u8 (\<lambda>t. if t = 1 then dbind dec_f64 (\<lambda>x. dreturn (Some x)) else dreturn None)"

definition dec_is_empty :: "dec \<Rightarrow> bool" where
  "dec_is_empty d \<longleftrightarrow> length (dec_data d) \<le> dec_pos d"

lemma dbind_assoc: "dbind (dbind p f) g = dbind p (\<lambda>x. dbind (f x) g)"
  by (rule ext) (auto simp: dbind_def rbind_def split: sum.splits)

lemma dbind_dreturn [simp]: "dbind (dreturn x) f = f x"
  by (rule ext) (simp add: dbind_def dreturn_def)

subsection \<open>What it means to read a field\<close>

text \<open>\<open>decodes p bs v\<close>: placed anywhere in a row, the bytes \<open>bs\<close> are read as \<open>v\<close> and no others.\<close>

definition decodes :: "'a decoder \<Rightarrow> bytes \<Rightarrow> 'a \<Rightarrow> bool" where
  "decodes p bs v \<longleftrightarrow>
     (\<forall>pre rest. p \<lparr>dec_data = pre @ bs @ rest, dec_pos = length pre\<rparr> =
        Inr (v, \<lparr>dec_data = pre @ bs @ rest, dec_pos = length pre + length bs\<rparr>))"

text \<open>\<open>refuses_cut p bs\<close>: a row that ends inside \<open>bs\<close> is a database error.\<close>

definition refuses_cut :: "'a decoder \<Rightarrow> bytes \<Rightarrow> bool" where
  "refuses_cut p bs \<longleftrightarrow>
     (\<forall>pre part rest. bs = part @ rest \<longrightarrow> rest \<noteq> [] \<longrightarrow>
        (\<exists>m. p \<lparr>dec_data = pre @ part, dec_pos = length pre\<rparr> = Inl (Db m)))"

definition codes :: "'a decoder \<Rightarrow> bytes \<Rightarrow> 'a \<Rightarrow> bool" where
  "codes p bs v \<longleftrightarrow> decodes p bs v \<and> refuses_cut p bs"

lemma decodesD:
  "decodes p bs v \<Longrightarrow> p \<lparr>dec_data = pre @ bs @ rest, dec_pos = length pre\<rparr> =
     Inr (v, \<lparr>dec_data = pre @ bs @ rest, dec_pos = length pre + length bs\<rparr>)"
  by (simp add: decodes_def)

lemma decodes_bind:
  assumes "decodes p bs v" "decodes (f v) cs w"
  shows "decodes (dbind p f) (bs @ cs) w"
proof (unfold decodes_def, intro allI)
  fix pre rest
  show "dbind p f \<lparr>dec_data = pre @ (bs @ cs) @ rest, dec_pos = length pre\<rparr> =
      Inr (w, \<lparr>dec_data = pre @ (bs @ cs) @ rest, dec_pos = length pre + length (bs @ cs)\<rparr>)"
    using decodesD [OF assms(1), of pre "cs @ rest"] decodesD [OF assms(2), of "pre @ bs" rest]
    by (simp add: dbind_def add.assoc)
qed

lemma refuses_cut_bind:
  assumes "codes p bs v" "refuses_cut (f v) cs"
  shows "refuses_cut (dbind p f) (bs @ cs)"
proof (unfold refuses_cut_def, intro allI impI)
  fix pre part rest :: bytes
  assume eq: "bs @ cs = part @ rest" and rest: "rest \<noteq> []"
  then have "(\<exists>us. bs = part @ us \<and> us \<noteq> []) \<or> (\<exists>us. part = bs @ us \<and> cs = us @ rest)"
    by (metis append_eq_append_conv2 append.right_neutral append_Nil)
  then consider (first) us where "bs = part @ us" "us \<noteq> []"
    | (second) us where "part = bs @ us" "cs = us @ rest"
    by blast
  then show "\<exists>m. dbind p f \<lparr>dec_data = pre @ part, dec_pos = length pre\<rparr> = Inl (Db m)"
  proof cases
    case first
    with assms(1) obtain m where "p \<lparr>dec_data = pre @ part, dec_pos = length pre\<rparr> = Inl (Db m)"
      unfolding codes_def refuses_cut_def by blast
    then show ?thesis by (simp add: dbind_def)
  next
    case second
    from assms(2) second(2) rest obtain m
      where "f v \<lparr>dec_data = (pre @ bs) @ us, dec_pos = length (pre @ bs)\<rparr> = Inl (Db m)"
      unfolding refuses_cut_def by blast
    moreover have "p \<lparr>dec_data = pre @ part, dec_pos = length pre\<rparr> =
        Inr (v, \<lparr>dec_data = pre @ part, dec_pos = length pre + length bs\<rparr>)"
      using assms(1) decodesD [of p bs v pre us] by (simp add: codes_def second(1))
    ultimately show ?thesis by (simp add: dbind_def second(1))
  qed
qed

lemma codes_bind [codec_intros]:
  "codes p bs v \<Longrightarrow> codes (f v) cs w \<Longrightarrow> codes (dbind p f) (bs @ cs) w"
  using decodes_bind refuses_cut_bind unfolding codes_def by metis

lemma codes_return [codec_intros]: "codes (dreturn v) [] v"
  by (simp add: codes_def decodes_def refuses_cut_def dreturn_def)

lemma codes_lift: "codes (dlift (Inr v)) [] v"
  by (simp add: codes_def decodes_def refuses_cut_def dlift_def)

lemma codes_bind_last [codec_intros]:
  "codes p bs v \<Longrightarrow> codes (f v) [] w \<Longrightarrow> codes (dbind p f) bs w"
  using codes_bind [of p bs v f "[]" w] by simp

lemma codes_take: "length bs = n \<Longrightarrow> codes (dec_take n) bs bs"
  by (auto simp: codes_def decodes_def refuses_cut_def dec_take_def Let_def db_def)

text \<open>Reading a whole row.\<close>

lemma codes_whole: "codes p bs v \<Longrightarrow> p (dec_new bs) = Inr (v, \<lparr>dec_data = bs, dec_pos = length bs\<rparr>)"
  using decodesD [of p bs v "[]" "[]"] by (simp add: codes_def dec_new_def)

lemma codes_whole_cut:
  assumes "codes p bs v" "bs = part @ rest" "rest \<noteq> []"
  shows "\<exists>m. p (dec_new part) = Inl (Db m)"
proof -
  have "refuses_cut p bs" using assms(1) by (simp add: codes_def)
  then have "\<exists>m. p \<lparr>dec_data = [] @ part, dec_pos = length ([] :: bytes)\<rparr> = Inl (Db m)"
    using assms(2,3) unfolding refuses_cut_def by blast
  then show ?thesis by (simp add: dec_new_def)
qed

text \<open>A field of \<open>n\<close> bytes that \<open>g\<close> converts.\<close>

lemma codes_fixed: "length bs = n \<Longrightarrow> g bs = v \<Longrightarrow> codes (dbind (dec_take n) (\<lambda>bs. dreturn (g bs))) bs v"
  by (rule codes_bind_last [OF codes_take]) (auto intro: codes_return)

lemma codes_tag: "codes dec_u8 [t] t"
  unfolding dec_u8_def by (rule codes_fixed) simp_all

subsection \<open>The contract of a field\<close>

locale row_codec =
  fixes enc :: "'a \<Rightarrow> bytes \<Rightarrow> bytes"
    and dec :: "'a decoder"
    and storable :: "'a \<Rightarrow> bool"
  assumes appends: "enc v buf = buf @ enc v []"
    and reads_back: "storable v \<Longrightarrow> codes dec (enc v []) v"
begin

lemma prefix_free:
  assumes "storable v" "storable w" "enc v [] @ s = enc w [] @ t"
  shows "v = w \<and> s = t"
proof -
  have at_start: "dec \<lparr>dec_data = enc x [] @ r, dec_pos = 0\<rparr> =
      Inr (x, \<lparr>dec_data = enc x [] @ r, dec_pos = length (enc x [])\<rparr>)" if "storable x" for x r
    using decodesD [of dec "enc x []" x "[]" r] reads_back [OF that] by (simp add: codes_def)
  have "v = w"
    using at_start [OF assms(1), of s] at_start [OF assms(2), of t] unfolding assms(3) by simp
  with assms(3) show ?thesis by simp
qed

lemma enc_inject: "storable v \<Longrightarrow> storable w \<Longrightarrow> enc v [] = enc w [] \<Longrightarrow> v = w"
  using prefix_free [of v w "[]" "[]"] by simp

lemma optional_Some:
  assumes "storable v"
  shows "codes (dbind dec_u8 (\<lambda>t. if t = 1 then dbind dec (\<lambda>x. dreturn (Some x)) else dreturn None))
       (1 # enc v []) (Some v)"
proof -
  have "codes (dbind dec (\<lambda>x. dreturn (Some x))) (enc v []) (Some v)"
    by (rule codes_bind_last [OF reads_back [OF assms]]) (rule codes_return)
  then have "codes (dbind dec_u8 (\<lambda>t. if t = 1 then dbind dec (\<lambda>x. dreturn (Some x)) else dreturn None))
      ([1] @ enc v []) (Some v)"
    by (intro codes_bind [OF codes_tag]) simp
  then show ?thesis by simp
qed

end

lemma optional_None: "codes (dbind dec_u8 (\<lambda>t. if t = 1 then p else dreturn None)) [0] None"
  by (rule codes_bind_last [OF codes_tag]) (simp add: codes_return)

lemmas enc_defs = enc_u8_def enc_u16_def enc_u32_def enc_u64_def enc_f64_def enc_bytes_def enc_str_def
  enc_opt_u64_def enc_opt_f64_def

interpretation rc_u8: row_codec enc_u8 dec_u8 "\<lambda>_. True"
  by unfold_locales (simp_all add: enc_defs codes_tag)

interpretation rc_u16: row_codec enc_u16 dec_u16 "\<lambda>_. True"
  unfolding dec_u16_def by unfold_locales (auto simp: enc_defs intro!: codes_fixed)

interpretation rc_u32: row_codec enc_u32 dec_u32 "\<lambda>_. True"
  unfolding dec_u32_def by unfold_locales (auto simp: enc_defs intro!: codes_fixed)

interpretation rc_u64: row_codec enc_u64 dec_u64 "\<lambda>_. True"
  unfolding dec_u64_def by unfold_locales (auto simp: enc_defs intro!: codes_fixed)

interpretation rc_f64: row_codec enc_f64 dec_f64 "\<lambda>_. True"
  unfolding dec_f64_def by unfold_locales (auto simp: enc_defs intro!: codes_fixed)

text \<open>The length prefix is a \<open>u32\<close>, so a byte string must be shorter than \<open>2 ^ 32\<close>.\<close>

interpretation rc_bytes: row_codec enc_bytes dec_bytes "\<lambda>v. length v < 2 ^ 32"
proof unfold_locales
  fix v :: bytes assume len: "length v < 2 ^ 32"
  then have "unat (of_nat (length v) :: u32) = length v"
    by (simp add: unat_of_nat take_bit_eq_mod)
  then have "codes dec_bytes (enc_u32 (of_nat (length v)) [] @ v) v"
    unfolding dec_bytes_def by (intro codes_bind [OF rc_u32.reads_back]) (simp_all add: codes_take)
  then show "codes dec_bytes (enc_bytes v []) v"
    by (simp add: enc_defs)
qed (simp add: enc_defs)

definition storable_str :: "string \<Rightarrow> bool" where
  "storable_str s \<longleftrightarrow> length s < 2 ^ 32 \<and> utf8_valid s"

interpretation rc_str: row_codec enc_str dec_str storable_str
proof unfold_locales
  fix v :: string assume "storable_str v"
  then have v: "length (as_bytes v) < 2 ^ 32" "utf8_valid v"
    by (simp_all add: storable_str_def)
  show "codes dec_str (enc_str v []) v"
    unfolding dec_str_def enc_str_def using v(2)
    by (intro codes_bind_last [OF rc_bytes.reads_back [OF v(1)]]) (simp add: codes_lift)
qed (simp add: enc_defs)

interpretation rc_opt_u64: row_codec enc_opt_u64 dec_opt_u64 "\<lambda>_. True"
proof unfold_locales
  fix v :: "u64 option"
  show "codes dec_opt_u64 (enc_opt_u64 v []) v"
    using rc_u64.optional_Some optional_None
    by (cases v) (simp_all add: dec_opt_u64_def enc_defs)
qed (simp add: enc_defs split: option.splits)

interpretation rc_opt_f64: row_codec enc_opt_f64 dec_opt_f64 "\<lambda>_. True"
proof unfold_locales
  fix v :: "f64 option"
  show "codes dec_opt_f64 (enc_opt_f64 v []) v"
    using rc_f64.optional_Some optional_None
    by (cases v) (simp_all add: dec_opt_f64_def enc_defs)
qed (simp add: enc_defs split: option.splits)

lemmas field_reads_back [codec_intros] =
  rc_u8.reads_back [OF TrueI] rc_u16.reads_back [OF TrueI] rc_u32.reads_back [OF TrueI]
  rc_u64.reads_back [OF TrueI] rc_f64.reads_back [OF TrueI] rc_bytes.reads_back rc_str.reads_back
  rc_opt_u64.reads_back [OF TrueI] rc_opt_f64.reads_back [OF TrueI]

subsection \<open>Keys\<close>

lemma length_asset_key [simp]: "length (asset_key i) = 24"
  by (simp add: asset_key_def)

lemma length_cache_key [simp]: "length (cache_key i t) = 25"
  by (simp add: cache_key_def)

lemma cache_key_inject [simp]: "cache_key i t = cache_key j u \<longleftrightarrow> i = j \<and> t = u"
  by (simp add: cache_key_def)

lemma take_cache_key [simp]: "take 24 (cache_key i t) = key_bytes i" "cache_key i t ! 24 = t"
  by (simp_all add: cache_key_def nth_append)

end
