(* ===== verification/Redb.thy ===== *)
theory Redb
  imports Schema "HOL-Library.List_Lexorder"
begin

text \<open>
  The embedded key-value store.  \<open>redb\<close> is a third-party crate, so its operations are a parameter
  of every database function: the record \<open>redb\<close>, over an abstract database, write transaction and
  read transaction.  Each call may fail with an error text.  \<open>redb_laws\<close> is what its documentation
  promises of the calls that succeed: transactions start from the committed rows, a write
  transaction sees its own writes, iteration is in key order, \<open>commit\<close> makes the writes the
  database's rows.  \<open>mem_redb\<close> is a store for which the laws hold, for the witnesses.  The helpers
  \<open>with_write_txn\<close> and \<open>with_read_txn\<close> are those of \<open>tpt-av-asset-db/src/transaction.rs\<close>.
\<close>

datatype table = ASSETS | CACHE_ENTRIES | JOBS

text \<open>Byte-slice keys are ordered lexicographically, \<open>u64\<close> keys by value.\<close>

datatype rkey = KBytes (key_slice: bytes) | KNum (key_num: u64)

instantiation rkey :: linorder
begin

fun less_eq_rkey :: "rkey \<Rightarrow> rkey \<Rightarrow> bool" where
  "less_eq_rkey (KBytes a) (KBytes b) = (a \<le> b)"
| "less_eq_rkey (KNum a) (KNum b) = (a \<le> b)"
| "less_eq_rkey (KBytes a) (KNum b) = True"
| "less_eq_rkey (KNum a) (KBytes b) = False"

definition less_rkey :: "rkey \<Rightarrow> rkey \<Rightarrow> bool" where
  "less_rkey a b \<longleftrightarrow> a \<le> b \<and> \<not> b \<le> a"

instance
proof
  fix x y z :: rkey
  show "x < y \<longleftrightarrow> x \<le> y \<and> \<not> y \<le> x" by (rule less_rkey_def)
  show "x \<le> x" by (cases x) auto
  show "x \<le> y \<Longrightarrow> y \<le> z \<Longrightarrow> x \<le> z" by (cases x; cases y; cases z) auto
  show "x \<le> y \<Longrightarrow> y \<le> x \<Longrightarrow> x = y" by (cases x; cases y) auto
  show "x \<le> y \<or> y \<le> x" by (cases x; cases y) auto
qed

end

type_synonym rows = "table \<Rightarrow> rkey \<Rightarrow> bytes option"
type_synonym row_iter = "(string + rkey \<times> bytes) list"

record ('d, 'w, 'r) redb =
  begin_write :: "'d \<Rightarrow> string + 'w"
  begin_read :: "'d \<Rightarrow> string + 'r"
  open_table_w :: "table \<Rightarrow> 'w \<Rightarrow> string + 'w"
  open_table_r :: "table \<Rightarrow> 'r \<Rightarrow> string + unit"
  insert_w :: "table \<Rightarrow> rkey \<Rightarrow> bytes \<Rightarrow> 'w \<Rightarrow> string + 'w"
  remove_w :: "table \<Rightarrow> rkey \<Rightarrow> 'w \<Rightarrow> string + (bytes option \<times> 'w)"
  range_w :: "table \<Rightarrow> rkey \<Rightarrow> 'w \<Rightarrow> string + row_iter"
  get_r :: "table \<Rightarrow> rkey \<Rightarrow> 'r \<Rightarrow> string + bytes option"
  iter_r :: "table \<Rightarrow> 'r \<Rightarrow> string + row_iter"
  range_r :: "table \<Rightarrow> rkey \<Rightarrow> 'r \<Rightarrow> string + row_iter"
  commit :: "'w \<Rightarrow> string + 'd"

subsection \<open>The documented behaviour\<close>

text \<open>An iteration over the rows of a table whose keys satisfy \<open>P\<close>: in key order, each once.\<close>

definition iterates :: "(rkey \<Rightarrow> bytes option) \<Rightarrow> (rkey \<Rightarrow> bool) \<Rightarrow> (rkey \<times> bytes) list \<Rightarrow> bool" where
  "iterates m P kvs \<longleftrightarrow>
     sorted_wrt (<) (map fst kvs) \<and> (\<forall>k v. (k, v) \<in> set kvs \<longleftrightarrow> m k = Some v \<and> P k)"

text \<open>What an iterator yields: those rows, or those rows up to a first error.\<close>

definition yields :: "row_iter \<Rightarrow> (rkey \<times> bytes) list \<Rightarrow> bool" where
  "yields it kvs \<longleftrightarrow>
     it = map Inr kvs \<or> (\<exists>pre e rest post. it = map Inr pre @ Inl e # rest \<and> kvs = pre @ post)"

definition scans :: "(rkey \<Rightarrow> bytes option) \<Rightarrow> (rkey \<Rightarrow> bool) \<Rightarrow> row_iter \<Rightarrow> bool" where
  "scans m P it \<longleftrightarrow> (\<exists>kvs. iterates m P kvs \<and> yields it kvs)"

text \<open>
  The rows of a database, of a write transaction and of a read transaction are given by three
  abstraction functions.
\<close>

definition redb_laws ::
  "('d, 'w, 'r) redb \<Rightarrow> ('d \<Rightarrow> rows) \<Rightarrow> ('w \<Rightarrow> rows) \<Rightarrow> ('r \<Rightarrow> rows) \<Rightarrow> bool" where
  "redb_laws R dr wr rr \<longleftrightarrow>
     (\<forall>d w. begin_write R d = Inr w \<longrightarrow> wr w = dr d) \<and>
     (\<forall>d r. begin_read R d = Inr r \<longrightarrow> rr r = dr d) \<and>
     (\<forall>t w w'. open_table_w R t w = Inr w' \<longrightarrow> wr w' = wr w) \<and>
     (\<forall>t k v w w'. insert_w R t k v w = Inr w' \<longrightarrow> wr w' = (wr w)(t := (wr w t)(k \<mapsto> v))) \<and>
     (\<forall>t k w old w'. remove_w R t k w = Inr (old, w') \<longrightarrow>
        old = wr w t k \<and> wr w' = (wr w)(t := (wr w t)(k := None))) \<and>
     (\<forall>t k w it. range_w R t k w = Inr it \<longrightarrow> scans (wr w t) (\<lambda>k'. k \<le> k') it) \<and>
     (\<forall>t k r v. get_r R t k r = Inr v \<longrightarrow> v = rr r t k) \<and>
     (\<forall>t r it. iter_r R t r = Inr it \<longrightarrow> scans (rr r t) (\<lambda>_. True) it) \<and>
     (\<forall>t k r it. range_r R t k r = Inr it \<longrightarrow> scans (rr r t) (\<lambda>k'. k \<le> k') it) \<and>
     (\<forall>w d. commit R w = Inr d \<longrightarrow> dr d = wr w)"

lemma redb_lawsD:
  assumes "redb_laws R dr wr rr"
  shows "begin_write R d = Inr w \<Longrightarrow> wr w = dr d"
    and "begin_read R d = Inr r \<Longrightarrow> rr r = dr d"
    and "open_table_w R t w = Inr w' \<Longrightarrow> wr w' = wr w"
    and "insert_w R t k v w = Inr w' \<Longrightarrow> wr w' = (wr w)(t := (wr w t)(k \<mapsto> v))"
    and "remove_w R t k w = Inr (old, w') \<Longrightarrow> old = wr w t k"
    and "remove_w R t k w = Inr (old, w') \<Longrightarrow> wr w' = (wr w)(t := (wr w t)(k := None))"
    and "range_w R t k w = Inr it \<Longrightarrow> scans (wr w t) (\<lambda>k'. k \<le> k') it"
    and "get_r R t k r = Inr x \<Longrightarrow> x = rr r t k"
    and "iter_r R t r = Inr it \<Longrightarrow> scans (rr r t) (\<lambda>_. True) it"
    and "range_r R t k r = Inr it \<Longrightarrow> scans (rr r t) (\<lambda>k'. k \<le> k') it"
    and "commit R w = Inr d \<Longrightarrow> dr d = wr w"
  using assms by (simp_all add: redb_laws_def)

lemma iterates_nth_eq: "iterates m P kvs \<Longrightarrow> iterates m P kvs' \<Longrightarrow> kvs = kvs'"
proof -
  assume a: "iterates m P kvs" and b: "iterates m P kvs'"
  have "map fst kvs = map fst kvs'"
  proof (rule sorted_distinct_set_unique)
    show "sorted (map fst kvs)" "distinct (map fst kvs)"
      using a by (auto simp: iterates_def strict_sorted_iff)
    show "sorted (map fst kvs')" "distinct (map fst kvs')"
      using b by (auto simp: iterates_def strict_sorted_iff)
    show "set (map fst kvs) = set (map fst kvs')"
      using a b unfolding iterates_def by (auto simp: image_iff)
  qed
  moreover have "snd p = the (m (fst p))" if "p \<in> set kvs \<or> p \<in> set kvs'" for p
    using that a b unfolding iterates_def by (metis prod.collapse option.sel)
  then have "map snd kvs = map (the \<circ> m) (map fst kvs)" "map snd kvs' = map (the \<circ> m) (map fst kvs')"
    by auto
  ultimately show "kvs = kvs'" by (metis zip_map_fst_snd)
qed

subsection \<open>Transactions of the code\<close>

definition db_err :: "string \<Rightarrow> asset_error" where "db_err e = db e"

definition db_try :: "string + 'a \<Rightarrow> asset_error + 'a" where "db_try r = map_err db_err r"

lemma db_try_simps [simp]: "db_try (Inr x) = Inr x" "db_try (Inl e) = Inl (Db e)"
  by (simp_all add: db_try_def db_err_def db_def)

lemma db_try_eq_Inr [result_simps]: "db_try r = Inr x \<longleftrightarrow> r = Inr x"
  by (cases r) auto

lemma db_try_eq_Inl: "db_try r = Inl e \<Longrightarrow> \<exists>m. e = Db m"
  by (cases r) auto

text \<open>A write that fails leaves the committed database as it was: the transaction is dropped.\<close>

definition with_write_txn ::
  "('d, 'w, 'r) redb \<Rightarrow> ('w \<Rightarrow> asset_error + ('a \<times> 'w)) \<Rightarrow> 'd \<Rightarrow> (asset_error + 'a) \<times> 'd" where
  "with_write_txn R f d =
     (case db_try (begin_write R d) of
        Inl e \<Rightarrow> (Inl e, d)
      | Inr txn \<Rightarrow>
          (case f txn of
             Inl e \<Rightarrow> (Inl e, d)
           | Inr (val, txn) \<Rightarrow>
               (case db_try (commit R txn) of
                  Inl e \<Rightarrow> (Inl e, d)
                | Inr d' \<Rightarrow> (Inr val, d'))))"

definition with_read_txn ::
  "('d, 'w, 'r) redb \<Rightarrow> ('r \<Rightarrow> asset_error + 'a) \<Rightarrow> 'd \<Rightarrow> asset_error + 'a" where
  "with_read_txn R f d = rbind (db_try (begin_read R d)) f"

lemma with_write_txn_Inr:
  assumes "with_write_txn R f d = (Inr x, d')" and laws: "redb_laws R dr wr rr"
  obtains w w' where "wr w = dr d" "f w = Inr (x, w')" "dr d' = wr w'"
proof -
  from assms(1) obtain w w' where "begin_write R d = Inr w" "f w = Inr (x, w')" "commit R w' = Inr d'"
    unfolding with_write_txn_def by (auto split: sum.splits prod.splits simp: result_simps)
  with redb_lawsD(1,11) [OF laws] show thesis by (metis that)
qed

lemma with_write_txn_Inl: "with_write_txn R f d = (Inl e, d') \<Longrightarrow> d' = d"
  unfolding with_write_txn_def by (auto split: sum.splits prod.splits)

lemma with_write_txn_err:
  assumes "with_write_txn R f d = (Inl e, d')" and f: "\<And>w e. f w = Inl e \<Longrightarrow> \<exists>m. e = Db m"
  shows "\<exists>m. e = Db m"
proof (cases "begin_write R d")
  case (Inr w)
  show ?thesis
  proof (cases "f w")
    case Inl
    with assms(1) Inr f [of w] show ?thesis by (simp add: with_write_txn_def)
  next
    case (Inr y)
    with assms(1) \<open>begin_write R d = Inr w\<close> show ?thesis
      by (cases "commit R (snd y)") (auto simp: with_write_txn_def split: prod.splits)
  qed
qed (use assms(1) in \<open>auto simp: with_write_txn_def\<close>)

lemma with_read_txn_Inr:
  assumes "with_read_txn R f d = Inr x" and laws: "redb_laws R dr wr rr"
  obtains r where "rr r = dr d" "f r = Inr x"
  using assms(1) redb_lawsD(2) [OF laws] unfolding with_read_txn_def
  by (auto simp: result_simps)

text \<open>The loop that reads every row of an iterator, leaving at the first error.\<close>

fun collect_rows :: "(rkey \<Rightarrow> bytes \<Rightarrow> asset_error + 'a) \<Rightarrow> row_iter \<Rightarrow> asset_error + 'a list" where
  "collect_rows f [] = Inr []"
| "collect_rows f (row # it) =
     rbind (db_try row) (\<lambda>(k, v).
     rbind (f k v) (\<lambda>x.
     rbind (collect_rows f it) (\<lambda>xs. Inr (x # xs))))"

lemma collect_rows_Inr:
  "collect_rows f it = Inr xs \<Longrightarrow>
     \<exists>kvs. it = map Inr kvs \<and> list_all2 (\<lambda>kv x. f (fst kv) (snd kv) = Inr x) kvs xs"
proof (induction it arbitrary: xs)
  case (Cons row it)
  then obtain k v x xs' where "row = Inr (k, v)" "f k v = Inr x" "collect_rows f it = Inr xs'"
    "xs = x # xs'"
    by (auto simp: result_simps)
  moreover from Cons.IH [OF this(3)] obtain kvs
    where "it = map Inr kvs" "list_all2 (\<lambda>kv x. f (fst kv) (snd kv) = Inr x) kvs xs'"
    by blast
  ultimately show ?case by (intro exI [of _ "(k, v) # kvs"]) simp
qed simp

lemma yields_clean: "yields (map Inr kvs) kvs' \<longleftrightarrow> kvs' = kvs"
proof -
  have "(map Inr kvs :: row_iter) \<noteq> map Inr pre @ Inl e # rest" for pre e rest
  proof
    assume "(map Inr kvs :: row_iter) = map Inr pre @ Inl e # rest"
    then have "Inl e \<in> set (map Inr kvs :: row_iter)" by simp
    then show False by auto
  qed
  moreover have "(map Inr kvs :: row_iter) = map Inr kvs' \<longleftrightarrow> kvs' = kvs"
    by (auto simp: inj_map_eq_map)
  ultimately show ?thesis unfolding yields_def by metis
qed

lemma yields_Nil [simp]: "yields [] kvs \<longleftrightarrow> kvs = []"
  by (auto simp: yields_def)

lemma yields_Inr [simp]:
  "yields (Inr kv # it) kvs \<longleftrightarrow> (\<exists>kvs'. kvs = kv # kvs' \<and> yields it kvs')"
proof
  assume "yields (Inr kv # it) kvs"
  then consider "Inr kv # it = map Inr kvs"
    | pre e rest post where "Inr kv # it = map Inr pre @ Inl e # rest" "kvs = pre @ post"
    unfolding yields_def by blast
  then show "\<exists>kvs'. kvs = kv # kvs' \<and> yields it kvs'"
  proof cases
    case 1
    then show ?thesis by (cases kvs) (auto simp: yields_def)
  next
    case 2
    then show ?thesis by (cases pre) (auto simp: yields_def)
  qed
next
  assume "\<exists>kvs'. kvs = kv # kvs' \<and> yields it kvs'"
  then obtain kvs' where kvs: "kvs = kv # kvs'" "yields it kvs'" by blast
  then consider "it = map Inr kvs'"
    | pre e rest post where "it = map Inr pre @ Inl e # rest" "kvs' = pre @ post"
    unfolding yields_def by blast
  then show "yields (Inr kv # it) kvs"
  proof cases
    case 1
    with kvs(1) show ?thesis by (simp add: yields_def)
  next
    case 2
    with kvs(1) have "Inr kv # it = map Inr (kv # pre) @ Inl e # rest" "kvs = (kv # pre) @ post"
      by simp_all
    then show ?thesis unfolding yields_def by blast
  qed
qed

lemma scans_clean: "scans m P (map Inr kvs) \<longleftrightarrow> iterates m P kvs"
  by (auto simp: scans_def yields_clean)

lemma collect_rows_scans:
  assumes "collect_rows f it = Inr xs" "scans m P it"
  obtains kvs where "iterates m P kvs" "list_all2 (\<lambda>kv x. f (fst kv) (snd kv) = Inr x) kvs xs"
proof -
  from collect_rows_Inr [OF assms(1)] obtain kvs
    where "it = map Inr kvs" "list_all2 (\<lambda>kv x. f (fst kv) (snd kv) = Inr x) kvs xs"
    by blast
  with assms(2) show thesis using that by (simp add: scans_clean)
qed

lemma iterates_rows:
  assumes "iterates m P kvs" "list_all2 (\<lambda>kv x. f (fst kv) (snd kv) = Inr x) kvs xs"
    and g: "\<And>k v x. m k = Some v \<Longrightarrow> P k \<Longrightarrow> f k v = Inr x \<Longrightarrow> k = g x"
  shows "map fst kvs = map g xs"
proof (rule nth_equalityI)
  show "length (map fst kvs) = length (map g xs)" using assms(2) by (simp add: list_all2_lengthD)
  fix n assume n: "n < length (map fst kvs)"
  then have "(fst (kvs ! n), snd (kvs ! n)) \<in> set kvs" by simp
  with assms(1) have row: "m (fst (kvs ! n)) = Some (snd (kvs ! n)) \<and> P (fst (kvs ! n))"
    unfolding iterates_def by blast
  moreover have "f (fst (kvs ! n)) (snd (kvs ! n)) = Inr (xs ! n)"
    using assms(2) n by (simp add: list_all2_conv_all_nth)
  ultimately show "map fst kvs ! n = map g xs ! n"
    using g row n assms(2) by (simp add: list_all2_conv_all_nth)
qed

text \<open>What such a loop returns, in terms of the rows.\<close>

lemma iterates_results:
  assumes "iterates m P kvs" "list_all2 (\<lambda>kv x. f (fst kv) (snd kv) = Inr x) kvs xs"
  shows "set xs = {x. \<exists>k v. m k = Some v \<and> P k \<and> f k v = Inr x}"
proof -
  have "set xs = {x. \<exists>kv \<in> set kvs. f (fst kv) (snd kv) = Inr x}"
    using assms(2) by (induction kvs xs rule: list_all2_induct) (simp, auto)
  moreover have "(k, v) \<in> set kvs \<longleftrightarrow> m k = Some v \<and> P k" for k v
    using assms(1) by (simp add: iterates_def)
  ultimately show ?thesis by (auto simp: Bex_def)
qed

lemma iterates_filter:
  assumes "iterates m P kvs"
  shows "iterates m (\<lambda>k. P k \<and> Q k) (filter (\<lambda>kv. Q (fst kv)) kvs)"
proof -
  have "sorted_wrt (<) (map fst (filter (\<lambda>kv. Q (fst kv)) kvs))"
    using assms by (simp add: iterates_def sorted_wrt_map sorted_wrt_filter)
  with assms show ?thesis by (auto simp: iterates_def)
qed

subsection \<open>An in-memory store\<close>

text \<open>The rows of a table, the latest write first; iteration sorts them and keeps the latest.\<close>

type_synonym mem_db = "table \<Rightarrow> (rkey \<times> bytes) list"

fun alist_put :: "rkey \<Rightarrow> bytes \<Rightarrow> (rkey \<times> bytes) list \<Rightarrow> (rkey \<times> bytes) list" where
  "alist_put k v [] = [(k, v)]"
| "alist_put k v ((k', v') # kvs) =
     (if k < k' then (k, v) # (k', v') # kvs
      else if k = k' then (k, v) # kvs
      else (k', v') # alist_put k v kvs)"

definition in_order :: "(rkey \<times> bytes) list \<Rightarrow> (rkey \<times> bytes) list" where
  "in_order kvs = foldr (\<lambda>(k, v). alist_put k v) kvs []"

definition mem_redb :: "(mem_db, mem_db, mem_db) redb" where
  "mem_redb =
     \<lparr>begin_write = Inr, begin_read = Inr,
      open_table_w = (\<lambda>t w. Inr w), open_table_r = (\<lambda>t r. Inr ()),
      insert_w = (\<lambda>t k v w. Inr (w(t := (k, v) # w t))),
      remove_w = (\<lambda>t k w. Inr (map_of (w t) k, w(t := filter (\<lambda>kv. fst kv \<noteq> k) (w t)))),
      range_w = (\<lambda>t k w. Inr (map Inr (filter (\<lambda>kv. k \<le> fst kv) (in_order (w t))))),
      get_r = (\<lambda>t k r. Inr (map_of (r t) k)),
      iter_r = (\<lambda>t r. Inr (map Inr (in_order (r t)))),
      range_r = (\<lambda>t k r. Inr (map Inr (filter (\<lambda>kv. k \<le> fst kv) (in_order (r t))))),
      commit = Inr\<rparr>"

lemma mem_redb_simps [simp]:
  "begin_write mem_redb = Inr" "begin_read mem_redb = Inr" "open_table_w mem_redb t w = Inr w"
  "open_table_r mem_redb t r = Inr ()" "insert_w mem_redb t k v w = Inr (w(t := (k, v) # w t))"
  "remove_w mem_redb t k w = Inr (map_of (w t) k, w(t := filter (\<lambda>kv. fst kv \<noteq> k) (w t)))"
  "range_w mem_redb t k w = Inr (map Inr (filter (\<lambda>kv. k \<le> fst kv) (in_order (w t))))"
  "get_r mem_redb t k r = Inr (map_of (r t) k)" "iter_r mem_redb t r = Inr (map Inr (in_order (r t)))"
  "range_r mem_redb t k r = Inr (map Inr (filter (\<lambda>kv. k \<le> fst kv) (in_order (r t))))"
  "commit mem_redb = Inr"
  by (simp_all add: mem_redb_def)

definition mem_rows :: "mem_db \<Rightarrow> rows" where "mem_rows d = (\<lambda>t. map_of (d t))"

definition mem_empty :: mem_db where "mem_empty = (\<lambda>_. [])"

lemma fst_set_alist_put: "fst ` set (alist_put k v kvs) = insert k (fst ` set kvs)"
  by (induction k v kvs rule: alist_put.induct) auto

lemma sorted_alist_put:
  "sorted_wrt (<) (map fst kvs) \<Longrightarrow> sorted_wrt (<) (map fst (alist_put k v kvs))"
proof (induction kvs)
  case (Cons kv kvs)
  obtain k' v' where kv: "kv = (k', v')" by fastforce
  have below: "\<forall>y \<in> fst ` set kvs. k' < y" using Cons.prems kv by auto
  show ?case
  proof (cases "k \<le> k'")
    case True
    then show ?thesis using Cons.prems kv below by (auto simp: le_less intro: less_trans)
  next
    case False
    then have "\<forall>y \<in> fst ` set (alist_put k v kvs). k' < y"
      using below by (simp add: fst_set_alist_put)
    then show ?thesis using False Cons kv by auto
  qed
qed simp

lemma map_of_alist_put:
  "sorted_wrt (<) (map fst kvs) \<Longrightarrow> map_of (alist_put k v kvs) = (map_of kvs)(k \<mapsto> v)"
  by (induction kvs) (auto simp: fun_eq_iff)

lemma sorted_in_order: "sorted_wrt (<) (map fst (in_order kvs))"
  unfolding in_order_def by (induction kvs) (auto simp: sorted_alist_put split: prod.splits)

lemma map_of_in_order: "map_of (in_order kvs) = map_of kvs"
proof (induction kvs)
  case (Cons kv kvs)
  have "in_order (kv # kvs) = alist_put (fst kv) (snd kv) (in_order kvs)"
    by (simp add: in_order_def split_def)
  then show ?case using Cons sorted_in_order by (cases kv) (simp add: map_of_alist_put)
qed (simp add: in_order_def)

lemma scans_in_order: "scans (map_of kvs) P (map Inr (filter (\<lambda>kv. P (fst kv)) (in_order kvs)))"
proof -
  have "distinct (map fst (in_order kvs))"
    using sorted_in_order strict_sorted_iff by blast
  then have "(k, v) \<in> set (in_order kvs) \<longleftrightarrow> map_of kvs k = Some v" for k v
    by (metis map_of_in_order map_of_eq_Some_iff)
  moreover have "sorted_wrt (<) (map fst (filter (\<lambda>kv. P (fst kv)) (in_order kvs)))"
    using sorted_wrt_filter [OF sorted_in_order, of P kvs] by (simp add: filter_map o_def)
  ultimately have "iterates (map_of kvs) P (filter (\<lambda>kv. P (fst kv)) (in_order kvs))"
    by (auto simp: iterates_def)
  then show ?thesis unfolding scans_def yields_def by blast
qed

lemma map_of_filter_key: "map_of (filter (\<lambda>kv. fst kv \<noteq> k) kvs) = (map_of kvs)(k := None)"
  by (induction kvs) (auto simp: fun_eq_iff)

lemma mem_redb_laws: "redb_laws mem_redb mem_rows mem_rows mem_rows"
  using scans_in_order scans_in_order [where P = "\<lambda>_. True"]
  by (auto simp: redb_laws_def mem_redb_def mem_rows_def map_of_filter_key)

end
