(* ===== verification/AssetTable.thy ===== *)
theory AssetTable
  imports Media Redb
begin

text \<open>
  The \<open>assets\<close> table (\<open>tpt-av-asset-db/src/asset_table.rs\<close>, \<open>query.rs\<close>) and the opening of the
  database (\<open>lib.rs\<close>): the row codec of a \<open>media_info\<close> and the operations of the table over the
  store.  The abstract table is a map from asset ids to \<open>media_info\<close> (\<open>assets_of\<close>).  The lemmas
  show that a row reads back the info that was written, up to what the row does not hold
  (\<open>stored_info\<close>), that a cut row or a row with trailing bytes is a database error, that every
  write keeps the table well formed, and that the operations act on the abstract table as an update,
  a lookup, a removal and an enumeration of its range.
\<close>

subsection \<open>Rows\<close>

definition enc_video :: "video_info \<Rightarrow> bytes \<Rightarrow> bytes" where
  "enc_video v e =
     (let e = enc_u32 (width v) e;
          e = enc_u32 (height v) e;
          e = enc_f64 (frame_rate v) e;
          e = enc_str (video_codec v) e;
          e = enc_str (pixel_format v) e;
          e = enc_opt_u64 (video_bit_rate v) e;
          e = enc_u32 (frame_count v) e
      in enc_f64 (video_duration_secs v) e)"

definition enc_audio :: "audio_info \<Rightarrow> bytes \<Rightarrow> bytes" where
  "enc_audio a e =
     (let e = enc_u32 (sample_rate a) e;
          e = enc_u16 (channels a) e;
          e = enc_u16 (bit_depth a) e;
          e = enc_str (audio_codec a) e;
          e = enc_opt_u64 (audio_bit_rate a) e
      in enc_f64 (audio_duration_secs a) e)"

definition encode_media_info :: "media_info \<Rightarrow> bytes" where
  "encode_media_info info =
     (let e = enc_new;
          e = enc_u64 (path_hash (id info)) e;
          e = enc_u64 (mtime_ms (id info)) e;
          e = enc_u64 (id_size (id info)) e;
          e = enc_str (to_string_lossy (path info)) e;
          e = enc_str (name info) e;
          e = enc_u8 (media_type_as_u8 (media_type info)) e;
          e = enc_opt_f64 (duration_secs info) e;
          e = enc_u8 (if video info \<noteq> None then 1 else 0) e;
          e = (case video info of Some v \<Rightarrow> enc_video v e | None \<Rightarrow> e);
          e = enc_u8 (if audio info \<noteq> None then 1 else 0) e;
          e = (case audio info of Some a \<Rightarrow> enc_audio a e | None \<Rightarrow> e)
      in e)"

definition dec_video :: "video_info decoder" where
  "dec_video =
     dbind dec_u32 (\<lambda>w. dbind dec_u32 (\<lambda>h. dbind dec_f64 (\<lambda>fr. dbind dec_str (\<lambda>c.
     dbind dec_str (\<lambda>pf. dbind dec_opt_u64 (\<lambda>br. dbind dec_u32 (\<lambda>fc. dbind dec_f64 (\<lambda>du.
       dreturn \<lparr>width = w, height = h, frame_rate = fr, video_codec = c, pixel_format = pf,
         video_bit_rate = br, frame_count = fc, video_duration_secs = du\<rparr>))))))))"

definition dec_audio :: "audio_info decoder" where
  "dec_audio =
     dbind dec_u32 (\<lambda>sr. dbind dec_u16 (\<lambda>ch. dbind dec_u16 (\<lambda>bd. dbind dec_str (\<lambda>c.
     dbind dec_opt_u64 (\<lambda>br. dbind dec_f64 (\<lambda>du.
       dreturn \<lparr>sample_rate = sr, channels = ch, bit_depth = bd, audio_codec = c,
         audio_bit_rate = br, audio_duration_secs = du\<rparr>))))))"

definition dec_media_info :: "media_info decoder" where
  "dec_media_info =
     dbind dec_u64 (\<lambda>ph. dbind dec_u64 (\<lambda>mt. dbind dec_u64 (\<lambda>sz.
     dbind dec_str (\<lambda>p. dbind dec_str (\<lambda>n.
     dbind (dbind dec_u8 (\<lambda>t. dlift (ok_or (media_type_from_u8 t) (db ''corrupt row: bad media type'')))) (\<lambda>ty.
     dbind dec_opt_f64 (\<lambda>du.
     dbind (dbind dec_u8 (\<lambda>t. if t = 1 then dbind dec_video (\<lambda>v. dreturn (Some v)) else dreturn None)) (\<lambda>v.
     dbind (dbind dec_u8 (\<lambda>t. if t = 1 then dbind dec_audio (\<lambda>a. dreturn (Some a)) else dreturn None)) (\<lambda>a.
       dreturn \<lparr>id = from_parts ph mt sz, path = p, name = n, info_size = sz, media_type = ty,
         duration_secs = du, video = v, audio = a\<rparr>)))))))))"

definition decode_media_info :: "bytes \<Rightarrow> asset_error + media_info" where
  "decode_media_info data =
     rbind (dec_media_info (dec_new data)) (\<lambda>(info, d).
       if \<not> dec_is_empty d then Inl (db ''corrupt row: trailing bytes'') else Inr info)"

subsection \<open>Operations\<close>

definition upsert_asset :: "('d, 'w, 'r) redb \<Rightarrow> media_info \<Rightarrow> 'd \<Rightarrow> (asset_error + unit) \<times> 'd" where
  "upsert_asset R info =
     (let key = asset_key (id info);
          row = encode_media_info info
      in with_write_txn R (\<lambda>txn.
           rbind (db_try (open_table_w R ASSETS txn)) (\<lambda>table.
           rbind (db_try (insert_w R ASSETS (KBytes key) row table)) (\<lambda>table. Inr ((), table)))))"

definition get_asset :: "('d, 'w, 'r) redb \<Rightarrow> asset_id \<Rightarrow> 'd \<Rightarrow> asset_error + media_info option" where
  "get_asset R i =
     with_read_txn R (\<lambda>txn.
       rbind (db_try (open_table_r R ASSETS txn)) (\<lambda>_.
       rbind (db_try (get_r R ASSETS (KBytes (asset_key i)) txn)) (\<lambda>found.
         case found of
           Some row \<Rightarrow> rbind (decode_media_info row) (\<lambda>info. Inr (Some info))
         | None \<Rightarrow> Inr None)))"

definition remove_asset :: "('d, 'w, 'r) redb \<Rightarrow> asset_id \<Rightarrow> 'd \<Rightarrow> (asset_error + unit) \<times> 'd" where
  "remove_asset R i =
     with_write_txn R (\<lambda>txn.
       rbind (db_try (open_table_w R ASSETS txn)) (\<lambda>table.
       rbind (db_try (remove_w R ASSETS (KBytes (asset_key i)) table)) (\<lambda>(_, table). Inr ((), table))))"

definition list_assets :: "('d, 'w, 'r) redb \<Rightarrow> 'd \<Rightarrow> asset_error + media_info list" where
  "list_assets R d =
     rbind (db_try (begin_read R d)) (\<lambda>txn.
     rbind (db_try (open_table_r R ASSETS txn)) (\<lambda>_.
     rbind (db_try (iter_r R ASSETS txn)) (\<lambda>it. collect_rows (\<lambda>_. decode_media_info) it)))"

definition get_assets_by_path ::
  "os_files \<Rightarrow> ('d, 'w, 'r) redb \<Rightarrow> string \<Rightarrow> 'd \<Rightarrow> asset_error + media_info list" where
  "get_assets_by_path os R p d =
     (let target = canonical_or_self os p in
      rbind (list_assets R d) (\<lambda>infos.
        Inr (filter (\<lambda>info. path_eq (canonical_or_self os (path info)) target) infos)))"

definition get_asset_by_path ::
  "os_files \<Rightarrow> ('d, 'w, 'r) redb \<Rightarrow> string \<Rightarrow> 'd \<Rightarrow> asset_error + media_info option" where
  "get_asset_by_path os R p d =
     rbind (get_assets_by_path os R p d) (\<lambda>infos.
       Inr (case infos of [] \<Rightarrow> None | info # _ \<Rightarrow> Some info))"

text \<open>
  \<open>AssetDb::open\<close>.  Creating the directories and opening the database file are operations of the
  environment; the three tables are made in one transaction.
\<close>

definition db_open ::
  "('d, 'w, 'r) redb \<Rightarrow> (string \<Rightarrow> io_error + unit) \<Rightarrow> (string \<Rightarrow> string + 'd) \<Rightarrow> string
     \<Rightarrow> asset_error + 'd" where
  "db_open R create_dir_all db_create p =
     rbind (case path_parent p of
              Some parent \<Rightarrow> if parent \<noteq> [] then io_try (create_dir_all parent) else Inr ()
            | None \<Rightarrow> Inr ()) (\<lambda>_.
     rbind (db_try (db_create p)) (\<lambda>d.
     rbind (db_try (begin_write R d)) (\<lambda>txn.
     rbind (db_try (open_table_w R ASSETS txn)) (\<lambda>txn.
     rbind (db_try (open_table_w R CACHE_ENTRIES txn)) (\<lambda>txn.
     rbind (db_try (open_table_w R JOBS txn)) (\<lambda>txn.
     db_try (commit R txn)))))))"

subsection \<open>The row codec\<close>

text \<open>What a row can hold, and what it gives back.\<close>

definition storable_video :: "video_info \<Rightarrow> bool" where
  "storable_video v \<longleftrightarrow> storable_str (video_codec v) \<and> storable_str (pixel_format v)"

definition storable_audio :: "audio_info \<Rightarrow> bool" where
  "storable_audio a \<longleftrightarrow> storable_str (audio_codec a)"

definition storable_info :: "media_info \<Rightarrow> bool" where
  "storable_info m \<longleftrightarrow>
     storable_str (to_string_lossy (path m)) \<and> storable_str (name m) \<and>
     (case video m of None \<Rightarrow> True | Some v \<Rightarrow> storable_video v) \<and>
     (case audio m of None \<Rightarrow> True | Some a \<Rightarrow> storable_audio a)"

definition stored_info :: "media_info \<Rightarrow> media_info" where
  "stored_info m = m\<lparr>path := to_string_lossy (path m), info_size := id_size (id m)\<rparr>"

lemma id_stored_info [simp]: "id (stored_info m) = id m"
  by (simp add: stored_info_def)

lemma codes_video: "storable_video v \<Longrightarrow> codes dec_video (enc_video v []) v"
proof -
  assume v: "storable_video v"
  have "enc_video v [] = enc_u32 (width v) [] @ enc_u32 (height v) [] @ enc_f64 (frame_rate v) [] @
      enc_str (video_codec v) [] @ enc_str (pixel_format v) [] @ enc_opt_u64 (video_bit_rate v) [] @
      enc_u32 (frame_count v) [] @ enc_f64 (video_duration_secs v) []"
    by (simp add: enc_video_def enc_defs split: option.splits)
  moreover have "codes dec_video \<dots> v"
    unfolding dec_video_def using v
    by (cases v) (rule field_reads_back codes_bind codes_bind_last codes_return
        | simp add: storable_video_def)+
  ultimately show ?thesis by simp
qed

lemma codes_audio: "storable_audio a \<Longrightarrow> codes dec_audio (enc_audio a []) a"
proof -
  assume a: "storable_audio a"
  have "enc_audio a [] = enc_u32 (sample_rate a) [] @ enc_u16 (channels a) [] @ enc_u16 (bit_depth a) [] @
      enc_str (audio_codec a) [] @ enc_opt_u64 (audio_bit_rate a) [] @ enc_f64 (audio_duration_secs a) []"
    by (simp add: enc_audio_def enc_defs split: option.splits)
  moreover have "codes dec_audio \<dots> a"
    unfolding dec_audio_def using a
    by (cases a) (rule field_reads_back codes_bind codes_bind_last codes_return
        | simp add: storable_audio_def)+
  ultimately show ?thesis by simp
qed

text \<open>The optional parts: a presence byte, then the part.\<close>

lemma codes_tagged:
  "codes p bs x \<Longrightarrow>
     codes (dbind dec_u8 (\<lambda>t. if t = 1 then dbind p (\<lambda>y. dreturn (Some y)) else dreturn None)) (1 # bs) (Some x)"
  using codes_bind [OF codes_tag, of "\<lambda>t. if t = 1 then dbind p (\<lambda>y. dreturn (Some y)) else dreturn None" 1 bs]
    codes_bind_last [OF _ codes_return]
  by fastforce

definition optional_row :: "('a \<Rightarrow> bytes) \<Rightarrow> 'a option \<Rightarrow> bytes" where
  "optional_row f v = (case v of None \<Rightarrow> [0] | Some x \<Rightarrow> 1 # f x)"

lemma codes_optional:
  "(\<And>x. v = Some x \<Longrightarrow> codes p (f x) x) \<Longrightarrow>
     codes (dbind dec_u8 (\<lambda>t. if t = 1 then dbind p (\<lambda>y. dreturn (Some y)) else dreturn None)) (optional_row f v) v"
  by (cases v) (simp_all add: optional_row_def codes_tagged optional_None)

lemma codes_media_type:
  "codes (dbind dec_u8 (\<lambda>t. dlift (ok_or (media_type_from_u8 t) e))) [media_type_as_u8 ty] ty"
  by (rule codes_bind_last [OF codes_tag]) (simp add: codes_lift)

lemma enc_parts_append:
  "enc_video v e = e @ enc_video v []" "enc_audio a e = e @ enc_audio a []"
  by (simp_all add: enc_video_def enc_audio_def enc_defs Let_def split: option.splits)

lemma encode_media_info_fields:
  "encode_media_info m =
     enc_u64 (path_hash (id m)) [] @ enc_u64 (mtime_ms (id m)) [] @ enc_u64 (id_size (id m)) [] @
     enc_str (to_string_lossy (path m)) [] @ enc_str (name m) [] @ [media_type_as_u8 (media_type m)] @
     enc_opt_f64 (duration_secs m) [] @ optional_row (\<lambda>v. enc_video v []) (video m) @
     optional_row (\<lambda>a. enc_audio a []) (audio m)"
  unfolding encode_media_info_def Let_def optional_row_def
  by (cases "video m"; cases "audio m")
    (simp_all add: enc_defs enc_new_def enc_parts_append [of _ "_ @ _"] split: option.splits)

lemma codes_media_info:
  assumes "storable_info m"
  shows "codes dec_media_info (encode_media_info m) (stored_info m)"
proof -
  have video: "codes dec_video (enc_video v []) v" if "video m = Some v" for v
    using assms that by (simp add: storable_info_def codes_video)
  have audio: "codes dec_audio (enc_audio a []) a" if "audio m = Some a" for a
    using assms that by (simp add: storable_info_def codes_audio)
  have strs: "storable_str (to_string_lossy (path m))" "storable_str (name m)"
    using assms by (simp_all add: storable_info_def)
  have whole: "stored_info m = \<lparr>id = from_parts (path_hash (id m)) (mtime_ms (id m)) (id_size (id m)),
      path = to_string_lossy (path m), name = name m, info_size = id_size (id m),
      media_type = media_type m, duration_secs = duration_secs m, video = video m, audio = audio m\<rparr>"
    by (simp add: stored_info_def from_parts_def)
  show ?thesis
    unfolding encode_media_info_fields dec_media_info_def whole
    by (rule field_reads_back(1-5,8,9) rc_str.reads_back [OF strs(1)] rc_str.reads_back [OF strs(2)]
        codes_media_type codes_optional [OF video] codes_optional [OF audio]
        codes_bind codes_bind_last codes_return | assumption)+
qed

lemma decode_encode_media_info:
  "storable_info m \<Longrightarrow> decode_media_info (encode_media_info m) = Inr (stored_info m)"
  using codes_whole [OF codes_media_info] by (simp add: decode_media_info_def dec_is_empty_def)

lemma decode_cut_media_info:
  assumes "storable_info m" "encode_media_info m = part @ rest" "rest \<noteq> []"
  shows "\<exists>e. decode_media_info part = Inl (Db e)"
  using codes_whole_cut [OF codes_media_info [OF assms(1)] assms(2,3)]
  by (auto simp: decode_media_info_def)

lemma decode_trailing_media_info:
  assumes "storable_info m" "rest \<noteq> []"
  shows "decode_media_info (encode_media_info m @ rest) = Inl (Db ''corrupt row: trailing bytes'')"
  using codes_media_info [OF assms(1)] decodesD [of dec_media_info "encode_media_info m" "stored_info m" "[]" rest] assms(2)
  by (simp add: codes_def decode_media_info_def dec_new_def dec_is_empty_def db_def)

subsection \<open>The abstract table\<close>

definition assets_of :: "rows \<Rightarrow> asset_id \<Rightarrow> media_info option" where
  "assets_of rows i =
     (case rows ASSETS (KBytes (asset_key i)) of
        None \<Rightarrow> None
      | Some row \<Rightarrow> (case decode_media_info row of Inl _ \<Rightarrow> None | Inr m \<Rightarrow> Some m))"

text \<open>Well formed: every row is a readable info, filed under the id it holds.\<close>

definition assets_wf :: "rows \<Rightarrow> bool" where
  "assets_wf rows \<longleftrightarrow>
     (\<forall>k row. rows ASSETS k = Some row \<longrightarrow>
        (\<exists>m. decode_media_info row = Inr m \<and> k = KBytes (asset_key (id m))))"

lemma asset_key_inject [simp]: "asset_key i = asset_key j \<longleftrightarrow> i = j"
  by (simp add: asset_key_def)

lemma assets_of_eq_Some:
  "assets_of rows i = Some m \<longleftrightarrow>
     (\<exists>row. rows ASSETS (KBytes (asset_key i)) = Some row \<and> decode_media_info row = Inr m)"
  by (simp add: assets_of_def split: option.splits sum.splits)

lemma assets_wfD:
  "assets_wf rows \<Longrightarrow> rows ASSETS k = Some row \<Longrightarrow> decode_media_info row = Inr m \<Longrightarrow>
     k = KBytes (asset_key (id m))"
  unfolding assets_wf_def by (metis Inr_inject)

lemma assets_of_id: "assets_wf rows \<Longrightarrow> assets_of rows i = Some m \<Longrightarrow> id m = i"
  by (auto simp: assets_of_eq_Some dest: assets_wfD)

lemma upsert_asset_rows:
  assumes "upsert_asset R m d = (Inr (), d')" "redb_laws R dr wr rr"
  shows "dr d' = (dr d)(ASSETS := (dr d ASSETS)(KBytes (asset_key (id m)) \<mapsto> encode_media_info m))"
proof -
  from assms(1) obtain w w' where w: "wr w = dr d" "dr d' = wr w'"
    "rbind (db_try (open_table_w R ASSETS w)) (\<lambda>table.
       rbind (db_try (insert_w R ASSETS (KBytes (asset_key (id m))) (encode_media_info m) table))
         (\<lambda>table. Inr ((), table))) = Inr ((), w')"
    unfolding upsert_asset_def Let_def by (rule with_write_txn_Inr [OF _ assms(2)])
  then obtain w0 where "open_table_w R ASSETS w = Inr w0"
    "insert_w R ASSETS (KBytes (asset_key (id m))) (encode_media_info m) w0 = Inr w'"
    by (auto simp: result_simps)
  with w(1,2) show ?thesis by (auto dest!: redb_lawsD(3,4) [OF assms(2)])
qed

lemma upsert_asset_view:
  assumes "upsert_asset R m d = (Inr (), d')" "redb_laws R dr wr rr" "storable_info m"
  shows "assets_of (dr d') = (assets_of (dr d))(id m \<mapsto> stored_info m)"
  using upsert_asset_rows [OF assms(1,2)] assms(3)
  by (auto simp: fun_eq_iff assets_of_def decode_encode_media_info)

lemma upsert_asset_wf:
  assumes "upsert_asset R m d = (Inr (), d')" "redb_laws R dr wr rr" "storable_info m" "assets_wf (dr d)"
  shows "assets_wf (dr d')"
  using upsert_asset_rows [OF assms(1,2)] assms(3,4)
  by (auto simp: assets_wf_def decode_encode_media_info)

lemma upsert_asset_error:
  assumes "upsert_asset R m d = (Inl e, d')"
  shows "d' = d \<and> (\<exists>t. e = Db t)"
proof
  show "d' = d" using assms unfolding upsert_asset_def Let_def by (rule with_write_txn_Inl)
  show "\<exists>t. e = Db t"
    using assms unfolding upsert_asset_def Let_def
    by (rule with_write_txn_err) (auto simp: result_simps dest: db_try_eq_Inl)
qed

lemma remove_asset_rows:
  assumes "remove_asset R i d = (Inr (), d')" "redb_laws R dr wr rr"
  shows "dr d' = (dr d)(ASSETS := (dr d ASSETS)(KBytes (asset_key i) := None))"
proof -
  from assms(1) obtain w w' where w: "wr w = dr d" "dr d' = wr w'"
    "rbind (db_try (open_table_w R ASSETS w)) (\<lambda>table.
       rbind (db_try (remove_w R ASSETS (KBytes (asset_key i)) table))
         (\<lambda>(_, table). Inr ((), table))) = Inr ((), w')"
    unfolding remove_asset_def by (rule with_write_txn_Inr [OF _ assms(2)])
  then obtain w0 old where "open_table_w R ASSETS w = Inr w0"
    "remove_w R ASSETS (KBytes (asset_key i)) w0 = Inr (old, w')"
    by (auto simp: result_simps)
  with w(1,2) show ?thesis by (auto dest!: redb_lawsD(3,6) [OF assms(2)])
qed

lemma remove_asset_view:
  assumes "remove_asset R i d = (Inr (), d')" "redb_laws R dr wr rr"
  shows "assets_of (dr d') = (assets_of (dr d))(i := None)"
  using remove_asset_rows [OF assms] by (auto simp: fun_eq_iff assets_of_def)

lemma remove_asset_wf:
  assumes "remove_asset R i d = (Inr (), d')" "redb_laws R dr wr rr" "assets_wf (dr d)"
  shows "assets_wf (dr d')"
  using remove_asset_rows [OF assms(1,2)] assms(3) by (auto simp: assets_wf_def)

lemma get_asset_view:
  assumes "get_asset R i d = Inr x" "redb_laws R dr wr rr"
  shows "x = assets_of (dr d) i"
proof -
  from assms(1) obtain r where r: "rr r = dr d"
    "rbind (db_try (open_table_r R ASSETS r)) (\<lambda>_.
       rbind (db_try (get_r R ASSETS (KBytes (asset_key i)) r)) (\<lambda>found.
         case found of Some row \<Rightarrow> rbind (decode_media_info row) (\<lambda>info. Inr (Some info))
         | None \<Rightarrow> Inr None)) = Inr x"
    unfolding get_asset_def by (rule with_read_txn_Inr [OF _ assms(2)])
  then obtain found where "get_r R ASSETS (KBytes (asset_key i)) r = Inr found"
    "(case found of Some row \<Rightarrow> rbind (decode_media_info row) (\<lambda>info. Inr (Some info))
         | None \<Rightarrow> Inr None) = Inr x"
    by (auto simp: result_simps)
  with redb_lawsD(8) [OF assms(2)] r(1) show ?thesis
    by (fastforce simp: assets_of_def result_simps split: option.splits)
qed

lemma list_assets_view:
  assumes "list_assets R d = Inr ms" "redb_laws R dr wr rr" "assets_wf (dr d)"
  shows "set ms = ran (assets_of (dr d))"
    and "sorted_wrt (<) (map (\<lambda>m. KBytes (asset_key (id m))) ms)"
proof -
  from assms(1) obtain r it where r: "begin_read R d = Inr r" "iter_r R ASSETS r = Inr it"
    "collect_rows (\<lambda>_. decode_media_info) it = Inr ms"
    by (auto simp: list_assets_def result_simps)
  then have "scans (dr d ASSETS) (\<lambda>_. True) it"
    using redb_lawsD(2,9) [OF assms(2)] by metis
  with r(3) obtain kvs where kvs: "iterates (dr d ASSETS) (\<lambda>_. True) kvs"
    "list_all2 (\<lambda>kv m. decode_media_info (snd kv) = Inr m) kvs ms"
    by (rule collect_rows_scans)
  have "set ms = {m. \<exists>k row. dr d ASSETS k = Some row \<and> decode_media_info row = Inr m}"
    using iterates_results [of "dr d ASSETS" "\<lambda>_. True" kvs "\<lambda>_. decode_media_info"] kvs by simp
  also have "\<dots> = ran (assets_of (dr d))"
    using assets_wfD [OF assms(3)] by (force simp: ran_def assets_of_eq_Some)
  finally show "set ms = ran (assets_of (dr d))" .
  have "map fst kvs = map (\<lambda>m. KBytes (asset_key (id m))) ms"
    by (rule iterates_rows [OF kvs(1), where f = "\<lambda>_. decode_media_info"])
      (use kvs(2) in simp, rule assets_wfD [OF assms(3)])
  with kvs(1) show "sorted_wrt (<) (map (\<lambda>m. KBytes (asset_key (id m))) ms)"
    by (simp add: iterates_def)
qed

lemma list_assets_distinct:
  assumes "sorted_wrt (<) (map (\<lambda>m. KBytes (asset_key (id m))) ms)"
  shows "distinct (map id ms)"
proof -
  have "distinct (map (\<lambda>m. KBytes (asset_key (id m))) ms)"
    using assms strict_sorted_iff by blast
  then show ?thesis by (simp add: distinct_map inj_on_def)
qed

end
