(* ===== verification/CacheTable.thy ===== *)
theory CacheTable
  imports Media Redb
begin

text \<open>
  The \<open>cache_entries\<close> table (\<open>tpt-av-asset-db/src/cache_table.rs\<close>): which cache files exist for
  which asset.  The abstract table maps an asset and a cache type to a path (\<open>cache_of\<close>).  An asset's
  rows lie together in key order, which is why the listing may stop at the first foreign key
  (\<open>prefix_contiguous\<close>); the lemmas show that the listing is exactly the recorded entries in the
  order of their types and that invalidation removes exactly the asset's entries and counts them.
\<close>

datatype cache_type = WaveformPeaks | VideoThumbnails | VideoProxy | AudioProxy

fun cache_type_as_u8 :: "cache_type \<Rightarrow> u8" where
  "cache_type_as_u8 WaveformPeaks = 0"
| "cache_type_as_u8 VideoThumbnails = 1"
| "cache_type_as_u8 VideoProxy = 2"
| "cache_type_as_u8 AudioProxy = 3"

definition cache_type_from_u8 :: "u8 \<Rightarrow> cache_type option" where
  "cache_type_from_u8 tag =
     (if tag = 0 then Some WaveformPeaks
      else if tag = 1 then Some VideoThumbnails
      else if tag = 2 then Some VideoProxy
      else if tag = 3 then Some AudioProxy
      else None)"

fun cache_type_display :: "cache_type \<Rightarrow> string" where
  "cache_type_display WaveformPeaks = ''waveform_peaks''"
| "cache_type_display VideoThumbnails = ''video_thumbnails''"
| "cache_type_display VideoProxy = ''video_proxy''"
| "cache_type_display AudioProxy = ''audio_proxy''"

subsection \<open>Operations\<close>

definition record_cache_entry ::
  "('d, 'w, 'r) redb \<Rightarrow> asset_id \<Rightarrow> cache_type \<Rightarrow> string \<Rightarrow> 'd \<Rightarrow> (asset_error + unit) \<times> 'd" where
  "record_cache_entry R i ty cache_path =
     (let key = cache_key i (cache_type_as_u8 ty);
          row = enc_str (to_string_lossy cache_path) enc_new
      in with_write_txn R (\<lambda>txn.
           rbind (db_try (open_table_w R CACHE_ENTRIES txn)) (\<lambda>table.
           rbind (db_try (insert_w R CACHE_ENTRIES (KBytes key) row table)) (\<lambda>table. Inr ((), table)))))"

definition has_cache_entry ::
  "('d, 'w, 'r) redb \<Rightarrow> asset_id \<Rightarrow> cache_type \<Rightarrow> 'd \<Rightarrow> asset_error + bool" where
  "has_cache_entry R i ty d =
     rbind (db_try (begin_read R d)) (\<lambda>txn.
     rbind (db_try (open_table_r R CACHE_ENTRIES txn)) (\<lambda>_.
     rbind (db_try (get_r R CACHE_ENTRIES (KBytes (cache_key i (cache_type_as_u8 ty))) txn)) (\<lambda>found.
       Inr (found \<noteq> None))))"

definition get_cache_entry ::
  "('d, 'w, 'r) redb \<Rightarrow> asset_id \<Rightarrow> cache_type \<Rightarrow> 'd \<Rightarrow> asset_error + string option" where
  "get_cache_entry R i ty d =
     rbind (db_try (begin_read R d)) (\<lambda>txn.
     rbind (db_try (open_table_r R CACHE_ENTRIES txn)) (\<lambda>_.
     rbind (db_try (get_r R CACHE_ENTRIES (KBytes (cache_key i (cache_type_as_u8 ty))) txn)) (\<lambda>found.
       case found of
         Some row \<Rightarrow> rbind (dec_str (dec_new row)) (\<lambda>(p, _). Inr (Some p))
       | None \<Rightarrow> Inr None)))"

fun list_rows :: "bytes \<Rightarrow> row_iter \<Rightarrow> asset_error + (cache_type \<times> string) list" where
  "list_rows prefix [] = Inr []"
| "list_rows prefix (row # it) =
     rbind (db_try row) (\<lambda>(k, v).
       let key = key_slice k in
       if length key \<noteq> 25 \<or> take 24 key \<noteq> prefix then Inr []
       else
         rbind (ok_or (cache_type_from_u8 (key ! 24)) (db ''corrupt row: bad cache type tag'')) (\<lambda>ty.
         rbind (dec_str (dec_new v)) (\<lambda>(p, _).
         rbind (list_rows prefix it) (\<lambda>entries. Inr ((ty, p) # entries)))))"

definition list_cache_entries ::
  "('d, 'w, 'r) redb \<Rightarrow> asset_id \<Rightarrow> 'd \<Rightarrow> asset_error + (cache_type \<times> string) list" where
  "list_cache_entries R i d =
     (let prefix = key_bytes i in
      rbind (db_try (begin_read R d)) (\<lambda>txn.
      rbind (db_try (open_table_r R CACHE_ENTRIES txn)) (\<lambda>_.
      rbind (db_try (range_r R CACHE_ENTRIES (KBytes prefix) txn)) (\<lambda>it. list_rows prefix it))))"

text \<open>The keys that invalidation collects: rows that cannot be read are skipped.\<close>

fun key_of_row :: "bytes \<Rightarrow> string + rkey \<times> bytes \<Rightarrow> bytes option" where
  "key_of_row prefix (Inl e) = None"
| "key_of_row prefix (Inr (k, v)) =
     (if length (key_slice k) = 25 \<and> take 24 (key_slice k) = prefix then Some (key_slice k) else None)"

fun remove_keys ::
  "('d, 'w, 'r) redb \<Rightarrow> bytes list \<Rightarrow> nat \<Rightarrow> 'w \<Rightarrow> asset_error + (nat \<times> 'w)" where
  "remove_keys R [] removed table = Inr (removed, table)"
| "remove_keys R (key # keys) removed table =
     rbind (db_try (remove_w R CACHE_ENTRIES (KBytes key) table)) (\<lambda>(old, table).
       remove_keys R keys (if old \<noteq> None then removed + 1 else removed) table)"

text \<open>
  The code writes out begin, body and commit here; the shape is that of \<open>with_write_txn\<close>.
\<close>

definition invalidate_caches ::
  "('d, 'w, 'r) redb \<Rightarrow> asset_id \<Rightarrow> 'd \<Rightarrow> (asset_error + nat) \<times> 'd" where
  "invalidate_caches R i =
     (let prefix = key_bytes i in
      with_write_txn R (\<lambda>txn.
        rbind (db_try (open_table_w R CACHE_ENTRIES txn)) (\<lambda>table.
        rbind (db_try (range_w R CACHE_ENTRIES (KBytes prefix) table)) (\<lambda>it.
          remove_keys R (List.map_filter (key_of_row prefix) it) 0 table))))"

subsection \<open>Keys\<close>

lemma cache_type_tags [simp]: "cache_type_from_u8 (cache_type_as_u8 t) = Some t"
  by (cases t) (simp_all add: cache_type_from_u8_def)

lemma cache_type_from_u8_Some: "cache_type_from_u8 tag = Some t \<Longrightarrow> cache_type_as_u8 t = tag"
  by (auto simp: cache_type_from_u8_def split: if_splits)

lemma cache_type_as_u8_inject [simp]: "cache_type_as_u8 t = cache_type_as_u8 u \<longleftrightarrow> t = u"
  using cache_type_tags by (metis option.inject)

lemma lex_less_append:
  fixes a b :: "'a::order list"
  shows "a < b \<Longrightarrow> length a = length b \<Longrightarrow> a @ x < b @ y"
  unfolding list_less_def by (rule lexord_sufI) simp_all

lemma lex_prefix_le: "(a :: 'a::order list) \<le> a @ x"
  by (induction a) simp_all

text \<open>A key between an asset's prefix and one of its keys is one of its keys.\<close>

lemma prefix_contiguous:
  assumes "KBytes (key_bytes i) \<le> KBytes (cache_key j u)" "KBytes (cache_key j u) \<le> KBytes (cache_key i t)"
  shows "j = i"
proof (rule ccontr)
  assume "j \<noteq> i"
  then have "key_bytes j \<noteq> key_bytes i" by simp
  then consider "key_bytes j < key_bytes i" | "key_bytes i < key_bytes j" by fastforce
  then show False
  proof cases
    case 1
    then have "key_bytes j @ [u] < key_bytes i @ []" by (rule lex_less_append) simp
    with assms(1) show False by (simp add: cache_key_def)
  next
    case 2
    then have "key_bytes i @ [t] < key_bytes j @ [u]" by (rule lex_less_append) simp
    with assms(2) show False by (simp add: cache_key_def)
  qed
qed

lemma prefix_le_cache_key: "KBytes (key_bytes i) \<le> KBytes (cache_key i t)"
  by (simp add: cache_key_def lex_prefix_le)

subsection \<open>The abstract table\<close>

abbreviation entry_key :: "asset_id \<Rightarrow> cache_type \<Rightarrow> rkey" where
  "entry_key i ty \<equiv> KBytes (cache_key i (cache_type_as_u8 ty))"

definition entry_path :: "bytes \<Rightarrow> string option" where
  "entry_path row = (case dec_str (dec_new row) of Inl _ \<Rightarrow> None | Inr (p, _) \<Rightarrow> Some p)"

definition cache_of :: "rows \<Rightarrow> asset_id \<Rightarrow> cache_type \<Rightarrow> string option" where
  "cache_of rows i ty = Option.bind (rows CACHE_ENTRIES (entry_key i ty)) entry_path"

text \<open>Well formed: every row is a readable path under the key of an asset and a cache type.\<close>

definition cache_wf :: "rows \<Rightarrow> bool" where
  "cache_wf rows \<longleftrightarrow>
     (\<forall>k row. rows CACHE_ENTRIES k = Some row \<longrightarrow>
        (\<exists>i ty p. k = entry_key i ty \<and> entry_path row = Some p))"

lemma entry_path_eq_Some: "entry_path row = Some p \<longleftrightarrow> (\<exists>d. dec_str (dec_new row) = Inr (p, d))"
  by (auto simp: entry_path_def split: sum.splits)

lemma entry_path_enc: "storable_str s \<Longrightarrow> entry_path (enc_str s enc_new) = Some s"
  using codes_whole [OF rc_str.reads_back] by (simp add: entry_path_eq_Some enc_new_def)

lemma cache_of_None: "cache_wf rows \<Longrightarrow> cache_of rows i ty = None \<longleftrightarrow> rows CACHE_ENTRIES (entry_key i ty) = None"
  unfolding cache_wf_def cache_of_def
  by (cases "rows CACHE_ENTRIES (entry_key i ty)") fastforce+

subsection \<open>Recording and looking up\<close>

lemma record_cache_entry_rows:
  assumes "record_cache_entry R i ty p d = (Inr (), d')" "redb_laws R dr wr rr"
  shows "dr d' = (dr d)(CACHE_ENTRIES :=
     (dr d CACHE_ENTRIES)(entry_key i ty \<mapsto> enc_str (to_string_lossy p) enc_new))"
proof -
  from assms(1) obtain w w' where w: "wr w = dr d" "dr d' = wr w'"
    "rbind (db_try (open_table_w R CACHE_ENTRIES w)) (\<lambda>table.
       rbind (db_try (insert_w R CACHE_ENTRIES (entry_key i ty) (enc_str (to_string_lossy p) enc_new) table))
         (\<lambda>table. Inr ((), table))) = Inr ((), w')"
    unfolding record_cache_entry_def Let_def by (rule with_write_txn_Inr [OF _ assms(2)])
  then obtain w0 where "open_table_w R CACHE_ENTRIES w = Inr w0"
    "insert_w R CACHE_ENTRIES (entry_key i ty) (enc_str (to_string_lossy p) enc_new) w0 = Inr w'"
    by (auto simp: result_simps)
  with w(1,2) show ?thesis by (auto dest!: redb_lawsD(3,4) [OF assms(2)])
qed

lemma record_cache_entry_view:
  assumes "record_cache_entry R i ty p d = (Inr (), d')" "redb_laws R dr wr rr"
    and "storable_str (to_string_lossy p)"
  shows "cache_of (dr d') = (cache_of (dr d))(i := (cache_of (dr d) i)(ty \<mapsto> to_string_lossy p))"
  using record_cache_entry_rows [OF assms(1,2)] assms(3)
  by (auto simp: fun_eq_iff cache_of_def entry_path_enc)

lemma record_cache_entry_wf:
  assumes "record_cache_entry R i ty p d = (Inr (), d')" "redb_laws R dr wr rr"
    and "storable_str (to_string_lossy p)" "cache_wf (dr d)"
  shows "cache_wf (dr d')"
  using record_cache_entry_rows [OF assms(1,2)] assms(3,4)
  by (auto simp: cache_wf_def entry_path_enc)

lemma get_cache_entry_view:
  assumes "get_cache_entry R i ty d = Inr x" "redb_laws R dr wr rr"
  shows "x = cache_of (dr d) i ty"
proof -
  from assms(1) obtain r found where r: "begin_read R d = Inr r"
    "get_r R CACHE_ENTRIES (entry_key i ty) r = Inr found"
    "(case found of Some row \<Rightarrow> rbind (dec_str (dec_new row)) (\<lambda>(p, _). Inr (Some p))
       | None \<Rightarrow> Inr None) = Inr x"
    by (auto simp: get_cache_entry_def result_simps)
  then have "found = dr d CACHE_ENTRIES (entry_key i ty)"
    using redb_lawsD(2,8) [OF assms(2)] by metis
  with r(3) show ?thesis
    by (auto simp: cache_of_def entry_path_def result_simps split: option.splits)
qed

lemma has_cache_entry_view:
  assumes "has_cache_entry R i ty d = Inr x" "redb_laws R dr wr rr" "cache_wf (dr d)"
  shows "x \<longleftrightarrow> cache_of (dr d) i ty \<noteq> None"
proof -
  from assms(1) obtain r found where r: "begin_read R d = Inr r"
    "get_r R CACHE_ENTRIES (entry_key i ty) r = Inr found" "x \<longleftrightarrow> found \<noteq> None"
    by (auto simp: has_cache_entry_def result_simps)
  then have "found = dr d CACHE_ENTRIES (entry_key i ty)"
    using redb_lawsD(2,8) [OF assms(2)] by metis
  with r(3) show ?thesis by (simp add: cache_of_None [OF assms(3)])
qed

subsection \<open>Listing\<close>

abbreviation own_key :: "bytes \<Rightarrow> rkey \<Rightarrow> bool" where
  "own_key prefix k \<equiv> length (key_slice k) = 25 \<and> take 24 (key_slice k) = prefix"

definition row_entry :: "rkey \<Rightarrow> bytes \<Rightarrow> asset_error + cache_type \<times> string" where
  "row_entry k v =
     rbind (ok_or (cache_type_from_u8 (key_slice k ! 24)) (db ''corrupt row: bad cache type tag'')) (\<lambda>ty.
     rbind (dec_str (dec_new v)) (\<lambda>(p, _). Inr (ty, p)))"

lemma row_entry_key: "row_entry (entry_key i ty) v = Inr (t, p) \<longleftrightarrow> t = ty \<and> entry_path v = Some p"
  by (auto simp: row_entry_def result_simps entry_path_eq_Some)

lemma list_rows_Inr:
  "list_rows prefix it = Inr es \<Longrightarrow> yields it kvs \<Longrightarrow>
     list_all2 (\<lambda>kv e. row_entry (fst kv) (snd kv) = Inr e) (takeWhile (\<lambda>kv. own_key prefix (fst kv)) kvs) es"
proof (induction it arbitrary: es kvs)
  case (Cons row it)
  from Cons.prems(1) obtain k v where row: "row = Inr (k, v)" by (auto simp: result_simps)
  with Cons.prems(2) obtain kvs' where kvs: "kvs = (k, v) # kvs'" "yields it kvs'" by auto
  show ?case
  proof (cases "own_key prefix k")
    case True
    with Cons.prems(1) row obtain ty p d es' where e: "cache_type_from_u8 (key_slice k ! 24) = Some ty"
      "dec_str (dec_new v) = Inr (p, d)" "list_rows prefix it = Inr es'" "es = (ty, p) # es'"
      by (auto simp: result_simps Let_def)
    with Cons.IH [OF e(3) kvs(2)] True kvs(1) show ?thesis
      by (auto simp: row_entry_def)
  next
    case False
    with Cons.prems(1) row kvs(1) show ?thesis by (auto simp: Let_def)
  qed
qed simp

lemma cache_wfD:
  assumes "cache_wf rows" "rows CACHE_ENTRIES k = Some row"
  obtains i ty p where "k = entry_key i ty" "entry_path row = Some p"
  using assms unfolding cache_wf_def by blast

lemma own_keys_contiguous:
  assumes "cache_wf rows" "iterates (rows CACHE_ENTRIES) (\<lambda>k. KBytes (key_bytes i) \<le> k) kvs"
  shows "takeWhile (\<lambda>kv. own_key (key_bytes i) (fst kv)) kvs =
     filter (\<lambda>kv. own_key (key_bytes i) (fst kv)) kvs"
proof (rule takeWhile_eq_filter_sorted)
  show "sorted_wrt (\<lambda>x y. fst x < fst y) kvs"
    using assms(2) by (simp add: iterates_def sorted_wrt_map)
next
  fix x y
  assume xy: "x \<in> set kvs" "y \<in> set kvs" "fst x < fst y" "own_key (key_bytes i) (fst y)"
  have row: "rows CACHE_ENTRIES (fst z) = Some (snd z) \<and> KBytes (key_bytes i) \<le> fst z" if "z \<in> set kvs" for z
    using that assms(2) unfolding iterates_def by (metis prod.collapse)
  obtain j u where x: "fst x = entry_key j u" using cache_wfD [OF assms(1)] row [OF xy(1)] by metis
  obtain j' u' where y: "fst y = entry_key j' u'" using cache_wfD [OF assms(1)] row [OF xy(2)] by metis
  from y xy(4) have "j' = i" by simp
  with x y xy(3) row [OF xy(1)] have "j = i"
    using prefix_contiguous [of i j "cache_type_as_u8 u" "cache_type_as_u8 u'"]
    by (metis less_imp_le)
  with x show "own_key (key_bytes i) (fst x)" by simp
qed

text \<open>The asset's rows of an iteration.\<close>

lemma own_row:
  assumes "cache_wf rows"
  shows "rows CACHE_ENTRIES k = Some v \<and> KBytes (key_bytes i) \<le> k \<and> own_key (key_bytes i) k \<longleftrightarrow>
     rows CACHE_ENTRIES k = Some v \<and> (\<exists>ty. k = entry_key i ty)"
proof
  assume h: "rows CACHE_ENTRIES k = Some v \<and> KBytes (key_bytes i) \<le> k \<and> own_key (key_bytes i) k"
  with cache_wfD [OF assms] obtain j ty where k: "k = entry_key j ty" by metis
  with h have "j = i" by simp
  with k h show "rows CACHE_ENTRIES k = Some v \<and> (\<exists>ty. k = entry_key i ty)" by blast
qed (use prefix_le_cache_key in auto)

lemma less_cache_key [simp]: "KBytes (cache_key i t) < KBytes (cache_key i u) \<longleftrightarrow> t < u"
proof -
  have "xs @ [a] \<le> xs @ [b] \<longleftrightarrow> a \<le> b" for xs :: bytes and a b by (induction xs) auto
  then show ?thesis by (auto simp: less_rkey_def cache_key_def)
qed

definition all_cache_types :: "cache_type list" where
  "all_cache_types = [WaveformPeaks, VideoThumbnails, VideoProxy, AudioProxy]"

lemma set_all_cache_types: "t \<in> set all_cache_types"
  by (cases t) (simp_all add: all_cache_types_def)

text \<open>The entries of an asset in the order of their types.\<close>

definition entries_of :: "(cache_type \<Rightarrow> string option) \<Rightarrow> (cache_type \<times> string) list" where
  "entries_of m = List.map_filter (\<lambda>t. map_option (Pair t) (m t)) all_cache_types"

lemma set_entries_of: "(t, p) \<in> set (entries_of m) \<longleftrightarrow> m t = Some p"
  using set_all_cache_types [of t] by (auto simp: entries_of_def List.map_filter_def image_iff)

lemma sorted_entries_of: "sorted_wrt (<) (map (\<lambda>e. cache_type_as_u8 (fst e)) (entries_of m))"
  by (simp add: entries_of_def all_cache_types_def List.map_filter_simps split: option.splits)

lemma list_cache_entries_view:
  assumes "list_cache_entries R i d = Inr es" "redb_laws R dr wr rr" "cache_wf (dr d)"
  shows "es = entries_of (cache_of (dr d) i)"
proof -
  from assms(1) obtain r it where r: "begin_read R d = Inr r"
    "range_r R CACHE_ENTRIES (KBytes (key_bytes i)) r = Inr it" "list_rows (key_bytes i) it = Inr es"
    by (auto simp: list_cache_entries_def Let_def result_simps)
  then have "scans (dr d CACHE_ENTRIES) (\<lambda>k. KBytes (key_bytes i) \<le> k) it"
    using redb_lawsD(2,10) [OF assms(2)] by metis
  then obtain kvs where kvs: "iterates (dr d CACHE_ENTRIES) (\<lambda>k. KBytes (key_bytes i) \<le> k) kvs"
    "yields it kvs"
    by (auto simp: scans_def)
  define own where "own = filter (\<lambda>kv. own_key (key_bytes i) (fst kv)) kvs"
  have own: "iterates (dr d CACHE_ENTRIES) (\<lambda>k. KBytes (key_bytes i) \<le> k \<and> own_key (key_bytes i) k) own"
    unfolding own_def by (rule iterates_filter [OF kvs(1)])
  have es: "list_all2 (\<lambda>kv e. row_entry (fst kv) (snd kv) = Inr e) own es"
    using list_rows_Inr [OF r(3) kvs(2)] own_keys_contiguous [OF assms(3) kvs(1)] by (simp add: own_def)
  have "set es = {e. \<exists>k v. dr d CACHE_ENTRIES k = Some v \<and> (\<exists>ty. k = entry_key i ty) \<and> row_entry k v = Inr e}"
    using iterates_results [OF own es] own_row [OF assms(3)] by (smt (verit) Collect_cong)
  also have "\<dots> = set (entries_of (cache_of (dr d) i))"
    by (force simp: row_entry_key set_entries_of cache_of_def Option.bind_eq_Some_conv)
  finally have set: "set es = set (entries_of (cache_of (dr d) i))" .
  have "map fst own = map (\<lambda>e. entry_key i (fst e)) es"
  proof (rule iterates_rows [OF own es])
    fix k v e
    assume "dr d CACHE_ENTRIES k = Some v"
      "KBytes (key_bytes i) \<le> k \<and> own_key (key_bytes i) k" "row_entry k v = Inr e"
    moreover from this obtain ty where "k = entry_key i ty" using own_row [OF assms(3)] by metis
    ultimately show "k = entry_key i (fst e)" by (cases e) (simp add: row_entry_key)
  qed
  then have "sorted_wrt (<) (map (\<lambda>e. cache_type_as_u8 (fst e)) es)"
    using own by (simp add: iterates_def sorted_wrt_map)
  then show ?thesis
    by (rule sorted_by_key_unique [OF _ sorted_entries_of set])
qed

subsection \<open>Invalidation\<close>

lemma map_filter_clean:
  "List.map_filter (key_of_row prefix) (map Inr kvs) =
     map (\<lambda>kv. key_slice (fst kv)) (filter (\<lambda>kv. own_key prefix (fst kv)) kvs)"
  by (induction kvs) (auto simp: List.map_filter_simps)

text \<open>Keys that all have a row are removed one by one, and counted.\<close>

lemma remove_keys_Inr:
  assumes "remove_keys R keys n table = Inr (count, table')" "redb_laws R dr wr rr"
    and "distinct keys" "\<forall>key \<in> set keys. wr table CACHE_ENTRIES (KBytes key) \<noteq> None"
  shows "count = n + length keys \<and> wr table' = (wr table)(CACHE_ENTRIES :=
     (\<lambda>k. if k \<in> KBytes ` set keys then None else wr table CACHE_ENTRIES k))"
  using assms(1,3,4)
proof (induction keys arbitrary: n table)
  case (Cons key keys)
  from Cons.prems(1) obtain old t where rm: "remove_w R CACHE_ENTRIES (KBytes key) table = Inr (old, t)"
    "remove_keys R keys (if old \<noteq> None then n + 1 else n) t = Inr (count, table')"
    by (auto simp: result_simps)
  from redb_lawsD(5,6) [OF assms(2) rm(1)] Cons.prems(3)
  have old: "old \<noteq> None" and t: "wr t = (wr table)(CACHE_ENTRIES := (wr table CACHE_ENTRIES)(KBytes key := None))"
    by auto
  have "count = Suc n + length keys \<and> wr table' = (wr t)(CACHE_ENTRIES :=
     (\<lambda>k. if k \<in> KBytes ` set keys then None else wr t CACHE_ENTRIES k))"
    using rm(2) Cons.prems(2,3) by (intro Cons.IH) (auto simp: old t)
  then show ?case by (auto simp: t fun_eq_iff)
qed auto

lemma invalidate_caches_rows:
  assumes "invalidate_caches R i d = (Inr n, d')" "redb_laws R dr wr rr" "cache_wf (dr d)"
    and clean: "\<And>w it. range_w R CACHE_ENTRIES (KBytes (key_bytes i)) w = Inr it \<Longrightarrow> \<exists>kvs. it = map Inr kvs"
  shows "dr d' = (dr d)(CACHE_ENTRIES :=
           (\<lambda>k. if \<exists>ty. k = entry_key i ty then None else dr d CACHE_ENTRIES k))"
    and "n = card {ty. cache_of (dr d) i ty \<noteq> None}"
proof -
  from assms(1) obtain w w' where w: "wr w = dr d" "dr d' = wr w'"
    "rbind (db_try (open_table_w R CACHE_ENTRIES w)) (\<lambda>table.
       rbind (db_try (range_w R CACHE_ENTRIES (KBytes (key_bytes i)) table)) (\<lambda>it.
         remove_keys R (List.map_filter (key_of_row (key_bytes i)) it) 0 table)) = Inr (n, w')"
    unfolding invalidate_caches_def Let_def by (rule with_write_txn_Inr [OF _ assms(2)])
  then obtain t it where t: "open_table_w R CACHE_ENTRIES w = Inr t"
    "range_w R CACHE_ENTRIES (KBytes (key_bytes i)) t = Inr it"
    "remove_keys R (List.map_filter (key_of_row (key_bytes i)) it) 0 t = Inr (n, w')"
    by (auto simp: result_simps)
  from clean [OF t(2)] obtain kvs where it: "it = map Inr kvs" by blast
  have wr_t: "wr t = dr d" using redb_lawsD(3) [OF assms(2) t(1)] w(1) by simp
  have kvs: "iterates (dr d CACHE_ENTRIES) (\<lambda>k. KBytes (key_bytes i) \<le> k) kvs"
    using redb_lawsD(7) [OF assms(2) t(2)] by (simp add: it scans_clean wr_t)
  define own where "own = filter (\<lambda>kv. own_key (key_bytes i) (fst kv)) kvs"
  define keys where "keys = map (\<lambda>kv. key_slice (fst kv)) own"
  have own: "iterates (dr d CACHE_ENTRIES) (\<lambda>k. KBytes (key_bytes i) \<le> k \<and> own_key (key_bytes i) k) own"
    unfolding own_def by (rule iterates_filter [OF kvs])
  then have mem: "(k, v) \<in> set own \<longleftrightarrow> dr d CACHE_ENTRIES k = Some v \<and> (\<exists>ty. k = entry_key i ty)" for k v
    unfolding iterates_def using own_row [OF assms(3)] by simp
  have KBytes: "map KBytes keys = map fst own"
    using mem by (auto simp: keys_def)
  have "distinct (map fst own)" using own by (simp add: iterates_def strict_sorted_iff)
  then have distinct: "distinct keys" by (metis KBytes distinct_map)
  have keys: "KBytes ` set keys = {entry_key i ty | ty. dr d CACHE_ENTRIES (entry_key i ty) \<noteq> None}"
  proof -
    have "KBytes ` set keys = fst ` set own" by (metis KBytes set_map)
    also have "\<dots> = {entry_key i ty | ty. dr d CACHE_ENTRIES (entry_key i ty) \<noteq> None}"
      using mem by (auto simp: image_iff Bex_def)
    finally show ?thesis .
  qed
  have present: "\<forall>key \<in> set keys. dr d CACHE_ENTRIES (KBytes key) \<noteq> None"
  proof
    fix key assume "key \<in> set keys"
    then have "KBytes key \<in> {entry_key i ty | ty. dr d CACHE_ENTRIES (entry_key i ty) \<noteq> None}"
      unfolding keys [symmetric] by (rule imageI)
    then show "dr d CACHE_ENTRIES (KBytes key) \<noteq> None" by auto
  qed
  have "remove_keys R keys 0 t = Inr (n, w')"
    using t(3) by (simp add: it map_filter_clean keys_def own_def)
  from remove_keys_Inr [OF this assms(2) distinct] present
  have res: "n = length keys" "wr w' = (dr d)(CACHE_ENTRIES :=
     (\<lambda>k. if k \<in> KBytes ` set keys then None else dr d CACHE_ENTRIES k))"
    unfolding wr_t by (simp_all only: simp_thms add_0 if_True)
  show "dr d' = (dr d)(CACHE_ENTRIES :=
      (\<lambda>k. if \<exists>ty. k = entry_key i ty then None else dr d CACHE_ENTRIES k))"
    unfolding w(2) res(2) keys by (auto simp: fun_eq_iff)
  have "n = card (set keys)" using res(1) distinct by (simp add: distinct_card)
  also have "\<dots> = card (KBytes ` set keys)" by (intro card_image [symmetric] inj_onI) simp
  also have "KBytes ` set keys = entry_key i ` {ty. cache_of (dr d) i ty \<noteq> None}"
    unfolding keys by (auto simp: cache_of_None [OF assms(3)])
  also have "card \<dots> = card {ty. cache_of (dr d) i ty \<noteq> None}"
    by (intro card_image inj_onI) simp
  finally show "n = card {ty. cache_of (dr d) i ty \<noteq> None}" .
qed

lemma invalidate_caches_view:
  assumes "invalidate_caches R i d = (Inr n, d')" "redb_laws R dr wr rr" "cache_wf (dr d)"
    and "\<And>w it. range_w R CACHE_ENTRIES (KBytes (key_bytes i)) w = Inr it \<Longrightarrow> \<exists>kvs. it = map Inr kvs"
  shows "cache_of (dr d') = (cache_of (dr d))(i := \<lambda>_. None)" "cache_wf (dr d')"
proof -
  have rows: "dr d' = (dr d)(CACHE_ENTRIES :=
      (\<lambda>k. if \<exists>ty. k = entry_key i ty then None else dr d CACHE_ENTRIES k))"
    by (rule invalidate_caches_rows(1) [OF assms(1-3)]) (rule assms(4))
  show "cache_of (dr d') = (cache_of (dr d))(i := \<lambda>_. None)"
    unfolding rows by (auto simp: fun_eq_iff cache_of_def)
  show "cache_wf (dr d')"
    using assms(3) unfolding rows by (simp add: cache_wf_def)
qed

text \<open>Whatever rows can be read, only those of the asset are removed.\<close>

lemma remove_keys_others:
  "remove_keys R keys n table = Inr (count, table') \<Longrightarrow> redb_laws R dr wr rr \<Longrightarrow>
     (t \<noteq> CACHE_ENTRIES \<longrightarrow> wr table' t = wr table t) \<and> wr table' CACHE_ENTRIES k \<in> {None, wr table CACHE_ENTRIES k} \<and> (k \<notin> KBytes ` set keys \<longrightarrow> wr table' CACHE_ENTRIES k = wr table CACHE_ENTRIES k)"
proof (induction keys arbitrary: n table)
  case (Cons key keys)
  from Cons.prems(1) obtain old t1 where rm: "remove_w R CACHE_ENTRIES (KBytes key) table = Inr (old, t1)"
    "remove_keys R keys (if old \<noteq> None then n + 1 else n) t1 = Inr (count, table')"
    by (auto simp: result_simps)
  from redb_lawsD(6) [OF Cons.prems(2) rm(1)] Cons.IH [OF rm(2) Cons.prems(2)] show ?case
    by (auto split: if_splits)
qed simp

lemma invalidate_caches_spares:
  assumes "invalidate_caches R i d = (r, d')" "redb_laws R dr wr rr"
  shows "t \<noteq> CACHE_ENTRIES \<Longrightarrow> dr d' t = dr d t" "a \<noteq> i \<Longrightarrow> cache_of (dr d') a = cache_of (dr d) a"
    "cache_wf (dr d) \<Longrightarrow> cache_wf (dr d')"
proof -
  have main: "(\<forall>t. t \<noteq> CACHE_ENTRIES \<longrightarrow> dr d' t = dr d t) \<and> (\<forall>k. dr d' CACHE_ENTRIES k \<in> {None, dr d CACHE_ENTRIES k}) \<and>
      (\<forall>a ty. a \<noteq> i \<longrightarrow> dr d' CACHE_ENTRIES (entry_key a ty) = dr d CACHE_ENTRIES (entry_key a ty))"
  proof (cases r)
    case (Inl e)
    with assms(1) have "d' = d" unfolding invalidate_caches_def Let_def by (auto dest: with_write_txn_Inl)
    then show ?thesis by simp
  next
    case (Inr n)
    from assms(1) [unfolded Inr] obtain w w' where w: "wr w = dr d" "dr d' = wr w'"
      "rbind (db_try (open_table_w R CACHE_ENTRIES w)) (\<lambda>table.
         rbind (db_try (range_w R CACHE_ENTRIES (KBytes (key_bytes i)) table)) (\<lambda>it.
           remove_keys R (List.map_filter (key_of_row (key_bytes i)) it) 0 table)) = Inr (n, w')"
      unfolding invalidate_caches_def Let_def by (rule with_write_txn_Inr [OF _ assms(2)])
    then obtain tab it where tab: "open_table_w R CACHE_ENTRIES w = Inr tab"
      "remove_keys R (List.map_filter (key_of_row (key_bytes i)) it) 0 tab = Inr (n, w')"
      by (auto simp: result_simps)
    have same: "wr tab = dr d" using redb_lawsD(3) [OF assms(2) tab(1)] w(1) by simp
    have "take 24 key = key_bytes i" if "key \<in> set (List.map_filter (key_of_row (key_bytes i)) it)" for key
    proof -
      from that obtain row where "key_of_row (key_bytes i) row = Some key" by (auto simp: List.map_filter_def)
      then show ?thesis by (cases row) (auto split: if_splits)
    qed
    then have "entry_key a ty \<notin> KBytes ` set (List.map_filter (key_of_row (key_bytes i)) it)" if "a \<noteq> i" for a ty
      using that by (auto simp: cache_key_def dest!: meta_spec [where x = "key_bytes a @ [cache_type_as_u8 ty]"])
    with remove_keys_others [OF tab(2) assms(2)] show ?thesis unfolding w(2) same by blast
  qed
  then show "t \<noteq> CACHE_ENTRIES \<Longrightarrow> dr d' t = dr d t" "a \<noteq> i \<Longrightarrow> cache_of (dr d') a = cache_of (dr d) a"
    by (auto simp: cache_of_def)
  show "cache_wf (dr d')" if "cache_wf (dr d)"
    unfolding cache_wf_def
  proof (intro allI impI)
    fix k row assume "dr d' CACHE_ENTRIES k = Some row"
    then have "dr d CACHE_ENTRIES k = Some row" using main by (metis empty_iff insert_iff option.distinct(1))
    with that show "\<exists>i ty p. k = entry_key i ty \<and> entry_path row = Some p" by (simp add: cache_wf_def)
  qed
qed

end
