(* ===== verification/JobTable.thy ===== *)
theory JobTable
  imports Media Redb
begin

text \<open>
  The \<open>jobs\<close> table (\<open>tpt-av-asset-db/src/job_table.rs\<close>): the persisted state of pipeline jobs, from
  which a restarted pipeline recovers.  The abstract table maps job ids to records (\<open>jobs_of\<close>).  The
  clock is an argument: nanoseconds since the Unix epoch.
\<close>

datatype job_state = Pending | Running | Completed | Failed | JobCancelled

fun job_state_as_u8 :: "job_state \<Rightarrow> u8" where
  "job_state_as_u8 Pending = 0"
| "job_state_as_u8 Running = 1"
| "job_state_as_u8 Completed = 2"
| "job_state_as_u8 Failed = 3"
| "job_state_as_u8 JobCancelled = 4"

definition job_state_from_u8 :: "u8 \<Rightarrow> job_state option" where
  "job_state_from_u8 tag =
     (if tag = 0 then Some Pending
      else if tag = 1 then Some Running
      else if tag = 2 then Some Completed
      else if tag = 3 then Some Failed
      else if tag = 4 then Some JobCancelled
      else None)"

definition is_terminal :: "job_state \<Rightarrow> bool" where
  "is_terminal s \<longleftrightarrow> s \<in> {Completed, Failed, JobCancelled}"

record job_record =
  job_id :: u64
  asset_id :: asset_id
  job_priority :: priority
  state :: job_state
  kind :: string
  progress :: f64
  resume_hint :: u64
  payload :: string
  created_ms :: u64
  updated_ms :: u64
  error :: "string option"

definition now_ms :: "int \<Rightarrow> u64" where
  "now_ms clock = (if clock < 0 then 0 else of_nat (nat clock div 1000000))"

subsection \<open>Rows\<close>

definition enc_opt_str :: "string option \<Rightarrow> bytes \<Rightarrow> bytes" where
  "enc_opt_str v buf = (case v of Some s \<Rightarrow> enc_str s (enc_u8 1 buf) | None \<Rightarrow> enc_u8 0 buf)"

definition decode_opt_str :: "string option decoder" where
  "decode_opt_str = dbind dec_u8 (\<lambda>t. if t = 1 then dbind dec_str (\<lambda>s. dreturn (Some s)) else dreturn None)"

definition job_row :: "int \<Rightarrow> job_record \<Rightarrow> bytes" where
  "job_row clock r =
     (let row = enc_new;
          row = enc_bytes (asset_key (asset_id r)) row;
          row = enc_u8 (priority_as_u8 (job_priority r)) row;
          row = enc_u8 (job_state_as_u8 (state r)) row;
          row = enc_str (kind r) row;
          row = enc_f64 (progress r) row;
          row = enc_u64 (resume_hint r) row;
          row = enc_str (payload r) row;
          row = enc_u64 (created_ms r) row;
          row = enc_u64 (max (updated_ms r) (now_ms clock)) row
      in enc_opt_str (error r) row)"

definition dec_job_record :: "u64 \<Rightarrow> job_record decoder" where
  "dec_job_record jid =
     dbind (dbind dec_bytes (\<lambda>bs. dlift (from_key_bytes bs))) (\<lambda>aid.
     dbind (dbind dec_u8 (\<lambda>t. dlift (ok_or (priority_from_u8 t) (db ''corrupt row: bad priority'')))) (\<lambda>pr.
     dbind (dbind dec_u8 (\<lambda>t. dlift (ok_or (job_state_from_u8 t) (db ''corrupt row: bad job state'')))) (\<lambda>st.
     dbind dec_str (\<lambda>k. dbind dec_f64 (\<lambda>pg. dbind dec_u64 (\<lambda>rh. dbind dec_str (\<lambda>pl.
     dbind dec_u64 (\<lambda>cr. dbind dec_u64 (\<lambda>up. dbind decode_opt_str (\<lambda>er.
       dreturn \<lparr>job_id = jid, asset_id = aid, job_priority = pr, state = st, kind = k, progress = pg,
         resume_hint = rh, payload = pl, created_ms = cr, updated_ms = up, error = er\<rparr>))))))))))"

definition decode_job_record :: "u64 \<Rightarrow> bytes \<Rightarrow> asset_error + job_record" where
  "decode_job_record jid data = rbind (dec_job_record jid (dec_new data)) (\<lambda>(r, _). Inr r)"

subsection \<open>Operations\<close>

definition upsert_job ::
  "('d, 'w, 'r) redb \<Rightarrow> int \<Rightarrow> job_record \<Rightarrow> 'd \<Rightarrow> (asset_error + unit) \<times> 'd" where
  "upsert_job R clock r =
     (let row = job_row clock r
      in with_write_txn R (\<lambda>txn.
           rbind (db_try (open_table_w R JOBS txn)) (\<lambda>table.
           rbind (db_try (insert_w R JOBS (KNum (job_id r)) row table)) (\<lambda>table. Inr ((), table)))))"

definition get_job :: "('d, 'w, 'r) redb \<Rightarrow> u64 \<Rightarrow> 'd \<Rightarrow> asset_error + job_record option" where
  "get_job R jid d =
     rbind (db_try (begin_read R d)) (\<lambda>txn.
     rbind (db_try (open_table_r R JOBS txn)) (\<lambda>_.
     rbind (db_try (get_r R JOBS (KNum jid) txn)) (\<lambda>found.
       case found of
         Some row \<Rightarrow> rbind (decode_job_record jid row) (\<lambda>r. Inr (Some r))
       | None \<Rightarrow> Inr None)))"

definition delete_job :: "('d, 'w, 'r) redb \<Rightarrow> u64 \<Rightarrow> 'd \<Rightarrow> (asset_error + bool) \<times> 'd" where
  "delete_job R jid =
     with_write_txn R (\<lambda>txn.
       rbind (db_try (open_table_w R JOBS txn)) (\<lambda>table.
       rbind (db_try (remove_w R JOBS (KNum jid) table)) (\<lambda>(removed, table). Inr (removed \<noteq> None, table))))"

definition all_jobs :: "('d, 'w, 'r) redb \<Rightarrow> 'd \<Rightarrow> asset_error + job_record list" where
  "all_jobs R d =
     rbind (db_try (begin_read R d)) (\<lambda>txn.
     rbind (db_try (open_table_r R JOBS txn)) (\<lambda>_.
     rbind (db_try (iter_r R JOBS txn)) (\<lambda>it. collect_rows (\<lambda>k. decode_job_record (key_num k)) it)))"

definition jobs_in_state :: "('d, 'w, 'r) redb \<Rightarrow> job_state \<Rightarrow> 'd \<Rightarrow> asset_error + job_record list" where
  "jobs_in_state R st d = rbind (all_jobs R d) (\<lambda>jobs. Inr (filter (\<lambda>job. state job = st) jobs))"

subsection \<open>The row codec\<close>

lemma job_state_tags [simp]: "job_state_from_u8 (job_state_as_u8 s) = Some s"
  by (cases s) (simp_all add: job_state_from_u8_def)

lemma job_state_from_u8_Some: "job_state_from_u8 tag = Some s \<Longrightarrow> job_state_as_u8 s = tag"
  by (auto simp: job_state_from_u8_def split: if_splits)

interpretation rc_opt_str: row_codec enc_opt_str decode_opt_str "\<lambda>v. \<forall>s. v = Some s \<longrightarrow> storable_str s"
proof unfold_locales
  fix v :: "string option"
  assume v: "\<forall>s. v = Some s \<longrightarrow> storable_str s"
  show "codes decode_opt_str (enc_opt_str v []) v"
  proof (cases v)
    case None
    then show ?thesis using optional_None by (simp add: decode_opt_str_def enc_opt_str_def enc_u8_def)
  next
    case (Some s)
    with v have "storable_str s" by simp
    from rc_str.optional_Some [OF this] Some show ?thesis
      by (simp add: decode_opt_str_def enc_opt_str_def enc_defs)
  qed
qed (simp add: enc_opt_str_def enc_defs split: option.splits)

definition storable_job :: "job_record \<Rightarrow> bool" where
  "storable_job r \<longleftrightarrow>
     storable_str (kind r) \<and> storable_str (payload r) \<and> (\<forall>s. error r = Some s \<longrightarrow> storable_str s)"

definition stored_job :: "int \<Rightarrow> job_record \<Rightarrow> job_record" where
  "stored_job clock r = r\<lparr>updated_ms := max (updated_ms r) (now_ms clock)\<rparr>"

lemma stored_job_simps [simp]: "job_id (stored_job clock r) = job_id r" "state (stored_job clock r) = state r"
  by (simp_all add: stored_job_def)

lemma job_row_fields:
  "job_row clock r =
     enc_bytes (asset_key (asset_id r)) [] @ [priority_as_u8 (job_priority r)] @ [job_state_as_u8 (state r)] @
     enc_str (kind r) [] @ enc_f64 (progress r) [] @ enc_u64 (resume_hint r) [] @ enc_str (payload r) [] @
     enc_u64 (created_ms r) [] @ enc_u64 (max (updated_ms r) (now_ms clock)) [] @ enc_opt_str (error r) []"
  by (cases "error r") (simp_all add: job_row_def Let_def enc_opt_str_def enc_defs enc_new_def)

lemma codes_asset_key:
  "codes (dbind dec_bytes (\<lambda>bs. dlift (from_key_bytes bs))) (enc_bytes (asset_key i) []) i"
  by (rule codes_bind_last [OF rc_bytes.reads_back]) (simp_all add: asset_key_def codes_lift)

lemma codes_priority:
  "codes (dbind dec_u8 (\<lambda>t. dlift (ok_or (priority_from_u8 t) e))) [priority_as_u8 p] p"
  by (rule codes_bind_last [OF codes_tag]) (simp add: codes_lift)

lemma codes_job_state:
  "codes (dbind dec_u8 (\<lambda>t. dlift (ok_or (job_state_from_u8 t) e))) [job_state_as_u8 s] s"
  by (rule codes_bind_last [OF codes_tag]) (simp add: codes_lift)

lemma codes_job:
  assumes "storable_job r"
  shows "codes (dec_job_record (job_id r)) (job_row clock r) (stored_job clock r)"
proof -
  have strs: "storable_str (kind r)" "storable_str (payload r)" "\<forall>s. error r = Some s \<longrightarrow> storable_str s"
    using assms by (simp_all add: storable_job_def)
  have whole: "stored_job clock r = \<lparr>job_id = job_id r, asset_id = asset_id r, job_priority = job_priority r,
      state = state r, kind = kind r, progress = progress r, resume_hint = resume_hint r,
      payload = payload r, created_ms = created_ms r, updated_ms = max (updated_ms r) (now_ms clock),
      error = error r\<rparr>"
    by (simp add: stored_job_def)
  show ?thesis
    unfolding job_row_fields dec_job_record_def whole
    by (rule codes_asset_key codes_priority codes_job_state field_reads_back(1-5) rc_str.reads_back [OF strs(1)]
        rc_str.reads_back [OF strs(2)] rc_opt_str.reads_back [OF strs(3)]
        codes_bind codes_bind_last codes_return)+
qed

lemma decode_job_row: "storable_job r \<Longrightarrow> decode_job_record (job_id r) (job_row clock r) = Inr (stored_job clock r)"
  using codes_whole [OF codes_job] by (simp add: decode_job_record_def)

text \<open>Unlike an asset row, a job row may be followed by bytes that are not read.\<close>

lemma decode_job_row_trailing:
  "storable_job r \<Longrightarrow> decode_job_record (job_id r) (job_row clock r @ rest) = Inr (stored_job clock r)"
  using codes_job [of r clock] decodesD [of "dec_job_record (job_id r)" "job_row clock r" "stored_job clock r" "[]" rest]
  by (simp add: codes_def decode_job_record_def dec_new_def)

lemma decode_cut_job_row:
  assumes "storable_job r" "job_row clock r = part @ rest" "rest \<noteq> []"
  shows "\<exists>e. decode_job_record (job_id r) part = Inl (Db e)"
  using codes_whole_cut [OF codes_job [OF assms(1)] assms(2,3)]
  by (auto simp: decode_job_record_def)

lemma decode_job_record_id: "decode_job_record jid row = Inr r \<Longrightarrow> job_id r = jid"
  by (auto simp: decode_job_record_def dec_job_record_def dbind_def dreturn_def result_simps)

subsection \<open>The abstract table\<close>

definition jobs_of :: "rows \<Rightarrow> u64 \<Rightarrow> job_record option" where
  "jobs_of rows jid =
     (case rows JOBS (KNum jid) of
        None \<Rightarrow> None
      | Some row \<Rightarrow> (case decode_job_record jid row of Inl _ \<Rightarrow> None | Inr r \<Rightarrow> Some r))"

definition jobs_wf :: "rows \<Rightarrow> bool" where
  "jobs_wf rows \<longleftrightarrow>
     (\<forall>k row. rows JOBS k = Some row \<longrightarrow> (\<exists>jid r. k = KNum jid \<and> decode_job_record jid row = Inr r))"

lemma jobs_of_eq_Some:
  "jobs_of rows jid = Some r \<longleftrightarrow>
     (\<exists>row. rows JOBS (KNum jid) = Some row \<and> decode_job_record jid row = Inr r)"
  by (simp add: jobs_of_def split: option.splits sum.splits)

lemma jobs_of_id: "jobs_of rows jid = Some r \<Longrightarrow> job_id r = jid"
  by (auto simp: jobs_of_eq_Some dest: decode_job_record_id)

lemma upsert_job_rows:
  assumes "upsert_job R clock r d = (Inr (), d')" "redb_laws R dr wr rr"
  shows "dr d' = (dr d)(JOBS := (dr d JOBS)(KNum (job_id r) \<mapsto> job_row clock r))"
proof -
  from assms(1) obtain w w' where w: "wr w = dr d" "dr d' = wr w'"
    "rbind (db_try (open_table_w R JOBS w)) (\<lambda>table.
       rbind (db_try (insert_w R JOBS (KNum (job_id r)) (job_row clock r) table))
         (\<lambda>table. Inr ((), table))) = Inr ((), w')"
    unfolding upsert_job_def Let_def by (rule with_write_txn_Inr [OF _ assms(2)])
  then obtain w0 where "open_table_w R JOBS w = Inr w0"
    "insert_w R JOBS (KNum (job_id r)) (job_row clock r) w0 = Inr w'"
    by (auto simp: result_simps)
  with w(1,2) show ?thesis by (auto dest!: redb_lawsD(3,4) [OF assms(2)])
qed

lemma upsert_job_view:
  assumes "upsert_job R clock r d = (Inr (), d')" "redb_laws R dr wr rr" "storable_job r"
  shows "jobs_of (dr d') = (jobs_of (dr d))(job_id r \<mapsto> stored_job clock r)"
  using upsert_job_rows [OF assms(1,2)] decode_job_row [OF assms(3)]
  by (auto simp: fun_eq_iff jobs_of_def)

lemma upsert_job_wf:
  assumes "upsert_job R clock r d = (Inr (), d')" "redb_laws R dr wr rr" "storable_job r" "jobs_wf (dr d)"
  shows "jobs_wf (dr d')"
  using upsert_job_rows [OF assms(1,2)] decode_job_row [OF assms(3), of clock] assms(4)
  by (auto simp: jobs_wf_def)

lemma upsert_job_error:
  assumes "upsert_job R clock r d = (Inl e, d')"
  shows "d' = d \<and> (\<exists>t. e = Db t)"
proof
  show "d' = d" using assms unfolding upsert_job_def Let_def by (rule with_write_txn_Inl)
  show "\<exists>t. e = Db t"
    using assms unfolding upsert_job_def Let_def
    by (rule with_write_txn_err) (auto simp: result_simps dest: db_try_eq_Inl)
qed

lemma get_job_view:
  assumes "get_job R jid d = Inr x" "redb_laws R dr wr rr"
  shows "x = jobs_of (dr d) jid"
proof -
  from assms(1) obtain r found where r: "begin_read R d = Inr r" "get_r R JOBS (KNum jid) r = Inr found"
    "(case found of Some row \<Rightarrow> rbind (decode_job_record jid row) (\<lambda>r. Inr (Some r)) | None \<Rightarrow> Inr None) = Inr x"
    by (auto simp: get_job_def result_simps)
  then have "found = dr d JOBS (KNum jid)"
    using redb_lawsD(2,8) [OF assms(2)] by metis
  with r(3) show ?thesis
    by (auto simp: jobs_of_def result_simps split: option.splits)
qed

lemma delete_job_view:
  assumes "delete_job R jid d = (Inr b, d')" "redb_laws R dr wr rr"
  shows "dr d' = (dr d)(JOBS := (dr d JOBS)(KNum jid := None))"
    and "jobs_of (dr d') = (jobs_of (dr d))(jid := None)" "b \<longleftrightarrow> dr d JOBS (KNum jid) \<noteq> None"
proof -
  from assms(1) obtain w w' where w: "wr w = dr d" "dr d' = wr w'"
    "rbind (db_try (open_table_w R JOBS w)) (\<lambda>table.
       rbind (db_try (remove_w R JOBS (KNum jid) table)) (\<lambda>(removed, table). Inr (removed \<noteq> None, table))) = Inr (b, w')"
    unfolding delete_job_def by (rule with_write_txn_Inr [OF _ assms(2)])
  then obtain w0 old where o: "open_table_w R JOBS w = Inr w0"
    "remove_w R JOBS (KNum jid) w0 = Inr (old, w')" "b \<longleftrightarrow> old \<noteq> None"
    by (auto simp: result_simps)
  have "wr w0 = dr d" using redb_lawsD(3) [OF assms(2) o(1)] w(1) by simp
  with w(2) o(3) have rows: "dr d' = (dr d)(JOBS := (dr d JOBS)(KNum jid := None)) \<and>
      (b \<longleftrightarrow> dr d JOBS (KNum jid) \<noteq> None)"
    using redb_lawsD(5,6) [OF assms(2) o(2)] by simp
  then show "dr d' = (dr d)(JOBS := (dr d JOBS)(KNum jid := None))" "b \<longleftrightarrow> dr d JOBS (KNum jid) \<noteq> None"
    by blast+
  show "jobs_of (dr d') = (jobs_of (dr d))(jid := None)"
    using rows by (auto simp: fun_eq_iff jobs_of_def)
qed

lemma all_jobs_view:
  assumes "all_jobs R d = Inr js" "redb_laws R dr wr rr" "jobs_wf (dr d)"
  shows "set js = ran (jobs_of (dr d))" and "sorted_wrt (<) (map job_id js)"
proof -
  from assms(1) obtain r it where r: "begin_read R d = Inr r" "iter_r R JOBS r = Inr it"
    "collect_rows (\<lambda>k. decode_job_record (key_num k)) it = Inr js"
    by (auto simp: all_jobs_def result_simps)
  then have "scans (dr d JOBS) (\<lambda>_. True) it"
    using redb_lawsD(2,9) [OF assms(2)] by metis
  with r(3) obtain kvs where kvs: "iterates (dr d JOBS) (\<lambda>_. True) kvs"
    "list_all2 (\<lambda>kv j. decode_job_record (key_num (fst kv)) (snd kv) = Inr j) kvs js"
    by (rule collect_rows_scans)
  have key: "k = KNum (job_id j)" if "dr d JOBS k = Some v" "decode_job_record (key_num k) v = Inr j" for k v j
  proof -
    from assms(3) that(1) obtain jid where "k = KNum jid" unfolding jobs_wf_def by blast
    with decode_job_record_id [OF that(2)] show ?thesis by simp
  qed
  have "set js = {j. \<exists>k v. dr d JOBS k = Some v \<and> decode_job_record (key_num k) v = Inr j}"
    using iterates_results [of "dr d JOBS" "\<lambda>_. True" kvs "\<lambda>k. decode_job_record (key_num k)"] kvs by simp
  also have "\<dots> = ran (jobs_of (dr d))"
    using key by (force simp: ran_def jobs_of_eq_Some)
  finally show "set js = ran (jobs_of (dr d))" .
  have "map fst kvs = map (\<lambda>j. KNum (job_id j)) js"
    by (rule iterates_rows [OF kvs(1), where f = "\<lambda>k. decode_job_record (key_num k)"]) (use kvs(2) key in auto)
  with kvs(1) show "sorted_wrt (<) (map job_id js)"
    by (simp add: iterates_def sorted_wrt_map less_rkey_def less_le_not_le)
qed

lemma jobs_in_state_view:
  assumes "jobs_in_state R st d = Inr js" "redb_laws R dr wr rr" "jobs_wf (dr d)"
  shows "set js = {j \<in> ran (jobs_of (dr d)). state j = st}" and "sorted_wrt (<) (map job_id js)"
proof -
  from assms(1) obtain js' where js': "all_jobs R d = Inr js'" "js = filter (\<lambda>job. state job = st) js'"
    by (auto simp: jobs_in_state_def result_simps)
  with all_jobs_view [OF js'(1) assms(2,3)]
  show "set js = {j \<in> ran (jobs_of (dr d)). state j = st}" "sorted_wrt (<) (map job_id js)"
    by (auto simp: sorted_wrt_map sorted_wrt_filter)
qed

end
