(* ===== verification/Files.thy ===== *)
theory Files
  imports Paths Errors
begin

text \<open>
  What the code uses of \<open>std::fs\<close> and \<open>std::io\<close>.

  A program step on a state is a function that returns a result and the new state; \<open>then_try\<close> is the
  question-mark operator between two of them, which keeps the state changes made before an error.

  \<open>file_system\<close> is a tree of files and directories by path (two paths name the same node when Rust
  compares them equal); \<open>fails\<close> says which calls the operating system refuses, and a refused call
  changes nothing.  There are no links, and the absolute and the relative paths are two trees.

  \<open>open_file\<close> is a file behind a handle.  \<open>faults\<close> lists how its next operations end: a write that
  fails may have written a first part of its bytes.
\<close>

subsection \<open>Steps on a state\<close>

type_synonym ('s, 'a) step = "'s \<Rightarrow> (asset_error + 'a) \<times> 's"

definition then_try :: "('s, 'a) step \<Rightarrow> ('a \<Rightarrow> ('s, 'b) step) \<Rightarrow> ('s, 'b) step" where
  "then_try m f s = (case m s of (Inl e, s) \<Rightarrow> (Inl e, s) | (Inr x, s) \<Rightarrow> f x s)"

definition give :: "'a \<Rightarrow> ('s, 'a) step" where "give x s = (Inr x, s)"
definition fail :: "asset_error \<Rightarrow> ('s, 'a) step" where "fail e s = (Inl e, s)"

lemma then_try_give [simp]: "then_try (give x) f s = f x s"
  by (simp add: then_try_def give_def)

lemma then_try_fail [simp]: "then_try (fail e) f s = (Inl e, s)"
  by (simp add: then_try_def fail_def)

lemma then_try_Inr: "m s = (Inr x, s') \<Longrightarrow> then_try m f s = f x s'"
  by (simp add: then_try_def)

lemma then_try_Inl: "m s = (Inl e, s') \<Longrightarrow> then_try m f s = (Inl e, s')"
  by (simp add: then_try_def)

lemma then_try_eq_Inr [result_simps]:
  "then_try m f s = (Inr y, s') \<longleftrightarrow> (\<exists>x s1. m s = (Inr x, s1) \<and> f x s1 = (Inr y, s'))"
  by (auto simp: then_try_def split: prod.splits sum.splits)

lemma then_tryE:
  assumes "then_try m f s = (r, s')"
  obtains (failed) e where "m s = (Inl e, s')" "r = Inl e"
  | (went_on) x s1 where "m s = (Inr x, s1)" "f x s1 = (r, s')"
  using assms by (auto simp: then_try_def split: prod.splits sum.splits)

lemma give_eq [simp]: "give x s = (r, s') \<longleftrightarrow> r = Inr x \<and> s' = s"
  by (auto simp: give_def)

lemma fail_eq [simp]: "fail e s = (r, s') \<longleftrightarrow> r = Inl e \<and> s' = s"
  by (auto simp: fail_def)

text \<open>From \<open>P\<close>, a step ends in \<open>Q\<close> with its result or in \<open>E\<close> with an error.\<close>

definition ends_in :: "('s \<Rightarrow> bool) \<Rightarrow> ('s, 'a) step \<Rightarrow> ('a \<Rightarrow> 's \<Rightarrow> bool) \<Rightarrow> ('s \<Rightarrow> bool) \<Rightarrow> bool" where
  "ends_in P m Q E \<longleftrightarrow>
     (\<forall>s r s'. P s \<longrightarrow> m s = (r, s') \<longrightarrow> (case r of Inl _ \<Rightarrow> E s' | Inr x \<Rightarrow> Q x s'))"

lemma ends_inI: "(\<And>s r s'. P s \<Longrightarrow> m s = (r, s') \<Longrightarrow> case r of Inl _ \<Rightarrow> E s' | Inr x \<Rightarrow> Q x s') \<Longrightarrow> ends_in P m Q E"
  by (simp add: ends_in_def)

lemma ends_inD: "ends_in P m Q E \<Longrightarrow> P s \<Longrightarrow> m s = (r, s') \<Longrightarrow> case r of Inl _ \<Rightarrow> E s' | Inr x \<Rightarrow> Q x s'"
  by (simp add: ends_in_def)

lemma ends_in_then:
  assumes "ends_in P m Q E" "\<And>x. ends_in (Q x) (f x) R E"
  shows "ends_in P (then_try m f) R E"
proof (rule ends_inI)
  fix s r s' assume "P s" "then_try m f s = (r, s')"
  from this(2) show "case r of Inl _ \<Rightarrow> E s' | Inr x \<Rightarrow> R x s'"
  proof (rule then_tryE)
    fix e assume "m s = (Inl e, s')" "r = Inl e"
    then show ?thesis using ends_inD [OF assms(1) \<open>P s\<close>] by force
  next
    fix x s1 assume m: "m s = (Inr x, s1)" and f: "f x s1 = (r, s')"
    have "Q x s1" using ends_inD [OF assms(1) \<open>P s\<close> m] by simp
    then show ?thesis by (rule ends_inD [OF assms(2) _ f])
  qed
qed

lemma ends_in_give: "(\<And>s. P s \<Longrightarrow> Q x s) \<Longrightarrow> ends_in P (give x) Q E"
  by (auto simp: ends_in_def)

lemma ends_in_weaken: "ends_in P m Q E \<Longrightarrow> (\<And>s. P' s \<Longrightarrow> P s) \<Longrightarrow> (\<And>x s. Q x s \<Longrightarrow> Q' x s) \<Longrightarrow>
    (\<And>s. E s \<Longrightarrow> E' s) \<Longrightarrow> ends_in P' m Q' E'"
  unfolding ends_in_def by (fastforce split: sum.splits)

subsection \<open>The file system\<close>

type_synonym file_key = "bool \<times> string list"

definition path_key :: "string \<Rightarrow> file_key" where "path_key p = (is_absolute p, components p)"

datatype node = FileNode bytes | DirNode

datatype fs_call = Stat | ReadCall | WriteCall | RemoveFileCall | RemoveDirCall | CreateDirCall

record file_system =
  nodes :: "file_key \<Rightarrow> node option"
  fails :: "fs_call \<Rightarrow> file_key \<Rightarrow> io_error option"

definition not_found :: io_error where
  "not_found = IoError NotFoundKind ''No such file or directory (os error 2)''"
definition is_a_directory :: io_error where
  "is_a_directory = IoError OtherKind ''Is a directory (os error 21)''"
definition not_a_directory :: io_error where
  "not_a_directory = IoError OtherKind ''Not a directory (os error 20)''"
definition end_of_file :: io_error where
  "end_of_file = IoError UnexpectedEofKind ''failed to fill whole buffer''"

definition fs_node :: "string \<Rightarrow> file_system \<Rightarrow> node option" where
  "fs_node p fs = (if fails fs Stat (path_key p) = None then nodes fs (path_key p) else None)"

definition fs_exists :: "string \<Rightarrow> file_system \<Rightarrow> bool" where
  "fs_exists p fs \<longleftrightarrow> fs_node p fs \<noteq> None"

definition fs_is_dir :: "string \<Rightarrow> file_system \<Rightarrow> bool" where
  "fs_is_dir p fs \<longleftrightarrow> fs_node p fs = Some DirNode"

definition fs_is_file :: "string \<Rightarrow> file_system \<Rightarrow> bool" where
  "fs_is_file p fs \<longleftrightarrow> (\<exists>bs. fs_node p fs = Some (FileNode bs))"

text \<open>A key at or below another one.\<close>

definition key_below :: "file_key \<Rightarrow> file_key \<Rightarrow> bool" where
  "key_below k a \<longleftrightarrow> fst k = fst a \<and> take (length (snd a)) (snd k) = snd a"

definition fs_try :: "fs_call \<Rightarrow> string \<Rightarrow> (file_key \<Rightarrow> (file_system, 'a) step) \<Rightarrow> (file_system, 'a) step" where
  "fs_try c p f fs =
     (case fails fs c (path_key p) of Some e \<Rightarrow> (Inl (Io e), fs) | None \<Rightarrow> f (path_key p) fs)"

definition set_nodes :: "((file_key \<Rightarrow> node option) \<Rightarrow> file_key \<Rightarrow> node option) \<Rightarrow> (file_system, unit) step" where
  "set_nodes f fs = (Inr (), fs\<lparr>nodes := f (nodes fs)\<rparr>)"

definition remove_file :: "string \<Rightarrow> (file_system, unit) step" where
  "remove_file p = fs_try RemoveFileCall p (\<lambda>k fs.
     case nodes fs k of
       None \<Rightarrow> (Inl (Io not_found), fs)
     | Some DirNode \<Rightarrow> (Inl (Io is_a_directory), fs)
     | Some (FileNode _) \<Rightarrow> set_nodes (\<lambda>t. t(k := None)) fs)"

definition remove_dir_all :: "string \<Rightarrow> (file_system, unit) step" where
  "remove_dir_all p = fs_try RemoveDirCall p (\<lambda>k fs.
     case nodes fs k of
       None \<Rightarrow> (Inl (Io not_found), fs)
     | Some (FileNode _) \<Rightarrow> (Inl (Io not_a_directory), fs)
     | Some DirNode \<Rightarrow> set_nodes (\<lambda>t k'. if key_below k' k then None else t k') fs)"

text \<open>The directories on the way to a key, itself included.\<close>

definition dirs_to :: "file_key \<Rightarrow> file_key list" where
  "dirs_to k = map (\<lambda>n. (fst k, take (Suc n) (snd k))) [0..<length (snd k)]"

definition is_file_node :: "node option \<Rightarrow> bool" where
  "is_file_node n \<longleftrightarrow> (case n of Some (FileNode _) \<Rightarrow> True | _ \<Rightarrow> False)"

definition create_dir_all :: "string \<Rightarrow> (file_system, unit) step" where
  "create_dir_all p = fs_try CreateDirCall p (\<lambda>k fs.
     if list_ex (\<lambda>k'. is_file_node (nodes fs k')) (dirs_to k) then (Inl (Io not_a_directory), fs)
     else set_nodes (\<lambda>t k'. if k' \<in> set (dirs_to k) then Some DirNode else t k') fs)"

text \<open>\<open>File::create\<close> and \<open>fs::write\<close>: the directory of the file must be there.\<close>

definition write_file :: "string \<Rightarrow> bytes \<Rightarrow> (file_system, unit) step" where
  "write_file p bs = fs_try WriteCall p (\<lambda>k fs.
     if nodes fs k = Some DirNode then (Inl (Io is_a_directory), fs)
     else if list_ex (\<lambda>k'. nodes fs k' \<noteq> Some DirNode) (butlast (dirs_to k)) then (Inl (Io not_found), fs)
     else set_nodes (\<lambda>t. t(k \<mapsto> FileNode bs)) fs)"

definition read_file :: "string \<Rightarrow> (file_system, bytes) step" where
  "read_file p = fs_try ReadCall p (\<lambda>k fs.
     case nodes fs k of
       None \<Rightarrow> (Inl (Io not_found), fs)
     | Some DirNode \<Rightarrow> (Inl (Io is_a_directory), fs)
     | Some (FileNode bs) \<Rightarrow> (Inr bs, fs))"

lemma fs_node_keep: "fails fs' = fails fs \<Longrightarrow> nodes fs' (path_key p) = nodes fs (path_key p) \<Longrightarrow>
    fs_node p fs' = fs_node p fs"
  by (simp add: fs_node_def)

lemma remove_file_Inr:
  "remove_file p fs = (Inr u, fs') \<longleftrightarrow>
     fails fs RemoveFileCall (path_key p) = None \<and> is_file_node (nodes fs (path_key p)) \<and>
     fs' = fs\<lparr>nodes := (nodes fs)(path_key p := None)\<rparr>"
  by (auto simp: remove_file_def fs_try_def set_nodes_def is_file_node_def split: option.splits node.splits)

lemma remove_dir_all_Inr:
  "remove_dir_all p fs = (Inr u, fs') \<longleftrightarrow>
     fails fs RemoveDirCall (path_key p) = None \<and> nodes fs (path_key p) = Some DirNode \<and>
     fs' = fs\<lparr>nodes := (\<lambda>k. if key_below k (path_key p) then None else nodes fs k)\<rparr>"
  by (auto simp: remove_dir_all_def fs_try_def set_nodes_def split: option.splits node.splits)

lemma remove_file_Inl: "remove_file p fs = (Inl e, fs') \<Longrightarrow> fs' = fs"
  by (auto simp: remove_file_def fs_try_def set_nodes_def split: option.splits node.splits)

lemma remove_dir_all_Inl: "remove_dir_all p fs = (Inl e, fs') \<Longrightarrow> fs' = fs"
  by (auto simp: remove_dir_all_def fs_try_def set_nodes_def split: option.splits node.splits)

lemma key_below_self [simp]: "key_below k k"
  by (simp add: key_below_def)

subsection \<open>Open files\<close>

record open_file =
  content :: bytes
  offset :: nat
  faults :: "(nat \<times> io_error) option list"

text \<open>Bytes written at an offset; a gap before it reads as zeros.\<close>

definition overwrite :: "nat \<Rightarrow> bytes \<Rightarrow> bytes \<Rightarrow> bytes" where
  "overwrite p bs c =
     (if bs = [] then c
      else take p (c @ replicate (p - length c) 0) @ bs @ drop (p + length bs) c)"

definition next_fault :: "open_file \<Rightarrow> (nat \<times> io_error) option \<times> open_file" where
  "next_fault f = (case faults f of [] \<Rightarrow> (None, f) | x # xs \<Rightarrow> (x, f\<lparr>faults := xs\<rparr>))"

definition file_seek :: "nat \<Rightarrow> (open_file, unit) step" where
  "file_seek p f =
     (case next_fault f of
        (Some (_, e), f) \<Rightarrow> (Inl (Io e), f)
      | (None, f) \<Rightarrow> (Inr (), f\<lparr>offset := p\<rparr>))"

definition file_len :: "(open_file, nat) step" where
  "file_len f =
     (case next_fault f of
        (Some (_, e), f) \<Rightarrow> (Inl (Io e), f)
      | (None, f) \<Rightarrow> (Inr (length (content f)), f))"

definition file_set_len :: "nat \<Rightarrow> (open_file, unit) step" where
  "file_set_len n f =
     (case next_fault f of
        (Some (_, e), f) \<Rightarrow> (Inl (Io e), f)
      | (None, f) \<Rightarrow> (Inr (), f\<lparr>content := take n (content f) @ replicate (n - length (content f)) 0\<rparr>))"

definition file_sync :: "(open_file, unit) step" where
  "file_sync f = (case next_fault f of (Some (_, e), f) \<Rightarrow> (Inl (Io e), f) | (None, f) \<Rightarrow> (Inr (), f))"

definition put_bytes :: "bytes \<Rightarrow> open_file \<Rightarrow> open_file" where
  "put_bytes bs f = f\<lparr>content := overwrite (offset f) bs (content f), offset := offset f + length bs\<rparr>"

definition file_write :: "bytes \<Rightarrow> (open_file, unit) step" where
  "file_write bs f =
     (case next_fault f of
        (Some (n, e), f) \<Rightarrow> (Inl (Io e), put_bytes (take n bs) f)
      | (None, f) \<Rightarrow> (Inr (), put_bytes bs f))"

text \<open>A positioned read of \<open>n\<close> bytes, which leaves the offset of the handle alone.\<close>

definition read_exact_at :: "nat \<Rightarrow> nat \<Rightarrow> (open_file, bytes) step" where
  "read_exact_at p n f =
     (case next_fault f of
        (Some (_, e), f) \<Rightarrow> (Inl (Io e), f)
      | (None, f) \<Rightarrow>
          if p + n \<le> length (content f) then (Inr (take n (drop p (content f))), f)
          else (Inl (Io end_of_file), f))"

text \<open>The bytes of a file from \<open>p\<close> on, \<open>n\<close> of them.\<close>

definition slice :: "nat \<Rightarrow> nat \<Rightarrow> bytes \<Rightarrow> bytes" where "slice p n c = take n (drop p c)"

lemma length_overwrite: "bs \<noteq> [] \<Longrightarrow> length (overwrite p bs c) = max (length c) (p + length bs)"
  by (auto simp: overwrite_def)

lemma length_overwrite_ge: "length c \<le> length (overwrite p bs c)"
  by (cases "bs = []") (simp_all add: overwrite_def)

lemma nth_overwrite:
  assumes "i < length (overwrite p bs c)"
  shows "overwrite p bs c ! i =
    (if p \<le> i \<and> i < p + length bs then bs ! (i - p) else if i < length c then c ! i else 0)"
proof (cases "bs = []")
  case True
  with assms show ?thesis by (auto simp: overwrite_def)
next
  case False
  with assms have "i < max (length c) (p + length bs)" by (simp add: length_overwrite)
  with False show ?thesis by (auto simp: overwrite_def nth_append min_def)
qed

lemma length_slice: "length (slice p n c) = min n (length c - p)"
  by (simp add: slice_def)

lemma nth_slice: "i < length (slice p n c) \<Longrightarrow> slice p n c ! i = c ! (p + i)"
  by (cases "p \<le> length c") (simp_all add: slice_def)

lemma slice_overwrite_same: "p + length bs \<le> length c \<Longrightarrow> slice p (length bs) (overwrite p bs c) = bs"
  by (cases "bs = []") (simp_all add: slice_def overwrite_def)

lemma slice_overwrite_other:
  assumes "p + n \<le> length c" "p + n \<le> q \<or> q + length bs \<le> p"
  shows "slice p n (overwrite q bs c) = slice p n c"
proof (rule nth_equalityI)
  show len: "length (slice p n (overwrite q bs c)) = length (slice p n c)"
    using assms(1) length_overwrite_ge [of c q bs] by (simp add: length_slice)
  show "slice p n (overwrite q bs c) ! i = slice p n c ! i" if "i < length (slice p n (overwrite q bs c))" for i
  proof -
    have i: "i < n" "p + i < length (overwrite q bs c)" "p + i < length c"
      using that assms(1) length_overwrite_ge [of c q bs] by (simp_all add: length_slice)
    have "slice p n (overwrite q bs c) ! i = overwrite q bs c ! (p + i)" by (rule nth_slice [OF that])
    also have "\<dots> = c ! (p + i)" using nth_overwrite [OF i(2)] i assms(2) by auto
    also have "\<dots> = slice p n c ! i" using that len by (simp add: nth_slice)
    finally show ?thesis .
  qed
qed

lemma slice_append: "p + n \<le> length c \<Longrightarrow> slice p n (c @ d) = slice p n c"
  by (simp add: slice_def)

lemma next_fault_simps [simp]:
  "faults f = [] \<Longrightarrow> next_fault f = (None, f)"
  "content (snd (next_fault f)) = content f" "offset (snd (next_fault f)) = offset f"
  by (simp_all add: next_fault_def split: list.splits)

lemma next_fault_content: "next_fault f = (x, f') \<Longrightarrow> content f' = content f \<and> offset f' = offset f"
  by (auto simp: next_fault_def split: list.splits)

text \<open>How the operations of an open file end, whatever fails.\<close>

lemma file_steps_end:
  "ends_in (\<lambda>f. content f = bs) (file_seek p) (\<lambda>_ f. content f = bs \<and> offset f = p) (\<lambda>f. content f = bs)"
  "ends_in (\<lambda>f. content f = bs) file_len (\<lambda>n f. n = length bs \<and> content f = bs) (\<lambda>f. content f = bs)"
  "ends_in (\<lambda>f. content f = bs) (file_set_len n)
     (\<lambda>_ f. content f = take n bs @ replicate (n - length bs) 0) (\<lambda>f. content f = bs)"
  "ends_in (\<lambda>f. content f = bs \<and> offset f = p) (file_write w)
     (\<lambda>_ f. content f = overwrite p w bs \<and> offset f = p + length w) (\<lambda>f. \<exists>k. content f = overwrite p (take k w) bs)"
  by (auto simp: ends_in_def file_seek_def file_len_def file_set_len_def file_write_def put_bytes_def
      dest!: next_fault_content split: prod.splits option.splits sum.splits)

end
