(* ===== verification/Storage.thy ===== *)
theory Storage
  imports Files CacheTable
begin

text \<open>
  The layout of the cache on disk (\<open>tpt-av-asset-cache/src/storage.rs\<close>) and the invalidation of an
  asset's caches (\<open>invalidation.rs\<close>), which works on the file system and on the database.
\<close>

subsection \<open>Layout\<close>

record cache_storage =
  root :: string

definition storage_new :: "string \<Rightarrow> cache_storage" where "storage_new r = \<lparr>root = r\<rparr>"

definition asset_hash :: "asset_id \<Rightarrow> string" where
  "asset_hash i = hex_digits 16 (unat (hash i))"

definition waveform_dir :: "cache_storage \<Rightarrow> string" where
  "waveform_dir st = path_join (root st) ''waveforms''"

definition thumbnail_root :: "cache_storage \<Rightarrow> string" where
  "thumbnail_root st = path_join (root st) ''thumbnails''"

definition proxy_dir :: "cache_storage \<Rightarrow> string" where
  "proxy_dir st = path_join (root st) ''proxies''"

definition ensure_layout :: "cache_storage \<Rightarrow> (file_system, unit) step" where
  "ensure_layout st =
     then_try (create_dir_all (waveform_dir st)) (\<lambda>_.
     then_try (create_dir_all (thumbnail_root st)) (\<lambda>_.
     create_dir_all (proxy_dir st)))"

definition waveform_path :: "cache_storage \<Rightarrow> asset_id \<Rightarrow> string" where
  "waveform_path st i = path_join (waveform_dir st) (asset_hash i @ ''.peaks'')"

definition thumbnail_dir :: "cache_storage \<Rightarrow> asset_id \<Rightarrow> string" where
  "thumbnail_dir st i = path_join (thumbnail_root st) (asset_hash i)"

definition proxy_path :: "cache_storage \<Rightarrow> asset_id \<Rightarrow> string \<Rightarrow> string" where
  "proxy_path st i ext = path_join (proxy_dir st) (asset_hash i @ ''_proxy.'' @ ext)"

subsection \<open>Removing the files of an asset\<close>

definition remove_if :: "bool \<Rightarrow> (file_system, unit) step \<Rightarrow> nat \<Rightarrow> (file_system, nat) step" where
  "remove_if there remove removed =
     (if there then then_try remove (\<lambda>_. give (removed + 1)) else give removed)"

definition remove_asset_files :: "cache_storage \<Rightarrow> asset_id \<Rightarrow> (file_system, nat) step" where
  "remove_asset_files st i fs =
     then_try (\<lambda>fs. remove_if (fs_exists (waveform_path st i) fs) (remove_file (waveform_path st i)) 0 fs) (\<lambda>removed.
     then_try (\<lambda>fs. remove_if (fs_is_dir (thumbnail_dir st i) fs) (remove_dir_all (thumbnail_dir st i)) removed fs) (\<lambda>removed.
     then_try (\<lambda>fs. remove_if (fs_exists (proxy_path st i ''mp4'') fs) (remove_file (proxy_path st i ''mp4'')) removed fs) (\<lambda>removed fs.
       remove_if (fs_exists (proxy_path st i ''flac'') fs) (remove_file (proxy_path st i ''flac'')) removed fs))) fs"

subsection \<open>Invalidation\<close>

text \<open>An error in the removal of a registered file is only logged.\<close>

definition remove_entry :: "cache_type \<times> string \<Rightarrow> file_system \<Rightarrow> file_system" where
  "remove_entry e fs =
     (case e of
        (VideoThumbnails, p) \<Rightarrow> if fs_is_dir p fs then snd (remove_dir_all p fs) else fs
      | (_, p) \<Rightarrow> if fs_exists p fs then snd (remove_file p fs) else fs)"

definition invalidate_asset ::
  "('d, 'w, 'r) redb \<Rightarrow> cache_storage \<Rightarrow> asset_id \<Rightarrow> (file_system \<times> 'd, nat) step" where
  "invalidate_asset R st i = (\<lambda>(fs, d).
     case list_cache_entries R i d of
       Inl e \<Rightarrow> (Inl e, fs, d)
     | Inr entries \<Rightarrow>
         (let fs = foldl (\<lambda>fs e. remove_entry e fs) fs entries in
          case remove_asset_files st i fs of
            (Inl e, fs) \<Rightarrow> (Inl e, fs, d)
          | (Inr _, fs) \<Rightarrow> (let (r, d) = invalidate_caches R i d in (r, fs, d))))"

subsection \<open>Keys of the layout\<close>

definition plain_name :: "string \<Rightarrow> bool" where
  "plain_name b \<longleftrightarrow> b \<noteq> [] \<and> b \<noteq> ''.'' \<and> CHR ''/'' \<notin> set b"

lemma split_on_sep: "split_on sep (a @ sep # b) = split_on sep a @ split_on sep b"
  by (induction a) auto

lemma components_sep: "components (a @ CHR ''/'' # b) =
    components a @ filter (\<lambda>c. c \<noteq> [] \<and> c \<noteq> ''.'') (split_on (CHR ''/'') b)"
proof -
  obtain c cs where "split_on (CHR ''/'') a = c # cs" by (cases "split_on (CHR ''/'') a") simp_all
  then show ?thesis by (simp add: components_def split_on_sep)
qed

lemma path_key_join:
  assumes "plain_name b"
  shows "path_key (path_join a b) = (is_absolute a, components a @ [b])"
proof -
  have b: "\<not> is_absolute b" "split_on (CHR ''/'') b = [b]"
    using assms hd_in_set [of b] by (auto simp: plain_name_def is_absolute_def split_on_absent simp del: hd_in_set)
  consider (empty) "a = []" | (sep) a' where "a = a' @ [CHR ''/'']" | (other) "a \<noteq> []" "last a \<noteq> CHR ''/''"
    by (metis append_butlast_last_id)
  then show ?thesis
  proof cases
    case empty
    with assms b show ?thesis by (simp add: path_key_def path_join_def components_def is_absolute_def plain_name_def)
  next
    case sep
    have "components (a' @ [CHR ''/'']) = components a'" using components_sep [of a' "[]"] by simp
    moreover have "is_absolute (a' @ CHR ''/'' # b) = is_absolute (a' @ [CHR ''/''])"
      by (cases a') (simp_all add: is_absolute_def)
    ultimately show ?thesis
      using assms b sep components_sep [of a' b] by (simp add: path_key_def path_join_def plain_name_def)
  next
    case other
    moreover have "is_absolute (a @ CHR ''/'' # b) = is_absolute a"
      using other by (cases a) (simp_all add: is_absolute_def)
    ultimately show ?thesis
      using assms b components_sep [of a b] by (simp add: path_key_def path_join_def plain_name_def)
  qed
qed

definition name_digit :: "char \<Rightarrow> bool" where
  "name_digit c \<longleftrightarrow> c \<noteq> CHR ''/'' \<and> c \<noteq> CHR ''.'' \<and> c \<noteq> CHR ''_''"

lemma name_digit_char: "d < 16 \<Longrightarrow> name_digit (digit_char d)"
proof -
  assume d: "d < 16"
  define v where "v = (of_char (digit_char d) :: nat)"
  have "v = (if d < 10 then 48 + d else 87 + d)" using d by (simp add: v_def of_char_digit_char)
  then have "v \<noteq> 47" "v \<noteq> 46" "v \<noteq> 95" using d by (auto split: if_splits)
  then show ?thesis by (auto simp: name_digit_def v_def)
qed

lemma name_digits_hex: "list_all name_digit (hex_digits n v)"
  by (induction n arbitrary: v) (simp_all add: name_digit_char)

lemma name_digit_hash: "list_all name_digit (asset_hash i)"
  by (simp add: asset_hash_def name_digits_hex)

lemma length_asset_hash [simp]: "length (asset_hash i) = 16"
  by (simp add: asset_hash_def)

lemma asset_hash_inject: "asset_hash i = asset_hash j \<longleftrightarrow> hash i = hash j"
proof -
  have "unat (hash i) mod 16 ^ 16 = unat (hash i)" for i
    using unsigned_less [of "hash i", where 'a = nat] by simp
  then show ?thesis by (simp add: asset_hash_def hex_digits_inject word_unat_eq_iff)
qed

lemma plain_name_hash: "CHR ''/'' \<notin> set s \<Longrightarrow> plain_name (asset_hash i @ s)"
proof -
  assume "CHR ''/'' \<notin> set s"
  moreover have "CHR ''/'' \<notin> set (asset_hash i)"
    using name_digit_hash [of i] by (auto simp: list_all_iff name_digit_def)
  moreover have long: "asset_hash i @ s \<noteq> t" if "length t < 16" for t
  proof
    assume "asset_hash i @ s = t"
    then have "length (asset_hash i @ s) = length t" by (rule arg_cong)
    with that show False by simp
  qed
  have "asset_hash i @ s \<noteq> []" "asset_hash i @ s \<noteq> ''.''"
    by (rule long; simp)+
  ultimately show ?thesis by (simp add: plain_name_def)
qed

lemma path_key_join2: "plain_name a \<Longrightarrow> plain_name b \<Longrightarrow>
    path_key (path_join (path_join r a) b) = (is_absolute r, components r @ [a, b])"
  using path_key_join [of a r] path_key_join [of b "path_join r a"] by (simp add: path_key_def)

lemma layout_keys:
  "path_key (waveform_path st i) =
     (is_absolute (root st), components (root st) @ [''waveforms'', asset_hash i @ ''.peaks''])"
  "path_key (thumbnail_dir st i) =
     (is_absolute (root st), components (root st) @ [''thumbnails'', asset_hash i])"
  "CHR ''/'' \<notin> set ext \<Longrightarrow> path_key (proxy_path st i ext) =
     (is_absolute (root st), components (root st) @ [''proxies'', asset_hash i @ ''_proxy.'' @ ext])"
  using plain_name_hash [of "[]" i]
  by (simp_all add: waveform_path_def waveform_dir_def thumbnail_dir_def thumbnail_root_def proxy_path_def
      proxy_dir_def path_key_join2 plain_name_hash plain_name_def)

text \<open>Paths of the layout of one storage: below one another only when they are the same path.\<close>

definition layout_path :: "cache_storage \<Rightarrow> asset_id \<Rightarrow> string \<Rightarrow> bool" where
  "layout_path st i p \<longleftrightarrow> p = waveform_path st i \<or> p = thumbnail_dir st i \<or>
     (\<exists>ext. CHR ''/'' \<notin> set ext \<and> p = proxy_path st i ext)"

lemma layout_pathI [simp]:
  "layout_path st i (waveform_path st i)" "layout_path st i (thumbnail_dir st i)"
  "CHR ''/'' \<notin> set ext \<Longrightarrow> layout_path st i (proxy_path st i ext)"
  unfolding layout_path_def by blast+

lemma hash_suffix_inject: "asset_hash i @ s = asset_hash j @ t \<longleftrightarrow> hash i = hash j \<and> s = t"
  by (simp add: asset_hash_inject [symmetric] append_eq_append_conv)

lemma layout_below:
  assumes "layout_path st i p" "layout_path st j q" "key_below k (path_key p)" "key_below k (path_key q)"
  shows "hash i = hash j \<and> path_key p = path_key q"
proof -
  have below: "take (length (snd (path_key p))) (snd k) = snd (path_key p)" "fst k = fst (path_key p)"
    "take (length (snd (path_key q))) (snd k) = snd (path_key q)" "fst k = fst (path_key q)"
    using assms(3,4) by (simp_all add: key_below_def)
  have "length (snd (path_key p)) = Suc (Suc (length (components (root st))))"
    "length (snd (path_key q)) = Suc (Suc (length (components (root st))))"
    using assms(1,2) by (auto simp: layout_path_def layout_keys)
  with below have "fst (path_key p) = fst (path_key q)" "snd (path_key p) = snd (path_key q)"
    by simp_all
  then have "path_key p = path_key q" by (rule prod_eqI)
  then show ?thesis
    using assms(1,2) hash_suffix_inject [of i "[]" j "[]"]
    by (auto simp: layout_path_def layout_keys hash_suffix_inject)
qed

subsection \<open>What invalidation changes\<close>

text \<open>Only nodes at or below the given paths are gone, all others are the same.\<close>

definition removes_only :: "string set \<Rightarrow> file_system \<Rightarrow> file_system \<Rightarrow> bool" where
  "removes_only P fs fs' \<longleftrightarrow> fails fs' = fails fs \<and>
     (\<forall>k. nodes fs' k = nodes fs k \<or> nodes fs' k = None \<and> (\<exists>p \<in> P. key_below k (path_key p)))"

lemma removes_only_refl: "removes_only P fs fs"
  by (simp add: removes_only_def)

lemma removes_only_trans:
  assumes "removes_only P fs fs1" "removes_only P fs1 fs2"
  shows "removes_only P fs fs2"
  using assms unfolding removes_only_def by metis

lemma removes_only_mono: "removes_only P fs fs' \<Longrightarrow> P \<subseteq> Q \<Longrightarrow> removes_only Q fs fs'"
  unfolding removes_only_def by blast

lemma removes_only_changed: "removes_only P fs fs' \<Longrightarrow> nodes fs' k \<noteq> nodes fs k \<Longrightarrow>
    \<exists>p \<in> P. key_below k (path_key p)"
  unfolding removes_only_def by blast

lemma removes_only_no_dir: "removes_only P fs fs' \<Longrightarrow> nodes fs k \<noteq> Some DirNode \<Longrightarrow> nodes fs' k \<noteq> Some DirNode"
  unfolding removes_only_def by (metis option.distinct(1))

lemma removes_only_gone: "removes_only P fs fs' \<Longrightarrow> \<not> fs_exists p fs \<Longrightarrow> \<not> fs_exists p fs'"
  unfolding removes_only_def fs_exists_def fs_node_def by metis

lemma removes_only_dir_gone: "removes_only P fs fs' \<Longrightarrow> \<not> fs_is_dir p fs \<Longrightarrow> \<not> fs_is_dir p fs'"
  unfolding removes_only_def fs_is_dir_def fs_node_def by (metis option.distinct(1))

lemma remove_file_only: "remove_file p fs = (r, fs') \<Longrightarrow> removes_only {p} fs fs'"
  by (cases r) (auto simp: remove_file_Inr removes_only_def dest!: remove_file_Inl)

lemma remove_dir_all_only: "remove_dir_all p fs = (r, fs') \<Longrightarrow> removes_only {p} fs fs'"
  by (cases r) (auto simp: remove_dir_all_Inr removes_only_def dest!: remove_dir_all_Inl)

lemma remove_entry_only: "removes_only {snd e} fs (remove_entry e fs)"
  using remove_file_only [OF surjective_pairing] remove_dir_all_only [OF surjective_pairing]
  by (cases e; cases "fst e") (auto simp: remove_entry_def removes_only_refl)

lemma remove_entries_only: "removes_only (snd ` set es) fs (foldl (\<lambda>fs e. remove_entry e fs) fs es)"
proof (induction es arbitrary: fs)
  case (Cons e es)
  have "removes_only (snd ` set (e # es)) fs (remove_entry e fs)"
    by (rule removes_only_mono [OF remove_entry_only]) simp
  moreover have "removes_only (snd ` set (e # es)) (remove_entry e fs) (foldl (\<lambda>fs e. remove_entry e fs) fs (e # es))"
    unfolding foldl_Cons by (rule removes_only_mono [OF Cons.IH]) auto
  ultimately show ?case by (rule removes_only_trans)
qed (simp add: removes_only_refl)

text \<open>One step of the sweep: nothing else is touched, and after success the path is gone.\<close>

lemma remove_if_file:
  assumes "remove_if (fs_exists p fs) (remove_file p) n fs = (r, fs')"
  shows "removes_only {p} fs fs' \<and> (\<forall>m. r = Inr m \<longrightarrow> \<not> fs_exists p fs')"
proof (cases "fs_exists p fs")
  case True
  with assms have "then_try (remove_file p) (\<lambda>_. give (n + 1)) fs = (r, fs')" by (simp add: remove_if_def)
  then show ?thesis
  proof (rule then_tryE)
    fix e assume "remove_file p fs = (Inl e, fs')" "r = Inl e"
    then show ?thesis by (simp add: remove_file_only)
  next
    fix x s1 assume rm: "remove_file p fs = (Inr x, s1)" and "give (n + 1) s1 = (r, fs')"
    then have "s1 = fs'" by simp
    then have "removes_only {p} fs fs'" "\<not> fs_exists p fs'"
      using remove_file_only [OF rm] rm by (simp_all add: remove_file_Inr fs_exists_def fs_node_def)
    then show ?thesis by blast
  qed
qed (use assms in \<open>simp add: remove_if_def removes_only_refl\<close>)

lemma remove_if_dir:
  assumes "remove_if (fs_is_dir p fs) (remove_dir_all p) n fs = (r, fs')"
  shows "removes_only {p} fs fs' \<and> (\<forall>m. r = Inr m \<longrightarrow> \<not> fs_is_dir p fs')"
proof (cases "fs_is_dir p fs")
  case True
  with assms have "then_try (remove_dir_all p) (\<lambda>_. give (n + 1)) fs = (r, fs')" by (simp add: remove_if_def)
  then show ?thesis
  proof (rule then_tryE)
    fix e assume "remove_dir_all p fs = (Inl e, fs')" "r = Inl e"
    then show ?thesis by (simp add: remove_dir_all_only)
  next
    fix x s1 assume rm: "remove_dir_all p fs = (Inr x, s1)" and "give (n + 1) s1 = (r, fs')"
    then have "s1 = fs'" by simp
    then have "removes_only {p} fs fs'" "\<not> fs_is_dir p fs'"
      using remove_dir_all_only [OF rm] rm by (simp_all add: remove_dir_all_Inr fs_is_dir_def fs_node_def)
    then show ?thesis by blast
  qed
qed (use assms in \<open>simp add: remove_if_def removes_only_refl\<close>)

definition sweep_paths :: "cache_storage \<Rightarrow> asset_id \<Rightarrow> string set" where
  "sweep_paths st i =
     {waveform_path st i, thumbnail_dir st i, proxy_path st i ''mp4'', proxy_path st i ''flac''}"

lemma sweep_layout: "p \<in> sweep_paths st i \<Longrightarrow> layout_path st i p"
  by (auto simp: sweep_paths_def)

text \<open>No node is left at the swept paths that the code could see there.\<close>

definition swept :: "cache_storage \<Rightarrow> asset_id \<Rightarrow> file_system \<Rightarrow> bool" where
  "swept st i fs \<longleftrightarrow> \<not> fs_exists (waveform_path st i) fs \<and> \<not> fs_is_dir (thumbnail_dir st i) fs \<and>
     \<not> fs_exists (proxy_path st i ''mp4'') fs \<and> \<not> fs_exists (proxy_path st i ''flac'') fs"

text \<open>A step that only removes nodes at the paths \<open>P\<close> and ends, without an error, in a state where \<open>Q\<close>.\<close>

definition removal :: "string set \<Rightarrow> (file_system \<Rightarrow> bool) \<Rightarrow> (file_system, 'a) step \<Rightarrow> bool" where
  "removal P Q m \<longleftrightarrow> (\<forall>fs r fs'. m fs = (r, fs') \<longrightarrow> removes_only P fs fs' \<and> (\<forall>x. r = Inr x \<longrightarrow> Q fs'))"

definition stays :: "(file_system \<Rightarrow> bool) \<Rightarrow> bool" where
  "stays Q \<longleftrightarrow> (\<forall>P fs fs'. removes_only P fs fs' \<longrightarrow> Q fs \<longrightarrow> Q fs')"

lemma stays_gone [intro]: "stays (\<lambda>fs. \<not> fs_exists p fs)" "stays (\<lambda>fs. \<not> fs_is_dir p fs)"
  using removes_only_gone removes_only_dir_gone unfolding stays_def by blast+

lemma removal_then:
  assumes "removal P Q m" "stays Q" "\<And>x. removal P Q' (f x)"
  shows "removal P (\<lambda>fs. Q fs \<and> Q' fs) (then_try m f)"
  unfolding removal_def
proof (intro allI impI)
  fix fs r fs' assume "then_try m f fs = (r, fs')"
  then show "removes_only P fs fs' \<and> (\<forall>x. r = Inr x \<longrightarrow> Q fs' \<and> Q' fs')"
  proof (rule then_tryE)
    fix e assume "m fs = (Inl e, fs')" "r = Inl e"
    with assms(1) show ?thesis by (simp add: removal_def)
  next
    fix x fs1 assume m: "m fs = (Inr x, fs1)" and f: "f x fs1 = (r, fs')"
    have first: "removes_only P fs fs1" "Q fs1" using assms(1) m by (simp_all add: removal_def)
    have then_: "removes_only P fs1 fs'" "\<forall>x. r = Inr x \<longrightarrow> Q' fs'" using assms(3) f by (simp_all add: removal_def)
    have "Q fs'" using assms(2) first(2) then_(1) by (simp add: stays_def)
    with removes_only_trans [OF first(1) then_(1)] then_(2) show ?thesis by simp
  qed
qed

lemma removal_if_file: "p \<in> P \<Longrightarrow>
    removal P (\<lambda>fs. \<not> fs_exists p fs) (\<lambda>fs. remove_if (fs_exists p fs) (remove_file p) n fs)"
  using remove_if_file [of p] removes_only_mono [of "{p}" _ _ P] unfolding removal_def by blast

lemma removal_if_dir: "p \<in> P \<Longrightarrow>
    removal P (\<lambda>fs. \<not> fs_is_dir p fs) (\<lambda>fs. remove_if (fs_is_dir p fs) (remove_dir_all p) n fs)"
  using remove_if_dir [of p] removes_only_mono [of "{p}" _ _ P] unfolding removal_def by blast

lemma remove_asset_files_effect: "removal (sweep_paths st i) (swept st i) (remove_asset_files st i)"
  unfolding remove_asset_files_def [abs_def] swept_def [abs_def]
  by (intro removal_then removal_if_file removal_if_dir stays_gone) (simp_all add: sweep_paths_def)

text \<open>A registered file or directory is gone when the system does not refuse its removal.\<close>

definition entry_gone :: "file_system \<Rightarrow> cache_type \<times> string \<Rightarrow> bool" where
  "entry_gone fs e \<longleftrightarrow>
     (if fst e = VideoThumbnails then nodes fs (path_key (snd e)) \<noteq> Some DirNode
      else \<not> is_file_node (nodes fs (path_key (snd e))))"

lemma entry_gone_stays: "removes_only P fs fs' \<Longrightarrow> entry_gone fs e \<Longrightarrow> entry_gone fs' e"
  unfolding removes_only_def entry_gone_def is_file_node_def by (metis option.distinct(1) option.simps(4))

lemma remove_entry_gone: "\<forall>c. fails fs c (path_key (snd e)) = None \<Longrightarrow> entry_gone (remove_entry e fs) e"
  by (cases e; cases "fst e")
    (auto simp: entry_gone_def remove_entry_def fs_is_dir_def fs_exists_def fs_node_def remove_file_def
      remove_dir_all_def fs_try_def set_nodes_def is_file_node_def split: option.splits node.splits)

lemma remove_entries_gone:
  assumes "\<forall>e \<in> set es. \<forall>c. fails fs c (path_key (snd e)) = None" "e \<in> set es"
  shows "entry_gone (foldl (\<lambda>fs e. remove_entry e fs) fs es) e"
  using assms
proof (induction es arbitrary: fs)
  case (Cons a es)
  have same: "fails (remove_entry a fs) = fails fs"
    using remove_entry_only [of a fs] by (simp add: removes_only_def)
  show ?case
  proof (cases "e = a")
    case True
    have "entry_gone (remove_entry a fs) a" using Cons.prems(1) by (simp add: remove_entry_gone)
    with True show ?thesis using entry_gone_stays [OF remove_entries_only] by simp
  next
    case False
    with Cons same show ?thesis by simp
  qed
qed simp

lemma invalidate_asset_cases:
  assumes "invalidate_asset R st i (fs, d) = (r, fs', d')"
  obtains (unlisted) e where "list_cache_entries R i d = Inl e" "r = Inl e" "fs' = fs" "d' = d"
  | (listed) es fs1 s where "list_cache_entries R i d = Inr es"
      "fs1 = foldl (\<lambda>fs e. remove_entry e fs) fs es" "remove_asset_files st i fs1 = (s, fs')"
      "case s of Inl e \<Rightarrow> r = Inl e \<and> d' = d | Inr n \<Rightarrow> invalidate_caches R i d = (r, d')"
proof (cases "list_cache_entries R i d")
  case (Inl e)
  with assms show thesis by (intro unlisted) (auto simp: invalidate_asset_def)
next
  case (Inr es)
  obtain s fs2 where sweep: "remove_asset_files st i (foldl (\<lambda>fs e. remove_entry e fs) fs es) = (s, fs2)"
    by fastforce
  show thesis
    by (rule listed [OF Inr refl, of s])
      (use assms Inr sweep in \<open>auto simp: invalidate_asset_def Let_def split: sum.splits prod.splits\<close>)
qed

text \<open>Invalidation removes nothing but what is registered for the asset and the swept paths.\<close>

lemma invalidate_asset_only:
  assumes "invalidate_asset R st i (fs, d) = (r, fs', d')"
  shows "removes_only (sweep_paths st i \<union> {p. \<exists>es ty. list_cache_entries R i d = Inr es \<and> (ty, p) \<in> set es}) fs fs'"
    (is "removes_only ?P _ _")
  using assms
proof (cases rule: invalidate_asset_cases)
  case (listed es fs1 s)
  have "removes_only ?P fs fs1" unfolding listed(2)
    by (rule removes_only_mono [OF remove_entries_only]) (use listed(1) in force)
  moreover have "removes_only ?P fs1 fs'"
    by (rule removes_only_mono [of "sweep_paths st i"])
      (use remove_asset_files_effect [of st i] listed(3) in \<open>auto simp: removal_def\<close>)
  ultimately show ?thesis by (rule removes_only_trans)
qed (simp add: removes_only_refl)

lemma invalidate_asset_spares:
  assumes "invalidate_asset R st i (fs, d) = (r, fs', d')" "redb_laws R dr wr rr"
  shows "t \<noteq> CACHE_ENTRIES \<Longrightarrow> dr d' t = dr d t" "a \<noteq> i \<Longrightarrow> cache_of (dr d') a = cache_of (dr d) a"
proof -
  have "d' = d \<or> invalidate_caches R i d = (r, d')"
    using assms(1) by (cases rule: invalidate_asset_cases) (auto split: sum.splits)
  then show "t \<noteq> CACHE_ENTRIES \<Longrightarrow> dr d' t = dr d t" "a \<noteq> i \<Longrightarrow> cache_of (dr d') a = cache_of (dr d) a"
    using invalidate_caches_spares(1,2) [OF _ assms(2)] by metis+
qed

lemma invalidate_asset_swept:
  assumes "invalidate_asset R st i (fs, d) = (Inr n, fs', d')"
  shows "swept st i fs' \<and> invalidate_caches R i d = (Inr n, d') \<and>
    (\<forall>es. list_cache_entries R i d = Inr es \<longrightarrow> (\<forall>e \<in> set es. \<forall>c. fails fs c (path_key (snd e)) = None) \<longrightarrow>
       (\<forall>e \<in> set es. entry_gone fs' e))"
  using assms
proof (cases rule: invalidate_asset_cases)
  case (listed es fs1 s)
  then obtain m where s: "s = Inr m" by (cases s) auto
  have sweep: "removes_only (sweep_paths st i) fs1 fs'" "swept st i fs'"
    using remove_asset_files_effect [of st i] listed(3) s by (auto simp: removal_def)
  have "entry_gone fs' e" if "e \<in> set es" "\<forall>e \<in> set es. \<forall>c. fails fs c (path_key (snd e)) = None" for e
    using remove_entries_gone [OF that(2,1)] entry_gone_stays [OF sweep(1)] listed(2) by simp
  with sweep listed s show ?thesis by simp
qed simp

end
