(* ===== verification/Casts.thy ===== *)
theory Casts
  imports Floats
begin

text \<open>
  Single precision, square roots and the casts between floats and integers as the Rust code uses them.
  An \<open>as\<close> cast to an integer truncates, saturates at the ends of the integer type and sends \<open>NaN\<close> to
  zero; a cast to a float rounds to nearest, ties to even.
\<close>

subsection \<open>Single precision\<close>

definition f32_neg :: "f32 \<Rightarrow> bool" where "f32_neg x \<longleftrightarrow> 2 ^ 31 \<le> unat x"
definition f32_mag :: "f32 \<Rightarrow> nat" where "f32_mag x = unat x mod 2 ^ 31"
definition f32_make :: "bool \<Rightarrow> nat \<Rightarrow> f32" where
  "f32_make neg m = of_nat (if neg then 2 ^ 31 + m else m)"
definition f32_inf :: nat where "f32_inf = fp_inf 23 8"
definition f32_nan :: f32 where "f32_nan = 0x7FC00000"
definition f32_zero :: f32 where "f32_zero = 0"
definition f32_one :: f32 where "f32_one = 0x3F800000"
definition f32_minus_one :: f32 where "f32_minus_one = 0xBF800000"
definition f32_MAX :: f32 where "f32_MAX = 0x7F7FFFFF"
definition f32_MIN :: f32 where "f32_MIN = 0xFF7FFFFF"
definition f32_unit :: nat where "f32_unit = 2 ^ 149"

definition f32_is_nan :: "f32 \<Rightarrow> bool" where "f32_is_nan x \<longleftrightarrow> f32_inf < f32_mag x"

definition f32_key :: "f32 \<Rightarrow> int" where
  "f32_key x = (if f32_neg x then - int (f32_mag x) else int (f32_mag x))"

definition f32_lt :: "f32 \<Rightarrow> f32 \<Rightarrow> bool" where
  "f32_lt a b \<longleftrightarrow> \<not> f32_is_nan a \<and> \<not> f32_is_nan b \<and> f32_key a < f32_key b"

definition f32_le :: "f32 \<Rightarrow> f32 \<Rightarrow> bool" where
  "f32_le a b \<longleftrightarrow> \<not> f32_is_nan a \<and> \<not> f32_is_nan b \<and> f32_key a \<le> f32_key b"

definition f32_eq :: "f32 \<Rightarrow> f32 \<Rightarrow> bool" where
  "f32_eq a b \<longleftrightarrow> \<not> f32_is_nan a \<and> \<not> f32_is_nan b \<and> f32_key a = f32_key b"

definition f32_max :: "f32 \<Rightarrow> f32 \<Rightarrow> f32" where
  "f32_max a b = (if f32_is_nan a then b else if f32_is_nan b then a else if f32_lt a b then b else a)"

definition f32_min :: "f32 \<Rightarrow> f32 \<Rightarrow> f32" where
  "f32_min a b = (if f32_is_nan a then b else if f32_is_nan b then a else if f32_lt b a then b else a)"

definition f32_clamp :: "f32 \<Rightarrow> f32 \<Rightarrow> f32 \<Rightarrow> f32" where
  "f32_clamp x lo hi = (let y = (if f32_lt x lo then lo else x) in if f32_lt hi y then hi else y)"

definition f32_pack :: "bool \<Rightarrow> nat \<Rightarrow> nat \<Rightarrow> f32" where
  "f32_pack neg p q = f32_make neg (min f32_inf (fp_round_mag 23 p q))"

definition f32_mul :: "f32 \<Rightarrow> f32 \<Rightarrow> f32" where
  "f32_mul a b =
     (let s = (f32_neg a \<noteq> f32_neg b); ma = f32_mag a; mb = f32_mag b in
      if f32_is_nan a \<or> f32_is_nan b then f32_nan
      else if ma = f32_inf \<or> mb = f32_inf then
        (if ma = 0 \<or> mb = 0 then f32_nan else f32_make s f32_inf)
      else f32_pack s (fp_scaled 23 ma * fp_scaled 23 mb) f32_unit)"

definition f64_of_f32 :: "f32 \<Rightarrow> f64" where
  "f64_of_f32 x =
     (if f32_is_nan x then f64_nan
      else if f32_mag x = f32_inf then f64_make (f32_neg x) f64_inf
      else f64_pack (f32_neg x) (fp_scaled 23 (f32_mag x) * f64_unit) f32_unit)"

definition f32_of_f64 :: "f64 \<Rightarrow> f32" where
  "f32_of_f64 x =
     (if f64_is_nan x then f32_nan
      else if f64_mag x = f64_inf then f32_make (f64_neg x) f32_inf
      else f32_pack (f64_neg x) (fp_scaled 52 (f64_mag x) * f32_unit) f64_unit)"

subsection \<open>Square root\<close>

fun nat_sqrt :: "nat \<Rightarrow> nat" where
  "nat_sqrt n =
     (if n = 0 then 0
      else let r = 2 * nat_sqrt (n div 4) in if (r + 1) * (r + 1) \<le> n then r + 1 else r)"

declare nat_sqrt.simps [simp del]

text \<open>
  The root of the value is the root of \<open>n\<close> in smallest subnormals.  It has over five hundred bits, so a
  half added to a root that is not exact does not change how it rounds.
\<close>

definition f64_sqrt :: "f64 \<Rightarrow> f64" where
  "f64_sqrt x =
     (if f64_is_nan x then f64_nan
      else if f64_mag x = 0 then x
      else if f64_neg x then f64_nan
      else if f64_mag x = f64_inf then x
      else (let n = fp_scaled 52 (f64_mag x) * f64_unit; r = nat_sqrt n in
            if r * r = n then f64_pack False r 1 else f64_pack False (2 * r + 1) 2))"

lemma nat_sqrt_bounds: "nat_sqrt n * nat_sqrt n \<le> n \<and> n < (nat_sqrt n + 1) * (nat_sqrt n + 1)"
proof (induction n rule: nat_sqrt.induct)
  case (1 n)
  show ?case
  proof (cases "n = 0")
    case False
    define q where "q = nat_sqrt (n div 4)"
    have q: "q * q \<le> n div 4" "n div 4 < (q + 1) * (q + 1)" using 1 False by (simp_all add: q_def)
    then have "4 * (q * q) \<le> n" "n div 4 + 1 \<le> (q + 1) * (q + 1)" by linarith+
    then have "n < 4 * ((q + 1) * (q + 1))" by linarith
    with \<open>4 * (q * q) \<le> n\<close> have "(2 * q) * (2 * q) \<le> n" "n < (2 * q + 2) * (2 * q + 2)" by (simp_all add: algebra_simps)
    then show ?thesis
      using False by (subst (1 2 3 4) nat_sqrt.simps) (simp add: Let_def q_def [symmetric])
  qed (simp add: nat_sqrt.simps)
qed

subsection \<open>Rounding to integers, and casts\<close>

text \<open>The magnitude of a finite float, rounded to a whole number downwards, upwards or to nearest with
  ties away from zero.\<close>

definition f64_whole_down :: "f64 \<Rightarrow> nat" where
  "f64_whole_down x = fp_scaled 52 (f64_mag x) div f64_unit"
definition f64_whole_up :: "f64 \<Rightarrow> nat" where
  "f64_whole_up x = (fp_scaled 52 (f64_mag x) + (f64_unit - 1)) div f64_unit"
definition f64_whole_near :: "f64 \<Rightarrow> nat" where
  "f64_whole_near x = (2 * fp_scaled 52 (f64_mag x) + f64_unit) div (2 * f64_unit)"

definition f64_integral :: "bool \<Rightarrow> nat \<Rightarrow> f64" where
  "f64_integral neg n = f64_pack neg (n * f64_unit) 1"

definition f64_floor :: "f64 \<Rightarrow> f64" where
  "f64_floor x =
     (if \<not> f64_is_finite x then x
      else f64_integral (f64_neg x) (if f64_neg x then f64_whole_up x else f64_whole_down x))"

definition f64_ceil :: "f64 \<Rightarrow> f64" where
  "f64_ceil x =
     (if \<not> f64_is_finite x then x
      else f64_integral (f64_neg x) (if f64_neg x then f64_whole_down x else f64_whole_up x))"

definition f64_round :: "f64 \<Rightarrow> f64" where
  "f64_round x =
     (if \<not> f64_is_finite x then x else f64_integral (f64_neg x) (f64_whole_near x))"

definition f64_abs :: "f64 \<Rightarrow> f64" where "f64_abs x = f64_make False (f64_mag x)"

definition f64_to_u64 :: "f64 \<Rightarrow> u64" where
  "f64_to_u64 x =
     (if f64_is_nan x \<or> f64_neg x then 0
      else if f64_mag x = f64_inf then - 1
      else of_nat (min (2 ^ 64 - 1) (f64_whole_down x)))"

definition f64_to_i64 :: "f64 \<Rightarrow> int" where
  "f64_to_i64 x =
     (if f64_is_nan x then 0
      else if f64_mag x = f64_inf then (if f64_neg x then - (2 ^ 63) else 2 ^ 63 - 1)
      else if f64_neg x then max (- (2 ^ 63)) (- int (f64_whole_down x))
      else min (2 ^ 63 - 1) (int (f64_whole_down x)))"

text \<open>\<open>x.round() as i16\<close> of a single.\<close>

definition f32_round_i16 :: "f32 \<Rightarrow> int" where
  "f32_round_i16 x =
     (if f32_is_nan x then 0
      else if f32_mag x = f32_inf then (if f32_neg x then - 32768 else 32767)
      else (let n = (2 * fp_scaled 23 (f32_mag x) + f32_unit) div (2 * f32_unit) in
            if f32_neg x then max (- 32768) (- int n) else min 32767 (int n)))"

end
