(* ===== verification/Progress.thy ===== *)
theory Progress
  imports Errors Floats
begin

text \<open>
  Progress reporting, cancellation and time ranges (\<open>tpt-av-asset-utils/src/progress.rs\<close>,
  \<open>time_range.rs\<close>).  All clones of a reporter share one cancellation flag, and its callback is a
  closure with effects of its own (it may hold a clone and cancel it), so a callback acts on the
  pair of the shared flag and the closure's world.
\<close>

subsection \<open>Reporters\<close>

record progress_event =
  fraction :: f64
  message :: "string option"

type_synonym 's shared_flag = "bool \<times> 's"

record 's reporter =
  callback :: "(progress_event \<Rightarrow> 's shared_flag \<Rightarrow> 's shared_flag) option"

definition reporter_default :: "'s reporter" where "reporter_default = \<lparr>callback = None\<rparr>"
definition reporter_new :: "'s reporter" where "reporter_new = reporter_default"

definition with_callback ::
  "(progress_event \<Rightarrow> 's shared_flag \<Rightarrow> 's shared_flag) \<Rightarrow> 's reporter" where
  "with_callback cb = reporter_default\<lparr>callback := Some cb\<rparr>"

text \<open>The token handed to \<open>build\<close> is a clone, so cancelling through it sets the shared flag.\<close>

definition reporter_cancel :: "'s shared_flag \<Rightarrow> 's shared_flag" where
  "reporter_cancel s = (True, snd s)"

definition with_self_callback ::
  "(('s shared_flag \<Rightarrow> 's shared_flag) \<Rightarrow> progress_event \<Rightarrow> 's shared_flag \<Rightarrow> 's shared_flag)
     \<Rightarrow> 's reporter" where
  "with_self_callback build = reporter_default\<lparr>callback := Some (build reporter_cancel)\<rparr>"

definition report_event :: "'s reporter \<Rightarrow> progress_event \<Rightarrow> 's shared_flag \<Rightarrow> 's shared_flag" where
  "report_event r ev s = (case callback r of None \<Rightarrow> s | Some cb \<Rightarrow> cb ev s)"

definition report :: "'s reporter \<Rightarrow> f64 \<Rightarrow> 's shared_flag \<Rightarrow> 's shared_flag" where
  "report r x s =
     (if \<not> f64_is_finite x then s
      else report_event r \<lparr>fraction = f64_clamp x f64_zero f64_one, message = None\<rparr> s)"

definition report_with_message ::
  "'s reporter \<Rightarrow> f64 \<Rightarrow> string \<Rightarrow> 's shared_flag \<Rightarrow> 's shared_flag" where
  "report_with_message r x msg s =
     (if \<not> f64_is_finite x then s
      else report_event r \<lparr>fraction = f64_clamp x f64_zero f64_one, message = Some msg\<rparr> s)"

definition report_ratio :: "'s reporter \<Rightarrow> f64 \<Rightarrow> f64 \<Rightarrow> 's shared_flag \<Rightarrow> 's shared_flag" where
  "report_ratio r done tot s =
     (if f64_le tot f64_zero then s else report r (f64_div done tot) s)"

definition is_cancelled :: "'s shared_flag \<Rightarrow> bool" where "is_cancelled s = fst s"

definition check_cancelled :: "'s shared_flag \<Rightarrow> asset_error + unit" where
  "check_cancelled s = (if is_cancelled s then Inl Cancelled else Inr ())"

text \<open>A callback that records what it is given, to speak of the delivered events.\<close>

definition recording :: "progress_event list reporter" where
  "recording = with_callback (\<lambda>ev (c, evs). (c, evs @ [ev]))"

lemma check_cancelled_cancel [simp]: "check_cancelled (reporter_cancel s) = Inl Cancelled"
  by (simp add: check_cancelled_def is_cancelled_def reporter_cancel_def)

lemma report_recording:
  "report recording x (c, evs) =
     (c, evs @ (if f64_is_finite x then [\<lparr>fraction = f64_clamp x f64_zero f64_one, message = None\<rparr>] else []))"
  by (simp add: report_def report_event_def recording_def with_callback_def reporter_default_def)

text \<open>Whatever keeps a property of the world for unit fractions is only ever run on those.\<close>

definition callback_keeps :: "'s reporter \<Rightarrow> ('s shared_flag \<Rightarrow> bool) \<Rightarrow> bool" where
  "callback_keeps r P \<longleftrightarrow>
     (\<forall>cb ev s. callback r = Some cb \<longrightarrow> unit_fraction (fraction ev) \<longrightarrow> P s \<longrightarrow> P (cb ev s))"

lemma report_event_keeps:
  "callback_keeps r P \<Longrightarrow> unit_fraction (fraction ev) \<Longrightarrow> P s \<Longrightarrow> P (report_event r ev s)"
  unfolding callback_keeps_def report_event_def by (cases s, cases "callback r") simp_all

lemma report_keeps:
  assumes "callback_keeps r P" and "P s"
  shows "P (report r x s)" "P (report_with_message r x msg s)" "P (report_ratio r done tot s)"
  using assms unit_fraction_clamp [OF f64_finite_not_nan]
  by (simp_all add: report_def report_with_message_def report_ratio_def report_event_keeps)

subsection \<open>Time ranges\<close>

record time_range =
  start_secs :: f64
  end_secs :: f64

definition time_range_new :: "f64 \<Rightarrow> f64 \<Rightarrow> asset_error + time_range" where
  "time_range_new s e =
     (if \<not> (f64_is_finite s \<and> f64_is_finite e) \<or> f64_lt s f64_zero \<or> f64_le e s
      then Inl (validation (''invalid time range ['' @ f64_display s @ '', '' @ f64_display e @ '')''))
      else Inr \<lparr>start_secs = s, end_secs = e\<rparr>)"

definition duration :: "time_range \<Rightarrow> f64" where
  "duration r = f64_sub (end_secs r) (start_secs r)"

definition contains :: "time_range \<Rightarrow> f64 \<Rightarrow> bool" where
  "contains r t \<longleftrightarrow> f64_le (start_secs r) t \<and> f64_lt t (end_secs r)"

definition intersects :: "time_range \<Rightarrow> time_range \<Rightarrow> bool" where
  "intersects r q \<longleftrightarrow> f64_lt (start_secs r) (end_secs q) \<and> f64_lt (start_secs q) (end_secs r)"

definition overlap :: "time_range \<Rightarrow> time_range \<Rightarrow> time_range option" where
  "overlap r q =
     (if \<not> intersects r q then None
      else (case time_range_new (f64_max (start_secs r) (start_secs q))
                                (f64_min (end_secs r) (end_secs q)) of
              Inl _ \<Rightarrow> None | Inr x \<Rightarrow> Some x))"

text \<open>What every range built by \<open>TimeRange::new\<close> satisfies.\<close>

definition valid_range :: "time_range \<Rightarrow> bool" where
  "valid_range r \<longleftrightarrow> f64_is_finite (start_secs r) \<and> f64_is_finite (end_secs r)
     \<and> f64_le f64_zero (start_secs r) \<and> f64_lt (start_secs r) (end_secs r)"

lemma time_range_new_Inr:
  "time_range_new s e = Inr r \<longleftrightarrow> r = \<lparr>start_secs = s, end_secs = e\<rparr> \<and> valid_range r"
  by (auto simp: time_range_new_def valid_range_def f64_lt_def f64_le_def f64_finite_not_nan)

lemma valid_range_not_nan [simp]:
  "valid_range r \<Longrightarrow> \<not> f64_is_nan (start_secs r)" "valid_range r \<Longrightarrow> \<not> f64_is_nan (end_secs r)"
  by (simp_all add: valid_range_def f64_finite_not_nan)

lemma valid_range_overlap:
  assumes "valid_range r" "valid_range q" "intersects r q"
  shows "valid_range \<lparr>start_secs = f64_max (start_secs r) (start_secs q),
                      end_secs = f64_min (end_secs r) (end_secs q)\<rparr>"
proof -
  note nan = valid_range_not_nan [OF assms(1)] valid_range_not_nan [OF assms(2)]
  have "\<not> f64_is_nan (f64_min (end_secs r) (end_secs q))"
    using nan f64_min_cases [of "end_secs r" "end_secs q"] by metis
  then have "f64_lt (f64_max (start_secs r) (start_secs q)) (f64_min (end_secs r) (end_secs q))"
    using assms nan by (simp add: f64_lt_max f64_lt_min intersects_def valid_range_def)
  moreover have "f64_le f64_zero (f64_max (start_secs r) (start_secs q))"
    using assms f64_max_cases [of "start_secs r" "start_secs q"] unfolding valid_range_def by metis
  moreover have "f64_is_finite (f64_max (start_secs r) (start_secs q))"
    "f64_is_finite (f64_min (end_secs r) (end_secs q))"
    using assms f64_max_cases [of "start_secs r" "start_secs q"]
      f64_min_cases [of "end_secs r" "end_secs q"] unfolding valid_range_def by metis+
  ultimately show ?thesis by (simp add: valid_range_def)
qed

lemma overlap_eq:
  assumes "valid_range r" "valid_range q"
  shows "overlap r q =
     (if intersects r q
      then Some \<lparr>start_secs = f64_max (start_secs r) (start_secs q),
                 end_secs = f64_min (end_secs r) (end_secs q)\<rparr>
      else None)"
proof (cases "intersects r q")
  case True
  from valid_range_overlap [OF assms True] show ?thesis
    by (simp add: overlap_def True iffD2 [OF time_range_new_Inr])
qed (simp add: overlap_def)

end
