(* ===== verification/Peaks.thy ===== *)
theory Peaks
  imports Storage Casts Progress
begin

text \<open>
  The waveform peak cache: the \<open>.peaks\<close> file and its reader (\<open>tpt-av-asset-cache/src/reader.rs\<close>,
  \<open>waveform.rs\<close>), and the generator, which resumes behind the chunks that are already there.

  The cache's two handles are open on one file, \<open>peaks_file\<close>.  Offsets are computed on 64-bit words, as
  in the code.  The audio decoder is not in the repository: it is the parameter \<open>decode\<close> of the
  generator, which takes the length of the buffer and returns the samples it wrote to its front.  The
  parameter \<open>env\<close> is what other threads do to the shared cancellation flag before it is polled.
\<close>

subsection \<open>Records of the file\<close>

definition PEAKS_MAGIC :: bytes where "PEAKS_MAGIC = as_bytes ''TPTWVF1 ''"
definition PEAKS_HEADER_LEN :: u64 where "PEAKS_HEADER_LEN = 32"
definition RECORD_LEN :: nat where "RECORD_LEN = 12"

record waveform_chunk =
  chunk_index :: u64
  chunk_min :: f32
  chunk_max :: f32
  chunk_rms :: f32

definition is_silent :: "waveform_chunk \<Rightarrow> bool" where
  "is_silent c \<longleftrightarrow> f32_eq (chunk_min c) f32_zero \<and> f32_eq (chunk_max c) f32_zero \<and> f32_eq (chunk_rms c) f32_zero"

definition decode_record :: "u64 \<Rightarrow> bytes \<Rightarrow> waveform_chunk" where
  "decode_record i raw =
     \<lparr>chunk_index = i, chunk_min = u32_from_le (slice 0 4 raw), chunk_max = u32_from_le (slice 4 4 raw),
      chunk_rms = u32_from_le (slice 8 4 raw)\<rparr>"

definition encode_record :: "waveform_chunk \<Rightarrow> bytes" where
  "encode_record c = u32_to_le (chunk_min c) @ u32_to_le (chunk_max c) @ u32_to_le (chunk_rms c)"

definition record_offset :: "u64 \<Rightarrow> u64" where
  "record_offset i = PEAKS_HEADER_LEN + i * of_nat RECORD_LEN"

subsection \<open>The reader\<close>

record waveform_reader =
  reader_chunk_size :: u32
  reader_sample_rate :: u32
  reader_count :: u64

definition reader_open :: "string \<Rightarrow> (open_file, waveform_reader) step" where
  "reader_open p =
     then_try (read_exact_at 0 (unat PEAKS_HEADER_LEN)) (\<lambda>header.
       if slice 0 8 header \<noteq> PEAKS_MAGIC
       then fail (validation (path_display p @ '' is not a waveform peaks file''))
       else give \<lparr>reader_chunk_size = u32_from_le (slice 8 4 header),
                  reader_sample_rate = u32_from_le (slice 12 4 header),
                  reader_count = u64_from_le (slice 16 8 header)\<rparr>)"

definition read_chunk :: "waveform_reader \<Rightarrow> u64 \<Rightarrow> (open_file, waveform_chunk option) step" where
  "read_chunk r i =
     (if reader_count r \<le> i then give None
      else then_try (read_exact_at (unat (record_offset i)) RECORD_LEN) (\<lambda>raw. give (Some (decode_record i raw))))"

text \<open>The loop over the slots of \<open>out\<close>: the slots afterwards, and how many were filled.\<close>

fun read_range_into ::
  "waveform_reader \<Rightarrow> u64 \<Rightarrow> waveform_chunk list \<Rightarrow> (open_file, waveform_chunk list \<times> nat) step" where
  "read_range_into r start [] = give ([], 0)"
| "read_range_into r start (slot # out) =
     then_try (read_chunk r start) (\<lambda>found.
       case found of
         None \<Rightarrow> give (slot # out, 0)
       | Some chunk \<Rightarrow>
           then_try (read_range_into r (start + 1) out) (\<lambda>(out, n). give (chunk # out, n + 1)))"

subsection \<open>The cache\<close>

record waveform_cache =
  waveform_asset :: asset_id
  peaks_path :: string
  peaks_file :: open_file
  peaks_reader :: waveform_reader

definition on_file :: "(open_file, 'a) step \<Rightarrow> (waveform_cache, 'a) step" where
  "on_file m c = (let (r, f) = m (peaks_file c) in (r, c\<lparr>peaks_file := f\<rparr>))"

definition empty_header :: bytes where
  "empty_header = PEAKS_MAGIC @ replicate (unat PEAKS_HEADER_LEN - 8) 0"

definition waveform_open :: "asset_id \<Rightarrow> cache_storage \<Rightarrow> (file_system, waveform_cache) step" where
  "waveform_open i st =
     (let p = waveform_path st i in
      then_try (\<lambda>fs.
        if fs_exists p fs then (Inr (), fs)
        else then_try (case path_parent p of None \<Rightarrow> give () | Some parent \<Rightarrow> create_dir_all parent) (\<lambda>_.
             then_try (write_file p []) (\<lambda>_. write_file p empty_header)) fs) (\<lambda>_.
      then_try (read_file p) (\<lambda>bs fs.
        let f = \<lparr>content = bs, offset = 0, faults = []\<rparr> in
        case reader_open p f of
          (Inl e, _) \<Rightarrow> (Inl e, fs)
        | (Inr r, f) \<Rightarrow>
            (Inr \<lparr>waveform_asset = i, peaks_path = p, peaks_file = f, peaks_reader = r\<rparr>, fs))))"

definition chunk_count :: "waveform_cache \<Rightarrow> nat" where
  "chunk_count c = unat (reader_count (peaks_reader c))"

definition set_chunk_count :: "u64 \<Rightarrow> (waveform_cache, unit) step" where
  "set_chunk_count n =
     then_try (on_file (file_seek 16)) (\<lambda>_.
     then_try (on_file (file_write (u64_to_le n))) (\<lambda>_ c.
       (Inr (), c\<lparr>peaks_reader := (peaks_reader c)\<lparr>reader_count := n\<rparr>\<rparr>)))"

definition write_chunk :: "waveform_chunk \<Rightarrow> (waveform_cache, unit) step" where
  "write_chunk chunk =
     (let index = chunk_index chunk;
          rec = encode_record chunk;
          at = record_offset index
      in then_try (on_file file_len) (\<lambda>len.
         then_try (if len < unat (at + of_nat RECORD_LEN)
                   then on_file (file_set_len (unat (at + of_nat RECORD_LEN))) else give ()) (\<lambda>_.
         then_try (on_file (file_seek (unat at))) (\<lambda>_.
         then_try (on_file (file_write rec)) (\<lambda>_ c.
           if reader_count (peaks_reader c) \<le> index then set_chunk_count (index + 1) c else (Inr (), c))))))"

definition cache_read_chunk :: "nat \<Rightarrow> (waveform_cache, waveform_chunk option) step" where
  "cache_read_chunk i c = on_file (read_chunk (peaks_reader c) (of_nat i)) c"

definition read_range :: "nat \<Rightarrow> nat \<Rightarrow> (waveform_cache, waveform_chunk list) step" where
  "read_range start_index end_index c =
     (let count = end_index - start_index;
          scratch = replicate count \<lparr>chunk_index = 0, chunk_min = f32_zero, chunk_max = f32_zero, chunk_rms = f32_zero\<rparr>
      in then_try (on_file (read_range_into (peaks_reader c) (of_nat start_index) scratch)) (\<lambda>(scratch, read).
           give (take read scratch)) c)"

definition ensure_params :: "u32 \<Rightarrow> u32 \<Rightarrow> (waveform_cache, unit) step" where
  "ensure_params csize rate c =
     (let r = peaks_reader c in
      if reader_chunk_size r = csize \<and> reader_sample_rate r = rate then (Inr (), c)
      else if reader_chunk_size r \<noteq> 0 \<or> reader_sample_rate r \<noteq> 0 \<or> reader_count r \<noteq> 0
      then (Inl (validation (''waveform cache '' @ path_display (peaks_path c) @
              '' already holds peaks at chunk_size='' @ dec_string (unat (reader_chunk_size r)) @
              '', sample_rate='' @ dec_string (unat (reader_sample_rate r)))), c)
      else then_try (on_file (file_seek 8)) (\<lambda>_.
           then_try (on_file (file_write (u32_to_le csize))) (\<lambda>_.
           then_try (on_file (file_write (u32_to_le rate))) (\<lambda>_ c.
             (Inr (), c\<lparr>peaks_reader :=
                (peaks_reader c)\<lparr>reader_chunk_size := csize, reader_sample_rate := rate\<rparr>\<rparr>)))) c)"

definition waveform_finish :: "(waveform_cache, unit) step" where
  "waveform_finish = on_file file_sync"

subsection \<open>What the file holds\<close>

definition header_count :: "bytes \<Rightarrow> nat" where "header_count bs = le_nat (slice 16 8 bs)"

definition peak_slot :: "nat \<Rightarrow> bytes \<Rightarrow> bytes" where "peak_slot j bs = slice (32 + 12 * j) 12 bs"

text \<open>The header agrees with the reader, and the counted records are there.\<close>

definition peaks_ok :: "waveform_cache \<Rightarrow> bool" where
  "peaks_ok c \<longleftrightarrow>
     (let bs = content (peaks_file c); r = peaks_reader c in
      slice 0 16 bs = PEAKS_MAGIC @ u32_to_le (reader_chunk_size r) @ u32_to_le (reader_sample_rate r) \<and>
      slice 16 8 bs = u64_to_le (reader_count r) \<and> 32 + 12 * unat (reader_count r) \<le> length bs)"

definition chunk_at :: "waveform_cache \<Rightarrow> nat \<Rightarrow> waveform_chunk" where
  "chunk_at c j = decode_record (of_nat j) (peak_slot j (content (peaks_file c)))"

text \<open>An index whose record lies in the range of 64-bit offsets.\<close>

definition addressable :: "u64 \<Rightarrow> bool" where "addressable i \<longleftrightarrow> 44 + 12 * unat i < 2 ^ 64"

lemma peaks_lengths [simp]: "length PEAKS_MAGIC = 8" "unat PEAKS_HEADER_LEN = 32" "length (encode_record c) = 12"
  by (simp_all add: PEAKS_MAGIC_def PEAKS_HEADER_LEN_def encode_record_def length_to_le)

lemma decode_encode_record: "decode_record (chunk_index c) (encode_record c) = c"
  by (simp add: decode_record_def encode_record_def slice_def length_to_le from_to_le)

lemma record_offset_nat:
  assumes "addressable i"
  shows "unat (record_offset i) = 32 + 12 * unat i" "unat (record_offset i + of_nat RECORD_LEN) = 44 + 12 * unat i"
proof -
  have "record_offset i = of_nat (32 + 12 * unat i)"
    by (simp add: record_offset_def PEAKS_HEADER_LEN_def RECORD_LEN_def)
  then show "unat (record_offset i) = 32 + 12 * unat i"
    using assms by (simp only: addressable_def unat_of_nat take_bit_eq_mod) simp
  have "record_offset i + of_nat RECORD_LEN = of_nat (44 + 12 * unat i)"
    by (simp add: record_offset_def PEAKS_HEADER_LEN_def RECORD_LEN_def algebra_simps)
  then show "unat (record_offset i + of_nat RECORD_LEN) = 44 + 12 * unat i"
    using assms by (simp only: addressable_def unat_of_nat take_bit_eq_mod) simp
qed

lemma slice_join: "m \<le> length c \<Longrightarrow> slice 0 m c @ slice m n c = slice 0 (m + n) c"
  by (simp add: slice_def take_add)

lemma slice_slice: "p + n \<le> m \<Longrightarrow> slice p n (slice 0 m c) = slice p n c"
  by (simp add: slice_def drop_take min_def)

lemma length_of_slice_eq: "slice p n c = bs \<Longrightarrow> length bs = n \<Longrightarrow> 0 < n \<Longrightarrow> p + n \<le> length c"
  by (auto simp: slice_def min_def split: if_splits)

text \<open>Cutting the write of a larger count short never yields a count above the larger one.\<close>

lemma le_nat_append: "le_nat (xs @ ys) = le_nat xs + 256 ^ length xs * le_nat ys"
  by (induction xs) (simp_all add: algebra_simps)

lemma torn_le:
  assumes "length a = length b" "le_nat a \<le> le_nat b"
  shows "le_nat (take n b @ drop n a) \<le> le_nat b"
proof -
  have "le_nat (drop n a) = le_nat a div 256 ^ length (take n a)"
    using le_nat_append [of "take n a" "drop n a"] le_nat_less [of "take n a"] by simp
  also have "\<dots> \<le> le_nat b div 256 ^ length (take n b)"
    using assms by (simp add: div_le_mono)
  also have "\<dots> = le_nat (drop n b)"
    using le_nat_append [of "take n b" "drop n b"] le_nat_less [of "take n b"] by simp
  finally have "256 ^ length (take n b) * le_nat (drop n a) \<le> 256 ^ length (take n b) * le_nat (drop n b)" by simp
  then show ?thesis using le_nat_append [of "take n b" "drop n a"] le_nat_append [of "take n b" "drop n b"] by simp
qed

subsection \<open>Operations that do not fail\<close>

lemma no_fault_steps [simp]:
  assumes "faults f = []"
  shows "file_seek p f = (Inr (), f\<lparr>offset := p\<rparr>)" "file_len f = (Inr (length (content f)), f)"
    "file_set_len n f = (Inr (), f\<lparr>content := take n (content f) @ replicate (n - length (content f)) 0\<rparr>)"
    "file_sync f = (Inr (), f)" "file_write bs f = (Inr (), put_bytes bs f)"
    "read_exact_at p n f =
       (if p + n \<le> length (content f) then Inr (slice p n (content f)) else Inl (Io end_of_file), f)"
  using assms by (simp_all add: file_seek_def file_len_def file_set_len_def file_sync_def file_write_def
      read_exact_at_def slice_def)

lemma put_bytes_simps [simp]:
  "content (put_bytes bs f) = overwrite (offset f) bs (content f)" "faults (put_bytes bs f) = faults f"
  by (simp_all add: put_bytes_def)

definition extended :: "nat \<Rightarrow> bytes \<Rightarrow> bytes" where
  "extended n c = c @ replicate (n - length c) 0"

lemma extended_simps [simp]: "length (extended n c) = max n (length c)"
  "p + n \<le> length c \<Longrightarrow> slice p n (extended m c) = slice p n c"
  by (simp_all add: extended_def slice_append)

text \<open>The bytes of the file after a chunk is written, and the count in the header before it is raised.\<close>

definition with_record :: "waveform_chunk \<Rightarrow> bytes \<Rightarrow> bytes" where
  "with_record chunk c =
     overwrite (32 + 12 * unat (chunk_index chunk)) (encode_record chunk) (extended (44 + 12 * unat (chunk_index chunk)) c)"

lemma length_with_record: "length (with_record chunk c) = max (44 + 12 * unat (chunk_index chunk)) (length c)"
  using length_overwrite [of "encode_record chunk"]
  by (simp add: with_record_def encode_record_def)

lemma part_record_slots:
  assumes "32 \<le> length c" "length w \<le> 12"
  shows "44 + 12 * j \<le> length c \<Longrightarrow> j \<noteq> i \<Longrightarrow> peak_slot j (overwrite (32 + 12 * i) w (extended m c)) = peak_slot j c"
    "p + n \<le> 32 \<Longrightarrow> slice p n (overwrite (32 + 12 * i) w (extended m c)) = slice p n c"
    "length c \<le> length (overwrite (32 + 12 * i) w (extended m c))"
proof -
  show "peak_slot j (overwrite (32 + 12 * i) w (extended m c)) = peak_slot j c" if "44 + 12 * j \<le> length c" "j \<noteq> i"
  proof -
    have apart: "32 + 12 * j + 12 \<le> 32 + 12 * i \<or> 32 + 12 * i + length w \<le> 32 + 12 * j"
      using that(2) assms(2) by (cases j i rule: linorder_cases) simp_all
    have "32 + 12 * j + 12 \<le> length (extended m c)" using that(1) by simp
    then have "peak_slot j (overwrite (32 + 12 * i) w (extended m c)) = peak_slot j (extended m c)"
      unfolding peak_slot_def by (rule slice_overwrite_other [OF _ apart])
    also have "\<dots> = peak_slot j c" using that(1) by (simp add: peak_slot_def)
    finally show ?thesis .
  qed
  show "slice p n (overwrite (32 + 12 * i) w (extended m c)) = slice p n c" if "p + n \<le> 32"
  proof -
    have "p + n \<le> length (extended m c)" "p + n \<le> 32 + 12 * i" using that assms(1) by simp_all
    then have "slice p n (overwrite (32 + 12 * i) w (extended m c)) = slice p n (extended m c)"
      by (intro slice_overwrite_other) simp_all
    also have "\<dots> = slice p n c" using that assms(1) by simp
    finally show ?thesis .
  qed
  show "length c \<le> length (overwrite (32 + 12 * i) w (extended m c))"
    using length_overwrite_ge [of "extended m c" "32 + 12 * i" w] by simp
qed

lemma with_record_slots:
  assumes "32 \<le> length c"
  shows "peak_slot (unat (chunk_index chunk)) (with_record chunk c) = encode_record chunk"
    "44 + 12 * j \<le> length c \<Longrightarrow> j \<noteq> unat (chunk_index chunk) \<Longrightarrow> peak_slot j (with_record chunk c) = peak_slot j c"
    "p + n \<le> 32 \<Longrightarrow> slice p n (with_record chunk c) = slice p n c"
  using part_record_slots [OF assms, of "encode_record chunk"]
    slice_overwrite_same [of "32 + 12 * unat (chunk_index chunk)" "encode_record chunk"
      "extended (44 + 12 * unat (chunk_index chunk)) c"]
  by (simp_all add: with_record_def peak_slot_def)

definition with_count :: "u64 \<Rightarrow> bytes \<Rightarrow> bytes" where "with_count n c = overwrite 16 (u64_to_le n) c"

lemma with_count_slots:
  assumes "24 \<le> length c"
  shows "length (with_count n c) = length c" "peak_slot j (with_count n c) = peak_slot j c"
    "slice 16 8 (with_count n c) = u64_to_le n" "slice 0 16 (with_count n c) = slice 0 16 c"
proof -
  show len: "length (with_count n c) = length c"
    using assms by (simp add: with_count_def length_overwrite)
  show "slice 16 8 (with_count n c) = u64_to_le n"
    using assms slice_overwrite_same [of 16 "u64_to_le n" c] by (simp add: with_count_def)
  show "slice 0 16 (with_count n c) = slice 0 16 c"
    using assms by (simp add: with_count_def slice_overwrite_other)
  show "peak_slot j (with_count n c) = peak_slot j c"
  proof (rule nth_equalityI)
    show "length (peak_slot j (with_count n c)) = length (peak_slot j c)" by (simp add: peak_slot_def length_slice len)
    show "peak_slot j (with_count n c) ! i = peak_slot j c ! i" if "i < length (peak_slot j (with_count n c))" for i
    proof -
      from that have "32 + 12 * j + i < length (with_count n c)" by (auto simp: peak_slot_def length_slice)
      moreover from this have "with_count n c ! (32 + 12 * j + i) = c ! (32 + 12 * j + i)"
        using nth_overwrite [of "32 + 12 * j + i" 16 "u64_to_le n" c] len by (simp add: with_count_def)
      ultimately show ?thesis using that by (simp add: peak_slot_def nth_slice length_slice len)
    qed
  qed
qed

lemma on_file_simps [simp]: "m (peaks_file c) = (r, f) \<Longrightarrow> on_file m c = (r, c\<lparr>peaks_file := f\<rparr>)"
  by (simp add: on_file_def)

lemma addressable_next: "addressable i \<Longrightarrow> unat (i + 1) = unat i + 1"
proof -
  assume "addressable i"
  then have "unat i + 1 < 2 ^ 64" by (simp add: addressable_def)
  then have "unat (of_nat (unat i + 1) :: u64) = unat i + 1"
    by (simp only: unat_of_nat take_bit_eq_mod) simp
  then show ?thesis by (simp add: add.commute)
qed

text \<open>What writing a chunk makes of the file and of the reader.\<close>

definition chunk_written :: "waveform_chunk \<Rightarrow> bytes \<Rightarrow> waveform_reader \<Rightarrow> waveform_cache \<Rightarrow> bool" where
  "chunk_written chunk bs rd c \<longleftrightarrow>
     content (peaks_file c) = (if reader_count rd \<le> chunk_index chunk
       then with_count (chunk_index chunk + 1) (with_record chunk bs) else with_record chunk bs) \<and>
     peaks_reader c = (if reader_count rd \<le> chunk_index chunk then rd\<lparr>reader_count := chunk_index chunk + 1\<rparr> else rd)"

lemma chunk_written_ok:
  assumes "chunk_written chunk (content (peaks_file c)) (peaks_reader c) c'" "peaks_ok c" "addressable (chunk_index chunk)"
  shows "peaks_ok c'" "chunk_count c' = max (chunk_count c) (unat (chunk_index chunk) + 1)"
    "reader_chunk_size (peaks_reader c') = reader_chunk_size (peaks_reader c)"
    "reader_sample_rate (peaks_reader c') = reader_sample_rate (peaks_reader c)"
    "chunk_at c' (unat (chunk_index chunk)) = chunk"
    "\<forall>j < chunk_count c. j \<noteq> unat (chunk_index chunk) \<longrightarrow> chunk_at c' j = chunk_at c j"
proof -
  let ?i = "chunk_index chunk" and ?bs = "content (peaks_file c)" and ?n = "reader_count (peaks_reader c)" and ?f = "peaks_file c'"
  have f: "content ?f = (if ?n \<le> ?i then with_count (?i + 1) (with_record chunk ?bs) else with_record chunk ?bs)"
    and rd: "peaks_reader c' = (if ?n \<le> ?i then (peaks_reader c)\<lparr>reader_count := ?i + 1\<rparr> else peaks_reader c)"
    using assms(1) by (simp_all only: chunk_written_def)
  have ok: "32 + 12 * unat ?n \<le> length ?bs" "32 \<le> length ?bs"
    "slice 0 16 ?bs = PEAKS_MAGIC @ u32_to_le (reader_chunk_size (peaks_reader c)) @ u32_to_le (reader_sample_rate (peaks_reader c))"
    "slice 16 8 ?bs = u64_to_le ?n"
    using assms(2) by (simp_all add: peaks_ok_def Let_def)
  note rec = with_record_slots [where chunk = chunk, OF ok(2)] length_with_record [of chunk ?bs]
  have long: "24 \<le> length (with_record chunk ?bs)" using rec(4) by simp
  note cnt = with_count_slots [where n = "?i + 1", OF long]
  have next_: "unat (?i + 1) = unat ?i + 1" by (rule addressable_next [OF assms(3)])
  have slots: "peak_slot j (content ?f) = peak_slot j (with_record chunk ?bs)" for j
    using f cnt by simp
  show "peaks_ok c'" using f rd ok rec cnt next_ by (auto simp: peaks_ok_def Let_def word_le_nat_alt)
  show "chunk_count c' = max (chunk_count c) (unat ?i + 1)" using rd next_ by (simp add: chunk_count_def word_le_nat_alt)
  show "reader_chunk_size (peaks_reader c') = reader_chunk_size (peaks_reader c)"
    "reader_sample_rate (peaks_reader c') = reader_sample_rate (peaks_reader c)" using rd by simp_all
  show "chunk_at c' (unat ?i) = chunk"
    using slots [of "unat ?i"] rec(1) decode_encode_record [of chunk] by (simp add: chunk_at_def)
  show "\<forall>j < chunk_count c. j \<noteq> unat ?i \<longrightarrow> chunk_at c' j = chunk_at c j"
  proof (intro allI impI)
    fix j assume that: "j < chunk_count c" "j \<noteq> unat ?i"
    have "44 + 12 * j \<le> length ?bs" using that(1) ok(1) by (simp add: chunk_count_def)
    then show "chunk_at c' j = chunk_at c j" using slots [of j] rec(2) [OF _ that(2)] by (simp add: chunk_at_def)
  qed
qed

lemma write_chunk_runs:
  assumes "faults (peaks_file c) = []"
  shows "\<exists>c'. write_chunk chunk c = (Inr (), c') \<and> faults (peaks_file c') = []"
  using assms by (auto simp: write_chunk_def set_chunk_count_def Let_def then_try_def give_def on_file_def)

lemma cache_read_chunk_ok:
  assumes "peaks_ok c" "faults (peaks_file c) = []" "44 + 12 * j < 2 ^ 64"
  shows "cache_read_chunk j c = (Inr (if j < chunk_count c then Some (chunk_at c j) else None), c)"
proof -
  have nat: "unat (of_nat j :: u64) = j" using assms(3) by (simp add: unat_of_nat take_bit_eq_mod)
  then have off: "unat (record_offset (of_nat j)) = 32 + 12 * j"
    using record_offset_nat(1) [of "of_nat j"] assms(3) by (simp add: addressable_def)
  have count: "of_nat j < reader_count (peaks_reader c) \<longleftrightarrow> j < chunk_count c"
    using nat by (simp add: word_less_nat_alt chunk_count_def)
  have same: "c\<lparr>peaks_file := peaks_file c\<rparr> = c" by simp
  show ?thesis
  proof (cases "j < chunk_count c")
    case True
    then have "32 + 12 * j + 12 \<le> length (content (peaks_file c))"
      using assms(1) by (auto simp: peaks_ok_def Let_def chunk_count_def)
    then have "read_chunk (peaks_reader c) (of_nat j) (peaks_file c) = (Inr (Some (chunk_at c j)), peaks_file c)"
      using True count off assms(2) by (simp add: read_chunk_def then_try_def RECORD_LEN_def chunk_at_def peak_slot_def)
    with True same show ?thesis by (simp add: cache_read_chunk_def)
  next
    case False
    then have "read_chunk (peaks_reader c) (of_nat j) (peaks_file c) = (Inr None, peaks_file c)"
      using count by (simp add: read_chunk_def not_less)
    with False same show ?thesis by (simp add: cache_read_chunk_def)
  qed
qed

subsection \<open>Operations that fail\<close>

text \<open>A step on the file, seen from the cache.\<close>

lemma on_file_ends:
  "ends_in P m Q E \<Longrightarrow>
    ends_in (\<lambda>c. P (peaks_file c) \<and> peaks_reader c = rd) (on_file m)
      (\<lambda>x c. Q x (peaks_file c) \<and> peaks_reader c = rd) (\<lambda>c. E (peaks_file c))"
  unfolding ends_in_def on_file_def by (fastforce simp: Let_def split: prod.splits sum.splits)

text \<open>What the file may hold when writing a chunk is cut short, or done.\<close>

definition partly_written :: "waveform_chunk \<Rightarrow> u64 \<Rightarrow> bytes \<Rightarrow> bytes \<Rightarrow> bool" where
  "partly_written chunk n bs0 bs \<longleftrightarrow>
     (let i = unat (chunk_index chunk); ext = extended (44 + 12 * i) bs0 in
      bs = bs0 \<or> (\<exists>k. bs = overwrite (32 + 12 * i) (take k (encode_record chunk)) ext) \<or>
      n \<le> chunk_index chunk \<and> (\<exists>k. bs = overwrite 16 (take k (u64_to_le (chunk_index chunk + 1))) (with_record chunk bs0)))"

lemma partly_written_simps:
  "partly_written chunk n bs0 bs0"
  "partly_written chunk n bs0 (overwrite (32 + 12 * unat (chunk_index chunk)) (take k (encode_record chunk)) (extended (44 + 12 * unat (chunk_index chunk)) bs0))"
  "partly_written chunk n bs0 (extended (44 + 12 * unat (chunk_index chunk)) bs0)"
  "partly_written chunk n bs0 (with_record chunk bs0)"
  "n \<le> chunk_index chunk \<Longrightarrow> partly_written chunk n bs0 (overwrite 16 (take k (u64_to_le (chunk_index chunk + 1))) (with_record chunk bs0))"
proof -
  show "partly_written chunk n bs0 bs0" by (simp add: partly_written_def Let_def)
  show part: "partly_written chunk n bs0 (overwrite (32 + 12 * unat (chunk_index chunk)) (take k (encode_record chunk)) (extended (44 + 12 * unat (chunk_index chunk)) bs0))" for k
    unfolding partly_written_def Let_def by blast
  show "partly_written chunk n bs0 (extended (44 + 12 * unat (chunk_index chunk)) bs0)"
    using part [of 0] by (simp add: overwrite_def)
  show "partly_written chunk n bs0 (with_record chunk bs0)"
    using part [of 12] by (simp add: with_record_def)
  show "n \<le> chunk_index chunk \<Longrightarrow> partly_written chunk n bs0 (overwrite 16 (take k (u64_to_le (chunk_index chunk + 1))) (with_record chunk bs0))"
    unfolding partly_written_def Let_def by blast
qed

lemma write_chunk_any:
  assumes "addressable (chunk_index chunk)"
  shows "ends_in (\<lambda>c. content (peaks_file c) = bs0 \<and> peaks_reader c = rd) (write_chunk chunk)
     (\<lambda>_. chunk_written chunk bs0 rd) (\<lambda>c. partly_written chunk (reader_count rd) bs0 (content (peaks_file c)))"
proof -
  let ?i = "chunk_index chunk" and ?E = "\<lambda>c. partly_written chunk (reader_count rd) bs0 (content (peaks_file c))"
  let ?ext = "extended (44 + 12 * unat ?i) bs0"
  note off = record_offset_nat [OF assms]
  have len: "ends_in (\<lambda>c. content (peaks_file c) = bs0 \<and> peaks_reader c = rd) (on_file file_len)
      (\<lambda>n c. (n = length bs0 \<and> content (peaks_file c) = bs0) \<and> peaks_reader c = rd) ?E"
    by (rule ends_in_weaken [OF on_file_ends [OF file_steps_end(2)]]) (auto simp: partly_written_simps)
  have grow: "ends_in (\<lambda>c. (n = length bs0 \<and> content (peaks_file c) = bs0) \<and> peaks_reader c = rd)
      (if n < 44 + 12 * unat ?i then on_file (file_set_len (44 + 12 * unat ?i)) else give ())
      (\<lambda>_ c. content (peaks_file c) = ?ext \<and> peaks_reader c = rd) ?E" for n
  proof (cases "n = length bs0 \<and> n < 44 + 12 * unat ?i")
    case True
    have "ends_in (\<lambda>c. (n = length bs0 \<and> content (peaks_file c) = bs0) \<and> peaks_reader c = rd)
        (on_file (file_set_len (44 + 12 * unat ?i))) (\<lambda>_ c. content (peaks_file c) = ?ext \<and> peaks_reader c = rd) ?E"
      by (rule ends_in_weaken [OF on_file_ends [OF file_steps_end(3)]])
        (use True in \<open>auto simp: partly_written_simps extended_def\<close>)
    with True show ?thesis by simp
  next
    case False
    then show ?thesis by (auto simp: ends_in_def extended_def)
  qed
  have seek: "ends_in (\<lambda>c. content (peaks_file c) = ?ext \<and> peaks_reader c = rd) (on_file (file_seek (32 + 12 * unat ?i)))
      (\<lambda>_ c. (content (peaks_file c) = ?ext \<and> offset (peaks_file c) = 32 + 12 * unat ?i) \<and> peaks_reader c = rd) ?E"
    by (rule ends_in_weaken [OF on_file_ends [OF file_steps_end(1)]]) (auto simp: partly_written_simps)
  have rec: "ends_in (\<lambda>c. (content (peaks_file c) = ?ext \<and> offset (peaks_file c) = 32 + 12 * unat ?i) \<and> peaks_reader c = rd)
      (on_file (file_write (encode_record chunk)))
      (\<lambda>_ c. content (peaks_file c) = with_record chunk bs0 \<and> peaks_reader c = rd) ?E"
    by (rule ends_in_weaken [OF on_file_ends [OF file_steps_end(4)]])
      (auto simp: partly_written_simps with_record_def)
  have seek16: "ends_in (\<lambda>c. content (peaks_file c) = with_record chunk bs0 \<and> peaks_reader c = rd) (on_file (file_seek 16))
      (\<lambda>_ c. (content (peaks_file c) = with_record chunk bs0 \<and> offset (peaks_file c) = 16) \<and> peaks_reader c = rd) ?E"
    by (rule ends_in_weaken [OF on_file_ends [OF file_steps_end(1)]]) (auto simp: partly_written_simps)
  have count: "ends_in (\<lambda>c. (content (peaks_file c) = with_record chunk bs0 \<and> offset (peaks_file c) = 16) \<and> peaks_reader c = rd)
      (on_file (file_write (u64_to_le (?i + 1))))
      (\<lambda>_ c. (content (peaks_file c) = overwrite 16 (u64_to_le (?i + 1)) (with_record chunk bs0)) \<and> peaks_reader c = rd) ?E"
    if "reader_count rd \<le> ?i"
    by (rule ends_in_weaken [OF on_file_ends [OF file_steps_end(4)]]) (use that in \<open>auto simp: partly_written_simps\<close>)
  have last_: "ends_in (\<lambda>c. content (peaks_file c) = with_record chunk bs0 \<and> peaks_reader c = rd)
      (\<lambda>c. if reader_count (peaks_reader c) \<le> ?i then set_chunk_count (?i + 1) c else (Inr (), c)) (\<lambda>_. chunk_written chunk bs0 rd) ?E"
  proof (cases "reader_count rd \<le> ?i")
    case True
    have "ends_in (\<lambda>c. content (peaks_file c) = with_record chunk bs0 \<and> peaks_reader c = rd) (set_chunk_count (?i + 1))
        (\<lambda>_. chunk_written chunk bs0 rd) ?E"
      unfolding set_chunk_count_def
      by (rule ends_in_then [OF seek16], rule ends_in_then [OF count [OF True]])
        (use True in \<open>auto simp: ends_in_def chunk_written_def with_count_def\<close>)
    with True show ?thesis by (auto simp: ends_in_def)
  next
    case False
    then show ?thesis by (auto simp: ends_in_def chunk_written_def)
  qed
  show ?thesis
    unfolding write_chunk_def Let_def off
    by (rule ends_in_then [OF len], rule ends_in_then [OF grow], rule ends_in_then [OF seek], rule ends_in_then [OF rec], rule last_)
qed

lemma chunk_written_partly: "chunk_written chunk bs0 rd c \<Longrightarrow> partly_written chunk (reader_count rd) bs0 (content (peaks_file c))"
  using partly_written_simps(4) [of chunk "reader_count rd" bs0] partly_written_simps(5) [of "reader_count rd" chunk bs0 8]
  by (simp add: chunk_written_def with_count_def split: if_splits)

lemma write_chunk_ends:
  assumes "addressable (chunk_index chunk)" "write_chunk chunk c = (r, c')"
  shows "r = Inr () \<Longrightarrow> chunk_written chunk (content (peaks_file c)) (peaks_reader c) c'"
    "partly_written chunk (reader_count (peaks_reader c)) (content (peaks_file c)) (content (peaks_file c'))"
  using ends_inD [OF write_chunk_any [OF assms(1)] _ assms(2)] by (auto dest: chunk_written_partly split: sum.splits)

lemma write_chunk_ok:
  assumes "peaks_ok c" "addressable (chunk_index chunk)" "faults (peaks_file c) = []"
  shows "\<exists>c'. write_chunk chunk c = (Inr (), c') \<and> peaks_ok c' \<and> faults (peaks_file c') = [] \<and>
     chunk_count c' = max (chunk_count c) (unat (chunk_index chunk) + 1) \<and>
     chunk_at c' (unat (chunk_index chunk)) = chunk \<and>
     (\<forall>j < chunk_count c. j \<noteq> unat (chunk_index chunk) \<longrightarrow> chunk_at c' j = chunk_at c j)"
proof -
  obtain c' where c': "write_chunk chunk c = (Inr (), c')" "faults (peaks_file c') = []" using write_chunk_runs [OF assms(3)] by blast
  note written = chunk_written_ok [OF write_chunk_ends(1) [OF assms(2) c'(1) refl] assms(1,2)]
  with c' show ?thesis by blast
qed

lemma slice_overwrite_front:
  assumes "p + n \<le> length c" "length w \<le> n"
  shows "slice p n (overwrite p w c) = w @ drop (length w) (slice p n c)"
  using assms by (cases "w = []") (simp_all add: slice_def overwrite_def drop_take add.commute)

text \<open>The file is still one of peaks: no count beyond its records, and no other record harmed.\<close>

definition peaks_kept :: "nat \<Rightarrow> nat \<Rightarrow> nat \<Rightarrow> bytes \<Rightarrow> bytes \<Rightarrow> bool" where
  "peaks_kept count i m bs0 bs \<longleftrightarrow>
     slice 0 16 bs = slice 0 16 bs0 \<and> header_count bs \<le> m \<and> 32 + 12 * header_count bs \<le> length bs \<and>
     (\<forall>j < count. j \<noteq> i \<longrightarrow> peak_slot j bs = peak_slot j bs0)"

lemma le_nat_u64 [simp]: "le_nat (u64_to_le n) = unat n"
proof -
  have "unat n < 256 ^ 8" using unsigned_less [of n, where 'a = nat] by simp
  then show ?thesis by (simp add: u64_to_le_def le_nat_le_bytes)
qed

lemma partly_written_kept:
  assumes "peaks_ok c" "addressable (chunk_index chunk)"
    "partly_written chunk (reader_count (peaks_reader c)) (content (peaks_file c)) bs"
  shows "peaks_kept (chunk_count c) (unat (chunk_index chunk)) (max (chunk_count c) (unat (chunk_index chunk) + 1))
    (content (peaks_file c)) bs"
proof -
  let ?i = "chunk_index chunk" and ?bs = "content (peaks_file c)" and ?n = "reader_count (peaks_reader c)"
  have ok: "32 + 12 * unat ?n \<le> length ?bs" "32 \<le> length ?bs" "slice 16 8 ?bs = u64_to_le ?n"
    using assms(1) by (simp_all add: peaks_ok_def Let_def)
  have count: "header_count ?bs = unat ?n" by (simp add: header_count_def ok(3))
  have slot_in: "44 + 12 * j \<le> length ?bs" if "j < chunk_count c" for j
    using that ok(1) by (simp add: chunk_count_def)
  from assms(3) consider (old) "bs = ?bs"
    | (rec) k where "bs = overwrite (32 + 12 * unat ?i) (take k (encode_record chunk)) (extended (44 + 12 * unat ?i) ?bs)"
    | (cnt) k where "?n \<le> ?i" "bs = overwrite 16 (take k (u64_to_le (?i + 1))) (with_record chunk ?bs)"
    unfolding partly_written_def Let_def by blast
  then show ?thesis
  proof cases
    case old
    with ok(1) count show ?thesis by (simp add: peaks_kept_def chunk_count_def)
  next
    case (rec k)
    note part = part_record_slots [OF ok(2), of "take k (encode_record chunk)"]
    have "length ?bs \<le> length bs" "slice 0 16 bs = slice 0 16 ?bs" "slice 16 8 bs = slice 16 8 ?bs"
      "\<forall>j < chunk_count c. j \<noteq> unat ?i \<longrightarrow> peak_slot j bs = peak_slot j ?bs"
      using part slot_in rec by simp_all
    with ok(1) count show ?thesis by (simp add: peaks_kept_def chunk_count_def header_count_def)
  next
    case (cnt k)
    let ?w = "take k (u64_to_le (?i + 1))" and ?c = "with_record chunk ?bs"
    note rec = with_record_slots [where chunk = chunk, OF ok(2)] length_with_record [of chunk ?bs]
    have next_: "unat (?i + 1) = unat ?i + 1" by (rule addressable_next [OF assms(2)])
    have "slice 16 8 bs = ?w @ drop (length ?w) (slice 16 8 ?c)"
      unfolding cnt(2) by (rule slice_overwrite_front) (simp_all add: rec(4))
    also have "slice 16 8 ?c = u64_to_le ?n" using rec(3) ok(3) by simp
    finally have torn: "slice 16 8 bs = take k (u64_to_le (?i + 1)) @ drop k (u64_to_le ?n)"
      by (cases "k \<le> 8") simp_all
    have "header_count bs \<le> unat (?i + 1)"
      unfolding header_count_def torn
      using torn_le [of "u64_to_le ?n" "u64_to_le (?i + 1)" k] cnt(1) next_ by (simp add: word_le_nat_alt)
    moreover have "length ?c \<le> length bs" unfolding cnt(2) by (rule length_overwrite_ge)
    moreover have "slice 0 16 bs = slice 0 16 ?c"
      unfolding cnt(2) by (rule slice_overwrite_other) (simp_all add: rec(4))
    moreover have "peak_slot j bs = peak_slot j ?bs" if "j < chunk_count c" "j \<noteq> unat ?i" for j
    proof -
      have "peak_slot j bs = peak_slot j ?c"
        unfolding cnt(2) peak_slot_def using slot_in [OF that(1)] rec(4)
        by (intro slice_overwrite_other) simp_all
      with rec(2) [OF slot_in [OF that(1)] that(2)] show ?thesis by simp
    qed
    ultimately show ?thesis using rec(3) [of 0 16] rec(4) next_ by (simp add: peaks_kept_def)
  qed
qed

text \<open>A count that includes the new chunk is written behind its record.\<close>

lemma partly_written_last:
  assumes "peaks_ok c" "addressable (chunk_index chunk)"
    "partly_written chunk (reader_count (peaks_reader c)) (content (peaks_file c)) bs"
  shows "header_count bs \<le> chunk_count c \<or> peak_slot (unat (chunk_index chunk)) bs = encode_record chunk"
proof -
  let ?i = "chunk_index chunk" and ?bs = "content (peaks_file c)" and ?n = "reader_count (peaks_reader c)"
  have ok: "32 \<le> length ?bs" "slice 16 8 ?bs = u64_to_le ?n" using assms(1) by (simp_all add: peaks_ok_def Let_def)
  have count: "header_count ?bs = chunk_count c" by (simp add: header_count_def ok(2) chunk_count_def)
  from assms(3) consider (old) "bs = ?bs"
    | (rec) k where "bs = overwrite (32 + 12 * unat ?i) (take k (encode_record chunk)) (extended (44 + 12 * unat ?i) ?bs)"
    | (cnt) k where "bs = overwrite 16 (take k (u64_to_le (?i + 1))) (with_record chunk ?bs)"
    unfolding partly_written_def Let_def by blast
  then show ?thesis
  proof cases
    case old
    then show ?thesis by (simp add: count)
  next
    case (rec k)
    have "slice 16 8 bs = slice 16 8 ?bs"
      unfolding rec by (rule part_record_slots(2) [OF ok(1)]) simp_all
    then show ?thesis using count by (simp add: header_count_def)
  next
    case (cnt k)
    have "peak_slot (unat ?i) bs = peak_slot (unat ?i) (with_record chunk ?bs)"
      unfolding cnt peak_slot_def using length_with_record [of chunk ?bs]
      by (intro slice_overwrite_other) simp_all
    then show ?thesis using with_record_slots(1) [OF ok(1)] by simp
  qed
qed

text \<open>Opening a file of peaks anew.\<close>

abbreviation closed_file :: "bytes \<Rightarrow> open_file" where
  "closed_file bs \<equiv> \<lparr>content = bs, offset = 0, faults = []\<rparr>"

lemma slice_sub: "a + p + n \<le> a + m \<Longrightarrow> slice p n (slice a m c) = slice (a + p) n c"
  by (simp add: slice_def drop_take min_def add.commute)

lemma reader_open_peaks:
  assumes "slice 0 16 bs = PEAKS_MAGIC @ u32_to_le csize @ u32_to_le rate" "32 \<le> length bs"
  shows "reader_open p (closed_file bs) =
    (Inr \<lparr>reader_chunk_size = csize, reader_sample_rate = rate, reader_count = u64_from_le (slice 16 8 bs)\<rparr>, closed_file bs)"
proof -
  have sub: "slice q n bs = slice q n (PEAKS_MAGIC @ u32_to_le csize @ u32_to_le rate)" if "q + n \<le> 16" for q n
    using slice_sub [of 0 q n 16 bs] that by (simp add: assms(1))
  have "slice 0 8 bs = PEAKS_MAGIC" "slice 8 4 bs = u32_to_le csize" "slice 12 4 bs = u32_to_le rate"
    by (subst sub; simp add: slice_def)+
  moreover have "slice q n (slice 0 32 bs) = slice q n bs" if "q + n \<le> 32" for q n
    using slice_sub [of 0 q n 32 bs] that by simp
  ultimately show ?thesis using assms(2) by (simp add: reader_open_def then_try_def)
qed

lemma u64_from_le_nat: "length bs = 8 \<Longrightarrow> unat (u64_from_le bs) = le_nat bs"
  using le_nat_less [of bs] by (simp add: u64_from_le_def unat_of_nat take_bit_eq_mod)

lemma peaks_kept_reads:
  assumes "peaks_kept count i m bs0 bs" "slice 0 16 bs0 = PEAKS_MAGIC @ u32_to_le csize @ u32_to_le rate"
    "32 + 12 * m < 2 ^ 64"
  defines "rd \<equiv> \<lparr>reader_chunk_size = csize, reader_sample_rate = rate, reader_count = u64_from_le (slice 16 8 bs)\<rparr>"
  shows "reader_open p (closed_file bs) = (Inr rd, closed_file bs) \<and> unat (reader_count rd) \<le> m \<and>
    (\<forall>j < unat (reader_count rd).
       read_chunk rd (of_nat j) (closed_file bs) = (Inr (Some (decode_record (of_nat j) (peak_slot j bs))), closed_file bs) \<and>
       (j < count \<longrightarrow> j \<noteq> i \<longrightarrow> peak_slot j bs = peak_slot j bs0))"
proof -
  have kept: "slice 0 16 bs = slice 0 16 bs0" "header_count bs \<le> m" "32 + 12 * header_count bs \<le> length bs"
    "\<forall>j < count. j \<noteq> i \<longrightarrow> peak_slot j bs = peak_slot j bs0"
    using assms(1) by (simp_all add: peaks_kept_def)
  have "length (slice 16 8 bs) = 8" using kept(3) by (simp add: length_slice)
  then have count: "unat (reader_count rd) = header_count bs"
    by (simp add: rd_def u64_from_le_nat header_count_def)
  have "reader_open p (closed_file bs) = (Inr rd, closed_file bs)"
    unfolding rd_def by (rule reader_open_peaks) (use kept assms(2) in simp_all)
  moreover have "read_chunk rd (of_nat j) (closed_file bs) =
      (Inr (Some (decode_record (of_nat j) (peak_slot j bs))), closed_file bs)" if j: "j < unat (reader_count rd)" for j
  proof -
    have small: "44 + 12 * j < 2 ^ 64" using j count kept(2) assms(3) by simp
    then have nat: "unat (of_nat j :: u64) = j" by (simp add: unat_of_nat take_bit_eq_mod)
    then have "unat (record_offset (of_nat j)) = 32 + 12 * j"
      using record_offset_nat(1) [of "of_nat j"] small by (simp add: addressable_def)
    moreover have "\<not> reader_count rd \<le> of_nat j" using j nat by (simp add: word_le_nat_alt)
    moreover have "32 + 12 * j + 12 \<le> length bs" using j count kept(3) by simp
    ultimately show ?thesis by (simp add: read_chunk_def then_try_def RECORD_LEN_def peak_slot_def)
  qed
  ultimately show ?thesis using kept(2,4) count by simp
qed

definition fresh_cache :: "asset_id \<Rightarrow> string \<Rightarrow> waveform_cache" where
  "fresh_cache i p = \<lparr>waveform_asset = i, peaks_path = p, peaks_file = closed_file empty_header,
     peaks_reader = \<lparr>reader_chunk_size = 0, reader_sample_rate = 0, reader_count = 0\<rparr>\<rparr>"

lemma le_bytes_zero: "le_bytes n 0 = replicate n 0"
  by (induction n) simp_all

lemma fresh_cache_ok: "peaks_ok (fresh_cache i p)" "chunk_count (fresh_cache i p) = 0"
  "faults (peaks_file (fresh_cache i p)) = []"
  by (simp_all add: fresh_cache_def peaks_ok_def Let_def empty_header_def slice_def chunk_count_def
      u32_to_le_def u64_to_le_def le_bytes_zero replicate_add [symmetric])

end
