(* ===== verification/PeakGen.thy ===== *)
theory PeakGen
  imports Peaks
begin

text \<open>
  Opening an audio file (\<open>tpt-av-asset-cache/src/audio.rs\<close>) and generating its waveform peaks
  (\<open>WaveformGenerator\<close> in \<open>waveform.rs\<close>).

  The decoders are not in the repository: \<open>wav_open\<close> and \<open>flac_open\<close> take what the path names and
  return a decoder with its stream information or refuse, and \<open>decode\<close> takes the length of the buffer
  and returns the samples it wrote to the front of it.  \<open>env\<close> is what other threads do to the shared
  cancellation flag before it is polled.  Loops that a decoder can keep going return an option.
\<close>

subsection \<open>Audio streams\<close>

record raw_stream_info =
  raw_sample_rate :: u32
  raw_channels :: u16
  raw_bit_depth :: u16
  raw_total_frames :: "u64 option"

record audio_stream_info =
  stream_sample_rate :: u32
  stream_channels :: u16
  stream_bit_depth :: u16
  stream_codec :: string
  total_frames :: "u64 option"
  stream_duration :: "f64 option"

definition total_samples :: "audio_stream_info \<Rightarrow> u64 option" where
  "total_samples info = map_option (\<lambda>frames. frames * ucast (stream_channels info)) (total_frames info)"

definition stream_info :: "string \<Rightarrow> raw_stream_info \<Rightarrow> audio_stream_info" where
  "stream_info fmt raw =
     \<lparr>stream_sample_rate = raw_sample_rate raw, stream_channels = raw_channels raw,
      stream_bit_depth = raw_bit_depth raw, stream_codec = fmt, total_frames = raw_total_frames raw,
      stream_duration = map_option
        (\<lambda>frames. f64_div (f64_of_nat (unat frames)) (f64_of_nat (max 1 (unat (raw_sample_rate raw)))))
        (raw_total_frames raw)\<rparr>"

text \<open>\<open>File::open\<close>: also a directory opens.\<close>

definition open_node :: "string \<Rightarrow> (file_system, node) step" where
  "open_node p = fs_try ReadCall p (\<lambda>k fs.
     case nodes fs k of None \<Rightarrow> (Inl (Io not_found), fs) | Some n \<Rightarrow> (Inr n, fs))"

type_synonym 's opener = "node \<Rightarrow> ('s \<times> raw_stream_info) option"

definition open_audio :: "'s opener \<Rightarrow> 's opener \<Rightarrow> string \<Rightarrow> (file_system, 's \<times> audio_stream_info) step" where
  "open_audio wav_open flac_open p =
     then_try (open_node p) (\<lambda>n.
       case wav_open n of
         Some (s, raw) \<Rightarrow> give (s, stream_info ''wav'' raw)
       | None \<Rightarrow>
           then_try (open_node p) (\<lambda>n.
             case flac_open n of
               Some (s, raw) \<Rightarrow> give (s, stream_info ''flac'' raw)
             | None \<Rightarrow> fail (UnsupportedFormat p)))"

definition probe_audio :: "'s opener \<Rightarrow> 's opener \<Rightarrow> string \<Rightarrow> (file_system, audio_stream_info) step" where
  "probe_audio wav_open flac_open p =
     then_try (open_audio wav_open flac_open p) (\<lambda>(_, info). give info)"

text \<open>A decoder's own error becomes a codec error.\<close>

type_synonym 's decoder_fn = "nat \<Rightarrow> 's \<Rightarrow> (string + f32 list) \<times> 's"

definition stream_decode :: "'s decoder_fn \<Rightarrow> nat \<Rightarrow> 's \<Rightarrow> (asset_error + f32 list) \<times> 's" where
  "stream_decode decode n s = (case decode n s of (r, s) \<Rightarrow> (map_err codec r, s))"

subsection \<open>Peaks of a block\<close>

definition peaks_of :: "u64 \<Rightarrow> f32 list \<Rightarrow> waveform_chunk" where
  "peaks_of index samples =
     (let lo = foldl f32_min f32_MAX samples;
          hi = foldl f32_max f32_MIN samples;
          sum_sq = foldl (\<lambda>acc s. f64_add acc (f64_mul (f64_of_f32 s) (f64_of_f32 s))) f64_zero samples;
          rms = f32_of_f64 (f64_sqrt (f64_div sum_sq (f64_of_nat (max 1 (length samples)))))
      in \<lparr>chunk_index = index, chunk_min = lo, chunk_max = hi, chunk_rms = rms\<rparr>)"

subsection \<open>Generation\<close>

definition usize_max :: nat where "usize_max = 2 ^ 64 - 1"

text \<open>Decode and drop what the cache already covers.\<close>

function skip_loop ::
  "('p shared_flag \<Rightarrow> 'p shared_flag) \<Rightarrow> 's decoder_fn \<Rightarrow> nat \<Rightarrow> nat \<Rightarrow> nat \<Rightarrow> 's \<Rightarrow> 'p shared_flag
     \<Rightarrow> (asset_error + unit) \<times> 's \<times> 'p shared_flag" where
  "skip_loop env decode nch buf_len to_skip s p =
     (if to_skip = 0 then (Inr (), s, p)
      else let p = env p in
        case check_cancelled p of
          Inl e \<Rightarrow> (Inl e, s, p)
        | Inr _ \<Rightarrow>
            (let want = min buf_len (min usize_max (to_skip * nch)) in
             if want = 0 then (Inr (), s, p)
             else case stream_decode decode want s of
                 (Inl e, s) \<Rightarrow> (Inl e, s, p)
               | (Inr samples, s) \<Rightarrow>
                   (let frames = length samples div nch in
                    if frames = 0 then (Inr (), s, p)
                    else skip_loop env decode nch buf_len (to_skip - frames) s p)))"
  by pat_completeness auto

termination
  by (relation "measure (\<lambda>(_, _, _, _, to_skip, _, _). to_skip)") auto

declare skip_loop.simps [simp del]

partial_function (option) peaks_loop ::
  "('p shared_flag \<Rightarrow> 'p shared_flag) \<Rightarrow> 's decoder_fn \<Rightarrow> 'p reporter \<Rightarrow> nat \<Rightarrow> nat \<Rightarrow> u64
     \<Rightarrow> u64 \<Rightarrow> u64 \<Rightarrow> waveform_cache \<Rightarrow> 's \<Rightarrow> 'p shared_flag
     \<Rightarrow> ((asset_error + unit) \<times> waveform_cache \<times> 's \<times> 'p shared_flag) option" where
  "peaks_loop env decode rep nch buf_len tot index done_frames c s p =
     (let p = env p in
      case check_cancelled p of
        Inl e \<Rightarrow> Some (Inl e, c, s, p)
      | Inr _ \<Rightarrow>
          (case stream_decode decode buf_len s of
             (Inl e, s) \<Rightarrow> Some (Inl e, c, s, p)
           | (Inr samples, s) \<Rightarrow>
               (let frames = length samples div nch in
                if frames = 0 then Some (Inr (), c, s, p)
                else case write_chunk (peaks_of index (take (frames * nch) samples)) c of
                    (Inl e, c) \<Rightarrow> Some (Inl e, c, s, p)
                  | (Inr _, c) \<Rightarrow>
                      (let done_frames = done_frames + of_nat frames;
                           p = (if 0 < tot
                                then report_ratio rep (f64_of_nat (unat (min done_frames tot))) (f64_of_nat (unat tot)) p
                                else p)
                       in peaks_loop env decode rep nch buf_len tot (index + 1) done_frames c s p))))"

record waveform_generator =
  gen_chunk_size :: u32
  gen_sample_rate :: u32

text \<open>The generator behind an open stream, from the computation of the stream's totals on.\<close>

definition generate_stream ::
  "('p shared_flag \<Rightarrow> 'p shared_flag) \<Rightarrow> 's decoder_fn \<Rightarrow> 'p reporter \<Rightarrow> waveform_generator \<Rightarrow> audio_stream_info
     \<Rightarrow> waveform_cache \<Rightarrow> 's \<Rightarrow> 'p shared_flag
     \<Rightarrow> ((asset_error + unit) \<times> waveform_cache \<times> 's \<times> 'p shared_flag) option" where
  "generate_stream env decode rep g info c s p =
     (let nch = max 1 (unat (stream_channels info));
          tot = (case total_frames info of Some n \<Rightarrow> n
                   | None \<Rightarrow> f64_to_u64 (f64_mul (case stream_duration info of Some d \<Rightarrow> d | None \<Rightarrow> f64_zero)
                               (f64_of_nat (max 1 (unat (stream_sample_rate info))))));
          cached_frames = reader_count (peaks_reader c) * ucast (gen_chunk_size g);
          buf_len = unat (gen_chunk_size g) * nch;
          index = reader_count (peaks_reader c)
      in case skip_loop env decode nch buf_len (unat cached_frames) s p of
           (Inl e, s, p) \<Rightarrow> Some (Inl e, c, s, p)
         | (Inr _, s, p) \<Rightarrow>
             Option.bind (peaks_loop env decode rep nch buf_len tot index cached_frames c s p)
               (\<lambda>(r, c, s, p).
                 case r of
                   Inl e \<Rightarrow> Some (Inl e, c, s, p)
                 | Inr _ \<Rightarrow>
                     (case waveform_finish c of
                        (Inl e, c) \<Rightarrow> Some (Inl e, c, s, p)
                      | (Inr _, c) \<Rightarrow> Some (Inr (), c, s, report rep f64_one p))))"

definition waveform_generate ::
  "('p shared_flag \<Rightarrow> 'p shared_flag) \<Rightarrow> 's opener \<Rightarrow> 's opener \<Rightarrow> 's decoder_fn \<Rightarrow> 'p reporter
     \<Rightarrow> waveform_generator \<Rightarrow> string \<Rightarrow> file_system \<Rightarrow> waveform_cache \<Rightarrow> 'p shared_flag
     \<Rightarrow> ((asset_error + unit) \<times> waveform_cache \<times> 'p shared_flag) option" where
  "waveform_generate env wav_open flac_open decode rep g audio_path fs c p =
     (case ensure_params (gen_chunk_size g) (gen_sample_rate g) c of
        (Inl e, c) \<Rightarrow> Some (Inl e, c, p)
      | (Inr _, c) \<Rightarrow>
          (case open_audio wav_open flac_open audio_path fs of
             (Inl e, _) \<Rightarrow> Some (Inl e, c, p)
           | (Inr (s, info), _) \<Rightarrow>
               map_option (\<lambda>(r, c, s, p). (r, c, p)) (generate_stream env decode rep g info c s p)))"

subsection \<open>What a decoder delivers\<close>

text \<open>
  The blocks of whole frames that calls with a buffer of \<open>m\<close> samples deliver up to the end of the stream, which is a call
  without a frame, or up to the error with which a call fails; \<open>n\<close> bounds the calls, and \<open>None\<close> is that they do not suffice.
\<close>

fun read_blocks :: "nat \<Rightarrow> 's decoder_fn \<Rightarrow> nat \<Rightarrow> nat \<Rightarrow> 's \<Rightarrow> (f32 list list \<times> asset_error option) option" where
  "read_blocks 0 decode nch m s = None"
| "read_blocks (Suc n) decode nch m s =
     (case stream_decode decode m s of
        (Inl e, _) \<Rightarrow> Some ([], Some e)
      | (Inr samples, s) \<Rightarrow>
          if length samples div nch = 0 then Some ([], None)
          else map_option (\<lambda>(blocks, e). (take (length samples div nch * nch) samples # blocks, e)) (read_blocks n decode nch m s))"

lemma read_blocks_more: "read_blocks n decode nch m s = Some y \<Longrightarrow> n \<le> k \<Longrightarrow> read_blocks k decode nch m s = Some y"
proof (induction n arbitrary: k s y)
  case (Suc n)
  then obtain k' where k: "k = Suc k'" "n \<le> k'" by (cases k) auto
  obtain r s1 where dec: "stream_decode decode m s = (r, s1)" by fastforce
  show ?case
  proof (cases "\<exists>samples. r = Inr samples \<and> length samples div nch \<noteq> 0")
    case True
    then obtain samples y1 where more: "r = Inr samples" "length samples div nch \<noteq> 0" "read_blocks n decode nch m s1 = Some y1"
      using Suc.prems(1) dec by (cases "read_blocks n decode nch m s1") auto
    from Suc.IH [OF this(3) k(2)] Suc.prems(1) dec more k(1) show ?thesis by simp
  next
    case False
    with Suc.prems(1) dec k(1) show ?thesis by (cases r) auto
  qed
qed simp

lemma read_blocks_unique:
  assumes "read_blocks n decode nch m s = Some y" "read_blocks k decode nch m s = Some z"
  shows "y = z"
  using read_blocks_more [OF assms(1), of "max n k"] read_blocks_more [OF assms(2), of "max n k"] by simp

text \<open>A decoder that fills the buffer as long as it has samples; its calls may fail.\<close>

definition steady :: "'s decoder_fn \<Rightarrow> ('s \<Rightarrow> f32 list) \<Rightarrow> nat \<Rightarrow> bool" where
  "steady decode rest nch \<longleftrightarrow>
     (\<forall>m s samples s'. nch dvd m \<longrightarrow> decode m s = (Inr samples, s') \<longrightarrow> samples = take m (rest s) \<and> rest s' = drop m (rest s))"

definition never_fails :: "'s decoder_fn \<Rightarrow> bool" where
  "never_fails decode \<longleftrightarrow> (\<forall>m s. \<exists>samples. fst (decode m s) = Inr samples)"

text \<open>A decoder that gives one sample at a time, whatever room the buffer has.\<close>

definition drips :: "'s decoder_fn \<Rightarrow> ('s \<Rightarrow> f32 list) \<Rightarrow> bool" where
  "drips decode rest \<longleftrightarrow> (\<forall>m s. 0 < m \<longrightarrow> (\<exists>s'. decode m s = (Inr (take 1 (rest s)), s') \<and> rest s' = drop 1 (rest s)))"

lemma steady_decode:
  assumes "steady decode rest nch" "nch dvd m"
  obtains (failed) e s' where "stream_decode decode m s = (Inl e, s')" "\<not> never_fails decode"
  | (got) s' where "stream_decode decode m s = (Inr (take m (rest s)), s')" "rest s' = drop m (rest s)"
proof (cases "decode m s")
  case (Pair r s')
  show thesis
  proof (cases r)
    case (Inl e)
    then have "\<not> never_fails decode" using Pair unfolding never_fails_def by (metis fst_conv Inl_Inr_False)
    with Pair Inl show thesis by (intro failed [of "codec e" s']) (simp_all add: stream_decode_def)
  next
    case (Inr samples)
    with Pair assms have "samples = take m (rest s)" "rest s' = drop m (rest s)" unfolding steady_def by blast+
    with Pair Inr show thesis by (intro got [of s']) (simp_all add: stream_decode_def)
  qed
qed

lemma drips_decode:
  assumes "drips decode rest" "0 < m"
  obtains s' where "stream_decode decode m s = (Inr (take 1 (rest s)), s')" "rest s' = drop 1 (rest s)"
proof -
  from assms obtain s' where "decode m s = (Inr (take 1 (rest s)), s')" "rest s' = drop 1 (rest s)"
    unfolding drips_def by blast
  then show thesis by (intro that [of s']) (simp_all add: stream_decode_def)
qed

fun chunks_of :: "nat \<Rightarrow> 'a list \<Rightarrow> 'a list list" where
  "chunks_of k xs = (if k = 0 \<or> xs = [] then [] else take k xs # chunks_of k (drop k xs))"

declare chunks_of.simps [simp del]

lemma chunks_of_Nil [simp]: "chunks_of k [] = []"
  by (simp add: chunks_of.simps)

lemma chunks_of_step: "0 < k \<Longrightarrow> xs \<noteq> [] \<Longrightarrow> chunks_of k xs = take k xs # chunks_of k (drop k xs)"
  by (subst chunks_of.simps) simp

lemma chunks_of_drop: "0 < k \<Longrightarrow> chunks_of k (drop (m * k) xs) = drop m (chunks_of k xs)"
proof (induction m arbitrary: xs)
  case (Suc m)
  show ?case
  proof (cases "xs = []")
    case False
    have "chunks_of k (drop (Suc m * k) xs) = chunks_of k (drop (m * k) (drop k xs))"
      by (simp add: add.commute)
    also have "\<dots> = drop m (chunks_of k (drop k xs))" by (rule Suc.IH [OF Suc.prems])
    also have "\<dots> = drop (Suc m) (chunks_of k xs)" using False Suc.prems by (simp add: chunks_of_step)
    finally show ?thesis .
  qed simp
qed simp

lemma concat_chunks_of: "0 < k \<Longrightarrow> concat (chunks_of k xs) = xs"
  by (induction k xs rule: chunks_of.induct) (subst chunks_of.simps, simp)

lemma whole_block: "nch dvd length xs \<Longrightarrow> 0 < nch \<Longrightarrow> xs \<noteq> [] \<Longrightarrow> length xs div nch \<noteq> 0 \<and> take (length xs div nch * nch) xs = xs"
  by (auto simp: dvd_div_eq_0_iff)

text \<open>What a steady decoder delivers: all blocks of the buffer's size, or the first of them and an error.\<close>

lemma steady_blocks:
  assumes "steady decode rest nch" "0 < nch" "0 < n" "nch dvd length (rest s)"
  shows "\<exists>k bs e more. read_blocks k decode nch (n * nch) s = Some (bs, e) \<and> chunks_of (n * nch) (rest s) = bs @ more \<and>
     (e = None \<longrightarrow> more = []) \<and> (never_fails decode \<longrightarrow> e = None)"
  using assms(4)
proof (induction "length (rest s)" arbitrary: s rule: less_induct)
  case less
  have "nch dvd n * nch" by simp
  with assms(1) show ?case
  proof (cases rule: steady_decode [of decode rest nch "n * nch" s])
    case (failed e s')
    then show ?thesis
      by (intro exI [of _ 1] exI [of _ "[]"] exI [of _ "Some e"] exI [of _ "chunks_of (n * nch) (rest s)"]) simp
  next
    case (got s')
    show ?thesis
    proof (cases "rest s = []")
      case True
      with got show ?thesis by (intro exI [of _ 1] exI [of _ "[]"] exI [of _ None]) simp
    next
      case False
      let ?b = "take (n * nch) (rest s)"
      have b: "nch dvd length ?b" "?b \<noteq> []" using less.prems False assms(2,3) by (auto simp: min_def)
      note whole = whole_block [OF b(1) assms(2) b(2)]
      have "length (rest s') < length (rest s)" "nch dvd length (rest s')"
        using got(2) False assms(2,3) less.prems by (simp_all add: dvd_diff_nat)
      then obtain k bs e more where ih: "read_blocks k decode nch (n * nch) s' = Some (bs, e)" "chunks_of (n * nch) (rest s') = bs @ more"
        "e = None \<longrightarrow> more = []" "never_fails decode \<longrightarrow> e = None" using less.hyps by blast
      have "chunks_of (n * nch) (rest s) = ?b # chunks_of (n * nch) (rest s')"
        unfolding got(2) by (rule chunks_of_step) (use False assms(2,3) in simp_all)
      with ih got(1) whole show ?thesis
        by (intro exI [of _ "Suc k"] exI [of _ "?b # bs"] exI [of _ e] exI [of _ more])
          (simp del: length_take take_take)
    qed
  qed
qed

lemma dripped_blocks:
  assumes "drips decode rest" "0 < m"
  shows "read_blocks (Suc (length (rest s))) decode 1 m s = Some (map (\<lambda>x. [x]) (rest s), None)"
proof (induction "length (rest s)" arbitrary: s)
  case 0
  obtain s' where "stream_decode decode m s = (Inr (take 1 (rest s)), s')" by (rule drips_decode [OF assms])
  with 0 show ?case by simp
next
  case (Suc k)
  obtain s' where got: "stream_decode decode m s = (Inr (take 1 (rest s)), s')" "rest s' = drop 1 (rest s)" by (rule drips_decode [OF assms])
  obtain x xs where rest: "rest s = x # xs" using Suc.hyps(2) by (cases "rest s") auto
  have "read_blocks (Suc (length (rest s'))) decode 1 m s' = Some (map (\<lambda>x. [x]) (rest s'), None)"
    by (rule Suc.hyps(1)) (use Suc.hyps(2) got(2) in simp)
  with got rest show ?case by (subst read_blocks.simps) simp
qed

text \<open>Nobody cancels.\<close>

definition calm :: "('p shared_flag \<Rightarrow> 'p shared_flag) \<Rightarrow> 'p reporter \<Rightarrow> 'p shared_flag \<Rightarrow> bool" where
  "calm env rep p \<longleftrightarrow> \<not> is_cancelled p \<and> (\<forall>q. \<not> is_cancelled q \<longrightarrow> \<not> is_cancelled (env q)) \<and>
     callback_keeps rep (\<lambda>q. \<not> is_cancelled q)"

lemma calm_env: "calm env rep p \<Longrightarrow> check_cancelled (env p) = Inr () \<and> calm env rep (env p)"
  by (cases p) (simp add: calm_def check_cancelled_def)

lemma calm_report: "calm env rep p \<Longrightarrow> calm env rep (report_ratio rep x y p)"
  using report_keeps(3) [of rep "\<lambda>q. \<not> is_cancelled q" p x y] by (simp add: calm_def)

lemma check_cancelled_cases: obtains "is_cancelled p" "check_cancelled p = Inl Cancelled" | "\<not> is_cancelled p" "check_cancelled p = Inr ()"
  by (cases "is_cancelled p") (auto simp: check_cancelled_def)

subsection \<open>Skipping\<close>

text \<open>A steady decoder skips the frames that are to be skipped, if nothing fails and nobody cancels.\<close>

lemma skip_loop_skips:
  assumes "steady decode rest nch" "0 < nch" "0 < n" "n * nch < 2 ^ 64" "nch dvd length (rest s)"
  shows "\<exists>r s' p'. skip_loop env decode nch (n * nch) k s p = (r, s', p') \<and>
     (r = Inr () \<longrightarrow> rest s' = drop (k * nch) (rest s)) \<and>
     (calm env rep p \<and> never_fails decode \<longrightarrow> r = Inr () \<and> calm env rep p')"
  using assms(5)
proof (induction k arbitrary: s p rule: less_induct)
  case (less k)
  consider (none) "k = 0" | (stopped) "k \<noteq> 0" "check_cancelled (env p) = Inl Cancelled" "\<not> calm env rep p"
    | (going) "k \<noteq> 0" "check_cancelled (env p) = Inr ()"
    using calm_env [of env rep p] by (cases rule: check_cancelled_cases [of "env p"]) auto
  then show ?case
  proof cases
    case stopped
    then show ?thesis by (auto simp: skip_loop.simps)
  next
    case going
    define want where "want = min (n * nch) (min usize_max (k * nch))"
    have "n * nch \<le> usize_max" using assms(4) by (simp add: usize_max_def)
    then have "want = min (n * nch) (k * nch)" unfolding want_def by linarith
    then have want: "want = min n k * nch" by (simp add: nat_mult_min_left)
    then have pos: "want \<noteq> 0" "nch dvd want" using going(1) assms(2,3) by simp_all
    from assms(1) pos(2) show ?thesis
    proof (cases rule: steady_decode [of decode rest nch want s])
      case (failed e s1)
      then have "skip_loop env decode nch (n * nch) k s p = (Inl e, s1, env p)"
        using going pos(1) by (subst skip_loop.simps) (simp add: Let_def want_def [symmetric])
      with failed(2) show ?thesis by simp
    next
      case (got s1)
      obtain q where q: "length (rest s) = q * nch" using less.prems by (metis dvd_def mult.commute)
      have frames: "length (take want (rest s)) div nch = min (min n k) q"
        using assms(2) by (simp add: q want nat_mult_min_left [symmetric] min.commute)
      have step: "skip_loop env decode nch (n * nch) k s p =
          (if min (min n k) q = 0 then (Inr (), s1, env p)
           else skip_loop env decode nch (n * nch) (k - min (min n k) q) s1 (env p))"
        using going pos(1) got(1) frames
        by (subst skip_loop.simps) (simp add: Let_def want_def [symmetric])
      show ?thesis
      proof (cases "q = 0")
        case True
        then have "rest s = []" using q by simp
        moreover have "skip_loop env decode nch (n * nch) k s p = (Inr (), s1, env p)" using step True by simp
        ultimately show ?thesis using got(2) calm_env [of env rep p] by auto
      next
        case False
        define f where "f = min (min n k) q"
        have f: "0 < f" "f \<le> k" "f \<le> q" using False going(1) assms(3) by (simp_all add: f_def)
        have "length (rest s1) = (q - min n k) * nch" using got(2) q want by (simp add: diff_mult_distrib)
        then have "nch dvd length (rest s1)" by simp
        from less.IH [OF _ this, of "k - f" "env p"] f
        obtain r s' p' where ih: "skip_loop env decode nch (n * nch) (k - f) s1 (env p) = (r, s', p')"
          "r = Inr () \<longrightarrow> rest s' = drop ((k - f) * nch) (rest s1)"
          "calm env rep (env p) \<and> never_fails decode \<longrightarrow> r = Inr () \<and> calm env rep p'"
          by auto
        have "drop ((k - f) * nch) (rest s1) = drop (k * nch) (rest s)"
        proof (cases "min n k \<le> q")
          case True
          then have "f = min n k" by (simp add: f_def)
          then have "(k - f) * nch + want = k * nch" using f(2) want by (simp add: diff_mult_distrib mult_le_mono)
          then show ?thesis using got(2) by simp
        next
          case big: False
          then have "q \<le> min n k" "q \<le> k" by (simp_all add: min_le_iff_disj)
          then have "length (rest s) \<le> want" "length (rest s) \<le> k * nch"
            unfolding q want by (simp_all only: mult_le_mono1)
          then show ?thesis using got(2) by simp
        qed
        with ih step f calm_env [of env rep p] show ?thesis by (auto simp: f_def [symmetric])
      qed
    qed
  qed (auto simp: skip_loop.simps)
qed

text \<open>A dripping decoder of one channel skips one frame with each call.\<close>

lemma skip_loop_drips:
  assumes "drips decode rest" "0 < m" "calm env rep p"
  shows "\<exists>s' p'. skip_loop env decode 1 m k s p = (Inr (), s', p') \<and> rest s' = drop k (rest s) \<and> calm env rep p'"
  using assms(3)
proof (induction k arbitrary: s p)
  case 0
  then show ?case by (subst skip_loop.simps) simp
next
  case (Suc k)
  note going = calm_env [OF Suc.prems]
  define w where "w = min m (min usize_max (Suc k))"
  have want: "0 < w" using assms(2) by (simp add: w_def usize_max_def)
  obtain s1 where s1: "stream_decode decode w s = (Inr (take 1 (rest s)), s1)" "rest s1 = drop 1 (rest s)"
    by (rule drips_decode [OF assms(1) want])
  have step: "skip_loop env decode 1 m (Suc k) s p =
      (if rest s = [] then (Inr (), s1, env p) else skip_loop env decode 1 m k s1 (env p))"
    using going s1(1) want by (subst skip_loop.simps) (cases "rest s"; simp add: Let_def w_def [symmetric])
  obtain s' p' where "skip_loop env decode 1 m k s1 (env p) = (Inr (), s', p')" "rest s' = drop k (rest s1)" "calm env rep p'"
    using Suc.IH [OF conjunct2 [OF going]] by blast
  with step s1(2) going show ?case
    by (cases "rest s = []") (simp_all add: exI [of _ "env p"] exI [of _ p'] split_paired_Ex)
qed

subsection \<open>The peaks of the blocks\<close>

text \<open>The bytes of a peaks file with the parameters and the chunks of the first \<open>q\<close> of the blocks.\<close>

definition peaks_content :: "u32 \<Rightarrow> u32 \<Rightarrow> f32 list list \<Rightarrow> nat \<Rightarrow> bytes \<Rightarrow> bool" where
  "peaks_content csize rate blocks q bs \<longleftrightarrow>
     slice 0 16 bs = PEAKS_MAGIC @ u32_to_le csize @ u32_to_le rate \<and> slice 16 8 bs = u64_to_le (of_nat q) \<and>
     q < 2 ^ 64 \<and> q \<le> length blocks \<and> 32 + 12 * q \<le> length bs \<and>
     (\<forall>j < q. decode_record (of_nat j) (peak_slot j bs) = peaks_of (of_nat j) (blocks ! j))"

definition holds_peaks :: "waveform_cache \<Rightarrow> f32 list list \<Rightarrow> nat \<Rightarrow> bool" where
  "holds_peaks c blocks q \<longleftrightarrow> chunk_count c = q \<and>
     peaks_content (reader_chunk_size (peaks_reader c)) (reader_sample_rate (peaks_reader c)) blocks q (content (peaks_file c))"

lemma holds_peaks_iff:
  "holds_peaks c blocks q \<longleftrightarrow> peaks_ok c \<and> chunk_count c = q \<and> q \<le> length blocks \<and> (\<forall>j < q. chunk_at c j = peaks_of (of_nat j) (blocks ! j))"
  using unsigned_less [of "reader_count (peaks_reader c)", where 'a = nat]
  by (auto simp: holds_peaks_def peaks_content_def peaks_ok_def Let_def chunk_count_def chunk_at_def)

lemma peaks_content_append: "q \<le> length a \<Longrightarrow> peaks_content cs rt (a @ b) q bs \<longleftrightarrow> peaks_content cs rt a q bs"
  by (auto simp: peaks_content_def nth_append)

lemma chunk_index_peaks_of [simp]: "chunk_index (peaks_of i xs) = i"
  by (simp add: peaks_of_def Let_def)

text \<open>The next chunk is written, or the write is cut short and leaves a first part of the chunks.\<close>

lemma write_next_chunk:
  assumes "holds_peaks c blocks q" "q < length blocks" "44 + 12 * q < 2 ^ 64"
    "write_chunk (peaks_of (of_nat q) (blocks ! q)) c = (r, c')"
  shows "r = Inr () \<Longrightarrow> holds_peaks c' blocks (Suc q) \<and> reader_chunk_size (peaks_reader c') = reader_chunk_size (peaks_reader c) \<and>
      reader_sample_rate (peaks_reader c') = reader_sample_rate (peaks_reader c)"
    "\<exists>q'. peaks_content (reader_chunk_size (peaks_reader c)) (reader_sample_rate (peaks_reader c)) blocks q' (content (peaks_file c'))"
proof -
  let ?chunk = "peaks_of (of_nat q) (blocks ! q)" and ?bs = "content (peaks_file c')"
  have q: "unat (of_nat q :: u64) = q" using assms(3) by (simp add: unat_of_nat take_bit_eq_mod)
  have addr: "addressable (chunk_index ?chunk)" using assms(3) by (simp add: addressable_def q)
  have c: "peaks_ok c" "chunk_count c = q" and old: "\<forall>j < q. chunk_at c j = peaks_of (of_nat j) (blocks ! j)"
    using assms(1) by (simp_all add: holds_peaks_iff)
  show "holds_peaks c' blocks (Suc q) \<and> reader_chunk_size (peaks_reader c') = reader_chunk_size (peaks_reader c) \<and>
      reader_sample_rate (peaks_reader c') = reader_sample_rate (peaks_reader c)" if "r = Inr ()"
    using chunk_written_ok [OF write_chunk_ends(1) [OF addr assms(4) that] c(1) addr] old assms(2)
    by (auto simp: holds_peaks_iff c(2) q less_Suc_eq)
  note part = write_chunk_ends(2) [OF addr assms(4)]
  have kept: "slice 0 16 ?bs = slice 0 16 (content (peaks_file c))" "header_count ?bs \<le> Suc q" "32 + 12 * header_count ?bs \<le> length ?bs"
    "\<forall>j < q. peak_slot j ?bs = peak_slot j (content (peaks_file c))"
    using partly_written_kept [OF c(1) addr part] by (simp_all add: peaks_kept_def c(2) q)
  have last_: "header_count ?bs \<le> q \<or> peak_slot q ?bs = encode_record ?chunk"
    using partly_written_last [OF c(1) addr part] by (simp add: c(2) q)
  have "decode_record (of_nat j) (peak_slot j ?bs) = peaks_of (of_nat j) (blocks ! j)" if "j < header_count ?bs" for j
  proof (cases "j < q")
    case True
    with kept(4) old show ?thesis by (simp add: chunk_at_def)
  next
    case False
    with that kept(2) last_ have "j = q" "peak_slot q ?bs = encode_record ?chunk" by auto
    then show ?thesis using decode_encode_record [of ?chunk] by simp
  qed
  moreover have "slice 16 8 ?bs = u64_to_le (of_nat (header_count ?bs))"
    using kept(3) by (simp add: header_count_def u64_from_le_def [symmetric] to_from_le64 length_slice)
  moreover have "slice 0 16 ?bs = PEAKS_MAGIC @ u32_to_le (reader_chunk_size (peaks_reader c)) @ u32_to_le (reader_sample_rate (peaks_reader c))"
    using kept(1) c(1) by (simp add: peaks_ok_def Let_def)
  moreover have "header_count ?bs < 2 ^ 64" "header_count ?bs \<le> length blocks" using kept(2) assms(2,3) by simp_all
  ultimately show "\<exists>q'. peaks_content (reader_chunk_size (peaks_reader c)) (reader_sample_rate (peaks_reader c)) blocks q' ?bs"
    using kept(3) by (intro exI [of _ "header_count ?bs"]) (simp add: peaks_content_def)
qed

text \<open>
  A run over a cache that holds the first \<open>q\<close> of the blocks: when it ends well it holds all of them, and in any case the
  file holds a first part, which is no shorter if no write failed.
\<close>

definition peaks_run :: "f32 list list \<Rightarrow> asset_error option \<Rightarrow> waveform_cache \<Rightarrow> nat \<Rightarrow> asset_error + unit \<Rightarrow> waveform_cache \<Rightarrow> bool" where
  "peaks_run blocks e c q r c' \<longleftrightarrow>
     (r = Inr () \<longrightarrow> e = None \<and> holds_peaks c' blocks (length blocks)) \<and>
     (\<exists>q'. peaks_content (reader_chunk_size (peaks_reader c)) (reader_sample_rate (peaks_reader c)) blocks q' (content (peaks_file c')) \<and>
        (faults (peaks_file c) = [] \<longrightarrow> q \<le> q')) \<and>
     (faults (peaks_file c) = [] \<longrightarrow> faults (peaks_file c') = [])"

lemma peaks_run_stopped: "holds_peaks c blocks q \<Longrightarrow> peaks_run blocks e c q (Inl x) c"
  by (auto simp: peaks_run_def holds_peaks_def)

lemma peaks_run_step:
  assumes "peaks_run blocks e c1 (Suc q) r c'" "reader_chunk_size (peaks_reader c1) = reader_chunk_size (peaks_reader c)"
    "reader_sample_rate (peaks_reader c1) = reader_sample_rate (peaks_reader c)"
    "faults (peaks_file c) = [] \<longrightarrow> faults (peaks_file c1) = []"
  shows "peaks_run blocks e c q r c'"
  using assms unfolding peaks_run_def by (metis Suc_leD)

lemma peaks_loop_writes:
  assumes "32 + 12 * length blocks < 2 ^ 64"
  shows "read_blocks k decode nch m s = Some (drop q blocks, e) \<Longrightarrow> holds_peaks c blocks q \<Longrightarrow>
    \<exists>r c' s' p'. peaks_loop env decode rep nch m tot (of_nat q) frames_done c s p = Some (r, c', s', p') \<and>
      peaks_run blocks e c q r c' \<and>
      (faults (peaks_file c) = [] \<and> calm env rep p \<and> e = None \<longrightarrow> r = Inr () \<and> calm env rep p')"
proof (induction k arbitrary: c s p q frames_done)
  case (Suc k)
  note step = peaks_loop.simps [of env decode rep nch m tot "of_nat q" frames_done c s p]
  note stopped = peaks_run_stopped [OF Suc.prems(2)]
  obtain x s1 where dec: "stream_decode decode m s = (x, s1)" by fastforce
  show ?case
  proof (cases rule: check_cancelled_cases [of "env p"])
    case 1
    with step stopped calm_env [of env rep p] show ?thesis by auto
  next
    case 2
    show ?thesis
    proof (cases x)
      case (Inl y)
      with step dec 2 stopped Suc.prems(1) show ?thesis by auto
    next
      case (Inr samples)
      define f where "f = length samples div nch"
      show ?thesis
      proof (cases "f = 0")
        case True
        with Suc.prems(1) dec Inr have "drop q blocks = []" "e = None" by (simp_all add: f_def)
        with Suc.prems(2) have "q = length blocks" by (simp add: holds_peaks_iff)
        then have "peaks_run blocks e c q (Inr ()) c"
          using Suc.prems(2) \<open>e = None\<close> by (auto simp: peaks_run_def holds_peaks_def)
        moreover have "peaks_loop env decode rep nch m tot (of_nat q) frames_done c s p = Some (Inr (), c, s1, env p)"
          using step dec 2 Inr True by (simp add: f_def)
        ultimately show ?thesis using calm_env [of env rep p] by auto
      next
        case False
        define b where "b = take (f * nch) samples"
        obtain bs where bs: "read_blocks k decode nch m s1 = Some (bs, e)" "drop q blocks = b # bs"
          using Suc.prems(1) dec Inr False by (auto simp: f_def b_def)
        have q: "q < length blocks" using bs(2) by (metis drop_all linorder_not_le list.distinct(1))
        have blk: "blocks ! q = b" "drop (Suc q) blocks = bs"
          using bs(2) Cons_nth_drop_Suc [OF q] by simp_all
        have room: "44 + 12 * q < 2 ^ 64" using assms q by simp
        obtain y c1 where w: "write_chunk (peaks_of (of_nat q) b) c = (y, c1)" by fastforce
        note next_ = write_next_chunk [OF Suc.prems(2) q room, unfolded blk(1), OF w]
        have clean: "y = Inr () \<and> faults (peaks_file c1) = []" if "faults (peaks_file c) = []"
          using write_chunk_runs [OF that, of "peaks_of (of_nat q) b"] w by simp
        show ?thesis
        proof (cases y)
          case (Inl z)
          with step dec 2 Inr False w have "peaks_loop env decode rep nch m tot (of_nat q) frames_done c s p = Some (Inl z, c1, s1, env p)"
            by (simp add: f_def b_def)
          moreover have "peaks_run blocks e c q (Inl z) c1" using next_(2) clean Inl by (auto simp: peaks_run_def)
          ultimately show ?thesis using clean Inl by auto
        next
          case (Inr u)
          define fd where "fd = frames_done + of_nat f"
          define p1 where "p1 = (if 0 < tot then report_ratio rep (f64_of_nat (unat (min fd tot))) (f64_of_nat (unat tot)) (env p) else env p)"
          have go: "peaks_loop env decode rep nch m tot (of_nat q) frames_done c s p =
              peaks_loop env decode rep nch m tot (of_nat (Suc q)) fd c1 s1 p1"
            using step dec 2 \<open>x = Inr samples\<close> False w Inr by (simp add: f_def b_def fd_def p1_def Let_def add.commute [of 1])
          have calm1: "calm env rep p \<Longrightarrow> calm env rep p1"
            using calm_env [of env rep p] calm_report [of env rep "env p"] by (simp add: p1_def)
          have c1: "holds_peaks c1 blocks (Suc q)" "reader_chunk_size (peaks_reader c1) = reader_chunk_size (peaks_reader c)"
            "reader_sample_rate (peaks_reader c1) = reader_sample_rate (peaks_reader c)" using next_(1) Inr by simp_all
          have "read_blocks k decode nch m s1 = Some (drop (Suc q) blocks, e)" using bs(1) blk(2) by simp
          from Suc.IH [OF this c1(1), of fd p1] obtain r c' s' p' where
            "peaks_loop env decode rep nch m tot (of_nat (Suc q)) fd c1 s1 p1 = Some (r, c', s', p')" "peaks_run blocks e c1 (Suc q) r c'"
            "faults (peaks_file c1) = [] \<and> calm env rep p1 \<and> e = None \<longrightarrow> r = Inr () \<and> calm env rep p'" by blast
          moreover from this(2) have "peaks_run blocks e c q r c'" by (rule peaks_run_step) (use c1 clean in auto)
          ultimately show ?thesis unfolding go using clean calm1 by blast
        qed
      qed
    qed
  qed
qed simp

text \<open>Generation, for any decoder: what is skipped is no part of the blocks.\<close>

lemma generate_stream_writes:
  fixes g :: waveform_generator and info :: audio_stream_info
  defines "nch \<equiv> max 1 (unat (stream_channels info))" and "n \<equiv> unat (gen_chunk_size g)"
  assumes skip: "skip_loop env decode nch (n * nch) (q * n) s p = (x, s1, p1)"
    and blocks: "x = Inr () \<Longrightarrow> read_blocks k decode nch (n * nch) s1 = Some (drop q blocks, e)"
    and holds: "holds_peaks c blocks q" "32 + 12 * length blocks < 2 ^ 64" "q * n < 2 ^ 64"
  shows "\<exists>r c' s' p'. generate_stream env decode rep g info c s p = Some (r, c', s', p') \<and> peaks_run blocks e c q r c' \<and>
     (x = Inr () \<and> faults (peaks_file c) = [] \<and> calm env rep p1 \<and> e = None \<longrightarrow> r = Inr ())"
proof -
  have count: "reader_count (peaks_reader c) = of_nat q"
    using holds(1) by (auto simp: holds_peaks_def chunk_count_def)
  have "of_nat q * ucast (gen_chunk_size g) = (of_nat (q * n) :: u64)" by (simp add: n_def)
  then have cached: "unat (of_nat q * ucast (gen_chunk_size g) :: u64) = q * n"
    using holds(3) by (simp only: unat_of_nat take_bit_eq_mod) simp
  note run = generate_stream_def [of env decode rep g info c s p, folded nch_def n_def, unfolded Let_def count cached skip]
  show ?thesis
  proof (cases x)
    case (Inl y)
    with run peaks_run_stopped [OF holds(1)] show ?thesis by auto
  next
    case (Inr u)
    then have "x = Inr ()" by simp
    note read = blocks [OF this]
    obtain r c' s' p' where loop:
      "peaks_loop env decode rep nch (n * nch) (case total_frames info of Some n \<Rightarrow> n
         | None \<Rightarrow> f64_to_u64 (f64_mul (case stream_duration info of Some d \<Rightarrow> d | None \<Rightarrow> f64_zero)
             (f64_of_nat (max 1 (unat (stream_sample_rate info)))))) (of_nat q) (of_nat q * ucast (gen_chunk_size g)) c s1 p1 = Some (r, c', s', p')"
      "peaks_run blocks e c q r c'" "faults (peaks_file c) = [] \<and> calm env rep p1 \<and> e = None \<longrightarrow> r = Inr () \<and> calm env rep p'"
      using peaks_loop_writes [OF holds(2) read holds(1)] by blast
    show ?thesis
    proof (cases r)
      case err: (Inl y)
      with run Inr loop show ?thesis by auto
    next
      case ok: (Inr u)
      obtain y c2 where fin: "waveform_finish c' = (y, c2)" by fastforce
      then have c2: "content (peaks_file c2) = content (peaks_file c')" "peaks_reader c2 = peaks_reader c'"
        "faults (peaks_file c') = [] \<longrightarrow> y = Inr () \<and> c2 = c'"
        by (auto simp: waveform_finish_def on_file_def file_sync_def split: prod.splits option.splits dest!: next_fault_content)[2]
          (use fin in \<open>auto simp: waveform_finish_def on_file_def\<close>)
      have "generate_stream env decode rep g info c s p = Some (y, c2, s', case y of Inl _ \<Rightarrow> p' | Inr _ \<Rightarrow> report rep f64_one p')"
        using run Inr loop(1) ok fin by (cases y) auto
      moreover have "peaks_run blocks e c q y c2"
        using loop(2) ok c2 unfolding peaks_run_def holds_peaks_def chunk_count_def by auto
      moreover have "faults (peaks_file c) = [] \<longrightarrow> y = Inr ()" using loop(2) c2(3) by (simp add: peaks_run_def)
      ultimately show ?thesis by blast
    qed
  qed
qed

text \<open>
  With a steady decoder, a run takes up the first part of the peaks behind the frames it covers: it completes the peaks of
  all blocks, or it is stopped and leaves a first part of them.
\<close>

lemma generate_stream_resumes:
  fixes g :: waveform_generator and info :: audio_stream_info
  defines "nch \<equiv> max 1 (unat (stream_channels info))" and "n \<equiv> unat (gen_chunk_size g)"
  assumes stream: "steady decode rest nch" "0 < n" "nch dvd length (rest s)" "blocks = chunks_of (n * nch) (rest s)"
    and holds: "holds_peaks c blocks q" "32 + 12 * length blocks < 2 ^ 64" "q * n < 2 ^ 64"
  shows "\<exists>r c' s' p' e. generate_stream env decode rep g info c s p = Some (r, c', s', p') \<and> peaks_run blocks e c q r c' \<and>
     (faults (peaks_file c) = [] \<and> calm env rep p \<and> never_fails decode \<longrightarrow> r = Inr ())"
proof -
  have nch: "0 < nch" by (simp add: nch_def)
  have "n < 2 ^ 32" "nch \<le> 2 ^ 16"
    using unsigned_less [of "gen_chunk_size g", where 'a = nat] unsigned_less [of "stream_channels info", where 'a = nat]
    by (simp_all add: n_def nch_def)
  then have "n * nch < 2 ^ 32 * 2 ^ 16" by (intro mult_less_le_imp_less) (use nch in simp_all)
  then have small: "n * nch < 2 ^ 64" by simp
  obtain x s1 p1 where skip: "skip_loop env decode nch (n * nch) (q * n) s p = (x, s1, p1)"
    "x = Inr () \<longrightarrow> rest s1 = drop (q * n * nch) (rest s)" "calm env rep p \<and> never_fails decode \<longrightarrow> x = Inr () \<and> calm env rep p1"
    using skip_loop_skips [OF stream(1) nch stream(2) small stream(3), of env "q * n" p rep] by blast
  define left where "left = drop q blocks"
  obtain k bs e more where read: "x = Inr () \<longrightarrow> read_blocks k decode nch (n * nch) s1 = Some (bs, e)" "left = bs @ more"
    "e = None \<longrightarrow> more = []" "never_fails decode \<and> x = Inr () \<longrightarrow> e = None"
  proof (cases "x = Inr ()")
    case True
    with skip(2) have rest1: "rest s1 = drop (q * n * nch) (rest s)" by simp
    have "chunks_of (n * nch) (rest s1) = left"
      unfolding rest1 left_def stream(4) using chunks_of_drop [of "n * nch" q "rest s"] nch stream(2) by (simp add: mult.assoc)
    moreover have "nch dvd length (rest s1)" using stream(3) by (simp add: rest1 dvd_diff_nat)
    ultimately show thesis using steady_blocks [OF stream(1) nch stream(2), of s1] that by metis
  next
    case False
    with that [of undefined left None "[]"] show thesis by simp
  qed
  define some where "some = take q blocks @ bs"
  have all: "blocks = some @ more" using read(2) append_take_drop_id [of q blocks] by (simp add: some_def left_def)
  have q: "q \<le> length blocks" "length (take q blocks) = q" using holds(1) by (simp_all add: holds_peaks_iff)
  then have part: "drop q some = bs" "q \<le> length some" by (simp_all add: some_def)
  have "holds_peaks c some q" using holds(1) part(2) by (simp add: holds_peaks_def all peaks_content_append)
  moreover have "32 + 12 * length some < 2 ^ 64" using holds(2) by (simp add: all)
  moreover have "x = Inr () \<Longrightarrow> read_blocks k decode nch (n * nch) s1 = Some (drop q some, e)" using read(1) part(1) by simp
  ultimately obtain r c' s' p' where run: "generate_stream env decode rep g info c s p = Some (r, c', s', p')" "peaks_run some e c q r c'"
    "x = Inr () \<and> faults (peaks_file c) = [] \<and> calm env rep p1 \<and> e = None \<longrightarrow> r = Inr ()"
    using generate_stream_writes [of env decode info g q s p x s1 p1 k some e c rep, folded nch_def n_def, OF skip(1) _ _ _ holds(3)] by blast
  from run(2) obtain q' where q': "peaks_content (reader_chunk_size (peaks_reader c)) (reader_sample_rate (peaks_reader c)) some q' (content (peaks_file c'))"
    "faults (peaks_file c) = [] \<longrightarrow> q \<le> q'" by (auto simp: peaks_run_def)
  have "q' \<le> length some" using q'(1) by (simp add: peaks_content_def)
  with q' have "peaks_content (reader_chunk_size (peaks_reader c)) (reader_sample_rate (peaks_reader c)) blocks q' (content (peaks_file c'))"
    by (simp add: all peaks_content_append)
  moreover have "r = Inr () \<longrightarrow> e = None \<and> holds_peaks c' blocks (length blocks)"
    using run(2) read(3) all by (auto simp: peaks_run_def)
  ultimately have "peaks_run blocks e c q r c'" using run(2) q'(2) unfolding peaks_run_def by blast
  with run(1,3) skip(3) read(4) show ?thesis by blast
qed

text \<open>With a decoder that drips, a resumed run skips as if every chunk covered a whole buffer.\<close>

lemma generate_stream_drips:
  fixes g :: waveform_generator and info :: audio_stream_info
  defines "n \<equiv> unat (gen_chunk_size g)"
  assumes "drips decode rest" "stream_channels info = 1" "0 < n" "calm env rep p"
    "holds_peaks c (map (\<lambda>x. [x]) (rest s)) q" "faults (peaks_file c) = []" "32 + 12 * length (rest s) < 2 ^ 64" "q * n < 2 ^ 64"
  shows "\<exists>c' s' p'. generate_stream env decode rep g info c s p = Some (Inr (), c', s', p') \<and>
     holds_peaks c' (map (\<lambda>x. [x]) (take q (rest s) @ drop (q * n) (rest s))) (q + (length (rest s) - q * n))"
proof -
  let ?blocks = "map (\<lambda>x. [x]) (take q (rest s) @ drop (q * n) (rest s))"
  have nch: "max 1 (unat (stream_channels info)) = 1" by (simp add: assms(3))
  obtain s1 p1 where skip: "skip_loop env decode 1 (n * 1) (q * n) s p = (Inr (), s1, p1)" "rest s1 = drop (q * n) (rest s)" "calm env rep p1"
    using skip_loop_drips [OF assms(2) _ assms(5), of "n * 1" "q * n" s] assms(4) by auto
  have q: "q \<le> length (rest s)" "length (take q (rest s)) = q" using assms(6) by (simp_all add: holds_peaks_iff)
  have "read_blocks (Suc (length (rest s1))) decode 1 (n * 1) s1 = Some (map (\<lambda>x. [x]) (rest s1), None)"
    using dripped_blocks [OF assms(2), of "n * 1" s1] assms(4) by simp
  then have read: "read_blocks (Suc (length (rest s1))) decode 1 (n * 1) s1 = Some (drop q ?blocks, None)" using skip(2) q by simp
  have "map (\<lambda>x. [x]) (rest s) = map (\<lambda>x. [x]) (take q (rest s)) @ map (\<lambda>x. [x]) (drop q (rest s))"
    by (metis append_take_drop_id map_append)
  then have holds: "holds_peaks c ?blocks q"
    using assms(6) q by (simp add: holds_peaks_def peaks_content_append)
  have "length (rest s) - q * n \<le> length (rest s) - q" using assms(4) by (simp add: diff_le_mono2)
  with q have len: "length ?blocks = q + (length (rest s) - q * n)" "length ?blocks \<le> length (rest s)" by simp_all
  then have few: "32 + 12 * length ?blocks < 2 ^ 64" using assms(8) by simp
  obtain r c' s' p' where run: "generate_stream env decode rep g info c s p = Some (r, c', s', p')" "peaks_run ?blocks None c q r c'" "r = Inr ()"
    using generate_stream_writes [of env decode info g q s p "Inr ()" s1 p1 "Suc (length (rest s1))" ?blocks None c rep, folded n_def, unfolded nch,
        OF skip(1) read holds few assms(9)] assms(7) skip(3) by blast
  with len(1) show ?thesis by (auto simp: peaks_run_def)
qed

end
