(* ===== verification/Container.thy ===== *)
theory Container
  imports Peaks Media
begin

text \<open>
  The proxy stream container \<open>.tkvp\<close> (\<open>tpt-av-asset-cache/src/container.rs\<close>): its header, the writer,
  the conversion between RGBA buffers and planes, and the scan of the frame table.

  The lossless encoder and decoder are not in the repository: \<open>encode\<close> and \<open>decode\<close> are parameters that
  take a state and give a result or an error text; \<open>lossless_codec\<close> is what their documentation promises.
  The standard library's \<open>BufWriter\<close> is modelled as it works: it holds back writes until its buffer of
  8192 bytes would overflow.
\<close>

subsection \<open>The header\<close>

definition CONTAINER_MAGIC :: bytes where "CONTAINER_MAGIC = as_bytes ''TPTVPR1''"
definition HEADER_LEN :: nat where "HEADER_LEN = 32"
definition VERSION :: u8 where "VERSION = 1"
definition TRANSFORM_ID :: u8 where "TRANSFORM_ID = 0"
definition PLANE_COUNT :: nat where "PLANE_COUNT = 3"
definition BIT_DEPTH :: u8 where "BIT_DEPTH = 16"
definition UPSCALE :: u16 where "UPSCALE = 257"

record stream_header =
  header_width :: u32
  header_height :: u32
  header_fps :: f64
  header_frames :: u32

text \<open>\<open>raw\<close> has 32 bytes.\<close>

definition header_parse :: "bytes \<Rightarrow> asset_error + stream_header" where
  "header_parse raw =
     (if slice 0 7 raw \<noteq> CONTAINER_MAGIC then Inl (validation ''not a TPT proxy stream'')
      else let h = \<lparr>header_width = u32_from_le (slice 8 4 raw), header_height = u32_from_le (slice 12 4 raw),
                    header_fps = u64_from_le (slice 16 8 raw), header_frames = u32_from_le (slice 24 4 raw)\<rparr> in
        if header_width h = 0 \<or> header_height h = 0 then Inl (validation ''zero-sized proxy stream frame'')
        else if \<not> f64_is_finite (header_fps h) \<or> f64_le (header_fps h) f64_zero
        then Inl (validation (''invalid proxy stream fps '' @ f64_display (header_fps h)))
        else if raw ! 28 \<noteq> VERSION \<or> raw ! 29 \<noteq> TRANSFORM_ID \<or> unat (raw ! 30) \<noteq> PLANE_COUNT \<or> raw ! 31 \<noteq> BIT_DEPTH
        then Inl (validation ''unsupported proxy stream variant'')
        else Inr h)"

text \<open>Reading from a handle at its offset, which moves on; at the end of the file it is left there.\<close>

definition file_read_exact :: "nat \<Rightarrow> (open_file, bytes) step" where
  "file_read_exact n f =
     (case next_fault f of
        (Some (_, e), f) \<Rightarrow> (Inl (Io e), f)
      | (None, f) \<Rightarrow>
          if offset f + n \<le> length (content f)
          then (Inr (slice (offset f) n (content f)), f\<lparr>offset := offset f + n\<rparr>)
          else (Inl (Io end_of_file), f\<lparr>offset := max (offset f) (length (content f))\<rparr>))"

definition header_read :: "(open_file, stream_header) step" where
  "header_read = then_try (file_read_exact HEADER_LEN) (\<lambda>raw f. (header_parse raw, f))"

record sequence_header =
  seq_version :: u8
  seq_max_width :: u16
  seq_max_height :: u16
  seq_transform :: u8
  seq_planes :: "u8 list"

definition header_sequence :: "stream_header \<Rightarrow> sequence_header" where
  "header_sequence h =
     \<lparr>seq_version = VERSION, seq_max_width = ucast (header_width h), seq_max_height = ucast (header_height h),
      seq_transform = TRANSFORM_ID, seq_planes = replicate PLANE_COUNT BIT_DEPTH\<rparr>"

definition header_bytes :: "stream_header \<Rightarrow> bytes" where
  "header_bytes h =
     CONTAINER_MAGIC @ [0] @ u32_to_le (header_width h) @ u32_to_le (header_height h) @ u64_to_le (header_fps h) @
     u32_to_le (header_frames h) @ [VERSION, TRANSFORM_ID, of_nat PLANE_COUNT, BIT_DEPTH]"

subsection \<open>Planes\<close>

record plane =
  plane_width :: u32
  plane_height :: u32
  plane_depth :: u8
  plane_data :: "u16 list"

text \<open>
  The samples of one channel of the whole pixels in the buffer, over a plane of zeros.  The code panics
  on a buffer of more pixels than the plane has, which its caller rules out.
\<close>

definition channel_plane :: "nat \<Rightarrow> bytes \<Rightarrow> u32 \<Rightarrow> u32 \<Rightarrow> plane" where
  "channel_plane channel rgba w h =
     (let pixels = unat w * unat h; given = length rgba div 4 in
      \<lparr>plane_width = w, plane_height = h, plane_depth = BIT_DEPTH,
       plane_data = map (\<lambda>i. if i < given then ucast (rgba ! (4 * i + channel)) * UPSCALE else 0) [0..<pixels]\<rparr>)"

definition rgba_to_planes :: "bytes \<Rightarrow> u32 \<Rightarrow> u32 \<Rightarrow> plane list" where
  "rgba_to_planes rgba w h = [channel_plane 0 rgba w h, channel_plane 1 rgba w h, channel_plane 2 rgba w h]"

definition high_byte :: "u16 \<Rightarrow> u8" where "high_byte s = ucast (drop_bit 8 s)"

definition planes_to_rgba :: "plane list \<Rightarrow> u32 \<Rightarrow> u32 \<Rightarrow> asset_error + bytes" where
  "planes_to_rgba planes w h =
     (if length planes \<noteq> PLANE_COUNT
      then Inl (codec (''expected '' @ dec_string PLANE_COUNT @ '' planes, got '' @ dec_string (length planes)))
      else let pixels = unat w * unat h in
        if list_ex (\<lambda>p. length (plane_data p) \<noteq> pixels) planes then Inl (codec ''decoded plane size mismatch'')
        else Inr (concat (map (\<lambda>i. map (\<lambda>p. high_byte (plane_data p ! i)) planes @ [255]) [0..<pixels])))"

subsection \<open>The writer\<close>

record buf_writer =
  inner :: open_file
  pending :: bytes

definition buf_capacity :: nat where "buf_capacity = 8192"

text \<open>What a failed write has written leaves the buffer.\<close>

definition buf_flush :: "(buf_writer, unit) step" where
  "buf_flush b =
     (if pending b = [] then (Inr (), b)
      else case file_write (pending b) (inner b) of
        (Inl e, f) \<Rightarrow> (Inl e, \<lparr>inner = f, pending = drop (offset f - offset (inner b)) (pending b)\<rparr>)
      | (Inr _, f) \<Rightarrow> (Inr (), \<lparr>inner = f, pending = []\<rparr>))"

definition buf_write :: "bytes \<Rightarrow> (buf_writer, unit) step" where
  "buf_write bs =
     (\<lambda>b. if length bs < buf_capacity - length (pending b) then (Inr (), b\<lparr>pending := pending b @ bs\<rparr>)
          else then_try (\<lambda>b. if length bs > buf_capacity - length (pending b) then buf_flush b else (Inr (), b)) (\<lambda>_ b.
            if buf_capacity \<le> length bs
            then (case file_write bs (inner b) of (r, f) \<Rightarrow> (r, b\<lparr>inner := f\<rparr>))
            else (Inr (), b\<lparr>pending := pending b @ bs\<rparr>)) b)"

record 'e stream_writer =
  writer_file :: buf_writer
  writer_header :: stream_header
  writer_path :: string
  writer_frames :: u32
  writer_sequence :: sequence_header
  writer_encoder :: 'e

definition to_file :: "(buf_writer, 'a) step \<Rightarrow> ('e stream_writer, 'a) step" where
  "to_file m w = (let (r, b) = m (writer_file w) in (r, w\<lparr>writer_file := b\<rparr>))"

definition new_file :: "(nat \<times> io_error) option list \<Rightarrow> open_file" where
  "new_file fl = \<lparr>content = [], offset = 0, faults = fl\<rparr>"

text \<open>\<open>fl\<close> are the faults of the new file's handle.\<close>

definition writer_create ::
  "(nat \<times> io_error) option list \<Rightarrow> 'e \<Rightarrow> string \<Rightarrow> u32 \<Rightarrow> u32 \<Rightarrow> f64 \<Rightarrow> (file_system, 'e stream_writer) step" where
  "writer_create fl encoder p w h fps =
     (if unat w > 65535 \<or> unat h > 65535 then fail (validation ''proxy stream dimensions must fit in u16'')
      else then_try (case path_parent p of None \<Rightarrow> give ()
                     | Some parent \<Rightarrow> if parent = '''' then give () else create_dir_all parent) (\<lambda>_.
        let header = \<lparr>header_width = w, header_height = h, header_fps = fps, header_frames = 0\<rparr> in
        then_try (write_file p []) (\<lambda>_ fs.
          case buf_write (header_bytes header) \<lparr>inner = new_file fl, pending = []\<rparr> of
            (Inl e, _) \<Rightarrow> (Inl e, fs)
          | (Inr _, b) \<Rightarrow>
              (Inr \<lparr>writer_file = b, writer_header = header, writer_path = p, writer_frames = 0,
                    writer_sequence = header_sequence header, writer_encoder = encoder\<rparr>, fs))))"

type_synonym 'e encode_fn = "sequence_header \<Rightarrow> plane list \<Rightarrow> 'e \<Rightarrow> (string + bytes) \<times> 'e"
type_synonym 'd decode_fn = "sequence_header \<Rightarrow> bytes \<Rightarrow> 'd \<Rightarrow> (string + plane list) \<times> 'd"

definition write_frame :: "'e encode_fn \<Rightarrow> bytes \<Rightarrow> ('e stream_writer, unit) step" where
  "write_frame encode rgba w =
     (let hdr = writer_header w in
      if length rgba \<noteq> unat (header_width hdr) * unat (header_height hdr) * 4
      then (Inl (validation (''frame data length '' @ dec_string (length rgba) @ '' does not match '' @
              dec_string (unat (header_width hdr)) @ ''x'' @ dec_string (unat (header_height hdr)) @ '' RGBA'')), w)
      else case encode (writer_sequence w) (rgba_to_planes rgba (header_width hdr) (header_height hdr)) (writer_encoder w) of
             (Inl e, s) \<Rightarrow> (Inl (codec e), w\<lparr>writer_encoder := s\<rparr>)
           | (Inr payload, s) \<Rightarrow>
               then_try (to_file (buf_write (u32_to_le (of_nat (length payload))))) (\<lambda>_.
               then_try (to_file (buf_write payload)) (\<lambda>_ w.
                 (Inr (), w\<lparr>writer_frames := writer_frames w + 1\<rparr>))) (w\<lparr>writer_encoder := s\<rparr>))"

definition on_inner :: "(open_file, 'a) step \<Rightarrow> (buf_writer, 'a) step" where
  "on_inner m b = (let (r, f) = m (inner b) in (r, b\<lparr>inner := f\<rparr>))"

definition writer_finish :: "('e stream_writer, unit) step" where
  "writer_finish =
     then_try (to_file buf_flush) (\<lambda>_ w.
       let raw = header_bytes (writer_header w);
           raw = take 24 raw @ u32_to_le (writer_frames w) @ drop 28 raw
       in then_try (to_file (on_inner (file_seek 0))) (\<lambda>_. to_file (on_inner (file_write raw))) w)"

subsection \<open>Reading frames\<close>

definition decode_payload ::
  "'d decode_fn \<Rightarrow> sequence_header \<Rightarrow> bytes \<Rightarrow> u32 \<Rightarrow> u32 \<Rightarrow> 'd \<Rightarrow> (asset_error + bytes) \<times> 'd" where
  "decode_payload decode sequence payload w h s =
     (case decode sequence payload s of
        (Inl e, s) \<Rightarrow> (Inl (codec e), s)
      | (Inr planes, s) \<Rightarrow> (planes_to_rgba planes w h, s))"

text \<open>The walk over the frame table from \<open>cursor\<close> on: a read and a seek for each frame.\<close>

lemma file_read_exact_Inr:
  "file_read_exact n f = (Inr bs, f') \<Longrightarrow>
     bs = slice (offset f) n (content f) \<and> content f' = content f \<and> offset f' = offset f + n \<and> offset f + n \<le> length (content f)"
  by (auto simp: file_read_exact_def next_fault_def split: list.splits option.splits if_splits)

lemma file_seek_Inr: "file_seek p f = (Inr u, f') \<Longrightarrow> content f' = content f \<and> offset f' = p"
  by (auto simp: file_seek_def next_fault_def split: list.splits option.splits)

function scan_loop :: "nat \<Rightarrow> nat \<Rightarrow> open_file \<Rightarrow> (nat \<times> nat) list \<times> open_file" where
  "scan_loop file_length cursor f =
     (case file_read_exact 4 f of
        (Inl _, f) \<Rightarrow> ([], f)
      | (Inr len_bytes, f) \<Rightarrow>
          (let len = unat (u32_from_le len_bytes); cursor = cursor + 4 in
           if len > file_length - cursor then ([], f)
           else case file_seek (cursor + len) f of
               (Inl _, f) \<Rightarrow> ([(cursor, len)], f)
             | (Inr _, f) \<Rightarrow> (case scan_loop file_length (cursor + len) f of (rest, f) \<Rightarrow> ((cursor, len) # rest, f))))"
  by pat_completeness auto

termination
  by (relation "measure (\<lambda>(_, cursor, f). if offset f = cursor then length (content f) + 1 - cursor
                                            else length (content f) + 2)")
    (auto dest!: file_read_exact_Inr [OF sym] file_seek_Inr [OF sym])

declare scan_loop.simps [simp del]

text \<open>The number of declared frames only sizes the allocation of the table.\<close>

definition scan_frame_table :: "nat \<Rightarrow> open_file \<Rightarrow> (nat \<times> nat) list \<times> open_file" where
  "scan_frame_table file_length f = scan_loop file_length HEADER_LEN f"

subsection \<open>The header: what is accepted\<close>

definition valid_header :: "stream_header \<Rightarrow> bool" where
  "valid_header h \<longleftrightarrow> header_width h \<noteq> 0 \<and> header_height h \<noteq> 0 \<and> f64_is_finite (header_fps h) \<and>
     \<not> f64_le (header_fps h) f64_zero"

lemma container_consts [simp]: "length CONTAINER_MAGIC = 7" "HEADER_LEN = 32" "PLANE_COUNT = 3"
  by (simp_all add: CONTAINER_MAGIC_def HEADER_LEN_def PLANE_COUNT_def)

lemma length_header_bytes [simp]: "length (header_bytes h) = 32"
  by (simp add: header_bytes_def)

lemma slice_parts:
  assumes "length a = p" "length b = n"
  shows "slice p n (a @ b @ c) = b"
  using assms by (simp add: slice_def)

lemma header_bytes_slices:
  "slice 0 7 (header_bytes h) = CONTAINER_MAGIC" "slice 8 4 (header_bytes h) = u32_to_le (header_width h)"
  "slice 12 4 (header_bytes h) = u32_to_le (header_height h)" "slice 16 8 (header_bytes h) = u64_to_le (header_fps h)"
  "slice 24 4 (header_bytes h) = u32_to_le (header_frames h)"
  by (simp_all add: header_bytes_def slice_def)

lemma header_bytes_tail: "drop 28 (header_bytes h) = [VERSION, TRANSFORM_ID, of_nat PLANE_COUNT, BIT_DEPTH]"
  by (simp add: header_bytes_def)

lemma nth_of_drop: "drop n xs = ys \<Longrightarrow> n \<le> length xs \<Longrightarrow> xs ! (n + i) = ys ! i"
  by auto

lemma header_bytes_nth:
  "header_bytes h ! 28 = VERSION" "header_bytes h ! 29 = TRANSFORM_ID" "header_bytes h ! 30 = of_nat PLANE_COUNT"
  "header_bytes h ! 31 = BIT_DEPTH"
  using nth_of_drop [OF header_bytes_tail [of h], of 0] nth_of_drop [OF header_bytes_tail [of h], of 1]
    nth_of_drop [OF header_bytes_tail [of h], of 2] nth_of_drop [OF header_bytes_tail [of h], of 3] by simp_all

lemma header_parse_bytes: "valid_header h \<Longrightarrow> header_parse (header_bytes h) = Inr h"
  by (simp add: header_parse_def header_bytes_slices header_bytes_nth valid_header_def)

text \<open>A header that parses is the one its bytes spell, but for byte 7, which nothing reads.\<close>

lemma slice_cat: "q = p + m \<Longrightarrow> slice p m c @ slice q n c = slice p (m + n) c"
  by (simp add: slice_def take_add add.commute)

lemma slice_one: "p < length c \<Longrightarrow> slice p (Suc 0) c = [c ! p]"
  by (simp add: slice_def take_Suc_conv_app_nth)

lemma split_header:
  assumes "length raw = 32"
  shows "raw = slice 0 7 raw @ slice 7 1 raw @ slice 8 4 raw @ slice 12 4 raw @ slice 16 8 raw @ slice 24 4 raw @
    slice 28 1 raw @ slice 29 1 raw @ slice 30 1 raw @ slice 31 1 raw"
proof -
  have "raw = slice 0 32 raw" using assms by (simp add: slice_def)
  then show ?thesis by (simp add: slice_cat)
qed

lemma header_parse_Inr:
  assumes "length raw = 32" "header_parse raw = Inr h"
  shows "valid_header h \<and> raw[7 := 0] = header_bytes h"
proof -
  have parts: "slice 0 7 raw = CONTAINER_MAGIC"
    "h = \<lparr>header_width = u32_from_le (slice 8 4 raw), header_height = u32_from_le (slice 12 4 raw),
       header_fps = u64_from_le (slice 16 8 raw), header_frames = u32_from_le (slice 24 4 raw)\<rparr>"
    "valid_header h" "raw ! 28 = VERSION" "raw ! 29 = TRANSFORM_ID" "unat (raw ! 30) = PLANE_COUNT" "raw ! 31 = BIT_DEPTH"
    using assms(2) by (auto simp: header_parse_def Let_def valid_header_def split: if_splits)
  have three: "raw ! 30 = of_nat PLANE_COUNT" using arg_cong [OF parts(6), of "of_nat :: nat \<Rightarrow> u8"] by simp
  have "u32_to_le (header_width h) = slice 8 4 raw" "u32_to_le (header_height h) = slice 12 4 raw"
    "u64_to_le (header_fps h) = slice 16 8 raw" "u32_to_le (header_frames h) = slice 24 4 raw"
    using assms(1) by (simp_all add: parts(2) to_from_le32 to_from_le64 length_slice)
  then have "header_bytes h = slice 0 7 raw @ [0] @ slice 8 4 raw @ slice 12 4 raw @ slice 16 8 raw @ slice 24 4 raw @
    slice 28 1 raw @ slice 29 1 raw @ slice 30 1 raw @ slice 31 1 raw"
    using assms(1) parts(1,4,5,7) three by (simp add: header_bytes_def slice_one)
  also have "\<dots> = (slice 0 7 raw @ slice 7 1 raw @ slice 8 4 raw @ slice 12 4 raw @ slice 16 8 raw @ slice 24 4 raw @
    slice 28 1 raw @ slice 29 1 raw @ slice 30 1 raw @ slice 31 1 raw)[7 := 0]"
    using assms(1) by (simp add: list_update_append length_slice slice_one)
  also have "\<dots> = raw[7 := 0]"
    by (rule arg_cong [OF split_header [OF assms(1), symmetric], of "\<lambda>bs. bs[7 := 0]"])
  finally show ?thesis using parts(3) by simp
qed

lemma header_parse_update: "header_parse (raw[7 := 0]) = header_parse raw"
proof -
  have "slice p n (raw[7 := 0]) = slice p n raw" if "p + n \<le> 7 \<or> 7 < p" for p n
    using that by (auto simp: slice_def drop_update_swap)
  moreover have "raw[7 := 0] ! i = raw ! i" if "i \<noteq> 7" for i using that by simp
  ultimately show ?thesis unfolding header_parse_def Let_def by simp
qed

subsection \<open>Planes and pixels\<close>

text \<open>The pixels of the buffer, made opaque.\<close>

definition opaque :: "bytes \<Rightarrow> bytes" where
  "opaque rgba = concat (map (\<lambda>i. [rgba ! (4 * i), rgba ! (4 * i + 1), rgba ! (4 * i + 2), 255]) [0..<length rgba div 4])"

lemma length_blocks: "(\<And>i. i \<in> set is \<Longrightarrow> length (g i) = n) \<Longrightarrow> length (concat (map g is)) = n * length is"
  by (induction "is") simp_all

lemma length_opaque: "length rgba = 4 * n \<Longrightarrow> length (opaque rgba) = 4 * n"
  unfolding opaque_def by (subst length_blocks [where n = 4]) simp_all

lemma high_byte_upscale: "high_byte (ucast (b :: u8) * UPSCALE) = b"
proof -
  have small: "unat b < 256" by (rule unat_byte_less)
  have up: "unat b * 257 div 256 = unat b" using small by linarith
  from small have "unat b mod 65536 = unat b" by (intro mod_less) linarith
  then have "unat (ucast b :: u16) = unat b" by (simp add: unsigned_ucast_eq take_bit_eq_mod)
  then have "unat (ucast b * UPSCALE :: u16) = unat b * 257 mod 65536" by (simp add: UPSCALE_def unat_word_ariths)
  also have "\<dots> = unat b * 257" using small by (intro mod_less) linarith
  finally have "unat (drop_bit 8 (ucast b * UPSCALE :: u16)) = unat b"
    using up by (simp only: unat_drop_bit_eq) (simp add: drop_bit_eq_div)
  then show ?thesis
    by (intro word_unat_eq_iff [THEN iffD2]) (simp add: high_byte_def unsigned_ucast_eq take_bit_eq_mod small)
qed

lemma planes_to_rgba_planes:
  assumes "length rgba = unat w * unat h * 4"
  shows "planes_to_rgba (rgba_to_planes rgba w h) w h = Inr (opaque rgba)"
proof -
  let ?n = "unat w * unat h"
  have "map (\<lambda>i. map (\<lambda>p. high_byte (plane_data p ! i)) (rgba_to_planes rgba w h) @ [255]) [0..<?n] =
    map (\<lambda>i. [rgba ! (4 * i), rgba ! (4 * i + 1), rgba ! (4 * i + 2), 255]) [0..<?n]"
    using assms by (intro map_cong) (simp_all add: rgba_to_planes_def channel_plane_def high_byte_upscale)
  moreover have "length rgba div 4 = ?n" using assms by simp
  moreover have "length (rgba_to_planes rgba w h) = PLANE_COUNT" "list_ex (\<lambda>p. length (plane_data p) \<noteq> ?n) (rgba_to_planes rgba w h) = False"
    by (simp_all add: rgba_to_planes_def channel_plane_def Let_def)
  ultimately show ?thesis by (simp only: planes_to_rgba_def opaque_def Let_def if_False not_True_eq_False simp_thms)
qed

subsection \<open>The frame table\<close>

definition frame_bytes :: "bytes \<Rightarrow> bytes" where
  "frame_bytes payload = u32_to_le (of_nat (length payload)) @ payload"

fun frame_table :: "nat \<Rightarrow> bytes list \<Rightarrow> (nat \<times> nat) list" where
  "frame_table cursor [] = []"
| "frame_table cursor (p # ps) = (cursor + 4, length p) # frame_table (cursor + 4 + length p) ps"

text \<open>Bytes that are not a whole frame.\<close>

definition cut_frame :: "bytes \<Rightarrow> bool" where
  "cut_frame bs \<longleftrightarrow> length bs < 4 \<or> length bs < 4 + le_nat (take 4 bs)"

lemma frame_length: "length p < 2 ^ 32 \<Longrightarrow> unat (u32_from_le (u32_to_le (of_nat (length p)))) = length p"
  by (simp add: unat_of_nat take_bit_eq_mod)

lemma u32_from_le_nat: "length bs = 4 \<Longrightarrow> unat (u32_from_le bs) = le_nat bs"
  using le_nat_less [of bs] by (simp add: u32_from_le_def unat_of_nat take_bit_eq_mod)

lemma read_next: "faults f = [] \<Longrightarrow> file_read_exact n f =
   (if offset f + n \<le> length (content f) then (Inr (slice (offset f) n (content f)), f\<lparr>offset := offset f + n\<rparr>)
    else (Inl (Io end_of_file), f\<lparr>offset := max (offset f) (length (content f))\<rparr>))"
  by (simp add: file_read_exact_def)

lemma scan_loop_keeps:
  "faults f = [] \<Longrightarrow> content (snd (scan_loop n c f)) = content f \<and> faults (snd (scan_loop n c f)) = []"
proof (induction n c f rule: scan_loop.induct)
  case (1 n c f)
  show ?case
  proof (cases "offset f + 4 \<le> length (content f)")
    case False
    with 1(2) show ?thesis by (subst (1 2) scan_loop.simps) (simp add: read_next)
  next
    case True
    let ?f = "f\<lparr>offset := offset f + 4\<rparr>" and ?len = "unat (u32_from_le (slice (offset f) 4 (content f)))"
    have read: "file_read_exact 4 f = (Inr (slice (offset f) 4 (content f)), ?f)" using 1(2) True by (simp add: read_next)
    show ?thesis
    proof (cases "?len > n - (c + 4)")
      case True
      with read 1(2) show ?thesis by (subst (1 2) scan_loop.simps) (simp add: Let_def)
    next
      case False
      let ?g = "?f\<lparr>offset := c + 4 + ?len\<rparr>"
      have seek: "file_seek (c + 4 + ?len) ?f = (Inr (), ?g)" using 1(2) by simp
      have "content (snd (scan_loop n (c + 4 + ?len) ?g)) = content ?g \<and> faults (snd (scan_loop n (c + 4 + ?len) ?g)) = []"
        by (rule 1(1) [OF read [symmetric] refl refl refl False seek [symmetric]]) (use 1(2) in simp_all)
      then show ?thesis
        using read False seek
        by (cases "scan_loop n (c + 4 + ?len) ?g") (subst (1 2) scan_loop.simps, simp add: Let_def)
    qed
  qed
qed

lemma scan_loop_table:
  assumes "faults f = []" "offset f = cursor" "drop cursor (content f) = concat (map frame_bytes ps) @ tail"
    "cut_frame tail" "\<forall>p \<in> set ps. length p < 2 ^ 32" "cursor \<le> length (content f)"
  shows "fst (scan_loop (length (content f)) cursor f) = frame_table cursor ps"
  using assms
proof (induction ps arbitrary: cursor f)
  case Nil
  have len: "length tail = length (content f) - cursor" using Nil.prems(3) by (metis append_Nil concat.simps(1) length_drop list.simps(8))
  show ?case
  proof (cases "length tail < 4")
    case True
    then have "\<not> cursor + 4 \<le> length (content f)" using len Nil.prems(6) by linarith
    with Nil.prems(1,2) show ?thesis by (subst scan_loop.simps) (simp add: read_next)
  next
    case False
    then have room: "cursor + 4 \<le> length (content f)" using len Nil.prems(6) by simp
    have "slice cursor 4 (content f) = take 4 tail" using Nil.prems(3) by (simp add: slice_def)
    then have "unat (u32_from_le (slice cursor 4 (content f))) = le_nat (take 4 tail)"
      using False by (simp add: u32_from_le_nat)
    moreover have "length (content f) - (cursor + 4) < le_nat (take 4 tail)"
      using Nil.prems(4) False len room by (simp add: cut_frame_def)
    ultimately show ?thesis
      using Nil.prems room by (subst scan_loop.simps) (simp add: read_next Let_def)
  qed
next
  case (Cons p ps)
  let ?next = "cursor + 4 + length p"
  let ?rest = "concat (map frame_bytes ps) @ tail"
  have all: "drop cursor (content f) = u32_to_le (of_nat (length p)) @ p @ ?rest"
    using Cons.prems(3) frame_bytes_def [of p] by simp
  have len: "length (content f) = ?next + length ?rest"
    using arg_cong [OF all, of length] Cons.prems(6) by simp
  have prefix: "unat (u32_from_le (slice cursor 4 (content f))) = length p"
    using Cons.prems(5) by (simp add: slice_def all frame_length del: from_to_le)
  have after: "drop ?next (content f) = ?rest"
    using arg_cong [OF all, of "drop (4 + length p)"] by (simp add: add.commute add.left_commute)
  obtain f' where rest: "scan_loop (length (content f)) ?next (f\<lparr>offset := ?next\<rparr>) = (frame_table ?next ps, f')"
    using Cons.IH [of "f\<lparr>offset := ?next\<rparr>" ?next] Cons.prems after len
    by (cases "scan_loop (length (content f)) ?next (f\<lparr>offset := ?next\<rparr>)") auto
  have room: "cursor + 4 \<le> length (content f)" "\<not> length (content f) - (cursor + 4) < length p" using len by simp_all
  show ?case
    using Cons.prems(1,2) rest room prefix
    by (subst scan_loop.simps) (simp add: read_next Let_def file_seek_def)
qed

lemma frame_table_bounds:
  "(start, len) \<in> set (frame_table c ps) \<Longrightarrow> c + 4 \<le> start \<and> start + len \<le> c + length (concat (map frame_bytes ps))"
  by (induction ps arbitrary: c) (fastforce simp: frame_bytes_def)+

lemma frames_of_bytes:
  "\<exists>ps tail. bs = concat (map frame_bytes ps) @ tail \<and> cut_frame tail \<and> (\<forall>p \<in> set ps. length p < 2 ^ 32)"
proof (induction "length bs" arbitrary: bs rule: less_induct)
  case less
  show ?case
  proof (cases "cut_frame bs")
    case True
    then show ?thesis by (intro exI [of _ "[]"] exI [of _ bs]) simp
  next
    case False
    define n where "n = le_nat (take 4 bs)"
    have long: "4 \<le> length bs" "4 + n \<le> length bs" using False by (simp_all add: cut_frame_def n_def)
    have small: "n < 2 ^ 32" using le_nat_less [of "take 4 bs"] long by (simp add: n_def min.absorb2)
    define p where "p = take n (drop 4 bs)"
    have p: "length p = n" using long by (simp add: p_def)
    have "u32_to_le (of_nat n) = take 4 bs"
      using to_from_le32 [of "take 4 bs"] long by (simp add: u32_from_le_def n_def)
    then have head: "bs = frame_bytes p @ drop (4 + n) bs"
      using append_take_drop_id [of 4 bs] append_take_drop_id [of n "drop 4 bs"] p
      by (simp add: frame_bytes_def p_def [symmetric] add.commute)
    have "\<exists>ps tail. drop (4 + n) bs = concat (map frame_bytes ps) @ tail \<and> cut_frame tail \<and> (\<forall>p \<in> set ps. length p < 2 ^ 32)"
      by (rule less) (use long in simp)
    then obtain ps tail where "drop (4 + n) bs = concat (map frame_bytes ps) @ tail" "cut_frame tail" "\<forall>p \<in> set ps. length p < 2 ^ 32"
      by blast
    then show ?thesis
      using head p small by (intro exI [of _ "p # ps"] exI [of _ tail]) simp
  qed
qed

subsection \<open>What the writer writes\<close>

text \<open>The file behind a buffer is written at its end, and what the buffer stands for.\<close>

definition appending :: "buf_writer \<Rightarrow> bool" where "appending b \<longleftrightarrow> offset (inner b) = length (content (inner b))"

definition written :: "buf_writer \<Rightarrow> bytes" where "written b = content (inner b) @ pending b"

text \<open>No call on the file fails.\<close>

definition unfailing :: "buf_writer \<Rightarrow> bool" where "unfailing b \<longleftrightarrow> faults (inner b) = []"

lemma overwrite_end: "overwrite (length c) bs c = c @ bs"
  by (simp add: overwrite_def)

lemma file_write_Inr: "file_write bs f = (Inr u, f') \<Longrightarrow>
    content f' = overwrite (offset f) bs (content f) \<and> offset f' = offset f + length bs"
  by (auto simp: file_write_def put_bytes_def dest!: next_fault_content split: prod.splits option.splits)

lemma append_write: "file_write bs f = (Inr u, f') \<Longrightarrow> offset f = length (content f) \<Longrightarrow>
    content f' = content f @ bs \<and> offset f' = length (content f')"
  by (auto simp: overwrite_end dest: file_write_Inr)

lemma buf_flush_done:
  assumes "buf_flush b = (Inr u, b')" "appending b"
  shows "appending b'" "written b' = written b" "pending b' = []"
  using assms
  by (auto simp: buf_flush_def appending_def written_def dest!: append_write split: if_splits prod.splits sum.splits)

lemma buf_write_done:
  assumes "buf_write bs b = (Inr u, b')" "appending b"
  shows "appending b'" "written b' = written b @ bs"
proof -
  have "appending b' \<and> written b' = written b @ bs"
  proof (cases "length bs < buf_capacity - length (pending b)")
    case True
    with assms show ?thesis by (auto simp: buf_write_def appending_def written_def)
  next
    case False
    with assms(1) obtain b1 where b1: "(if length bs > buf_capacity - length (pending b) then buf_flush b else (Inr (), b)) = (Inr (), b1)"
      and rest: "(if buf_capacity \<le> length bs then (case file_write bs (inner b1) of (r, f) \<Rightarrow> (r, b1\<lparr>inner := f\<rparr>))
        else (Inr (), b1\<lparr>pending := pending b1 @ bs\<rparr>)) = (Inr u, b')"
      by (auto simp: buf_write_def then_try_eq_Inr)
    have "appending b1 \<and> written b1 = written b \<and> (buf_capacity \<le> length bs \<longrightarrow> pending b1 = [])"
    proof (cases "length bs > buf_capacity - length (pending b)")
      case True
      with b1 buf_flush_done [of b "()" b1] assms(2) show ?thesis by simp
    next
      case small: False
      with False have "length bs = buf_capacity - length (pending b)" by simp
      then have "buf_capacity \<le> length bs \<longrightarrow> pending b = []"
        unfolding length_0_conv [symmetric] buf_capacity_def by linarith
      with small b1 assms(2) show ?thesis by simp
    qed
    with rest show ?thesis
      by (auto simp: appending_def written_def dest!: append_write split: if_splits prod.splits)
  qed
  then show "appending b'" "written b' = written b @ bs" by blast+
qed

lemma buf_flush_runs: "unfailing b \<Longrightarrow> \<exists>b'. buf_flush b = (Inr (), b') \<and> unfailing b'"
  by (auto simp: buf_flush_def unfailing_def)

lemma buf_write_runs: "unfailing b \<Longrightarrow> \<exists>b'. buf_write bs b = (Inr (), b') \<and> unfailing b'"
  using buf_flush_runs [of b] by (auto simp: buf_write_def then_try_def unfailing_def)

text \<open>A writer that has written the payloads \<open>ps\<close>.\<close>

definition has_written :: "bytes list \<Rightarrow> 'e stream_writer \<Rightarrow> bool" where
  "has_written ps w \<longleftrightarrow>
     appending (writer_file w) \<and>
     written (writer_file w) = header_bytes (writer_header w) @ concat (map frame_bytes ps) \<and>
     writer_frames w = of_nat (length ps) \<and> writer_sequence w = header_sequence (writer_header w)"

lemma write_frame_done:
  assumes "has_written ps w" "write_frame encode rgba w = (Inr (), w')"
  obtains payload s where "length rgba = unat (header_width (writer_header w)) * unat (header_height (writer_header w)) * 4"
    "encode (writer_sequence w) (rgba_to_planes rgba (header_width (writer_header w)) (header_height (writer_header w)))
       (writer_encoder w) = (Inr payload, s)"
    "has_written (ps @ [payload]) w'" "writer_header w' = writer_header w" "writer_encoder w' = s"
proof -
  let ?hdr = "writer_header w"
  have len: "length rgba = unat (header_width ?hdr) * unat (header_height ?hdr) * 4"
    using assms(2) by (auto simp: write_frame_def Let_def split: if_splits)
  obtain payload s where enc: "encode (writer_sequence w) (rgba_to_planes rgba (header_width ?hdr) (header_height ?hdr))
      (writer_encoder w) = (Inr payload, s)"
    using assms(2) len by (auto simp: write_frame_def Let_def split: sum.splits prod.splits)
  obtain b1 b2 where b: "buf_write (u32_to_le (of_nat (length payload))) (writer_file w) = (Inr (), b1)" "buf_write payload b1 = (Inr (), b2)"
    "w' = w\<lparr>writer_encoder := s, writer_file := b2, writer_frames := writer_frames w + 1\<rparr>"
    using assms(2) len enc by (auto simp: write_frame_def Let_def then_try_eq_Inr to_file_def split: prod.splits)
  have "appending (writer_file w)" using assms(1) by (simp add: has_written_def)
  note b1 = buf_write_done [OF b(1) this]
  note b2 = buf_write_done [OF b(2) b1(1)]
  have "has_written (ps @ [payload]) w'" using assms(1) b1(2) b2 b(3) by (simp add: has_written_def frame_bytes_def)
  then show ?thesis by (rule that [OF len enc]) (simp_all add: b(3))
qed

lemma write_frame_runs:
  assumes "unfailing (writer_file w)" "length rgba = unat (header_width (writer_header w)) * unat (header_height (writer_header w)) * 4"
    "encode (writer_sequence w) (rgba_to_planes rgba (header_width (writer_header w)) (header_height (writer_header w)))
       (writer_encoder w) = (Inr payload, s)"
  obtains w' where "write_frame encode rgba w = (Inr (), w')" "unfailing (writer_file w')"
proof -
  obtain b1 where b1: "buf_write (u32_to_le (of_nat (length payload))) (writer_file w) = (Inr (), b1)" "unfailing b1"
    using buf_write_runs [OF assms(1)] by blast
  obtain b2 where b2: "buf_write payload b1 = (Inr (), b2)" "unfailing b2" using buf_write_runs [OF b1(2)] by blast
  show ?thesis
    by (rule that [of "w\<lparr>writer_encoder := s, writer_file := b2, writer_frames := writer_frames w + 1\<rparr>"])
      (use assms b1 b2 in \<open>simp_all add: write_frame_def then_try_def to_file_def Let_def\<close>)
qed

lemma finished_header:
  "take 24 (header_bytes h) @ u32_to_le n @ drop 28 (header_bytes h) = header_bytes (h\<lparr>header_frames := n\<rparr>)"
  by (simp add: header_bytes_def)

lemma overwrite_front: "length a = length bs \<Longrightarrow> bs \<noteq> [] \<Longrightarrow> overwrite 0 bs (a @ c) = bs @ c"
  by (simp add: overwrite_def)

lemma writer_finish_content:
  assumes "has_written ps w" "writer_finish w = (Inr (), w')"
  shows "content (inner (writer_file w')) =
    header_bytes ((writer_header w)\<lparr>header_frames := of_nat (length ps)\<rparr>) @ concat (map frame_bytes ps)"
    "pending (writer_file w') = []"
proof -
  let ?raw = "header_bytes ((writer_header w)\<lparr>header_frames := of_nat (length ps)\<rparr>)"
  have w: "appending (writer_file w)" "writer_frames w = of_nat (length ps)" using assms(1) by (simp_all add: has_written_def)
  obtain b f g where run: "buf_flush (writer_file w) = (Inr (), b)" "file_seek 0 (inner b) = (Inr (), f)" "file_write ?raw f = (Inr (), g)"
    "w' = w\<lparr>writer_file := b\<lparr>inner := g\<rparr>\<rparr>"
    using assms(2) w(2)
    by (auto simp: writer_finish_def Let_def then_try_eq_Inr to_file_def on_inner_def finished_header split: prod.splits)
  note b = buf_flush_done [OF run(1) w(1)]
  have "content (inner b) = header_bytes (writer_header w) @ concat (map frame_bytes ps)"
    using assms(1) b by (simp add: has_written_def written_def)
  moreover have "?raw \<noteq> []" by (metis length_header_bytes list.size(3) zero_neq_numeral)
  ultimately show "content (inner (writer_file w')) = ?raw @ concat (map frame_bytes ps)" "pending (writer_file w') = []"
    using file_write_Inr [OF run(3)] file_seek_Inr [OF run(2)] b(3) run(4) by (simp_all add: overwrite_front)
qed

lemma writer_finish_runs: "unfailing (writer_file w) \<Longrightarrow> \<exists>w'. writer_finish w = (Inr (), w')"
  using buf_flush_runs [of "writer_file w"]
  by (auto simp: writer_finish_def Let_def then_try_def to_file_def on_inner_def unfailing_def)

lemma writer_create_writes:
  assumes "writer_create fl encoder p w h fps fs = (Inr wr, fs')"
  shows "has_written [] wr" "writer_header wr = \<lparr>header_width = w, header_height = h, header_fps = fps, header_frames = 0\<rparr>"
    "writer_encoder wr = encoder" "unat w \<le> 65535" "unat h \<le> 65535" "faults (inner (writer_file wr)) = fl"
  using assms
  by (auto simp: writer_create_def then_try_eq_Inr has_written_def Let_def buf_write_def buf_capacity_def appending_def written_def new_file_def
      split: if_splits sum.splits prod.splits)

end
