(* ===== verification/Video.thy ===== *)
theory Video
  imports Container PeakGen
begin

text \<open>
  Video sources (\<open>tpt-av-asset-cache/src/video.rs\<close>): sniffing a file, the proxy stream source over the
  container of theory Container, and the MP4/H.264 source with the conversions between its demuxer and
  decoder.

  The demuxer and the H.264 decoder are not in the repository: they are the fields of the parameter
  record \<open>kinetix\<close>, with the type of their time stamps and how it is read.  A demuxer can keep delivering
  packets without a frame, so the loops over it return an option.  Frame indices are natural numbers;
  products of dimensions are not wrapped.
\<close>

record rgba_frame =
  frame_index :: nat
  frame_time :: f64
  frame_width :: u32
  frame_height :: u32
  frame_data :: bytes

definition f64_1e_9 :: f64 where "f64_1e_9 = 0x3E112E0BE826D695"
definition f64_half :: f64 where "f64_half = 0x3FE0000000000000"
definition f64_1000 :: f64 where "f64_1000 = 0x408F400000000000"
definition f64_30 :: f64 where "f64_30 = 0x403E000000000000"

subsection \<open>The proxy stream source\<close>

record 'd proxy_stream =
  stream_reader :: open_file
  stream_offsets :: "(nat \<times> nat) list"
  stream_decoder :: 'd
  stream_sequence :: sequence_header
  stream_video :: video_info
  stream_header :: stream_header
  next_index :: nat
  seek_target :: "f64 option"

definition proxy_stream_open :: "'d \<Rightarrow> string \<Rightarrow> (file_system, 'd proxy_stream) step" where
  "proxy_stream_open decoder p =
     then_try (read_file p) (\<lambda>bs.
       case header_read (closed_file bs) of
         (Inl e, _) \<Rightarrow> fail (codec (''bad proxy stream '' @ path_display p @ '': '' @ error_display e))
       | (Inr header, f) \<Rightarrow>
           if length bs < HEADER_LEN
           then fail (codec (''proxy stream '' @ path_display p @ '' is shorter than its header''))
           else (case scan_frame_table (length bs) f of
             (offsets, f) \<Rightarrow> give
               \<lparr>stream_reader = f, stream_offsets = offsets, stream_decoder = decoder,
                stream_sequence = header_sequence header,
                stream_video =
                  \<lparr>width = header_width header, height = header_height header, frame_rate = header_fps header,
                   video_codec = ''kinetix-lossless'', pixel_format = ''rgba8'', video_bit_rate = None,
                   frame_count = of_nat (length offsets),
                   video_duration_secs = f64_div (f64_of_nat (length offsets)) (f64_max (header_fps header) f64_1e_9)\<rparr>,
                stream_header = header, next_index = 0, seek_target = None\<rparr>))"

definition on_reader :: "(open_file, 'a) step \<Rightarrow> ('d proxy_stream, 'a) step" where
  "on_reader m s = (let (r, f) = m (stream_reader s) in (r, s\<lparr>stream_reader := f\<rparr>))"

definition decode_at :: "'d decode_fn \<Rightarrow> nat \<Rightarrow> ('d proxy_stream, rgba_frame option) step" where
  "decode_at decode index s =
     (if length (stream_offsets s) \<le> index then (Inr None, s)
      else case stream_offsets s ! index of
        (start, len) \<Rightarrow>
          then_try (on_reader (file_seek start)) (\<lambda>_.
          then_try (on_reader (file_read_exact len)) (\<lambda>payload s.
            case decode_payload decode (stream_sequence s) payload (header_width (stream_header s))
                   (header_height (stream_header s)) (stream_decoder s) of
              (Inl e, d) \<Rightarrow> (Inl e, s\<lparr>stream_decoder := d\<rparr>)
            | (Inr pixels, d) \<Rightarrow>
                (Inr (Some \<lparr>frame_index = index,
                            frame_time = f64_div (f64_of_nat index) (f64_max (header_fps (stream_header s)) f64_1e_9),
                            frame_width = header_width (stream_header s), frame_height = header_height (stream_header s),
                            frame_data = pixels\<rparr>), s\<lparr>stream_decoder := d\<rparr>))) s)"

definition stream_seek_to :: "f64 \<Rightarrow> 'd proxy_stream \<Rightarrow> 'd proxy_stream" where
  "stream_seek_to t s =
     (let clamped = f64_max t f64_zero in
      s\<lparr>next_index := unat (f64_to_u64 (f64_round (f64_mul clamped (header_fps (stream_header s))))),
        seek_target := Some clamped\<rparr>)"

text \<open>Whether a frame still lies before the target of a seek, by more than half a frame.\<close>

definition before_target :: "f64 \<Rightarrow> rgba_frame \<Rightarrow> f64 \<Rightarrow> bool" where
  "before_target fps frame target =
     f64_lt (f64_add (frame_time frame) (f64_div f64_half (f64_max fps f64_1e_9))) target"

lemma on_reader_keeps:
  "on_reader m s = (r, s') \<Longrightarrow> stream_offsets s' = stream_offsets s \<and> next_index s' = next_index s \<and>
     stream_header s' = stream_header s \<and> seek_target s' = seek_target s \<and> stream_sequence s' = stream_sequence s"
  by (auto simp: on_reader_def split: prod.splits)

lemma decode_at_keeps:
  assumes "decode_at decode index s = (r, s')"
  shows "stream_offsets s' = stream_offsets s \<and> next_index s' = next_index s \<and>
    stream_header s' = stream_header s \<and> seek_target s' = seek_target s \<and> stream_sequence s' = stream_sequence s"
proof (cases "length (stream_offsets s) \<le> index")
  case True
  with assms show ?thesis by (simp add: decode_at_def)
next
  case False
  with assms show ?thesis
    by (cases "stream_offsets s ! index")
      (auto simp: decode_at_def elim!: then_tryE dest!: on_reader_keeps split: prod.splits sum.splits)
qed

lemma decode_at_Some:
  "decode_at decode index s = (Inr (Some x), s') \<Longrightarrow>
     index < length (stream_offsets s) \<and> stream_offsets s' = stream_offsets s \<and> next_index s' = next_index s"
  using decode_at_keeps [of decode index s "Inr (Some x)" s'] by (auto simp: decode_at_def split: if_splits)

function stream_next_frame :: "'d decode_fn \<Rightarrow> ('d proxy_stream, rgba_frame option) step" where
  "stream_next_frame decode s =
     (case decode_at decode (next_index s) s of
        (Inl e, s) \<Rightarrow> (Inl e, s)
      | (Inr None, s) \<Rightarrow> (Inr None, s\<lparr>seek_target := None\<rparr>)
      | (Inr (Some frame), s) \<Rightarrow>
          (let s = s\<lparr>next_index := next_index s + 1\<rparr> in
           case seek_target s of
             None \<Rightarrow> (Inr (Some frame), s)
           | Some target \<Rightarrow>
               if before_target (header_fps (stream_header s)) frame target then stream_next_frame decode s
               else (Inr (Some frame), s\<lparr>seek_target := None\<rparr>)))"
  by pat_completeness auto

termination
  by (relation "measure (\<lambda>(_, s). length (stream_offsets s) - next_index s)")
    (auto dest!: decode_at_Some [OF sym])

declare stream_next_frame.simps [simp del]

subsection \<open>Samples and pixels\<close>

text \<open>The loop from index \<open>i\<close>, over the bytes from there on.\<close>

function annexb_loop :: "bytes \<Rightarrow> asset_error + bytes" where
  "annexb_loop data =
     (if length data < 4 then Inr []
      else let len = le_nat (rev (take 4 data)); rest = drop 4 data in
        if length rest < len then Inl (codec ''truncated AVCC sample'')
        else rbind (annexb_loop (drop len rest)) (\<lambda>out. Inr ([0, 0, 0, 1] @ take len rest @ out)))"
  by pat_completeness auto

termination
  by (relation "measure length") auto

declare annexb_loop.simps [simp del]

definition avcc_to_annexb :: "bytes \<Rightarrow> asset_error + bytes" where
  "avcc_to_annexb data =
     rbind (annexb_loop data) (\<lambda>out. if out = [] then Inl (codec ''empty AVCC sample'') else Inr out)"

definition clamp_byte :: "int \<Rightarrow> u8" where "clamp_byte v = of_int (max 0 (min 255 v))"

definition yuv_red :: "int \<Rightarrow> int \<Rightarrow> int \<Rightarrow> int" where "yuv_red y d e = (298 * y + 409 * e + 128) div 256"
definition yuv_green :: "int \<Rightarrow> int \<Rightarrow> int \<Rightarrow> int" where "yuv_green y d e = (298 * y - 100 * d - 208 * e + 128) div 256"
definition yuv_blue :: "int \<Rightarrow> int \<Rightarrow> int \<Rightarrow> int" where "yuv_blue y d e = (298 * y + 516 * d + 128) div 256"

definition yuv_pixel :: "u8 \<Rightarrow> u8 \<Rightarrow> u8 \<Rightarrow> bytes" where
  "yuv_pixel luma cb cr =
     (let y = uint luma - 16; d = uint cb - 128; e = uint cr - 128 in
      [clamp_byte (yuv_red y d e), clamp_byte (yuv_green y d e), clamp_byte (yuv_blue y d e), 255])"

definition div_ceil2 :: "nat \<Rightarrow> nat" where "div_ceil2 n = (n + 1) div 2"

definition yuv420p_to_rgba :: "bytes \<Rightarrow> u32 \<Rightarrow> u32 \<Rightarrow> asset_error + bytes" where
  "yuv420p_to_rgba data frame_w frame_h =
     (let w = unat frame_w; h = unat frame_h; cw = div_ceil2 w; ch = div_ceil2 h; y_len = w * h; c_len = cw * ch in
      if length data < y_len + 2 * c_len
      then Inl (codec (''YUV420p frame too small: '' @ dec_string (length data) @ '' bytes for '' @ dec_string w @ ''x'' @ dec_string h))
      else let y_plane = take y_len data; rest = drop y_len data; cb_plane = take c_len rest; cr_plane = drop c_len rest in
        Inr (concat (map (\<lambda>row. concat (map (\<lambda>col.
          yuv_pixel (y_plane ! (row * w + col)) (cb_plane ! (row div 2 * cw + col div 2))
            (cr_plane ! (row div 2 * cw + col div 2))) [0..<w])) [0..<h])))"

subsection \<open>The MP4 source\<close>

text \<open>A track's codec is the text of its \<open>Debug\<close>.\<close>

record track =
  track_is_video :: bool
  track_codec :: "string option"
  track_timescale :: u32
  track_duration :: u64
  track_samples :: nat
  track_width :: u32
  track_height :: u32

record 't packet =
  packet_pts :: 't
  packet_dts :: 't
  packet_data :: bytes
  packet_stream :: u32
  packet_key :: bool

record 't yuv_frame =
  yuv_pts :: 't
  yuv_format :: string
  yuv_width :: u32
  yuv_height :: u32
  yuv_data :: bytes

record ('m, 'h, 't) kinetix =
  mp4_new :: "bytes \<Rightarrow> string + 'm"
  mp4_tracks :: "'m \<Rightarrow> track list"
  mp4_seek :: "int \<Rightarrow> 'm \<Rightarrow> 'm"
  mp4_read :: "'m \<Rightarrow> (string + 't packet option) \<times> 'm"
  h264_new :: 'h
  h264_decode :: "'t packet \<Rightarrow> 'h \<Rightarrow> (string + 't yuv_frame option) \<times> 'h"
  time_none :: "'t \<Rightarrow> bool"
  time_secs :: "'t \<Rightarrow> f64"

record ('m, 'h) mp4_source =
  mp4_demuxer :: 'm
  mp4_decoder :: 'h
  mp4_video :: video_info
  mp4_index :: nat
  mp4_buffered :: "rgba_frame list"
  mp4_next :: u64
  mp4_exhausted :: bool
  mp4_target :: "f64 option"

definition debug_option :: "string option \<Rightarrow> string" where
  "debug_option c = (case c of None \<Rightarrow> ''None'' | Some s \<Rightarrow> ''Some('' @ s @ '')'')"

definition mp4_open :: "('m, 'h, 't) kinetix \<Rightarrow> string \<Rightarrow> (file_system, ('m, 'h) mp4_source) step" where
  "mp4_open k p =
     then_try (read_file p) (\<lambda>data.
       case mp4_new k data of
         Inl e \<Rightarrow> fail (codec (''mp4 demux failed: '' @ e))
       | Inr demuxer \<Rightarrow>
           (case position track_is_video (mp4_tracks k demuxer) of
              None \<Rightarrow> fail (validation (path_display p @ '' has no video track''))
            | Some i \<Rightarrow>
                (let t = mp4_tracks k demuxer ! i in
                 if track_codec t \<noteq> Some ''H264''
                 then fail (validation (path_display p @ '' uses '' @ debug_option (track_codec t) @
                        ''; only H.264 tracks are supported''))
                 else
                   let secs = (if 0 < unat (track_timescale t)
                               then f64_div (f64_of_nat (unat (track_duration t))) (f64_of_nat (unat (track_timescale t)))
                               else f64_zero);
                       frames = (of_nat (track_samples t) :: u32);
                       rate = (if f64_lt f64_zero secs then f64_div (f64_of_nat (unat frames)) secs else f64_30)
                   in give
                     \<lparr>mp4_demuxer = demuxer, mp4_decoder = h264_new k,
                      mp4_video = \<lparr>width = track_width t, height = track_height t, frame_rate = rate,
                        video_codec = ''h264'', pixel_format = ''yuv420p'', video_bit_rate = None,
                        frame_count = frames, video_duration_secs = secs\<rparr>,
                      mp4_index = i, mp4_buffered = [], mp4_next = 0, mp4_exhausted = False, mp4_target = None\<rparr>)))"

text \<open>What \<open>fill\<close> does with a packet of the video track: nothing yet, or one more buffered frame.\<close>

definition mp4_take_packet :: "('m, 'h, 't) kinetix \<Rightarrow> 't packet \<Rightarrow> (('m, 'h) mp4_source, unit) step" where
  "mp4_take_packet k packet s =
     (case avcc_to_annexb (packet_data packet) of
        Inl e \<Rightarrow> (Inl e, s)
      | Inr annexb \<Rightarrow>
          (case h264_decode k (packet\<lparr>packet_data := annexb\<rparr>) (mp4_decoder s) of
             (Inl e, h) \<Rightarrow> (Inl (codec e), s\<lparr>mp4_decoder := h\<rparr>)
           | (Inr None, h) \<Rightarrow> (Inr (), s\<lparr>mp4_decoder := h\<rparr>)
           | (Inr (Some frame), h) \<Rightarrow>
               (let s = s\<lparr>mp4_decoder := h\<rparr> in
                if yuv_format frame \<noteq> ''Yuv420p''
                then (Inl (codec (''unexpected pixel format '' @ yuv_format frame)), s)
                else let index = mp4_next s; s = s\<lparr>mp4_next := index + 1\<rparr>;
                         secs = (if \<not> time_none k (yuv_pts frame) \<and> f64_is_finite (time_secs k (yuv_pts frame))
                                 then time_secs k (yuv_pts frame)
                                 else f64_div (f64_of_nat (unat index)) (f64_max (frame_rate (mp4_video s)) f64_1e_9))
                     in case yuv420p_to_rgba (yuv_data frame) (yuv_width frame) (yuv_height frame) of
                          Inl e \<Rightarrow> (Inl e, s)
                        | Inr rgba \<Rightarrow>
                            (Inr (), s\<lparr>mp4_buffered := mp4_buffered s @
                               [\<lparr>frame_index = unat index, frame_time = secs, frame_width = yuv_width frame,
                                 frame_height = yuv_height frame, frame_data = rgba\<rparr>]\<rparr>))))"

partial_function (option) mp4_fill ::
  "('m, 'h, 't) kinetix \<Rightarrow> ('m, 'h) mp4_source \<Rightarrow> ((asset_error + unit) \<times> ('m, 'h) mp4_source) option" where
  "mp4_fill k s =
     (if mp4_buffered s \<noteq> [] \<or> mp4_exhausted s then Some (Inr (), s)
      else case mp4_read k (mp4_demuxer s) of
        (Inl e, m) \<Rightarrow> Some (Inl (codec e), s\<lparr>mp4_demuxer := m\<rparr>)
      | (Inr None, m) \<Rightarrow> Some (Inr (), s\<lparr>mp4_demuxer := m, mp4_exhausted := True\<rparr>)
      | (Inr (Some packet), m) \<Rightarrow>
          (let s = s\<lparr>mp4_demuxer := m\<rparr> in
           if packet_stream packet \<noteq> of_nat (mp4_index s) then mp4_fill k s
           else case mp4_take_packet k packet s of
               (Inl e, s) \<Rightarrow> Some (Inl e, s)
             | (Inr _, s) \<Rightarrow> mp4_fill k s))"

definition mp4_seek_to :: "('m, 'h, 't) kinetix \<Rightarrow> f64 \<Rightarrow> ('m, 'h) mp4_source \<Rightarrow> ('m, 'h) mp4_source" where
  "mp4_seek_to k t s =
     (let clamped = f64_max t f64_zero in
      s\<lparr>mp4_demuxer := mp4_seek k (f64_to_i64 (f64_mul clamped f64_1000)) (mp4_demuxer s),
        mp4_decoder := h264_new k, mp4_buffered := [],
        mp4_next := f64_to_u64 (f64_round (f64_mul clamped (frame_rate (mp4_video s)))),
        mp4_exhausted := False, mp4_target := Some clamped\<rparr>)"

partial_function (option) mp4_next_frame ::
  "('m, 'h, 't) kinetix \<Rightarrow> ('m, 'h) mp4_source \<Rightarrow> ((asset_error + rgba_frame option) \<times> ('m, 'h) mp4_source) option" where
  "mp4_next_frame k s =
     Option.bind (mp4_fill k s) (\<lambda>(r, s).
       case r of
         Inl e \<Rightarrow> Some (Inl e, s)
       | Inr _ \<Rightarrow>
           (case mp4_buffered s of
              frame # rest \<Rightarrow>
                (let s = s\<lparr>mp4_buffered := rest\<rparr> in
                 case mp4_target s of
                   None \<Rightarrow> Some (Inr (Some frame), s)
                 | Some target \<Rightarrow>
                     if before_target (frame_rate (mp4_video s)) frame target then mp4_next_frame k s
                     else Some (Inr (Some frame), s\<lparr>mp4_target := None\<rparr>))
            | [] \<Rightarrow> if mp4_exhausted s then Some (Inr None, s\<lparr>mp4_target := None\<rparr>) else mp4_next_frame k s))"

subsection \<open>Opening\<close>

datatype ('d, 'm, 'h) video_source = ProxyStream "'d proxy_stream" | Mp4H264 "('m, 'h) mp4_source"

definition open_video :: "('m, 'h, 't) kinetix \<Rightarrow> 'd \<Rightarrow> string \<Rightarrow> (file_system, ('d, 'm, 'h) video_source) step" where
  "open_video k decoder p =
     then_try (read_file p) (\<lambda>bs.
       let magic = take 12 bs in
       if length magic \<ge> 7 \<and> slice 0 7 magic = CONTAINER_MAGIC
       then then_try (proxy_stream_open decoder p) (\<lambda>s. give (ProxyStream s))
       else if length magic \<ge> 12 \<and> slice 4 4 magic = as_bytes ''ftyp''
       then then_try (mp4_open k p) (\<lambda>s. give (Mp4H264 s))
       else fail (UnsupportedFormat p))"

fun source_info :: "('d, 'm, 'h) video_source \<Rightarrow> video_info" where
  "source_info (ProxyStream s) = stream_video s"
| "source_info (Mp4H264 s) = mp4_video s"

fun source_seek_to :: "('m, 'h, 't) kinetix \<Rightarrow> f64 \<Rightarrow> ('d, 'm, 'h) video_source \<Rightarrow> ('d, 'm, 'h) video_source" where
  "source_seek_to k t (ProxyStream s) = ProxyStream (stream_seek_to t s)"
| "source_seek_to k t (Mp4H264 s) = Mp4H264 (mp4_seek_to k t s)"

fun source_next_frame :: "('m, 'h, 't) kinetix \<Rightarrow> 'd decode_fn \<Rightarrow> ('d, 'm, 'h) video_source
     \<Rightarrow> ((asset_error + rgba_frame option) \<times> ('d, 'm, 'h) video_source) option" where
  "source_next_frame k decode (ProxyStream s) =
     (case stream_next_frame decode s of (r, s) \<Rightarrow> Some (r, ProxyStream s))"
| "source_next_frame k decode (Mp4H264 s) = map_option (\<lambda>(r, s). (r, Mp4H264 s)) (mp4_next_frame k s)"

definition probe_video :: "('m, 'h, 't) kinetix \<Rightarrow> 'd \<Rightarrow> string \<Rightarrow> (file_system, video_info) step" where
  "probe_video k decoder p = then_try (open_video k decoder p) (\<lambda>s. give (source_info s))"

subsection \<open>A sample and its units\<close>

definition nal_bytes :: "bytes \<Rightarrow> bytes" where "nal_bytes nal = rev (le_bytes 4 (length nal)) @ nal"

definition annexb_unit :: "bytes \<Rightarrow> bytes" where "annexb_unit nal = [0, 0, 0, 1] @ nal"

lemma annexb_loop_units:
  assumes "length tail < 4" "\<forall>nal \<in> set nals. length nal < 2 ^ 32"
  shows "annexb_loop (concat (map nal_bytes nals) @ tail) = Inr (concat (map annexb_unit nals))"
  using assms(2)
proof (induction nals)
  case Nil
  with assms(1) show ?case by (subst annexb_loop.simps) simp
next
  case (Cons nal nals)
  have "le_nat (le_bytes 4 (length nal)) = length nal" using Cons.prems by (simp add: le_nat_le_bytes)
  with Cons nal_bytes_def [of nal] annexb_unit_def [of nal] show ?case by (subst annexb_loop.simps) (simp add: Let_def)
qed

lemma annexb_loop_Inr:
  "annexb_loop data = Inr out \<Longrightarrow> \<exists>nals tail. data = concat (map nal_bytes nals) @ tail \<and> length tail < 4 \<and>
     (\<forall>nal \<in> set nals. length nal < 2 ^ 32) \<and> out = concat (map annexb_unit nals)"
proof (induction data arbitrary: out rule: annexb_loop.induct)
  case (1 data)
  show ?case
  proof (cases "length data < 4")
    case True
    with 1(2) show ?thesis by (intro exI [of _ "[]"] exI [of _ data]) (simp add: annexb_loop.simps [of data])
  next
    case False
    define n where "n = le_nat (rev (take 4 data))"
    define nal where "nal = take n (drop 4 data)"
    have four: "length (rev (take 4 data)) = 4" using False by simp
    have "n < 2 ^ 32" using le_nat_less [of "rev (take 4 data)"] four by (simp add: n_def)
    moreover have room: "n \<le> length (drop 4 data)" and
      "\<exists>rest. annexb_loop (drop n (drop 4 data)) = Inr rest \<and> out = [0, 0, 0, 1] @ nal @ rest"
      using 1(2) False by (auto simp: annexb_loop.simps [of data] Let_def n_def nal_def rbind_eq_Inr split: if_splits)
    then obtain rest where rest: "annexb_loop (drop n (drop 4 data)) = Inr rest" "out = [0, 0, 0, 1] @ nal @ rest" by blast
    obtain nals tail where ih: "drop n (drop 4 data) = concat (map nal_bytes nals) @ tail" "length tail < 4"
      "\<forall>nal \<in> set nals. length nal < 2 ^ 32" "rest = concat (map annexb_unit nals)"
      using 1(1) [OF False refl refl, folded n_def] room rest(1) by auto
    have len: "length nal = n" using room by (simp add: nal_def)
    have "rev (le_bytes 4 n) = take 4 data"
      using le_bytes_le_nat [of "rev (take 4 data)"] four by (simp add: n_def)
    then have "data = nal_bytes nal @ drop n (drop 4 data)"
      using append_take_drop_id [of 4 data] append_take_drop_id [of n "drop 4 data"] len
      by (simp add: nal_bytes_def nal_def [symmetric])
    with ih rest(2) len \<open>n < 2 ^ 32\<close> annexb_unit_def [of nal] show ?thesis
      by (intro exI [of _ "nal # nals"] exI [of _ tail]) simp
  qed
qed

lemma yuv_products:
  assumes "0 \<le> luma" "luma < 256" "0 \<le> cb" "cb < 256" "0 \<le> cr" "cr < 256"
  shows "\<bar>298 * (luma - 16) + 409 * (cr - 128) + 128\<bar> < (2 ^ 31 :: int)"
    "\<bar>298 * (luma - 16) - 100 * (cb - 128)\<bar> < (2 ^ 31 :: int)"
    "\<bar>298 * (luma - 16) - 100 * (cb - 128) - 208 * (cr - 128) + 128\<bar> < (2 ^ 31 :: int)"
    "\<bar>298 * (luma - 16) + 516 * (cb - 128) + 128\<bar> < (2 ^ 31 :: int)"
  using assms by simp_all

subsection \<open>Frames of a stream\<close>

definition lossless_codec :: "'e encode_fn \<Rightarrow> 'd decode_fn \<Rightarrow> bool" where
  "lossless_codec encode decode \<longleftrightarrow>
     (\<forall>seq planes e payload e'. encode seq planes e = (Inr payload, e') \<longrightarrow>
        length payload < 2 ^ 32 \<and> (\<forall>d. fst (decode seq payload d) = Inr planes))"

definition stream_frame :: "stream_header \<Rightarrow> bytes list \<Rightarrow> nat \<Rightarrow> rgba_frame" where
  "stream_frame hdr frames i =
     \<lparr>frame_index = i, frame_time = f64_div (f64_of_nat i) (f64_max (header_fps hdr) f64_1e_9),
      frame_width = header_width hdr, frame_height = header_height hdr, frame_data = opaque (frames ! i)\<rparr>"

text \<open>A payload that decodes to the planes of a frame, and an open stream over such payloads.\<close>

definition payload_of :: "'d decode_fn \<Rightarrow> stream_header \<Rightarrow> bytes \<Rightarrow> bytes \<Rightarrow> bool" where
  "payload_of decode hdr payload rgba \<longleftrightarrow>
     length payload < 2 ^ 32 \<and> length rgba = unat (header_width hdr) * unat (header_height hdr) * 4 \<and>
     (\<forall>d. fst (decode (header_sequence hdr) payload d) = Inr (rgba_to_planes rgba (header_width hdr) (header_height hdr)))"

definition streams :: "'d decode_fn \<Rightarrow> bytes list \<Rightarrow> 'd proxy_stream \<Rightarrow> bool" where
  "streams decode frames s \<longleftrightarrow>
     (let f = stream_reader s; hdr = stream_header s in
      faults f = [] \<and> stream_sequence s = header_sequence hdr \<and>
      (\<exists>pre ps. length pre = 32 \<and> content f = pre @ concat (map frame_bytes ps) \<and> stream_offsets s = frame_table 32 ps \<and>
         list_all2 (payload_of decode hdr) ps frames))"

lemma frame_table_payload:
  assumes "i < length ps" "length pre = c"
  shows "case frame_table c ps ! i of (start, len) \<Rightarrow>
    slice start len (pre @ concat (map frame_bytes ps)) = ps ! i \<and> len = length (ps ! i) \<and>
    start + len \<le> length (pre @ concat (map frame_bytes ps))"
  using assms
proof (induction ps arbitrary: i c pre)
  case (Cons p ps)
  show ?case
  proof (cases i)
    case 0
    with Cons.prems show ?thesis by (simp add: slice_def frame_bytes_def)
  next
    case (Suc j)
    with Cons.IH [of j "pre @ frame_bytes p" "c + 4 + length p"] Cons.prems show ?thesis
      by (simp add: frame_bytes_def add.assoc)
  qed
qed simp

lemma length_frame_table [simp]: "length (frame_table c ps) = length ps"
  by (induction ps arbitrary: c) simp_all

lemma decode_at_streams:
  assumes "streams decode frames s" "i < length frames"
  obtains s' where "decode_at decode i s = (Inr (Some (stream_frame (stream_header s) frames i)), s')"
    "streams decode frames s'"
proof -
  let ?f = "stream_reader s" and ?hd = "stream_header s"
  obtain pre ps where ps: "length pre = 32" "content ?f = pre @ concat (map frame_bytes ps)"
    "stream_offsets s = frame_table 32 ps" "list_all2 (payload_of decode ?hd) ps frames"
    and f: "faults ?f = []" "stream_sequence s = header_sequence ?hd"
    using assms(1) by (auto simp: streams_def Let_def)
  have i: "i < length ps" using ps(4) assms(2) by (simp add: list_all2_lengthD)
  have pay: "payload_of decode ?hd (ps ! i) (frames ! i)" using ps(4) i by (simp add: list_all2_nthD)
  obtain start len where at: "frame_table 32 ps ! i = (start, len)" by fastforce
  then have got: "slice start len (content ?f) = ps ! i" "start + len \<le> length (content ?f)"
    using frame_table_payload [OF i ps(1)] unfolding at prod.case ps(2) by blast+
  obtain d' where dec: "decode (header_sequence ?hd) (ps ! i) (stream_decoder s) =
      (Inr (rgba_to_planes (frames ! i) (header_width ?hd) (header_height ?hd)), d')"
    using pay by (cases "decode (header_sequence ?hd) (ps ! i) (stream_decoder s)") (metis fst_conv payload_of_def)
  have "planes_to_rgba (rgba_to_planes (frames ! i) (header_width ?hd) (header_height ?hd)) (header_width ?hd) (header_height ?hd) =
      Inr (opaque (frames ! i))"
    using pay by (intro planes_to_rgba_planes) (simp add: payload_of_def)
  then have run: "decode_at decode i s = (Inr (Some (stream_frame ?hd frames i)),
      s\<lparr>stream_reader := ?f\<lparr>offset := start + len\<rparr>, stream_decoder := d'\<rparr>)"
    using i ps(3) at got f dec
    by (simp add: decode_at_def then_try_def on_reader_def read_next decode_payload_def stream_frame_def)
  show ?thesis
    by (rule that [OF run]) (use ps f in \<open>auto simp: streams_def Let_def\<close>)
qed

lemma decode_at_end: "streams decode frames s \<Longrightarrow> length frames \<le> i \<Longrightarrow> decode_at decode i s = (Inr None, s)"
  by (auto simp: streams_def Let_def decode_at_def dest: list_all2_lengthD)

lemma streams_update [simp]: "streams decode frames (s\<lparr>next_index := n\<rparr>) = streams decode frames s"
  "streams decode frames (s\<lparr>seek_target := t\<rparr>) = streams decode frames s"
  by (simp_all add: streams_def)

text \<open>Frames a pending seek drops.\<close>

definition dropped :: "stream_header \<Rightarrow> bytes list \<Rightarrow> f64 option \<Rightarrow> nat \<Rightarrow> bool" where
  "dropped hdr frames target i =
     (case target of None \<Rightarrow> False | Some t \<Rightarrow> before_target (header_fps hdr) (stream_frame hdr frames i) t)"

text \<open>The next frame of a stream: the first from its index on that is not dropped.\<close>

lemma stream_next_frame_streams:
  assumes "streams decode frames s"
  shows "(\<exists>j s'. next_index s \<le> j \<and> j < length frames \<and> \<not> dropped (stream_header s) frames (seek_target s) j \<and>
      (\<forall>i. next_index s \<le> i \<longrightarrow> i < j \<longrightarrow> dropped (stream_header s) frames (seek_target s) i) \<and>
      stream_next_frame decode s = (Inr (Some (stream_frame (stream_header s) frames j)), s') \<and>
      streams decode frames s' \<and> next_index s' = j + 1 \<and> seek_target s' = None \<and> stream_header s' = stream_header s) \<or>
    (\<exists>s'. (\<forall>i. next_index s \<le> i \<longrightarrow> i < length frames \<longrightarrow> dropped (stream_header s) frames (seek_target s) i) \<and>
      stream_next_frame decode s = (Inr None, s') \<and> streams decode frames s' \<and> seek_target s' = None \<and>
      stream_header s' = stream_header s)"
    (is "?found s \<or> ?none s")
  using assms
proof (induction "length frames - next_index s" arbitrary: s rule: less_induct)
  case less
  show ?case
  proof (cases "next_index s < length frames")
    case False
    with less.prems show ?thesis
      by (intro disjI2) (subst stream_next_frame.simps, simp add: decode_at_end)
  next
    case True
    obtain s1 where s1: "decode_at decode (next_index s) s = (Inr (Some (stream_frame (stream_header s) frames (next_index s))), s1)"
      "streams decode frames s1"
      by (rule decode_at_streams [OF less.prems True])
    note keeps = decode_at_keeps [OF s1(1)]
    let ?s2 = "s1\<lparr>next_index := next_index s + 1\<rparr>"
    show ?thesis
    proof (cases "dropped (stream_header s) frames (seek_target s) (next_index s)")
      case False
      then have "?found s"
        using True s1 keeps less.prems
        by (intro exI [of _ "next_index s"])
          (subst stream_next_frame.simps, auto simp: dropped_def Let_def split: option.splits)
      then show ?thesis ..
    next
      case drop_: True
      then have run: "stream_next_frame decode s = stream_next_frame decode ?s2"
        using s1(1) keeps by (subst stream_next_frame.simps) (auto simp: dropped_def Let_def split: option.splits)
      have same: "stream_header ?s2 = stream_header s" "seek_target ?s2 = seek_target s" "next_index ?s2 = next_index s + 1"
        using keeps by simp_all
      have later: "P i" if "\<forall>i. next_index s + 1 \<le> i \<longrightarrow> P i" "P (next_index s)" "next_index s \<le> i" for i P
        using that by (cases "i = next_index s") simp_all
      from less.hyps [of ?s2] True s1(2) have "?found ?s2 \<or> ?none ?s2" by simp
      then show ?thesis
      proof
        assume "?found ?s2"
        then obtain j s' where "next_index s + 1 \<le> j" "j < length frames" "\<not> dropped (stream_header s) frames (seek_target s) j"
          "\<forall>i. next_index s + 1 \<le> i \<longrightarrow> i < j \<longrightarrow> dropped (stream_header s) frames (seek_target s) i"
          "stream_next_frame decode s = (Inr (Some (stream_frame (stream_header s) frames j)), s')"
          "streams decode frames s'" "next_index s' = j + 1" "seek_target s' = None" "stream_header s' = stream_header s"
          unfolding same run by blast
        then show ?thesis
          using later [of "\<lambda>i. i < j \<longrightarrow> dropped (stream_header s) frames (seek_target s) i"] drop_
          by (intro disjI1 exI [of _ j] exI [of _ s']) auto
      next
        assume "?none ?s2"
        then obtain s' where "\<forall>i. next_index s + 1 \<le> i \<longrightarrow> i < length frames \<longrightarrow> dropped (stream_header s) frames (seek_target s) i"
          "stream_next_frame decode s = (Inr None, s')" "streams decode frames s'" "seek_target s' = None" "stream_header s' = stream_header s"
          unfolding same run by blast
        then show ?thesis
          using later [of "\<lambda>i. i < length frames \<longrightarrow> dropped (stream_header s) frames (seek_target s) i"] drop_
          by (intro disjI2 exI [of _ s']) auto
      qed
    qed
  qed
qed

text \<open>The frames a caller gets one after the other.\<close>

fun stream_frames :: "'d decode_fn \<Rightarrow> nat \<Rightarrow> 'd proxy_stream \<Rightarrow> (asset_error + rgba_frame option) list" where
  "stream_frames decode 0 s = []"
| "stream_frames decode (Suc n) s = (case stream_next_frame decode s of (r, s) \<Rightarrow> r # stream_frames decode n s)"

lemma stream_frames_all:
  assumes "streams decode frames s" "seek_target s = None" "n = length frames - next_index s" "next_index s \<le> length frames"
  shows "stream_frames decode (Suc n) s =
    map (\<lambda>i. Inr (Some (stream_frame (stream_header s) frames i))) [next_index s..<length frames] @ [Inr None]"
  using assms
proof (induction n arbitrary: s)
  case 0
  then show ?case using stream_next_frame_streams [OF 0(1)] by auto
next
  case (Suc n)
  have more: "next_index s < length frames" using Suc.prems(3) by simp
  have "\<not> dropped (stream_header s) frames (seek_target s) i" for i using Suc.prems(2) by (simp add: dropped_def)
  with more stream_next_frame_streams [OF Suc.prems(1)]
  obtain j s' where j: "next_index s \<le> j" "\<not> next_index s < j" and
    run: "stream_next_frame decode s = (Inr (Some (stream_frame (stream_header s) frames j)), s')" "streams decode frames s'"
    "next_index s' = j + 1" "seek_target s' = None" "stream_header s' = stream_header s" by blast
  then have "j = next_index s" by simp
  moreover have "[next_index s..<length frames] = next_index s # [next_index s + 1..<length frames]"
    using more by (simp add: upt_conv_Cons)
  moreover have "stream_frames decode (Suc n) s' =
      map (\<lambda>i. Inr (Some (stream_frame (stream_header s) frames i))) [next_index s + 1..<length frames] @ [Inr None]"
  proof -
    have n: "n = length frames - next_index s'" "next_index s' \<le> length frames" "next_index s' = next_index s + 1"
      using run(3) Suc.prems(3) more \<open>j = next_index s\<close> by simp_all
    show ?thesis using Suc.IH [OF run(2,4) n(1,2)] unfolding run(5) n(3) .
  qed
  ultimately show ?case
    by (simp only: stream_frames.simps(2) [of decode "Suc n" s] run(1) prod.case list.map append_Cons)
qed

subsection \<open>From the writer to the stream\<close>

fun write_frames :: "'e encode_fn \<Rightarrow> bytes list \<Rightarrow> ('e stream_writer, unit) step" where
  "write_frames encode [] = give ()"
| "write_frames encode (rgba # frames) = then_try (write_frame encode rgba) (\<lambda>_. write_frames encode frames)"

lemma write_frame_streams:
  assumes "lossless_codec encode decode" "has_written ps w" "write_frame encode rgba w = (Inr (), w')"
  shows "\<exists>payload. has_written (ps @ [payload]) w' \<and> payload_of decode (writer_header w) payload rgba \<and>
    writer_header w' = writer_header w"
proof -
  let ?hdr = "writer_header w"
  obtain payload e where w': "length rgba = unat (header_width ?hdr) * unat (header_height ?hdr) * 4"
    "encode (writer_sequence w) (rgba_to_planes rgba (header_width ?hdr) (header_height ?hdr)) (writer_encoder w) = (Inr payload, e)"
    "has_written (ps @ [payload]) w'" "writer_header w' = ?hdr"
    by (rule write_frame_done [OF assms(2,3)])
  moreover have "writer_sequence w = header_sequence ?hdr" using assms(2) by (simp add: has_written_def)
  ultimately have "payload_of decode ?hdr payload rgba"
    using assms(1) unfolding payload_of_def lossless_codec_def by metis
  with w' show ?thesis by blast
qed

lemma write_frames_streams:
  assumes "lossless_codec encode decode" "has_written ps w" "write_frames encode frames w = (Inr (), w')"
  shows "\<exists>ps'. has_written (ps @ ps') w' \<and> list_all2 (payload_of decode (writer_header w)) ps' frames \<and>
    writer_header w' = writer_header w"
  using assms(2,3)
proof (induction frames arbitrary: ps w)
  case Nil
  then show ?case by (intro exI [of _ "[]"]) simp
next
  case (Cons rgba frames)
  obtain w1 where w1: "write_frame encode rgba w = (Inr (), w1)" "write_frames encode frames w1 = (Inr (), w')"
    using Cons.prems(2) by (auto simp: then_try_eq_Inr)
  obtain payload where p: "has_written (ps @ [payload]) w1" "payload_of decode (writer_header w) payload rgba"
    "writer_header w1 = writer_header w"
    using write_frame_streams [OF assms(1) Cons.prems(1) w1(1)] by blast
  obtain ps' where "has_written (ps @ [payload] @ ps') w'" "list_all2 (payload_of decode (writer_header w)) ps' frames"
    "writer_header w' = writer_header w"
    using Cons.IH [OF p(1) w1(2)] p(3) by auto
  with p(2) show ?case by (intro exI [of _ "payload # ps'"]) simp
qed

lemma payload_of_frames [simp]: "payload_of decode (hdr\<lparr>header_frames := n\<rparr>) = payload_of decode hdr"
  by (intro ext) (simp add: payload_of_def header_sequence_def)

lemma proxy_stream_open_streams:
  assumes "read_file p fs = (Inr (header_bytes hdr @ concat (map frame_bytes ps)), fs)" "valid_header hdr"
    "list_all2 (payload_of decode hdr) ps frames"
  shows "\<exists>s. proxy_stream_open d p fs = (Inr s, fs) \<and> streams decode frames s \<and> stream_header s = hdr \<and>
    next_index s = 0 \<and> seek_target s = None \<and> frame_count (stream_video s) = of_nat (length frames)"
proof -
  let ?bs = "header_bytes hdr @ concat (map frame_bytes ps)"
  let ?f = "(closed_file ?bs)\<lparr>offset := 32\<rparr>"
  have read: "header_read (closed_file ?bs) = (Inr hdr, ?f)"
    using header_parse_bytes [OF assms(2)] by (simp add: header_read_def then_try_def read_next slice_def)
  have small: "\<forall>p \<in> set ps. length p < 2 ^ 32"
    using assms(3) by (auto simp: list_all2_conv_all_nth payload_of_def in_set_conv_nth)
  have table: "fst (scan_loop (length (content ?f)) 32 ?f) = frame_table 32 ps"
    by (rule scan_loop_table [where tail = "[]"]) (use small in \<open>simp_all add: cut_frame_def\<close>)
  obtain f' where scan: "scan_frame_table (length ?bs) ?f = (frame_table 32 ps, f')"
    using table by (cases "scan_frame_table (length ?bs) ?f") (simp add: scan_frame_table_def)
  have "content f' = ?bs \<and> faults f' = []"
    using scan_loop_keeps [of ?f "length ?bs" 32] scan by (simp add: scan_frame_table_def)
  moreover obtain s where s: "proxy_stream_open d p fs = (Inr s, fs)" "stream_reader s = f'" "stream_offsets s = frame_table 32 ps"
    "stream_sequence s = header_sequence hdr" "stream_header s = hdr" "next_index s = 0" "seek_target s = None"
    "frame_count (stream_video s) = of_nat (length ps)"
    using assms(1) read scan by (simp add: proxy_stream_open_def then_try_def)
  ultimately have "streams decode frames s"
    unfolding streams_def Let_def s
    by (intro conjI exI [of _ "header_bytes hdr"] exI [of _ ps]) (use assms(3) in simp_all)
  then show ?thesis using s list_all2_lengthD [OF assms(3)] by auto
qed

end
