(* ===== verification/Thumbnails.thy ===== *)
theory Thumbnails
  imports Video
begin

text \<open>
  The thumbnail cache and its generator (\<open>tpt-av-asset-cache/src/thumbnail.rs\<close>).

  The image library is not in the repository: it is the parameter record \<open>image_lib\<close>.  So is the order in
  which a directory is listed, the parameter \<open>read_dir\<close>.
\<close>

record image_lib =
  image_from_raw :: "u32 \<Rightarrow> u32 \<Rightarrow> bytes \<Rightarrow> bool"
  image_resize :: "u32 \<Rightarrow> u32 \<Rightarrow> bytes \<Rightarrow> u32 \<Rightarrow> u32 \<Rightarrow> bytes"
  jpeg_encode :: "u32 \<Rightarrow> u32 \<Rightarrow> bytes \<Rightarrow> string + bytes"
  image_decode :: "bytes \<Rightarrow> string + u32 \<times> u32 \<times> bytes"

type_synonym dir_reader = "file_system \<Rightarrow> string \<Rightarrow> io_error + (io_error + string) list"

definition META_MAGIC :: bytes where "META_MAGIC = as_bytes ''TPTTHMB1''"
definition META_LEN :: nat where "META_LEN = 24"

record thumbnail =
  thumb_time :: f64
  thumb_data :: bytes
  thumb_width :: u32
  thumb_height :: u32

record thumbnail_cache =
  thumb_asset :: asset_id
  thumb_dir :: string
  thumb_interval :: f64
  thumb_resolution :: "u32 \<times> u32"

definition meta_bytes :: "thumbnail_cache \<Rightarrow> bytes" where
  "meta_bytes c = META_MAGIC @ u64_to_le (thumb_interval c) @ u32_to_le (fst (thumb_resolution c)) @
     u32_to_le (snd (thumb_resolution c))"

definition write_meta :: "thumbnail_cache \<Rightarrow> (file_system, unit) step" where
  "write_meta c = then_try (write_file (path_join (thumb_dir c) ''meta'') []) (\<lambda>_.
     write_file (path_join (thumb_dir c) ''meta'') (meta_bytes c))"

definition thumbnails_create :: "asset_id \<Rightarrow> cache_storage \<Rightarrow> f64 \<Rightarrow> u32 \<times> u32 \<Rightarrow> (file_system, thumbnail_cache) step" where
  "thumbnails_create i st interval res =
     (if \<not> (f64_is_finite interval \<and> f64_lt f64_zero interval)
      then fail (validation (''invalid thumbnail interval '' @ f64_display interval))
      else if fst res = 0 \<or> snd res = 0 then fail (validation ''invalid thumbnail resolution'')
      else let d = thumbnail_dir st i;
               c = \<lparr>thumb_asset = i, thumb_dir = d, thumb_interval = interval, thumb_resolution = res\<rparr>
        in then_try (create_dir_all d) (\<lambda>_. then_try (write_meta c) (\<lambda>_. give c)))"

definition io_display :: "asset_error \<Rightarrow> string" where
  "io_display e = (case e of Io err \<Rightarrow> io_error_text err | _ \<Rightarrow> error_display e)"

definition thumbnails_open :: "asset_id \<Rightarrow> cache_storage \<Rightarrow> (file_system, thumbnail_cache) step" where
  "thumbnails_open i st fs =
     (let d = thumbnail_dir st i; p = path_join d ''meta'' in
      case read_file p fs of
        (Inl e, fs) \<Rightarrow> (Inl (validation (''no thumbnail meta for asset at '' @ path_display p @ '' ('' @ io_display e @
            ''); create the cache first'')), fs)
      | (Inr raw, fs) \<Rightarrow>
          if length raw < META_LEN \<or> slice 0 8 raw \<noteq> META_MAGIC then (Inl (validation ''corrupt thumbnail meta''), fs)
          else (Inr \<lparr>thumb_asset = i, thumb_dir = d, thumb_interval = u64_from_le (slice 8 8 raw),
                     thumb_resolution = (u32_from_le (slice 16 4 raw), u32_from_le (slice 20 4 raw))\<rparr>, fs))"

definition index_text :: "u64 \<Rightarrow> string" where
  "index_text index = (let s = dec_string (unat index) in replicate (6 - length s) (CHR ''0'') @ s)"

definition file_for_index :: "string \<Rightarrow> u64 \<Rightarrow> string" where
  "file_for_index d index = path_join d (index_text index @ ''.jpg'')"

definition index_for_time :: "thumbnail_cache \<Rightarrow> f64 \<Rightarrow> u64" where
  "index_for_time c t = f64_to_u64 (f64_round (f64_div (f64_max t f64_zero) (thumb_interval c)))"

definition write_thumbnail :: "image_lib \<Rightarrow> thumbnail_cache \<Rightarrow> thumbnail \<Rightarrow> (file_system, unit) step" where
  "write_thumbnail img c t =
     (let index = index_for_time c (thumb_time t) in
      if \<not> image_from_raw img (thumb_width t) (thumb_height t) (thumb_data t)
      then fail (validation (''thumbnail data length '' @ dec_string (length (thumb_data t)) @ '' does not match '' @
             dec_string (unat (thumb_width t)) @ ''x'' @ dec_string (unat (thumb_height t)) @ '' RGBA''))
      else case jpeg_encode img (thumb_width t) (thumb_height t) (thumb_data t) of
             Inl e \<Rightarrow> fail (codec (''jpeg encode failed: '' @ e))
           | Inr jpeg \<Rightarrow>
               (let p = file_for_index (thumb_dir c) index in
                then_try (case path_parent p of None \<Rightarrow> give () | Some parent \<Rightarrow> create_dir_all parent) (\<lambda>_.
                then_try (write_file p jpeg) (\<lambda>_ fs.
                  if \<not> fs_exists (path_join (thumb_dir c) ''meta'') fs then write_meta c fs else (Inr (), fs)))))"

definition thumbnail_load :: "image_lib \<Rightarrow> thumbnail_cache \<Rightarrow> u64 \<Rightarrow> (file_system, thumbnail option) step" where
  "thumbnail_load img c index fs =
     (case read_file (file_for_index (thumb_dir c) index) fs of
        (Inl (Io e), fs) \<Rightarrow> if io_error_kind e = NotFoundKind then (Inr None, fs) else (Inl (Io e), fs)
      | (Inl e, fs) \<Rightarrow> (Inl e, fs)
      | (Inr jpeg, fs) \<Rightarrow>
          (case image_decode img jpeg of
             Inl e \<Rightarrow> (Inl (codec (''jpeg decode failed: '' @ e)), fs)
           | Inr (w, h, pixels) \<Rightarrow>
               (Inr (Some \<lparr>thumb_time = f64_mul (f64_of_nat (unat index)) (thumb_interval c), thumb_data = pixels,
                          thumb_width = w, thumb_height = h\<rparr>), fs)))"

definition read_thumbnail :: "image_lib \<Rightarrow> thumbnail_cache \<Rightarrow> f64 \<Rightarrow> (file_system, thumbnail option) step" where
  "read_thumbnail img c t = thumbnail_load img c (index_for_time c t)"

definition strip_jpg :: "string \<Rightarrow> string option" where
  "strip_jpg n = (if 4 \<le> length n \<and> drop (length n - 4) n = ''.jpg'' then Some (take (length n - 4) n) else None)"

fun indices_loop :: "(io_error + string) list \<Rightarrow> asset_error + nat list" where
  "indices_loop [] = Inr []"
| "indices_loop (Inl e # entries) = Inl (Io e)"
| "indices_loop (Inr n # entries) =
     rbind (indices_loop entries) (\<lambda>rest.
       case strip_jpg (to_string_lossy n) of
         None \<Rightarrow> Inr rest
       | Some stem \<Rightarrow> (case parse_unsigned (2 ^ 64) stem of None \<Rightarrow> Inr rest | Some index \<Rightarrow> Inr (index # rest)))"

definition thumbnail_indices :: "dir_reader \<Rightarrow> thumbnail_cache \<Rightarrow> file_system \<Rightarrow> asset_error + nat list" where
  "thumbnail_indices read_dir c fs =
     (case read_dir fs (thumb_dir c) of
        Inl e \<Rightarrow> Inl (Io e)
      | Inr entries \<Rightarrow> rbind (indices_loop entries) (\<lambda>is. Inr (sort is)))"

text \<open>\<open>min_by\<close>: the first of the elements that no other one precedes; what cannot be compared is equal.\<close>

definition nearer :: "f64 \<Rightarrow> f64 \<Rightarrow> nat \<Rightarrow> nat \<Rightarrow> bool" where
  "nearer interval t a b =
     f64_lt (f64_abs (f64_sub (f64_mul (f64_of_nat a) interval) t)) (f64_abs (f64_sub (f64_mul (f64_of_nat b) interval) t))"

definition nearest_index :: "f64 \<Rightarrow> f64 \<Rightarrow> nat list \<Rightarrow> nat option" where
  "nearest_index interval t is =
     (case is of [] \<Rightarrow> None | i # is \<Rightarrow> Some (foldl (\<lambda>best i. if nearer interval t i best then i else best) i is))"

definition read_nearest ::
  "dir_reader \<Rightarrow> image_lib \<Rightarrow> thumbnail_cache \<Rightarrow> f64 \<Rightarrow> (file_system, thumbnail option) step" where
  "read_nearest read_dir img c t fs =
     (case thumbnail_indices read_dir c fs of
        Inl e \<Rightarrow> (Inl e, fs)
      | Inr is \<Rightarrow>
          (case nearest_index (thumb_interval c) t is of
             Some index \<Rightarrow> thumbnail_load img c (of_nat index) fs
           | None \<Rightarrow> (Inr None, fs)))"

definition thumbnail_count :: "dir_reader \<Rightarrow> thumbnail_cache \<Rightarrow> file_system \<Rightarrow> nat" where
  "thumbnail_count read_dir c fs = (case thumbnail_indices read_dir c fs of Inl _ \<Rightarrow> 0 | Inr is \<Rightarrow> length is)"

definition thumbnail_times :: "dir_reader \<Rightarrow> thumbnail_cache \<Rightarrow> file_system \<Rightarrow> f64 list" where
  "thumbnail_times read_dir c fs =
     (case thumbnail_indices read_dir c fs of
        Inl _ \<Rightarrow> [] | Inr is \<Rightarrow> map (\<lambda>i. f64_mul (f64_of_nat i) (thumb_interval c)) is)"

subsection \<open>Generation\<close>

record thumbnail_generator =
  thumb_gen_interval :: f64
  thumb_gen_resolution :: "u32 \<times> u32"

text \<open>The loop for the indices from \<open>i\<close> on, \<open>n\<close> of them.\<close>

fun thumbnails_loop ::
  "('p shared_flag \<Rightarrow> 'p shared_flag) \<Rightarrow> ('m, 'h, 't) kinetix \<Rightarrow> 'd decode_fn \<Rightarrow> image_lib \<Rightarrow> 'p reporter \<Rightarrow> thumbnail_generator
     \<Rightarrow> thumbnail_cache \<Rightarrow> nat \<Rightarrow> nat \<Rightarrow> nat \<Rightarrow> ('d, 'm, 'h) video_source \<Rightarrow> file_system \<Rightarrow> 'p shared_flag
     \<Rightarrow> ((asset_error + unit) \<times> ('d, 'm, 'h) video_source \<times> file_system \<times> 'p shared_flag) option" where
  "thumbnails_loop env k decode img rep g c count i 0 src fs p = Some (Inr (), src, fs, p)"
| "thumbnails_loop env k decode img rep g c count i (Suc n) src fs p =
     (let p = env p in
      case check_cancelled p of
        Inl e \<Rightarrow> Some (Inl e, src, fs, p)
      | Inr _ \<Rightarrow>
          (let secs = f64_mul (f64_of_nat i) (thumb_gen_interval g) in
           Option.bind (source_next_frame k decode (source_seek_to k secs src)) (\<lambda>(r, src).
             case r of
               Inl e \<Rightarrow> Some (Inl e, src, fs, p)
             | Inr None \<Rightarrow> Some (Inl (codec ''video ended before expected duration''), src, fs, p)
             | Inr (Some frame) \<Rightarrow>
                 if \<not> image_from_raw img (frame_width frame) (frame_height frame) (frame_data frame)
                 then Some (Inl (codec ''decoder returned malformed frame''), src, fs, p)
                 else let (w, h) = thumb_gen_resolution g in
                   case write_thumbnail img c \<lparr>thumb_time = secs,
                          thumb_data = image_resize img (frame_width frame) (frame_height frame) (frame_data frame) w h,
                          thumb_width = w, thumb_height = h\<rparr> fs of
                     (Inl e, fs) \<Rightarrow> Some (Inl e, src, fs, p)
                   | (Inr _, fs) \<Rightarrow>
                       thumbnails_loop env k decode img rep g c count (i + 1) n src fs
                         (report_ratio rep (f64_of_nat (i + 1)) (f64_of_nat count) p))))"

definition generate_from_source ::
  "('p shared_flag \<Rightarrow> 'p shared_flag) \<Rightarrow> ('m, 'h, 't) kinetix \<Rightarrow> 'd decode_fn \<Rightarrow> image_lib \<Rightarrow> 'p reporter \<Rightarrow> thumbnail_generator
     \<Rightarrow> thumbnail_cache \<Rightarrow> ('d, 'm, 'h) video_source \<Rightarrow> file_system \<Rightarrow> 'p shared_flag
     \<Rightarrow> ((asset_error + unit) \<times> ('d, 'm, 'h) video_source \<times> file_system \<times> 'p shared_flag) option" where
  "generate_from_source env k decode img rep g c src fs p =
     (let count = max 1 (unat (f64_to_u64 (f64_ceil (f64_div (video_duration_secs (source_info src)) (thumb_gen_interval g))))) in
      map_option (\<lambda>(r, src, fs, p). (r, src, fs, case r of Inl _ \<Rightarrow> p | Inr _ \<Rightarrow> report rep f64_one p))
        (thumbnails_loop env k decode img rep g c count 0 count src fs p))"

definition thumbnails_generate ::
  "('p shared_flag \<Rightarrow> 'p shared_flag) \<Rightarrow> ('m, 'h, 't) kinetix \<Rightarrow> 'd \<Rightarrow> 'd decode_fn \<Rightarrow> image_lib \<Rightarrow> 'p reporter \<Rightarrow> thumbnail_generator
     \<Rightarrow> thumbnail_cache \<Rightarrow> string \<Rightarrow> file_system \<Rightarrow> 'p shared_flag
     \<Rightarrow> ((asset_error + unit) \<times> file_system \<times> 'p shared_flag) option" where
  "thumbnails_generate env k decoder decode img rep g c video_path fs p =
     (case open_video k decoder video_path fs of
        (Inl e, fs) \<Rightarrow> Some (Inl e, fs, p)
      | (Inr src, fs) \<Rightarrow>
          map_option (\<lambda>(r, src, fs, p). (r, fs, p)) (generate_from_source env k decode img rep g c src fs p))"

end
