(* ===== verification/Rounding.thy ===== *)
theory Rounding
  imports Casts
begin

text \<open>
  How far rounding moves a value: bounds for the double precision operations of theory Floats, for the
  code that computes sizes and indices in floating point.
\<close>

subsection \<open>Magnitudes and values\<close>

lemma bit_length_0 [simp]: "bit_length 0 = 0"
  by (simp add: bit_length.simps [of 0])

lemma fp_scaled_Suc: "fp_scaled mb m \<le> fp_scaled mb (Suc m)"
proof -
  let ?b = "2 ^ mb :: nat" and ?d = "m div 2 ^ mb" and ?r = "m mod 2 ^ mb"
  show ?thesis
  proof (cases "Suc ?r = ?b")
    case False
    moreover have "?r < ?b" by simp
    ultimately have "Suc ?r < ?b" by linarith
    then have "Suc m div ?b = ?d" "Suc m mod ?b = Suc ?r"
      by (simp_all add: div_Suc mod_Suc)
    then show ?thesis by (simp add: fp_scaled_def)
  next
    case True
    then have next_: "Suc m div ?b = Suc ?d" "Suc m mod ?b = 0" by (simp_all add: div_Suc mod_Suc)
    show ?thesis
    proof (cases ?d)
      case 0
      then have "m < ?b" by (simp add: div_eq_0_iff)
      with 0 next_ show ?thesis by (simp add: fp_scaled_def)
    next
      case (Suc e)
      have "(?b + ?r) * 2 ^ e \<le> (?b * 2) * 2 ^ e" using True by (intro mult_le_mono1) linarith
      with Suc next_ show ?thesis by (simp add: fp_scaled_def mult.assoc)
    qed
  qed
qed

lemma fp_scaled_mono: "m \<le> n \<Longrightarrow> fp_scaled mb m \<le> fp_scaled mb n"
  by (rule lift_Suc_mono_le [of "fp_scaled mb"]) (rule fp_scaled_Suc)

lemma fp_scaled_shifted:
  assumes "r \<le> 2 * 2 ^ mb" "k = 0 \<or> 2 ^ mb \<le> r"
  shows "fp_scaled mb (k * 2 ^ mb + r) = r * 2 ^ k"
proof -
  let ?b = "2 ^ mb :: nat"
  consider "r < ?b" "k = 0" | "?b \<le> r" "r < 2 * ?b" | "r = 2 * ?b" using assms by linarith
  then show ?thesis
  proof cases
    case 2
    then obtain s where s: "r = ?b + s" "s < ?b" by (metis le_iff_add mult_2 nat_add_left_cancel_less)
    then have "k * ?b + r = s + (k + 1) * ?b" by simp
    then have "(k * ?b + r) div ?b = k + 1" "(k * ?b + r) mod ?b = s"
      using s(2) by (simp_all only: div_mult_self1 mod_mult_self1) simp_all
    then show ?thesis by (simp add: fp_scaled_def s(1))
  next
    case 3
    then have "k * ?b + r = 0 + (k + 2) * ?b" by simp
    then have "(k * ?b + r) div ?b = k + 2" "(k * ?b + r) mod ?b = 0" by simp_all
    then show ?thesis using 3 by (simp add: fp_scaled_def)
  qed (simp add: fp_scaled_def)
qed

lemma round_half_even_cases: "round_half_even p q = p div q \<or> round_half_even p q = Suc (p div q)"
  by (simp add: round_half_even_def Let_def)

lemma round_half_even_le:
  assumes "0 < q"
  shows "2 * (q * round_half_even p q) \<le> 2 * p + q"
proof -
  have p: "p = q * (p div q) + p mod q" by simp
  have "round_half_even p q = p div q \<or> round_half_even p q = Suc (p div q) \<and> q \<le> 2 * (p mod q)"
    by (simp add: round_half_even_def Let_def)
  then consider (down) "round_half_even p q = p div q" | (up) "round_half_even p q = Suc (p div q)" "q \<le> 2 * (p mod q)"
    by blast
  then show ?thesis
  proof cases
    case down
    have "q * (p div q) \<le> p" using p by linarith
    then show ?thesis unfolding down by linarith
  next
    case up
    have "q * Suc (p div q) = q * (p div q) + q" by simp
    then show ?thesis unfolding up(1) using p up(2) by linarith
  qed
qed

lemma fp_scaled_round:
  assumes "0 < q" "k = bit_length (p div q) - Suc mb"
  shows "fp_scaled mb (fp_round_mag mb p q) = round_half_even p (q * 2 ^ k) * 2 ^ k"
proof -
  let ?r = "round_half_even p (q * 2 ^ k)" and ?n = "p div q"
  have quot: "p div (q * 2 ^ k) = ?n div 2 ^ k" by (rule div_mult2_eq)
  have up: "?n div 2 ^ k < 2 * 2 ^ mb"
  proof (cases "?n = 0")
    case False
    then have "?n < 2 ^ bit_length ?n" using bit_length_bounds by blast
    also have "\<dots> \<le> 2 ^ (Suc mb + k)" using assms(2) by (intro power_increasing) simp_all
    finally show ?thesis by (simp add: less_mult_imp_div_less power_add mult.commute)
  qed simp
  have lo: "2 ^ mb \<le> ?n div 2 ^ k" if "k \<noteq> 0"
  proof -
    have "?n \<noteq> 0" using that assms(2) by (metis bit_length_0 diff_0_eq_0)
    then have "2 ^ (bit_length ?n - 1) \<le> ?n" using bit_length_bounds by blast
    moreover have "bit_length ?n - 1 = mb + k" using that assms(2) by simp
    ultimately have "2 ^ mb * 2 ^ k \<le> ?n" by (simp add: power_add)
    then show ?thesis by (simp add: less_eq_div_iff_mult_less_eq)
  qed
  have "?r \<le> 2 * 2 ^ mb" "k = 0 \<or> 2 ^ mb \<le> ?r"
    using round_half_even_cases [of p "q * 2 ^ k"] up lo unfolding quot by (cases "k = 0"; auto intro: le_SucI)+
  then show ?thesis unfolding fp_round_mag_def assms(2) [symmetric] Let_def by (rule fp_scaled_shifted)
qed

text \<open>Rounding moves a value up by at most half a unit in the last place.\<close>

lemma fp_round_le:
  assumes "0 < q"
  shows "2 ^ Suc mb * (q * fp_scaled mb (fp_round_mag mb p q)) \<le> 2 ^ Suc mb * p + max p (2 ^ mb * q)"
proof -
  define k where "k = bit_length (p div q) - Suc mb"
  have "2 * (q * 2 ^ k * round_half_even p (q * 2 ^ k)) \<le> 2 * p + q * 2 ^ k"
    by (rule round_half_even_le) (use assms in simp)
  then have "2 * (q * fp_scaled mb (fp_round_mag mb p q)) \<le> 2 * p + q * 2 ^ k"
    using fp_scaled_round [OF assms k_def] by (simp add: algebra_simps)
  then have "2 ^ mb * (2 * (q * fp_scaled mb (fp_round_mag mb p q))) \<le> 2 ^ mb * (2 * p + q * 2 ^ k)"
    by (rule mult_le_mono2)
  moreover have "2 ^ mb * (q * 2 ^ k) \<le> max p (2 ^ mb * q)"
  proof (cases "k = 0")
    case False
    then have "p div q \<noteq> 0" by (metis k_def bit_length_0 diff_0_eq_0)
    then have "2 ^ (bit_length (p div q) - 1) \<le> p div q" using bit_length_bounds by blast
    moreover have "bit_length (p div q) - 1 = mb + k" using False by (simp add: k_def)
    ultimately have "2 ^ (mb + k) * q \<le> p div q * q" by simp
    also have "\<dots> \<le> p" by simp
    finally show ?thesis by (simp add: power_add algebra_simps)
  qed simp
  ultimately show ?thesis by (simp add: algebra_simps)
qed

subsection \<open>Products and quotients of whole numbers\<close>

definition f64_value :: "f64 \<Rightarrow> nat" where "f64_value x = fp_scaled 52 (f64_mag x)"

lemma f64_inf_scaled: "fp_scaled 52 f64_inf = 2 ^ 52 * 2 ^ 2046"
  by (simp add: f64_inf_eq fp_scaled_def)

lemma f64_inf_less: "f64_inf < 2 ^ 63"
  by (simp add: f64_inf_eq)

lemma f64_pack_finite:
  assumes "0 < q" "p \<le> 2 ^ 1990 * q"
  shows "f64_is_finite (f64_pack neg p q)" "f64_neg (f64_pack neg p q) = neg" "f64_mag (f64_pack neg p q) = fp_round_mag 52 p q"
proof -
  have "2 ^ 53 * (q * fp_scaled 52 (fp_round_mag 52 p q)) \<le> 2 ^ 53 * p + max p (2 ^ 52 * q)"
    using fp_round_le [OF assms(1), of 52 p] by simp
  also have "\<dots> \<le> 2 ^ 53 * (2 ^ 1990 * q) + 2 ^ 1990 * q"
  proof (rule add_mono)
    have "2 ^ 52 * q \<le> 2 ^ 1990 * q" by (intro mult_le_mono1 power_increasing) simp_all
    with assms(2) show "max p (2 ^ 52 * q) \<le> 2 ^ 1990 * q" by simp
  qed (use assms(2) in simp)
  also have "\<dots> \<le> 2 ^ 53 * (q * 2 ^ 1991)"
    by simp
  finally have "fp_scaled 52 (fp_round_mag 52 p q) \<le> 2 ^ 1991" using assms(1) by simp
  also have "\<dots> < fp_scaled 52 f64_inf" unfolding f64_inf_scaled by simp
  finally have "fp_round_mag 52 p q < f64_inf" using fp_scaled_mono [of f64_inf "fp_round_mag 52 p q" 52] by linarith
  then show "f64_is_finite (f64_pack neg p q)" "f64_neg (f64_pack neg p q) = neg" "f64_mag (f64_pack neg p q) = fp_round_mag 52 p q"
    using f64_inf_less by (simp_all add: f64_pack_def f64_is_finite_def min_absorb2)
qed

lemma f64_whole_value:
  assumes "n < 2 ^ 53"
  shows "f64_value (f64_pack neg (n * f64_unit) 1) = n * f64_unit" "f64_is_finite (f64_pack neg (n * f64_unit) 1)"
    "f64_neg (f64_pack neg (n * f64_unit) 1) = neg"
proof -
  let ?p = "n * f64_unit"
  define k where "k = bit_length (?p div 1) - Suc 52"
  have "?p < 2 ^ 53 * f64_unit" using assms by (intro mult_less_mono1) simp_all
  also have "\<dots> = 2 ^ 1127" by (simp add: f64_unit_def)
  finally have "bit_length ?p \<le> 1127" by (rule bit_length_less)
  then have "k \<le> 1074" by (simp add: k_def)
  then have "f64_unit = 2 ^ (1074 - k) * 2 ^ k" by (simp only: f64_unit_def power_add [symmetric] le_add_diff_inverse2)
  then have p: "?p = n * 2 ^ (1074 - k) * 2 ^ k" by (simp only: mult.assoc)
  have "fp_scaled 52 (fp_round_mag 52 ?p 1) = round_half_even ?p (1 * 2 ^ k) * 2 ^ k"
    by (rule fp_scaled_round) (simp_all only: k_def zero_less_one)
  also have "\<dots> = ?p" using round_half_even_exact [of "2 ^ k" "n * 2 ^ (1074 - k)"] unfolding p [symmetric] by (simp add: p [symmetric])
  finally have val: "fp_scaled 52 (fp_round_mag 52 ?p 1) = ?p" .
  have "?p \<le> 2 ^ 1990 * 1"
  proof -
    have "?p \<le> 2 ^ 53 * 2 ^ 1074" using assms unfolding f64_unit_def by (intro mult_le_mono1) linarith
    also have "\<dots> \<le> 2 ^ 1990 * 1" by (simp add: power_add [symmetric] del: power_add)
    finally show ?thesis .
  qed
  note fin = f64_pack_finite [OF zero_less_one this, of neg]
  show "f64_value (f64_pack neg ?p 1) = ?p" unfolding f64_value_def fin(3) by (rule val)
  show "f64_is_finite (f64_pack neg ?p 1)" "f64_neg (f64_pack neg ?p 1) = neg" by (rule fin)+
qed

lemma f64_of_nat_value:
  assumes "n < 2 ^ 53"
  shows "f64_value (f64_of_nat n) = n * f64_unit" "f64_is_finite (f64_of_nat n)" "\<not> f64_neg (f64_of_nat n)"
  using f64_whole_value [OF assms, of False] by (simp_all only: f64_of_nat_def not_False_eq_True)

lemma f64_floor_u64:
  assumes "f64_is_finite x" "\<not> f64_neg x" "f64_value x div f64_unit < 2 ^ 53"
  shows "f64_to_u64 (f64_floor x) = of_nat (f64_value x div f64_unit)"
proof -
  let ?n = "f64_value x div f64_unit"
  have floor: "f64_floor x = f64_pack False (?n * f64_unit) 1"
    using assms(1,2) by (simp add: f64_floor_def f64_integral_def f64_whole_down_def f64_value_def)
  note whole = f64_whole_value [OF assms(3), of False]
  have "f64_whole_down (f64_floor x) = ?n"
    using whole(1) by (simp add: f64_whole_down_def f64_value_def [symmetric] floor)
  moreover have "f64_mag (f64_floor x) < f64_inf" "\<not> f64_is_nan (f64_floor x)"
    using whole(2) by (simp_all add: floor f64_is_finite_def f64_is_nan_def)
  moreover have "min (2 ^ 64 - 1) ?n = ?n" using assms(3) by simp
  ultimately show ?thesis using whole(3) by (simp add: f64_to_u64_def floor)
qed

lemma f64_round_u64:
  assumes "f64_is_finite x" "\<not> f64_neg x" "(2 * f64_value x + f64_unit) div (2 * f64_unit) < 2 ^ 53"
  shows "f64_to_u64 (f64_round x) = of_nat ((2 * f64_value x + f64_unit) div (2 * f64_unit))"
proof -
  let ?n = "(2 * f64_value x + f64_unit) div (2 * f64_unit)"
  have round: "f64_round x = f64_pack False (?n * f64_unit) 1"
    using assms(1,2) by (simp add: f64_round_def f64_integral_def f64_whole_near_def f64_value_def)
  note whole = f64_whole_value [OF assms(3), of False]
  have "f64_whole_down (f64_round x) = ?n"
    using whole(1) by (simp add: f64_whole_down_def f64_value_def [symmetric] round)
  moreover have "f64_mag (f64_round x) < f64_inf" "\<not> f64_is_nan (f64_round x)"
    using whole(2) by (simp_all add: round f64_is_finite_def f64_is_nan_def)
  moreover have "min (2 ^ 64 - 1) ?n = ?n" using assms(3) by simp
  ultimately show ?thesis using whole(3) by (simp add: f64_to_u64_def round)
qed

text \<open>The bounds of a quotient and of a product.\<close>

lemma f64_unit_bounds: "2 ^ 105 \<le> f64_unit" "2 ^ 53 * f64_unit \<le> 2 ^ 1990"
  unfolding f64_unit_def power_add [symmetric] by (intro power_increasing; simp)+

lemma f64_finite_facts:
  assumes "f64_is_finite x"
  shows "\<not> f64_is_nan x" "f64_mag x \<noteq> f64_inf"
  using assms by (simp_all add: f64_is_finite_def f64_is_nan_def)

lemma f64_div_le:
  assumes "m < 2 ^ 53" "n < 2 ^ 53" "0 < m" "0 < n"
  shows "2 ^ 53 * (n * f64_value (f64_div (f64_of_nat m) (f64_of_nat n))) \<le> (2 ^ 53 + 1) * (m * f64_unit)"
    "f64_is_finite (f64_div (f64_of_nat m) (f64_of_nat n))" "\<not> f64_neg (f64_div (f64_of_nat m) (f64_of_nat n))"
proof -
  let ?p = "m * f64_unit * f64_unit" and ?q = "n * f64_unit"
  note m = f64_of_nat_value [OF assms(1)] and n = f64_of_nat_value [OF assms(2)]
  have "f64_mag (f64_of_nat n) \<noteq> 0"
  proof
    assume "f64_mag (f64_of_nat n) = 0"
    then have "f64_value (f64_of_nat n) = 0" by (simp add: f64_value_def fp_scaled_def)
    with n(1) assms(4) f64_unit_pos show False by (metis mult_is_0 less_numeral_extra(3))
  qed
  then have div_: "f64_div (f64_of_nat m) (f64_of_nat n) = f64_pack False ?p ?q"
    using m n f64_finite_facts [OF m(2)] f64_finite_facts [OF n(2)]
    by (simp add: f64_div_def Let_def f64_value_def)
  have q: "0 < ?q" using assms(4) by simp
  have "m * f64_unit \<le> 2 ^ 1990" using mult_le_mono1 [of m "2 ^ 53" f64_unit] assms(1) f64_unit_bounds(2) by linarith
  also have "\<dots> \<le> 2 ^ 1990 * n" using assms(4) by simp
  finally have "?p \<le> 2 ^ 1990 * n * f64_unit" by (rule mult_le_mono1)
  then have "?p \<le> 2 ^ 1990 * ?q" by (simp only: mult.assoc)
  note fin = f64_pack_finite [OF q this, of False]
  show "f64_is_finite (f64_div (f64_of_nat m) (f64_of_nat n))" "\<not> f64_neg (f64_div (f64_of_nat m) (f64_of_nat n))"
    unfolding div_ using fin by simp_all
  have "2 ^ 52 * n \<le> 2 ^ 105" using assms(2) by simp
  also have "\<dots> \<le> m * f64_unit" using f64_unit_bounds(1) assms(3) by (metis le_trans mult_le_mono1 nat_mult_1 Suc_leI One_nat_def)
  finally have "2 ^ 52 * n * f64_unit \<le> ?p" by (rule mult_le_mono1)
  then have "max ?p (2 ^ 52 * ?q) = ?p" by (simp add: max_def mult.assoc)
  then have "2 ^ 53 * (?q * f64_value (f64_pack False ?p ?q)) \<le> 2 ^ 53 * ?p + ?p"
    using fp_round_le [OF q, of 52 ?p] unfolding f64_value_def fin(3) by simp
  then have "f64_unit * (2 ^ 53 * (n * f64_value (f64_pack False ?p ?q))) \<le> f64_unit * ((2 ^ 53 + 1) * (m * f64_unit))"
    by (simp add: algebra_simps)
  then show "2 ^ 53 * (n * f64_value (f64_div (f64_of_nat m) (f64_of_nat n))) \<le> (2 ^ 53 + 1) * (m * f64_unit)"
    unfolding div_ by simp
qed

lemma f64_mul_le:
  assumes "n < 2 ^ 53" "f64_is_finite x" "\<not> f64_neg x" "f64_value x \<le> f64_unit"
  shows "2 ^ 53 * f64_value (f64_mul (f64_of_nat n) x) \<le> (2 ^ 53 + 1) * (n * f64_value x) + 2 ^ 52"
    "f64_is_finite (f64_mul (f64_of_nat n) x)" "\<not> f64_neg (f64_mul (f64_of_nat n) x)"
proof -
  let ?p = "n * f64_unit * f64_value x"
  note n = f64_of_nat_value [OF assms(1)]
  have mul: "f64_mul (f64_of_nat n) x = f64_pack False ?p f64_unit"
    using n f64_finite_facts [OF n(2)] f64_finite_facts [OF assms(2)] assms(3) by (simp add: f64_mul_def Let_def f64_value_def)
  have "n * f64_unit \<le> 2 ^ 1990" using mult_le_mono1 [of n "2 ^ 53" f64_unit] assms(1) f64_unit_bounds(2) by linarith
  then have "?p \<le> 2 ^ 1990 * f64_unit" using assms(4) by (intro mult_le_mono)
  note fin = f64_pack_finite [OF f64_unit_pos this, of False]
  show "f64_is_finite (f64_mul (f64_of_nat n) x)" "\<not> f64_neg (f64_mul (f64_of_nat n) x)"
    unfolding mul using fin by simp_all
  have "f64_value (f64_pack False ?p f64_unit) = fp_scaled 52 (fp_round_mag 52 ?p f64_unit)"
    using arg_cong [OF fin(3), of "fp_scaled 52"] by (simp only: f64_value_def)
  then have "2 ^ 53 * (f64_unit * f64_value (f64_pack False ?p f64_unit)) \<le> 2 ^ 53 * ?p + max ?p (2 ^ 52 * f64_unit)"
    using fp_round_le [OF f64_unit_pos, of 52 ?p] by simp
  also have "\<dots> \<le> f64_unit * ((2 ^ 53 + 1) * (n * f64_value x) + 2 ^ 52)"
    by (simp add: algebra_simps)
  finally have "f64_unit * (2 ^ 53 * f64_value (f64_pack False ?p f64_unit)) \<le> f64_unit * ((2 ^ 53 + 1) * (n * f64_value x) + 2 ^ 52)"
    by (simp add: algebra_simps)
  then show "2 ^ 53 * f64_value (f64_mul (f64_of_nat n) x) \<le> (2 ^ 53 + 1) * (n * f64_value x) + 2 ^ 52"
    unfolding mul by simp
qed

lemma f64_min_value:
  assumes "f64_is_finite a" "\<not> f64_neg a" "f64_is_finite b" "\<not> f64_neg b"
  shows "f64_value (f64_min a b) \<le> f64_value a" "f64_value (f64_min a b) \<le> f64_value b"
    "f64_is_finite (f64_min a b)" "\<not> f64_neg (f64_min a b)"
proof -
  have "f64_mag (f64_min a b) \<le> f64_mag a" "f64_mag (f64_min a b) \<le> f64_mag b"
    using assms f64_finite_facts [OF assms(1)] f64_finite_facts [OF assms(3)]
    by (auto simp: f64_min_def f64_lt_def f64_key_def)
  then show "f64_value (f64_min a b) \<le> f64_value a" "f64_value (f64_min a b) \<le> f64_value b"
    by (simp_all only: f64_value_def fp_scaled_mono)
  show "f64_is_finite (f64_min a b)" "\<not> f64_neg (f64_min a b)"
    using assms f64_min_cases [of a b] by auto
qed

lemma f64_one_value: "f64_value f64_one = f64_unit"
  by (simp add: f64_value_def fp_scaled_def f64_unit_def)

lemma scaled_less:
  fixes v w u x :: nat
  assumes "2 ^ 53 * v \<le> (2 ^ 53 + 1) * x + 2 ^ 52" "2 ^ 53 * x \<le> (2 ^ 53 + 1) * w" "w \<le> 2 ^ 32 * u" "2 ^ 105 \<le> u"
  shows "2 ^ 53 * v < 2 ^ 53 * (w + u)"
proof -
  have "2 ^ 53 * (2 ^ 53 * v) \<le> (2 ^ 53 + 1) * (2 ^ 53 * x) + 2 ^ 105" using assms(1) by simp
  also have "\<dots> \<le> (2 ^ 53 + 1) * ((2 ^ 53 + 1) * w) + u" using assms(2,4) by (intro add_mono mult_le_mono2)
  also have "\<dots> < 2 ^ 53 * (2 ^ 53 * (w + u))" using assms(3,4) by simp
  finally show ?thesis by simp
qed

text \<open>A whole number scaled by a rounded ratio, cut to a whole number, exceeds neither the ratio's
  numerator nor, when the ratio is capped by one, the number itself.\<close>

lemma scaled_size:
  assumes "m < 2 ^ 32" "n < 2 ^ 32" "0 < m" "0 < n" "f64_is_finite x" "\<not> f64_neg x" "f64_value x \<le> f64_unit"
    "f64_value x \<le> f64_value (f64_div (f64_of_nat m) (f64_of_nat n))"
  shows "unat (f64_to_u64 (f64_floor (f64_mul (f64_of_nat n) x))) \<le> min m n"
proof -
  have small: "m < 2 ^ 53" "n < 2 ^ 53" using assms(1,2) by simp_all
  let ?v = "f64_value (f64_mul (f64_of_nat n) x)"
  note mul = f64_mul_le [OF small(2) assms(5-7)]
  have succ: "(k + 1) * f64_unit = k * f64_unit + f64_unit" for k by simp
  have "2 ^ 53 * (n * f64_value x) \<le> (2 ^ 53 + 1) * (n * f64_unit)"
    using assms(7) by (intro mult_le_mono) simp_all
  then have "2 ^ 53 * ?v < 2 ^ 53 * ((n + 1) * f64_unit)"
    unfolding succ by (rule scaled_less [OF mul(1)]) (use assms(2) f64_unit_bounds(1) in simp_all)
  then have n: "?v div f64_unit < n + 1" by (simp add: div_less_iff_less_mult)
  have "2 ^ 53 * (n * f64_value x) \<le> (2 ^ 53 + 1) * (m * f64_unit)"
    using f64_div_le(1) [OF small assms(3,4)] mult_le_mono2 [OF mult_le_mono2 [OF assms(8), of n], of "2 ^ 53"] by linarith
  then have "2 ^ 53 * ?v < 2 ^ 53 * ((m + 1) * f64_unit)"
    unfolding succ by (rule scaled_less [OF mul(1)]) (use assms(1) f64_unit_bounds(1) in simp_all)
  then have m: "?v div f64_unit < m + 1" by (simp add: div_less_iff_less_mult)
  have "?v div f64_unit < 2 ^ 53" using n small(2) by linarith
  then have "unat (f64_to_u64 (f64_floor (f64_mul (f64_of_nat n) x))) = ?v div f64_unit"
    using f64_floor_u64 [OF mul(2,3)] by (simp add: unat_of_nat take_bit_eq_mod)
  then show ?thesis using m n by simp
qed

end
