(* ===== verification/Proxies.thy ===== *)
theory Proxies
  imports Thumbnails Rounding
begin

text \<open>
  Crate tpt-av-asset-proxy: profiles (\<open>profile.rs\<close>), the WAV writer (\<open>wav_writer.rs\<close>), the resizing sink
  (\<open>encoder.rs\<close>), the generation of video and audio proxies (\<open>video_proxy.rs\<close>, \<open>audio_proxy.rs\<close>) and the
  removal of what a failed run leaves (\<open>generator.rs\<close>).

  Decoders, codecs and the image library are the parameters of theories PeakGen, Video and Thumbnails.  A
  source is read as it was when it was opened.  What is written through the output's handle, whose faults
  are \<open>fl\<close>, is in the file system when the handle is dropped.
\<close>

subsection \<open>Profiles\<close>

definition VIDEO_CODEC :: string where "VIDEO_CODEC = ''kinetix-lossless''"
definition AUDIO_CODEC :: string where "AUDIO_CODEC = ''flac''"

record proxy_profile =
  profile_name :: string
  resolution :: "u32 \<times> u32"
  profile_rate :: "f64 option"
  profile_video_codec :: string
  profile_video_bit_rate :: u64
  profile_audio_codec :: string
  profile_audio_bit_rate :: u64

definition proxy_1080p_low :: proxy_profile where
  "proxy_1080p_low = \<lparr>profile_name = ''1080p Low'', resolution = (1920, 1080), profile_rate = None,
     profile_video_codec = VIDEO_CODEC, profile_video_bit_rate = 2000000, profile_audio_codec = ''aac'',
     profile_audio_bit_rate = 128000\<rparr>"

definition proxy_720p_medium :: proxy_profile where
  "proxy_720p_medium = \<lparr>profile_name = ''720p Medium'', resolution = (1280, 720), profile_rate = None,
     profile_video_codec = VIDEO_CODEC, profile_video_bit_rate = 5000000, profile_audio_codec = ''aac'',
     profile_audio_bit_rate = 192000\<rparr>"

definition audio_proxy_flac :: proxy_profile where
  "audio_proxy_flac = \<lparr>profile_name = ''Audio Proxy (FLAC)'', resolution = (0, 0), profile_rate = None,
     profile_video_codec = '''', profile_video_bit_rate = 0, profile_audio_codec = AUDIO_CODEC,
     profile_audio_bit_rate = 0\<rparr>"

definition is_audio_only :: "proxy_profile \<Rightarrow> bool" where
  "is_audio_only pf \<longleftrightarrow> resolution pf = (0, 0) \<or> profile_video_codec pf = ''''"

definition output_extension :: "proxy_profile \<Rightarrow> string" where
  "output_extension pf = (if is_audio_only pf then ''wav'' else ''tkvp'')"

definition target_size :: "proxy_profile \<Rightarrow> u32 \<Rightarrow> u32 \<Rightarrow> u32 \<times> u32" where
  "target_size pf source_w source_h =
     (let max_w = max 1 (unat (fst (resolution pf))); max_h = max 1 (unat (snd (resolution pf)));
          src_w = max 1 (unat source_w); src_h = max 1 (unat source_h);
          scale = f64_min (f64_min (f64_div (f64_of_nat max_w) (f64_of_nat src_w))
                                   (f64_div (f64_of_nat max_h) (f64_of_nat src_h))) f64_one;
          w = and (max (f64_to_u64 (f64_floor (f64_mul (f64_of_nat src_w) scale))) 2) (not 1);
          h = and (max (f64_to_u64 (f64_floor (f64_mul (f64_of_nat src_h) scale))) 2) (not 1)
      in (ucast w, ucast h))"

definition profile_validate :: "proxy_profile \<Rightarrow> asset_error + unit" where
  "profile_validate pf =
     rbind
       (if is_audio_only pf then
          (if profile_audio_codec pf = '''' then Inl (validation ''audio proxy profile needs an audio codec'') else Inr ())
        else if fst (resolution pf) = 0 \<or> snd (resolution pf) = 0
        then Inl (validation ''video proxy resolution must be positive'')
        else if profile_video_codec pf = '''' then Inl (validation ''video proxy profile needs a video codec'')
        else if profile_video_codec pf \<noteq> VIDEO_CODEC
        then Inl (validation (''unsupported video codec '' @ profile_video_codec pf @ ''; only '' @ VIDEO_CODEC @
               '' is encodable today''))
        else if profile_video_bit_rate pf = 0 then Inl (validation ''video proxy bit rate must be positive'')
        else Inr ())
       (\<lambda>_. case profile_rate pf of
          None \<Rightarrow> Inr ()
        | Some fps \<Rightarrow>
            if \<not> f64_is_finite fps \<or> f64_le fps f64_zero then Inl (validation (''invalid frame rate '' @ f64_display fps))
            else Inr ())"

subsection \<open>The WAV writer\<close>

record wav_spec =
  spec_rate :: u32
  spec_channels :: u16

record wav_writer =
  wav_file :: buf_writer
  wav_bytes :: u32
  wav_path :: string

fun buf_write_all :: "bytes list \<Rightarrow> (buf_writer, unit) step" where
  "buf_write_all [] = give ()"
| "buf_write_all (bs # rest) = then_try (buf_write bs) (\<lambda>_. buf_write_all rest)"

text \<open>The products are those of the words: the code overflows for more than 32767 channels.\<close>

definition wav_new :: "(nat \<times> io_error) option list \<Rightarrow> string \<Rightarrow> wav_spec \<Rightarrow> (file_system, wav_writer) step" where
  "wav_new fl p spec =
     then_try (case path_parent p of None \<Rightarrow> give ()
               | Some parent \<Rightarrow> if parent = '''' then give () else create_dir_all parent) (\<lambda>_.
     then_try (write_file p []) (\<lambda>_ fs.
       let block_align = spec_channels spec * 2; byte_rate = spec_rate spec * ucast block_align in
       case buf_write_all
              [as_bytes ''RIFF'', [0, 0, 0, 0], as_bytes ''WAVE'', as_bytes ''fmt '', u32_to_le 16, u16_to_le 1,
               u16_to_le (spec_channels spec), u32_to_le (spec_rate spec), u32_to_le byte_rate, u16_to_le block_align,
               u16_to_le 16, as_bytes ''data'', [0, 0, 0, 0]]
              \<lparr>inner = new_file fl, pending = []\<rparr> of
         (Inl e, _) \<Rightarrow> (Inl e, fs)
       | (Inr _, b) \<Rightarrow> (Inr \<lparr>wav_file = b, wav_bytes = 0, wav_path = p\<rparr>, fs)))"

definition f32_32767 :: f32 where "f32_32767 = 0x46FFFE00"

definition sample_bytes :: "f32 \<Rightarrow> bytes" where
  "sample_bytes s = u16_to_le (of_int (f32_round_i16 (f32_mul (f32_clamp s f32_minus_one f32_one) f32_32767)))"

definition wav_step :: "(buf_writer, 'a) step \<Rightarrow> (wav_writer, 'a) step" where
  "wav_step m w = (let (r, b) = m (wav_file w) in (r, w\<lparr>wav_file := b\<rparr>))"

definition write_samples :: "f32 list \<Rightarrow> (wav_writer, unit) step" where
  "write_samples samples w =
     (let bs = concat (map sample_bytes samples) in
      wav_step (buf_write bs) (w\<lparr>wav_bytes := wav_bytes w + of_nat (length bs)\<rparr>))"

definition wav_finish :: "(wav_writer, unit) step" where
  "wav_finish =
     then_try (wav_step buf_flush) (\<lambda>_ w.
       let data_len = wav_bytes w in
       then_try (wav_step (on_inner (file_seek 4))) (\<lambda>_.
       then_try (wav_step (on_inner (file_write (u32_to_le (36 + data_len))))) (\<lambda>_.
       then_try (wav_step (on_inner (file_seek 40))) (\<lambda>_.
         wav_step (on_inner (file_write (u32_to_le data_len)))))) w)"

subsection \<open>The output file\<close>

text \<open>Dropping a buffered writer flushes it, whatever comes of it.\<close>

definition buf_drop :: "buf_writer \<Rightarrow> open_file" where "buf_drop b = inner (snd (buf_flush b))"

definition settle :: "string \<Rightarrow> buf_writer \<Rightarrow> file_system \<Rightarrow> file_system" where
  "settle p b fs = fs\<lparr>nodes := (nodes fs)(path_key p \<mapsto> FileNode (content (buf_drop b)))\<rparr>"

definition remove_partial :: "string \<Rightarrow> file_system \<Rightarrow> file_system" where
  "remove_partial p fs = snd (remove_file p fs)"

subsection \<open>Audio\<close>

definition READ_FRAMES :: nat where "READ_FRAMES = 4096"

partial_function (option) audio_loop ::
  "('p shared_flag \<Rightarrow> 'p shared_flag) \<Rightarrow> 's decoder_fn \<Rightarrow> 'p reporter \<Rightarrow> nat \<Rightarrow> f64 \<Rightarrow> f64 \<Rightarrow> wav_writer \<Rightarrow> 's
     \<Rightarrow> 'p shared_flag \<Rightarrow> ((asset_error + unit) \<times> wav_writer \<times> 'p shared_flag) option" where
  "audio_loop env decode rep nch tot done_frames w s p =
     (let p = env p in
      case check_cancelled p of
        Inl e \<Rightarrow> Some (Inl e, w, p)
      | Inr _ \<Rightarrow>
          (case stream_decode decode (READ_FRAMES * nch) s of
             (Inl e, s) \<Rightarrow> Some (Inl e, w, p)
           | (Inr samples, s) \<Rightarrow>
               (let frames = length samples div nch in
                if frames = 0 then Some (Inr (), w, p)
                else case write_samples (take (frames * nch) samples) w of
                    (Inl e, w) \<Rightarrow> Some (Inl e, w, p)
                  | (Inr _, w) \<Rightarrow>
                      (let done_frames = f64_add done_frames (f64_of_nat frames)
                       in audio_loop env decode rep nch tot done_frames w s (report_ratio rep done_frames tot p)))))"

definition audio_proxy ::
  "('p shared_flag \<Rightarrow> 'p shared_flag) \<Rightarrow> 's opener \<Rightarrow> 's opener \<Rightarrow> 's decoder_fn \<Rightarrow> 'p reporter \<Rightarrow> (nat \<times> io_error) option list
     \<Rightarrow> string \<Rightarrow> string \<Rightarrow> proxy_profile \<Rightarrow> file_system \<Rightarrow> 'p shared_flag
     \<Rightarrow> ((asset_error + unit) \<times> file_system \<times> 'p shared_flag) option" where
  "audio_proxy env wav_open flac_open decode rep fl source_path output_path pf fs p =
     (case profile_validate pf of
        Inl e \<Rightarrow> Some (Inl e, fs, p)
      | Inr _ \<Rightarrow>
          (case open_audio wav_open flac_open source_path fs of
             (Inl e, fs) \<Rightarrow> Some (Inl e, fs, p)
           | (Inr (s, info), fs) \<Rightarrow>
               (case wav_new fl output_path \<lparr>spec_rate = stream_sample_rate info, spec_channels = stream_channels info\<rparr> fs of
                  (Inl e, fs) \<Rightarrow> Some (Inl e, fs, p)
                | (Inr w, fs) \<Rightarrow>
                    (let tot = f64_of_nat (max 1 (unat (case total_samples info of None \<Rightarrow> 0 | Some n \<Rightarrow> n))) in
                     map_option (\<lambda>(r, w, p).
                         case r of
                           Inl e \<Rightarrow> (Inl e, settle output_path (wav_file w) fs, p)
                         | Inr _ \<Rightarrow>
                             (case wav_finish w of
                                (Inl e, w) \<Rightarrow> (Inl e, settle output_path (wav_file w) fs, p)
                              | (Inr _, w) \<Rightarrow> (Inr (), settle output_path (wav_file w) fs, report rep f64_one p)))
                       (audio_loop env decode rep (max 1 (unat (stream_channels info))) tot f64_zero w s p)))))"

definition generate_audio_proxy ::
  "('p shared_flag \<Rightarrow> 'p shared_flag) \<Rightarrow> 's opener \<Rightarrow> 's opener \<Rightarrow> 's decoder_fn \<Rightarrow> 'p reporter \<Rightarrow> (nat \<times> io_error) option list
     \<Rightarrow> string \<Rightarrow> string \<Rightarrow> proxy_profile \<Rightarrow> file_system \<Rightarrow> 'p shared_flag
     \<Rightarrow> ((asset_error + unit) \<times> file_system \<times> 'p shared_flag) option" where
  "generate_audio_proxy env wav_open flac_open decode rep fl source_path output_path pf fs p =
     map_option (\<lambda>(r, fs, p). (r, case r of Inl _ \<Rightarrow> remove_partial output_path fs | Inr _ \<Rightarrow> fs, p))
       (audio_proxy env wav_open flac_open decode rep fl source_path output_path pf fs p)"

subsection \<open>Video\<close>

record 'e encoder_sink =
  sink_writer :: "'e stream_writer"
  sink_target :: "u32 \<times> u32"

definition sink_open :: "(nat \<times> io_error) option list \<Rightarrow> 'e \<Rightarrow> string \<Rightarrow> proxy_profile \<Rightarrow> u32 \<Rightarrow> u32 \<Rightarrow> f64
     \<Rightarrow> (file_system, 'e encoder_sink) step" where
  "sink_open fl encoder p pf source_w source_h effective_rate =
     (case profile_validate pf of
        Inl e \<Rightarrow> fail e
      | Inr _ \<Rightarrow>
          (let target = target_size pf source_w source_h;
               rate = (case profile_rate pf of Some r \<Rightarrow> r | None \<Rightarrow> effective_rate)
           in then_try (writer_create fl encoder p (fst target) (snd target) rate) (\<lambda>w.
                give \<lparr>sink_writer = w, sink_target = target\<rparr>)))"

definition write_resized :: "image_lib \<Rightarrow> 'e encode_fn \<Rightarrow> rgba_frame \<Rightarrow> ('e encoder_sink, unit) step" where
  "write_resized img encode frame sink =
     (if \<not> image_from_raw img (frame_width frame) (frame_height frame) (frame_data frame)
      then (Inl (codec ''decoder returned malformed frame''), sink)
      else case write_frame encode
             (image_resize img (frame_width frame) (frame_height frame) (frame_data frame) (fst (sink_target sink)) (snd (sink_target sink)))
             (sink_writer sink) of
         (r, w) \<Rightarrow> (r, sink\<lparr>sink_writer := w\<rparr>))"

definition sink_finish :: "('e encoder_sink, unit) step" where
  "sink_finish sink = (case writer_finish (sink_writer sink) of (r, w) \<Rightarrow> (r, sink\<lparr>sink_writer := w\<rparr>))"

text \<open>Whether a frame is kept, and the bucket that is then the last one.\<close>

definition keep_frame :: "proxy_profile \<Rightarrow> f64 \<Rightarrow> f64 \<Rightarrow> nat \<Rightarrow> int \<Rightarrow> bool \<times> int" where
  "keep_frame pf target_rate source_rate index last_bucket =
     (if profile_rate pf = None then (True, last_bucket)
      else let bucket = f64_to_i64 (f64_floor (f64_div (f64_mul (f64_of_nat index) target_rate) source_rate)) in
        if bucket \<noteq> last_bucket then (True, bucket) else (False, last_bucket))"

partial_function (option) video_loop ::
  "('p shared_flag \<Rightarrow> 'p shared_flag) \<Rightarrow> ('m, 'h, 't) kinetix \<Rightarrow> 'd decode_fn \<Rightarrow> image_lib \<Rightarrow> 'e encode_fn \<Rightarrow> 'p reporter
     \<Rightarrow> (nat \<Rightarrow> int \<Rightarrow> bool \<times> int) \<Rightarrow> nat \<Rightarrow> nat \<Rightarrow> nat \<Rightarrow> int \<Rightarrow> ('d, 'm, 'h) video_source \<Rightarrow> 'e encoder_sink
     \<Rightarrow> 'p shared_flag \<Rightarrow> ((asset_error + unit) \<times> 'e encoder_sink \<times> 'p shared_flag) option" where
  "video_loop env k decode img encode rep keep tot frames_out index last_bucket src sink p =
     (let p = env p in
      case check_cancelled p of
        Inl e \<Rightarrow> Some (Inl e, sink, p)
      | Inr _ \<Rightarrow>
          Option.bind (source_next_frame k decode src) (\<lambda>(r, src).
            case r of
              Inl e \<Rightarrow> Some (Inl e, sink, p)
            | Inr None \<Rightarrow> Some (Inr (), sink, p)
            | Inr (Some frame) \<Rightarrow>
                (case keep index last_bucket of (kept, last_bucket) \<Rightarrow>
                   if kept then
                     (case write_resized img encode frame sink of
                        (Inl e, sink) \<Rightarrow> Some (Inl e, sink, p)
                      | (Inr _, sink) \<Rightarrow>
                          video_loop env k decode img encode rep keep tot (frames_out + 1) (index + 1) last_bucket src sink
                            (report_ratio rep (f64_of_nat (min (frames_out + 1) tot)) (f64_of_nat tot) p))
                   else video_loop env k decode img encode rep keep tot frames_out (index + 1) last_bucket src sink p)))"

definition video_proxy ::
  "('p shared_flag \<Rightarrow> 'p shared_flag) \<Rightarrow> ('m, 'h, 't) kinetix \<Rightarrow> 'd \<Rightarrow> 'd decode_fn \<Rightarrow> image_lib \<Rightarrow> 'e \<Rightarrow> 'e encode_fn
     \<Rightarrow> 'p reporter \<Rightarrow> (nat \<times> io_error) option list \<Rightarrow> string \<Rightarrow> string \<Rightarrow> proxy_profile \<Rightarrow> file_system \<Rightarrow> 'p shared_flag
     \<Rightarrow> ((asset_error + unit) \<times> file_system \<times> 'p shared_flag) option" where
  "video_proxy env k decoder decode img encoder encode rep fl source_path output_path pf fs p =
     (case profile_validate pf of
        Inl e \<Rightarrow> Some (Inl e, fs, p)
      | Inr _ \<Rightarrow>
          (case open_video k decoder source_path fs of
             (Inl e, fs) \<Rightarrow> Some (Inl e, fs, p)
           | (Inr src, fs) \<Rightarrow>
               (let info = source_info src;
                    source_rate = (if f64_lt f64_zero (frame_rate info) then frame_rate info else f64_30) in
                case sink_open fl encoder output_path pf (width info) (height info) source_rate fs of
                  (Inl e, fs) \<Rightarrow> Some (Inl e, fs, p)
                | (Inr sink, fs) \<Rightarrow>
                    (let target_rate = (case profile_rate pf of Some r \<Rightarrow> r | None \<Rightarrow> source_rate);
                         tot = max 1 (unat (frame_count info)) in
                     map_option (\<lambda>(r, sink, p).
                         case r of
                           Inl e \<Rightarrow> (Inl e, settle output_path (writer_file (sink_writer sink)) fs, p)
                         | Inr _ \<Rightarrow>
                             (case sink_finish sink of
                                (Inl e, sink) \<Rightarrow> (Inl e, settle output_path (writer_file (sink_writer sink)) fs, p)
                              | (Inr _, sink) \<Rightarrow>
                                  (Inr (), settle output_path (writer_file (sink_writer sink)) fs, report rep f64_one p)))
                       (video_loop env k decode img encode rep (keep_frame pf target_rate source_rate) tot 0 0 (- 1) src sink p)))))"

definition generate_video_proxy ::
  "('p shared_flag \<Rightarrow> 'p shared_flag) \<Rightarrow> ('m, 'h, 't) kinetix \<Rightarrow> 'd \<Rightarrow> 'd decode_fn \<Rightarrow> image_lib \<Rightarrow> 'e \<Rightarrow> 'e encode_fn
     \<Rightarrow> 'p reporter \<Rightarrow> (nat \<times> io_error) option list \<Rightarrow> string \<Rightarrow> string \<Rightarrow> proxy_profile \<Rightarrow> file_system \<Rightarrow> 'p shared_flag
     \<Rightarrow> ((asset_error + unit) \<times> file_system \<times> 'p shared_flag) option" where
  "generate_video_proxy env k decoder decode img encoder encode rep fl source_path output_path pf fs p =
     map_option (\<lambda>(r, fs, p). (r, case r of Inl _ \<Rightarrow> remove_partial output_path fs | Inr _ \<Rightarrow> fs, p))
       (video_proxy env k decoder decode img encoder encode rep fl source_path output_path pf fs p)"

subsection \<open>Sizes\<close>

lemma and_not_mask_word: "and w (not (mask n)) = push_bit n (drop_bit n (w :: 'a :: len word))"
  by (rule bit_word_eqI) (auto simp: bit_simps)

lemma clear_low_bit: "unat (and w (not 1) :: u64) = 2 * (unat w div 2)"
proof -
  have "and w (not 1) = drop_bit 1 w * 2"
    using and_not_mask_word [of w 1] by simp
  then have "unat (and w (not 1)) = unat (drop_bit 1 w) * 2 mod 2 ^ 64" by (simp add: unat_word_ariths)
  also have "unat (drop_bit 1 w) = unat w div 2" by (simp only: unat_drop_bit_eq) (simp add: drop_bit_eq_div)
  also have "unat w div 2 * 2 mod 2 ^ 64 = 2 * (unat w div 2)"
    using unsigned_less [of w, where 'a = nat] by (subst mod_less) simp_all
  finally show ?thesis .
qed

lemma even_size:
  assumes "unat v \<le> min m n" "m < 2 ^ 32"
  defines "w \<equiv> ucast (and (max v 2) (not 1) :: u64) :: u32"
  shows "2 \<le> unat w \<and> even (unat w) \<and> unat w \<le> max 2 m \<and> unat w \<le> max 2 n"
proof -
  have two: "unat (max v 2) = max (unat v) 2" by (simp add: max_def word_le_nat_alt)
  let ?u = "2 * (max (unat v) 2 div 2)"
  have u: "?u \<le> max 2 m" "?u \<le> max 2 n" "2 \<le> ?u" using assms(1) by (auto simp: max_def)
  moreover have "max 2 m < 2 ^ 32" using assms(2) by simp
  ultimately have "?u < 2 ^ 32" by (metis le_less_trans)
  then have "unat w = ?u" by (simp add: w_def unsigned_ucast_eq clear_low_bit [simplified] two take_bit_eq_mod)
  with u show ?thesis by simp
qed

lemma u32_max_1: "max 1 (unat (n :: u32)) < 2 ^ 32" "0 < max 1 (unat n)"
  using unsigned_less [of n, where 'a = nat] by simp_all

lemma target_size_parts:
  defines "mw \<equiv> \<lambda>pf :: proxy_profile. max 1 (unat (fst (resolution pf)))" and "mh \<equiv> \<lambda>pf :: proxy_profile. max 1 (unat (snd (resolution pf)))"
  shows "\<exists>v v'. target_size pf sw sh = (ucast (and (max v 2) (not 1) :: u64), ucast (and (max v' 2) (not 1) :: u64)) \<and>
    unat v \<le> min (mw pf) (max 1 (unat sw)) \<and> unat v' \<le> min (mh pf) (max 1 (unat sh))"
proof -
  let ?q1 = "f64_div (f64_of_nat (mw pf)) (f64_of_nat (max 1 (unat sw)))" and ?q2 = "f64_div (f64_of_nat (mh pf)) (f64_of_nat (max 1 (unat sh)))"
  let ?x = "f64_min (f64_min ?q1 ?q2) f64_one"
  have less: "mw pf < 2 ^ 32" "mh pf < 2 ^ 32" "max 1 (unat sw) < 2 ^ 32" "max 1 (unat sh) < 2 ^ 32"
    "0 < mw pf" "0 < mh pf" "0 < max 1 (unat sw)" "0 < max 1 (unat sh)"
    unfolding mw_def mh_def by (rule u32_max_1)+
  then have small: "mw pf < 2 ^ 53" "mh pf < 2 ^ 53" "max 1 (unat sw) < 2 ^ 53" "max 1 (unat sh) < 2 ^ 53" by simp_all
  note q1 = f64_div_le [OF small(1,3) less(5,7)] and q2 = f64_div_le [OF small(2,4) less(6,8)]
  note q = f64_min_value [OF q1(2,3) q2(2,3)]
  note x = f64_min_value [OF q(3,4) f64_one_facts(5) f64_one_facts(2)]
  have "unat (f64_to_u64 (f64_floor (f64_mul (f64_of_nat (max 1 (unat sw))) ?x))) \<le> min (mw pf) (max 1 (unat sw))"
    by (rule scaled_size [OF less(1,3,5,7) x(3,4)]) (use x q f64_one_value in linarith)+
  moreover have "unat (f64_to_u64 (f64_floor (f64_mul (f64_of_nat (max 1 (unat sh))) ?x))) \<le> min (mh pf) (max 1 (unat sh))"
    by (rule scaled_size [OF less(2,4,6,8) x(3,4)]) (use x q f64_one_value in linarith)+
  ultimately show ?thesis unfolding target_size_def Let_def mw_def mh_def by blast
qed

subsection \<open>Writing WAV files\<close>

definition wav_header :: "wav_spec \<Rightarrow> u32 \<Rightarrow> u32 \<Rightarrow> bytes" where
  "wav_header spec riff_len data_len =
     as_bytes ''RIFF'' @ u32_to_le riff_len @ as_bytes ''WAVE'' @ as_bytes ''fmt '' @ u32_to_le 16 @ u16_to_le 1 @
     u16_to_le (spec_channels spec) @ u32_to_le (spec_rate spec) @ u32_to_le (spec_rate spec * ucast (spec_channels spec * 2)) @
     u16_to_le (spec_channels spec * 2) @ u16_to_le 16 @ as_bytes ''data'' @ u32_to_le data_len"

definition wav_image :: "wav_spec \<Rightarrow> f32 list \<Rightarrow> bytes" where
  "wav_image spec samples =
     wav_header spec (36 + of_nat (2 * length samples)) (of_nat (2 * length samples)) @ concat (map sample_bytes samples)"

text \<open>A writer that has been given the samples.\<close>

definition wav_holds :: "wav_spec \<Rightarrow> f32 list \<Rightarrow> wav_writer \<Rightarrow> bool" where
  "wav_holds spec samples w \<longleftrightarrow>
     appending (wav_file w) \<and> written (wav_file w) = wav_header spec 0 0 @ concat (map sample_bytes samples) \<and>
     wav_bytes w = of_nat (2 * length samples)"

lemma buf_write_all_done:
  "buf_write_all bss b = (Inr u, b') \<Longrightarrow> appending b \<Longrightarrow> appending b' \<and> written b' = written b @ concat bss"
proof (induction bss arbitrary: b)
  case (Cons bs bss)
  then obtain b1 where b1: "buf_write bs b = (Inr (), b1)" "buf_write_all bss b1 = (Inr u, b')" by (auto simp: then_try_eq_Inr)
  from buf_write_done [OF b1(1) Cons.prems(2)] Cons.IH [OF b1(2)] show ?case by simp
qed simp

lemma buf_write_all_runs: "unfailing b \<Longrightarrow> \<exists>b'. buf_write_all bss b = (Inr (), b') \<and> unfailing b'"
proof (induction bss arbitrary: b)
  case (Cons bs bss)
  obtain b1 where "buf_write bs b = (Inr (), b1)" "unfailing b1" using buf_write_runs [OF Cons.prems] by blast
  with Cons.IH [of b1] show ?case by (auto simp: then_try_def)
qed simp

lemma zeros_le: "u32_to_le 0 = [0, 0, 0, 0]"
  by (simp add: u32_to_le_def le_bytes_zero numeral_eq_Suc)

lemma length_wav_header [simp]: "length (wav_header spec a b) = 44"
  by (simp add: wav_header_def as_bytes_def)

lemma length_sample_bytes [simp]: "length (concat (map sample_bytes samples)) = 2 * length samples"
  by (induction samples) (simp_all add: sample_bytes_def)

lemma wav_new_holds:
  assumes "wav_new fl p spec fs = (Inr w, fs')"
  shows "wav_holds spec [] w" "fl = [] \<longrightarrow> unfailing (wav_file w)"
proof -
  let ?new = "\<lparr>inner = new_file fl, pending = []\<rparr>"
  define bss where "bss = [as_bytes ''RIFF'', [0, 0, 0, 0], as_bytes ''WAVE'', as_bytes ''fmt '', u32_to_le 16, u16_to_le 1,
       u16_to_le (spec_channels spec), u32_to_le (spec_rate spec), u32_to_le (spec_rate spec * ucast (spec_channels spec * 2)),
       u16_to_le (spec_channels spec * 2), u16_to_le 16, as_bytes ''data'', [0, 0, 0, 0]]"
  have new: "appending ?new" by (simp add: appending_def new_file_def)
  obtain b where b: "buf_write_all bss ?new = (Inr (), b)" "w = \<lparr>wav_file = b, wav_bytes = 0, wav_path = p\<rparr>"
    using assms unfolding wav_new_def Let_def bss_def [symmetric]
    by (cases "buf_write_all bss ?new"; cases "fst (buf_write_all bss ?new)") (auto simp: then_try_eq_Inr)
  note done_ = buf_write_all_done [OF b(1) new]
  have "written b = wav_header spec 0 0"
    using done_ by (simp add: bss_def wav_header_def zeros_le written_def new_file_def)
  with done_ b(2) show "wav_holds spec [] w" by (simp add: wav_holds_def)
  show "fl = [] \<longrightarrow> unfailing (wav_file w)"
    using buf_write_all_runs [of ?new bss] b by (auto simp: unfailing_def new_file_def)
qed

lemma write_samples_holds:
  assumes "write_samples samples w = (Inr u, w')" "wav_holds spec old w"
  shows "wav_holds spec (old @ samples) w'"
proof -
  let ?bs = "concat (map sample_bytes samples)"
  obtain b where b: "buf_write ?bs (wav_file w) = (Inr u, b)" "w' = w\<lparr>wav_bytes := wav_bytes w + of_nat (length ?bs), wav_file := b\<rparr>"
    using assms(1) by (auto simp: write_samples_def wav_step_def Let_def split: prod.splits)
  have "appending (wav_file w)" using assms(2) by (simp add: wav_holds_def)
  from buf_write_done [OF b(1) this] assms(2) b(2) show ?thesis by (simp add: wav_holds_def)
qed

lemma write_samples_runs: "unfailing (wav_file w) \<Longrightarrow> \<exists>w'. write_samples samples w = (Inr (), w') \<and> unfailing (wav_file w')"
  using buf_write_runs [of "wav_file w" "concat (map sample_bytes samples)"]
  by (auto simp: write_samples_def wav_step_def Let_def)

lemma overwrite_inside:
  "length a = p \<Longrightarrow> length bs = length b \<Longrightarrow> bs \<noteq> [] \<Longrightarrow> overwrite p bs (a @ b @ c) = a @ bs @ c"
  by (simp add: overwrite_def)

lemma wav_finish_image:
  assumes "wav_finish w = (Inr u, w')" "wav_holds spec samples w"
  shows "content (buf_drop (wav_file w')) = wav_image spec samples"
proof -
  let ?bs = "concat (map sample_bytes samples)" and ?n = "of_nat (2 * length samples) :: u32"
  have app: "appending (wav_file w)" and n: "wav_bytes w = ?n" using assms(2) by (simp_all add: wav_holds_def)
  obtain b f1 f2 f3 f4 where run: "buf_flush (wav_file w) = (Inr (), b)" "file_seek 4 (inner b) = (Inr (), f1)"
    "file_write (u32_to_le (36 + ?n)) f1 = (Inr (), f2)" "file_seek 40 f2 = (Inr (), f3)" "file_write (u32_to_le ?n) f3 = (Inr (), f4)"
    "wav_file w' = b\<lparr>inner := f4\<rparr>"
    using assms(1) n
    by (auto simp: wav_finish_def wav_step_def on_inner_def Let_def then_try_eq_Inr split: prod.splits)
  note b = buf_flush_done [OF run(1) app]
  have c: "content (inner b) = wav_header spec 0 0 @ ?bs" using assms(2) b by (simp add: wav_holds_def written_def)
  define mid where "mid = as_bytes ''WAVE'' @ as_bytes ''fmt '' @ u32_to_le 16 @ u16_to_le 1 @
     u16_to_le (spec_channels spec) @ u32_to_le (spec_rate spec) @ u32_to_le (spec_rate spec * ucast (spec_channels spec * 2)) @
     u16_to_le (spec_channels spec * 2) @ u16_to_le 16 @ as_bytes ''data''"
  have header: "wav_header spec x y = as_bytes ''RIFF'' @ u32_to_le x @ mid @ u32_to_le y" for x y
    by (simp add: wav_header_def mid_def)
  have len: "length mid = 32" "length (as_bytes ''RIFF'') = 4" by (simp_all add: mid_def as_bytes_def)
  have first_: "overwrite 4 (u32_to_le (36 + ?n)) (content (inner b)) = wav_header spec (36 + ?n) 0 @ ?bs"
    unfolding c header using overwrite_inside [of "as_bytes ''RIFF''" 4 "u32_to_le (36 + ?n)" "u32_to_le 0"] len by simp
  have second_: "overwrite 40 (u32_to_le ?n) (wav_header spec (36 + ?n) 0 @ ?bs) = wav_image spec samples"
    unfolding wav_image_def header
    using overwrite_inside [of "as_bytes ''RIFF'' @ u32_to_le (36 + ?n) @ mid" 40 "u32_to_le ?n" "u32_to_le 0" ?bs] len by simp
  have "content f2 = wav_header spec (36 + ?n) 0 @ ?bs"
    using file_write_Inr [OF run(3)] file_seek_Inr [OF run(2)] first_ by simp
  then have "content f4 = wav_image spec samples"
    using file_write_Inr [OF run(5)] file_seek_Inr [OF run(4)] second_ by simp
  then show ?thesis using run(6) b(3) by (simp add: buf_drop_def buf_flush_def)
qed

lemma wav_finish_runs: "unfailing (wav_file w) \<Longrightarrow> \<exists>w'. wav_finish w = (Inr (), w')"
  using buf_flush_runs [of "wav_file w"]
  by (auto simp: wav_finish_def then_try_def wav_step_def on_inner_def Let_def unfailing_def)

subsection \<open>The audio proxy\<close>

text \<open>A loop that ends well has written all the blocks that the decoder delivers up to the end of the stream.\<close>

lemma audio_loop_writes:
  "read_blocks k decode nch (READ_FRAMES * nch) s = Some (bs, e) \<Longrightarrow> wav_holds spec old w \<Longrightarrow>
    \<exists>r w' p'. audio_loop env decode rep nch tot done_frames w s p = Some (r, w', p') \<and>
      (r = Inr () \<longrightarrow> e = None \<and> wav_holds spec (old @ concat bs) w') \<and>
      (unfailing (wav_file w) \<and> calm env rep p \<and> e = None \<longrightarrow> r = Inr () \<and> unfailing (wav_file w'))"
proof (induction k arbitrary: s old w bs done_frames p)
  case (Suc k)
  note step = audio_loop.simps [of env decode rep nch tot done_frames w s p]
  obtain x s1 where dec: "stream_decode decode (READ_FRAMES * nch) s = (x, s1)" by fastforce
  show ?case
  proof (cases rule: check_cancelled_cases [of "env p"])
    case 1
    with step calm_env [of env rep p] show ?thesis by auto
  next
    case 2
    show ?thesis
    proof (cases x)
      case (Inl y)
      with step dec 2 Suc.prems show ?thesis by auto
    next
      case (Inr samples)
      define f where "f = length samples div nch"
      show ?thesis
      proof (cases "f = 0")
        case True
        with step dec 2 Inr Suc.prems show ?thesis by (auto simp: f_def)
      next
        case False
        define b where "b = take (f * nch) samples"
        obtain bs1 where bs: "read_blocks k decode nch (READ_FRAMES * nch) s1 = Some (bs1, e)" "bs = b # bs1"
          using Suc.prems(1) dec Inr False by (auto simp: f_def b_def)
        obtain y w1 where w: "write_samples b w = (y, w1)" by fastforce
        have clean: "unfailing (wav_file w) \<Longrightarrow> y = Inr () \<and> unfailing (wav_file w1)" using write_samples_runs [of w b] w by auto
        let ?done = "f64_add done_frames (f64_of_nat f)"
        show ?thesis
        proof (cases y)
          case (Inl z)
          with step dec 2 Inr False w have "audio_loop env decode rep nch tot done_frames w s p = Some (Inl z, w1, env p)"
            by (simp add: f_def b_def)
          then show ?thesis using clean Inl by auto
        next
          case (Inr u)
          then have go: "audio_loop env decode rep nch tot done_frames w s p =
              audio_loop env decode rep nch tot ?done w1 s1 (report_ratio rep ?done tot (env p))"
            using step dec 2 \<open>x = Inr samples\<close> False w by (simp add: f_def b_def Let_def)
          have "wav_holds spec (old @ b) w1" using write_samples_holds [OF w [unfolded Inr] Suc.prems(2)] .
          from Suc.IH [OF bs(1) this, of ?done "report_ratio rep ?done tot (env p)"] calm_env [of env rep p] calm_report [of env rep "env p"]
          show ?thesis unfolding go bs(2) using clean by auto
        qed
      qed
    qed
  qed
qed simp

text \<open>Removing a partial output.\<close>

lemma remove_partial_gone:
  assumes "fails fs RemoveFileCall (path_key p) = None"
  shows "\<not> is_file_node (nodes (remove_partial p fs) (path_key p))"
  using assms by (auto simp: remove_partial_def remove_file_def fs_try_def set_nodes_def is_file_node_def
      split: option.splits node.splits)

lemma settle_simps [simp]: "fails (settle p b fs) = fails fs"
  "nodes (settle p b fs) (path_key p) = Some (FileNode (content (buf_drop b)))"
  by (simp_all add: settle_def)

lemma fails_keep:
  "create_dir_all p fs = (r, fs') \<Longrightarrow> fails fs' = fails fs" "write_file p bs fs = (r', fs') \<Longrightarrow> fails fs' = fails fs"
  by (auto simp: create_dir_all_def write_file_def fs_try_def set_nodes_def split: option.splits if_splits)

lemma read_file_keep: "read_file p fs = (r, fs') \<Longrightarrow> fs' = fs"
  by (auto simp: read_file_def fs_try_def split: option.splits node.splits)

lemma parent_keep:
  "(case path_parent p of None \<Rightarrow> give () | Some parent \<Rightarrow> if parent = '''' then give () else create_dir_all parent) fs = (r, fs') \<Longrightarrow>
     fails fs' = fails fs"
  by (auto split: option.splits if_splits dest: fails_keep)

lemma wav_new_keep: "wav_new fl p spec fs = (r, fs') \<Longrightarrow> fails fs' = fails fs"
  unfolding wav_new_def
  by (auto elim!: then_tryE dest!: fails_keep parent_keep simp: Let_def split: sum.splits prod.splits)

lemma open_audio_keep: "open_audio wav_open flac_open p fs = (r, fs') \<Longrightarrow> fs' = fs"
  by (auto simp: open_audio_def open_node_def fs_try_def elim!: then_tryE split: option.splits)

text \<open>
  The file that holds the whole audio of a source: the WAV image of all the blocks that the decoder delivers up to the end of
  the stream, none of whose calls fails.
\<close>

definition whole_wav :: "'s opener \<Rightarrow> 's opener \<Rightarrow> 's decoder_fn \<Rightarrow> string \<Rightarrow> file_system \<Rightarrow> node option \<Rightarrow> bool" where
  "whole_wav wav_open flac_open decode src fs n \<longleftrightarrow>
     (\<exists>s info k blocks. open_audio wav_open flac_open src fs = (Inr (s, info), fs) \<and>
        (let nch = max 1 (unat (stream_channels info)) in
         read_blocks k decode nch (READ_FRAMES * nch) s = Some (blocks, None)) \<and>
        n = Some (FileNode (wav_image \<lparr>spec_rate = stream_sample_rate info, spec_channels = stream_channels info\<rparr> (concat blocks))))"

text \<open>The source, when it opens, comes to its end or to an error.\<close>

definition audio_ends :: "'s opener \<Rightarrow> 's opener \<Rightarrow> 's decoder_fn \<Rightarrow> string \<Rightarrow> file_system \<Rightarrow> bool" where
  "audio_ends wav_open flac_open decode src fs \<longleftrightarrow>
     (\<forall>s info. open_audio wav_open flac_open src fs = (Inr (s, info), fs) \<longrightarrow>
        (let nch = max 1 (unat (stream_channels info)) in \<exists>k. read_blocks k decode nch (READ_FRAMES * nch) s \<noteq> None))"

text \<open>Nothing stands in the way: the profile is valid, the source decodes to its end, and the output can be created.\<close>

definition audio_ready :: "'s opener \<Rightarrow> 's opener \<Rightarrow> 's decoder_fn \<Rightarrow> string \<Rightarrow> string \<Rightarrow> proxy_profile \<Rightarrow> file_system \<Rightarrow> bool" where
  "audio_ready wav_open flac_open decode src out pf fs \<longleftrightarrow>
     profile_validate pf = Inr () \<and>
     (\<exists>s info k blocks w fs1. open_audio wav_open flac_open src fs = (Inr (s, info), fs) \<and>
        (let nch = max 1 (unat (stream_channels info)) in
         read_blocks k decode nch (READ_FRAMES * nch) s = Some (blocks, None)) \<and>
        wav_new [] out \<lparr>spec_rate = stream_sample_rate info, spec_channels = stream_channels info\<rparr> fs = (Inr w, fs1))"

lemma generate_audio_proxy_leaves:
  assumes "audio_ends wav_open flac_open decode src fs" "fails fs RemoveFileCall (path_key out) = None"
  shows "\<exists>r fs' p'. generate_audio_proxy env wav_open flac_open decode rep fl src out pf fs p = Some (r, fs', p') \<and>
    (case r of
       Inl _ \<Rightarrow> \<not> is_file_node (nodes fs' (path_key out))
     | Inr _ \<Rightarrow> whole_wav wav_open flac_open decode src fs (nodes fs' (path_key out))) \<and>
    (calm env rep p \<and> fl = [] \<and> audio_ready wav_open flac_open decode src out pf fs \<longrightarrow> r = Inr ())"
proof -
  let ?ready = "audio_ready wav_open flac_open decode src out pf fs"
  let ?good = "\<lambda>r fs'. case r of Inl _ \<Rightarrow> fails fs' = fails fs | Inr _ \<Rightarrow> whole_wav wav_open flac_open decode src fs (nodes fs' (path_key out))"
  have "\<exists>r fs' p'. audio_proxy env wav_open flac_open decode rep fl src out pf fs p = Some (r, fs', p') \<and> ?good r fs' \<and>
      (calm env rep p \<and> fl = [] \<and> ?ready \<longrightarrow> r = Inr ())"
  proof (cases "profile_validate pf")
    case (Inl e)
    then show ?thesis by (simp add: audio_proxy_def audio_ready_def)
  next
    case valid: (Inr u)
    obtain x fs0 where opened: "open_audio wav_open flac_open src fs = (x, fs0)" by fastforce
    have fs0: "fs0 = fs" by (rule open_audio_keep [OF opened])
    show ?thesis
    proof (cases x)
      case (Inl e)
      with valid opened fs0 show ?thesis by (simp add: audio_proxy_def audio_ready_def)
    next
      case (Inr y)
      obtain s info where y: "y = (s, info)" by fastforce
      note op = opened [unfolded fs0 Inr y]
      define nch where "nch = max 1 (unat (stream_channels info))"
      define spec where "spec = \<lparr>spec_rate = stream_sample_rate info, spec_channels = stream_channels info\<rparr>"
      define tot where "tot = f64_of_nat (max 1 (unat (case total_samples info of None \<Rightarrow> 0 | Some n \<Rightarrow> n)))"
      note run = valid op spec_def [symmetric] nch_def [symmetric] tot_def [symmetric]
      obtain k bs e where blocks: "read_blocks k decode nch (READ_FRAMES * nch) s = Some (bs, e)"
        using assms(1) op by (auto simp: audio_ends_def nch_def Let_def)
      have ready: "e = None \<and> (\<exists>w fs1. wav_new [] out spec fs = (Inr w, fs1))" if ?ready
        using that op read_blocks_unique [OF blocks] by (fastforce simp: audio_ready_def nch_def spec_def Let_def)
      obtain z fs1 where new: "wav_new fl out spec fs = (z, fs1)" by fastforce
      have same: "fails fs1 = fails fs" by (rule wav_new_keep [OF new])
      show ?thesis
      proof (cases z)
        case (Inl d)
        have "audio_proxy env wav_open flac_open decode rep fl src out pf fs p = Some (Inl d, fs1, p)"
          using run new Inl by (simp add: audio_proxy_def)
        with same ready new Inl show ?thesis by auto
      next
        case w: (Inr w)
        note holds = wav_new_holds [OF new [unfolded w]]
        obtain r w1 p1 where loop: "audio_loop env decode rep nch tot f64_zero w s p = Some (r, w1, p1)"
          "r = Inr () \<longrightarrow> e = None \<and> wav_holds spec (concat bs) w1"
          "unfailing (wav_file w) \<and> calm env rep p \<and> e = None \<longrightarrow> r = Inr () \<and> unfailing (wav_file w1)"
          using audio_loop_writes [OF blocks holds(1), of env rep tot f64_zero p] by auto
        show ?thesis
        proof (cases r)
          case (Inl d)
          have "audio_proxy env wav_open flac_open decode rep fl src out pf fs p = Some (Inl d, settle out (wav_file w1) fs1, p1)"
            using run new w loop(1) Inl by (simp add: audio_proxy_def Let_def)
          with same ready loop(3) holds(2) Inl show ?thesis by auto
        next
          case ok: (Inr u)
          obtain f w2 where fin: "wav_finish w1 = (f, w2)" by fastforce
          have done_: "audio_proxy env wav_open flac_open decode rep fl src out pf fs p =
              Some (f, settle out (wav_file w2) fs1, case f of Inl _ \<Rightarrow> p1 | Inr _ \<Rightarrow> report rep f64_one p1)"
            using run new w loop(1) ok fin by (cases f) (simp_all add: audio_proxy_def Let_def)
          have "?good f (settle out (wav_file w2) fs1)"
          proof (cases f)
            case (Inr v)
            then have "content (buf_drop (wav_file w2)) = wav_image spec (concat bs)"
              using wav_finish_image [OF fin [unfolded Inr]] loop(2) ok by simp
            moreover have "e = None" using loop(2) ok by simp
            ultimately show ?thesis
              using Inr op blocks unfolding whole_wav_def nch_def spec_def by (auto simp: Let_def)
          qed (use same in simp)
          moreover have "calm env rep p \<and> fl = [] \<and> ?ready \<longrightarrow> f = Inr ()"
            using wav_finish_runs [of w1] fin loop(3) holds(2) ready by auto
          ultimately show ?thesis using done_ by blast
        qed
      qed
    qed
  qed
  then obtain r fs' p' where run: "audio_proxy env wav_open flac_open decode rep fl src out pf fs p = Some (r, fs', p')" "?good r fs'"
    "calm env rep p \<and> fl = [] \<and> ?ready \<longrightarrow> r = Inr ()" by blast
  then show ?thesis
    using remove_partial_gone [of fs' out] assms(2) by (cases r) (auto simp: generate_audio_proxy_def)
qed

subsection \<open>The video proxy\<close>

text \<open>What a source delivers in at most \<open>n\<close> calls: its frames up to its end, or up to the error that stops it.\<close>

fun source_frames :: "nat \<Rightarrow> ('m, 'h, 't) kinetix \<Rightarrow> 'd decode_fn \<Rightarrow> ('d, 'm, 'h) video_source
     \<Rightarrow> (rgba_frame list \<times> asset_error option) option" where
  "source_frames 0 k decode src = None"
| "source_frames (Suc n) k decode src =
     (case source_next_frame k decode src of
        None \<Rightarrow> None
      | Some (Inl e, _) \<Rightarrow> Some ([], Some e)
      | Some (Inr None, _) \<Rightarrow> Some ([], None)
      | Some (Inr (Some frame), src) \<Rightarrow> map_option (\<lambda>(frames, e). (frame # frames, e)) (source_frames n k decode src))"

lemma source_frames_more: "source_frames n k decode src = Some x \<Longrightarrow> n \<le> m \<Longrightarrow> source_frames m k decode src = Some x"
proof (induction n arbitrary: m src x)
  case (Suc n)
  then obtain m' where m: "m = Suc m'" "n \<le> m'" by (cases m) auto
  show ?case using Suc.prems(1) Suc.IH [OF _ m(2)] by (auto simp: m(1) split: option.splits sum.splits)
qed simp

lemma source_frames_unique: "source_frames n k decode src = Some x \<Longrightarrow> source_frames m k decode src = Some y \<Longrightarrow> x = y"
  using source_frames_more [of n k decode src x "max n m"] source_frames_more [of m k decode src y "max n m"] by simp

text \<open>The frames of a proxy: those in whose bucket no frame was before, each of them resized.\<close>

definition rate_bucket :: "f64 \<Rightarrow> f64 \<Rightarrow> nat \<Rightarrow> int" where
  "rate_bucket target_rate source_rate i = f64_to_i64 (f64_floor (f64_div (f64_mul (f64_of_nat i) target_rate) source_rate))"

definition resampled :: "proxy_profile \<Rightarrow> f64 \<Rightarrow> f64 \<Rightarrow> 'f list \<Rightarrow> 'f list" where
  "resampled pf target_rate source_rate frames =
     (if profile_rate pf = None then frames
      else map ((!) frames) (filter (\<lambda>i. rate_bucket target_rate source_rate i \<noteq>
             (if i = 0 then - 1 else rate_bucket target_rate source_rate (i - 1))) [0..<length frames]))"

definition resized :: "image_lib \<Rightarrow> u32 \<times> u32 \<Rightarrow> rgba_frame \<Rightarrow> bytes" where
  "resized img dims f = image_resize img (frame_width f) (frame_height f) (frame_data f) (fst dims) (snd dims)"

text \<open>The loop's choice, frame by frame, and that it is the same.\<close>

fun kept_from :: "(nat \<Rightarrow> int \<Rightarrow> bool \<times> int) \<Rightarrow> nat \<Rightarrow> int \<Rightarrow> 'f list \<Rightarrow> 'f list" where
  "kept_from keep i b [] = []"
| "kept_from keep i b (f # fs) = (case keep i b of (kept, b) \<Rightarrow> (if kept then [f] else []) @ kept_from keep (i + 1) b fs)"

lemma kept_from_buckets:
  fixes target_rate source_rate
  assumes "profile_rate pf \<noteq> None"
  defines "bucket \<equiv> rate_bucket target_rate source_rate"
  shows "b = (if n = 0 then - 1 else bucket (n - 1)) \<Longrightarrow>
    kept_from (keep_frame pf target_rate source_rate) n b fs =
      map (\<lambda>i. fs ! (i - n)) (filter (\<lambda>i. bucket i \<noteq> (if i = 0 then - 1 else bucket (i - 1))) [n..<n + length fs])"
proof (induction fs arbitrary: n b)
  case (Cons f fs)
  let ?new = "\<lambda>i. bucket i \<noteq> (if i = 0 then - 1 else bucket (i - 1))"
  have keep: "keep_frame pf target_rate source_rate n b = (?new n, bucket n)"
    using assms(1) Cons.prems by (auto simp: keep_frame_def Let_def bucket_def rate_bucket_def)
  have "map (\<lambda>i. fs ! (i - Suc n)) (filter ?new [Suc n..<n + length (f # fs)]) =
      map (\<lambda>i. (f # fs) ! (i - n)) (filter ?new [Suc n..<n + length (f # fs)])"
    by (rule map_cong [OF refl]) (auto simp: nth_Cons split: nat.splits intro: arg_cong [where f = "(!) fs"])
  then show ?case
    using Cons.IH [of "bucket n" "Suc n"] by (simp add: keep upt_conv_Cons del: upt_Suc)
qed simp

lemma kept_from_resampled: "kept_from (keep_frame pf target_rate source_rate) 0 (- 1) frames = resampled pf target_rate source_rate frames"
proof (cases "profile_rate pf = None")
  case True
  have "kept_from (keep_frame pf target_rate source_rate) n b frames = frames" for n b
    using True by (induction frames arbitrary: n) (simp_all add: keep_frame_def)
  with True show ?thesis by (simp add: resampled_def)
next
  case False
  with kept_from_buckets [of pf "- 1" 0 target_rate source_rate frames] show ?thesis by (auto simp: resampled_def)
qed

lemma kept_from_subset: "set (kept_from keep n b frames) \<subseteq> set frames"
  by (induction frames arbitrary: n b) (auto split: prod.splits if_splits)

text \<open>The sink has written these frames, at the size and rate of its header.\<close>

definition sink_holds :: "'d decode_fn \<Rightarrow> stream_header \<Rightarrow> bytes list \<Rightarrow> 'e encoder_sink \<Rightarrow> bool" where
  "sink_holds decode hdr frames sink \<longleftrightarrow>
     writer_header (sink_writer sink) = hdr \<and> sink_target sink = (header_width hdr, header_height hdr) \<and>
     (\<exists>ps. has_written ps (sink_writer sink) \<and> list_all2 (payload_of decode hdr) ps frames)"

abbreviation sink_fine :: "'e encoder_sink \<Rightarrow> bool" where "sink_fine sink \<equiv> unfailing (writer_file (sink_writer sink))"

lemma write_resized_holds:
  assumes "lossless_codec encode decode" "sink_holds decode hdr frames sink" "write_resized img encode frame sink = (Inr (), sink')"
  shows "sink_holds decode hdr (frames @ [resized img (header_width hdr, header_height hdr) frame]) sink'"
proof -
  obtain ps where old: "writer_header (sink_writer sink) = hdr" "has_written ps (sink_writer sink)"
    "list_all2 (payload_of decode hdr) ps frames" "sink_target sink = (header_width hdr, header_height hdr)"
    using assms(2) by (auto simp: sink_holds_def)
  let ?rgba = "resized img (header_width hdr, header_height hdr) frame"
  obtain w where w: "write_frame encode ?rgba (sink_writer sink) = (Inr (), w)" "sink' = sink\<lparr>sink_writer := w\<rparr>"
    using assms(3) old(4) by (auto simp: write_resized_def resized_def split: if_splits prod.splits)
  from write_frame_streams [OF assms(1) old(2) w(1)] obtain payload where "has_written (ps @ [payload]) w"
    "payload_of decode hdr payload ?rgba" "writer_header w = hdr" using old(1) by auto
  then show ?thesis
    using old(3,4) w(2) unfolding sink_holds_def by (intro conjI exI [of _ "ps @ [payload]"]) (simp_all add: list_all2_appendI)
qed

text \<open>A frame that the image library takes and brings to the size asked for, and that the encoder then encodes.\<close>

definition frame_fits :: "image_lib \<Rightarrow> 'e encode_fn \<Rightarrow> u32 \<times> u32 \<Rightarrow> rgba_frame \<Rightarrow> bool" where
  "frame_fits img encode dims f \<longleftrightarrow>
     image_from_raw img (frame_width f) (frame_height f) (frame_data f) \<and> length (resized img dims f) = unat (fst dims) * unat (snd dims) * 4 \<and>
     (\<forall>seq e. \<exists>payload e'. encode seq (rgba_to_planes (resized img dims f) (fst dims) (snd dims)) e = (Inr payload, e'))"

lemma write_resized_runs:
  assumes "sink_fine sink" "sink_holds decode hdr frames sink" "frame_fits img encode (header_width hdr, header_height hdr) frame"
  shows "\<exists>sink'. write_resized img encode frame sink = (Inr (), sink') \<and> sink_fine sink'"
proof -
  let ?w = "sink_writer sink" and ?rgba = "resized img (header_width hdr, header_height hdr) frame"
  have sink: "writer_header ?w = hdr" "sink_target sink = (header_width hdr, header_height hdr)" using assms(2) by (simp_all add: sink_holds_def)
  obtain payload e where enc: "encode (writer_sequence ?w) (rgba_to_planes ?rgba (header_width (writer_header ?w)) (header_height (writer_header ?w)))
      (writer_encoder ?w) = (Inr payload, e)" using assms(3) sink(1) unfolding frame_fits_def fst_conv snd_conv by blast
  have "length ?rgba = unat (header_width (writer_header ?w)) * unat (header_height (writer_header ?w)) * 4"
    using assms(3) by (simp add: frame_fits_def sink(1))
  then obtain w' where "write_frame encode ?rgba ?w = (Inr (), w')" "unfailing (writer_file w')"
    using write_frame_runs [of ?w ?rgba encode payload e] assms(1) enc by metis
  then show ?thesis using assms(3) sink(2) by (simp add: write_resized_def frame_fits_def resized_def)
qed

text \<open>A loop that ends well has written the frames it kept of all that the source delivers up to its end.\<close>

lemma video_loop_writes:
  assumes lossless: "lossless_codec encode dec"
  shows "source_frames n k decode src = Some (frames, e) \<Longrightarrow> sink_holds dec hdr old sink \<Longrightarrow>
    \<exists>r sink' p'. video_loop env k decode img encode rep keep tot out i b src sink p = Some (r, sink', p') \<and>
      (r = Inr () \<longrightarrow> e = None \<and>
         sink_holds dec hdr (old @ map (resized img (header_width hdr, header_height hdr)) (kept_from keep i b frames)) sink') \<and>
      (sink_fine sink \<and> calm env rep p \<and> e = None \<and>
         (\<forall>f \<in> set frames. frame_fits img encode (header_width hdr, header_height hdr) f) \<longrightarrow> r = Inr () \<and> sink_fine sink')"
proof (induction n arbitrary: src frames old sink out i b p)
  case (Suc n)
  note step = video_loop.simps [of env k decode img encode rep keep tot out i b src sink p]
  obtain x src1 where next_: "source_next_frame k decode src = Some (x, src1)" using Suc.prems(1) by (auto split: option.splits)
  show ?case
  proof (cases rule: check_cancelled_cases [of "env p"])
    case 1
    with step calm_env [of env rep p] show ?thesis by auto
  next
    case 2
    show ?thesis
    proof (cases "\<exists>frame. x = Inr (Some frame)")
      case False
      with step next_ 2 Suc.prems show ?thesis by (cases x; cases "projr x") (auto simp: Let_def)
    next
      case True
      then obtain frame where x: "x = Inr (Some frame)" by blast
      obtain frames1 where more: "source_frames n k decode src1 = Some (frames1, e)" "frames = frame # frames1"
        using Suc.prems(1) next_ x by auto
      obtain kept b1 where kept: "keep i b = (kept, b1)" by fastforce
      show ?thesis
      proof (cases kept)
        case False
        with step next_ 2 x kept have go: "video_loop env k decode img encode rep keep tot out i b src sink p =
            video_loop env k decode img encode rep keep tot out (i + 1) b1 src1 sink (env p)" by (simp add: Let_def)
        from Suc.IH [OF more(1) Suc.prems(2), of out "i + 1" b1 "env p"] calm_env [of env rep p] False kept
        show ?thesis unfolding go more(2) by auto
      next
        case True
        obtain y sink1 where w: "write_resized img encode frame sink = (y, sink1)" by fastforce
        have clean: "y = Inr () \<and> sink_fine sink1"
          if "sink_fine sink" "frame_fits img encode (header_width hdr, header_height hdr) frame"
          using write_resized_runs [OF that(1) Suc.prems(2) that(2)] w by auto
        show ?thesis
        proof (cases y)
          case (Inl z)
          with step next_ 2 x kept True w
          have "video_loop env k decode img encode rep keep tot out i b src sink p = Some (Inl z, sink1, env p)" by (simp add: Let_def)
          then show ?thesis using clean Inl by (auto simp: more(2))
        next
          case (Inr u)
          let ?p = "report_ratio rep (f64_of_nat (min (out + 1) tot)) (f64_of_nat tot) (env p)"
          have go: "video_loop env k decode img encode rep keep tot out i b src sink p =
              video_loop env k decode img encode rep keep tot (out + 1) (i + 1) b1 src1 sink1 ?p"
            using step next_ 2 x kept True w Inr by (simp add: Let_def)
          have "write_resized img encode frame sink = (Inr (), sink1)" using w Inr by simp
          note holds = write_resized_holds [OF lossless Suc.prems(2) this]
          from Suc.IH [OF more(1) holds, of "out + 1" "i + 1" b1 ?p] calm_env [of env rep p] calm_report [of env rep "env p"]
          show ?thesis unfolding go more(2) using clean kept True by auto
        qed
      qed
    qed
  qed
qed simp

lemma sink_open_holds:
  assumes "sink_open fl encoder p pf sw sh rate fs = (Inr sink, fs')"
  shows "sink_holds decode \<lparr>header_width = fst (target_size pf sw sh), header_height = snd (target_size pf sw sh),
      header_fps = (case profile_rate pf of Some r \<Rightarrow> r | None \<Rightarrow> rate), header_frames = 0\<rparr> [] sink"
    "fl = [] \<longrightarrow> sink_fine sink"
proof -
  obtain w where w: "writer_create fl encoder p (fst (target_size pf sw sh)) (snd (target_size pf sw sh))
      (case profile_rate pf of Some r \<Rightarrow> r | None \<Rightarrow> rate) fs = (Inr w, fs')" "sink_writer sink = w"
    "sink_target sink = target_size pf sw sh"
    using assms by (auto simp: sink_open_def Let_def then_try_eq_Inr split: sum.splits)
  note new = writer_create_writes [OF w(1)]
  then show "sink_holds decode \<lparr>header_width = fst (target_size pf sw sh), header_height = snd (target_size pf sw sh),
      header_fps = (case profile_rate pf of Some r \<Rightarrow> r | None \<Rightarrow> rate), header_frames = 0\<rparr> [] sink"
    unfolding sink_holds_def w(2,3) by (intro conjI exI [of _ "[]"]) simp_all
  show "fl = [] \<longrightarrow> sink_fine sink" using new(6) by (simp add: w(2) unfailing_def)
qed

lemma writer_create_keep: "writer_create fl e p w h fps fs = (r, fs') \<Longrightarrow> fails fs' = fails fs"
  unfolding writer_create_def
  by (auto elim!: then_tryE dest!: fails_keep parent_keep simp: Let_def split: sum.splits prod.splits if_splits)

lemma sink_open_keep: "sink_open fl e p pf sw sh rate fs = (r, fs') \<Longrightarrow> fails fs' = fails fs"
  by (auto simp: sink_open_def Let_def elim!: then_tryE dest!: writer_create_keep split: sum.splits)

lemma open_video_keep: "open_video k d p fs = (r, fs') \<Longrightarrow> fs' = fs"
  unfolding open_video_def proxy_stream_open_def mp4_open_def
  by (auto elim!: then_tryE dest!: read_file_keep simp: Let_def split: sum.splits prod.splits if_splits option.splits)

text \<open>The file is a stream that opens, counts these frames, and delivers exactly them, opaque, in order.\<close>

definition complete_stream :: "'d decode_fn \<Rightarrow> 'd \<Rightarrow> string \<Rightarrow> u32 \<times> u32 \<Rightarrow> f64 \<Rightarrow> bytes list \<Rightarrow> file_system \<Rightarrow> bool" where
  "complete_stream decode d p dims fps frames fs \<longleftrightarrow>
     (\<exists>s. proxy_stream_open d p fs = (Inr s, fs) \<and> frame_count (stream_video s) = of_nat (length frames) \<and>
        (\<forall>rgba \<in> set frames. length rgba = unat (fst dims) * unat (snd dims) * 4) \<and>
        stream_frames decode (length frames + 1) s =
          map (\<lambda>i. Inr (Some \<lparr>frame_index = i, frame_time = f64_div (f64_of_nat i) (f64_max fps f64_1e_9),
                             frame_width = fst dims, frame_height = snd dims, frame_data = opaque (frames ! i)\<rparr>))
            [0..<length frames] @ [Inr None])"

lemma finished_sink_complete:
  assumes "sink_holds decode hdr frames sink" "sink_finish sink = (Inr (), sink')" "valid_header hdr"
    "read_file p fs = (Inr (content (buf_drop (writer_file (sink_writer sink')))), fs)"
  shows "complete_stream decode d p (header_width hdr, header_height hdr) (header_fps hdr) frames fs"
proof -
  let ?w = "sink_writer sink"
  obtain ps where old: "writer_header ?w = hdr" "has_written ps ?w" "list_all2 (payload_of decode hdr) ps frames"
    using assms(1) by (auto simp: sink_holds_def)
  obtain w' where w': "writer_finish ?w = (Inr (), w')" "sink_writer sink' = w'"
    using assms(2) by (auto simp: sink_finish_def split: prod.splits)
  define hdr' where "hdr' = hdr\<lparr>header_frames := of_nat (length ps)\<rparr>"
  have "content (buf_drop (writer_file (sink_writer sink'))) = header_bytes hdr' @ concat (map frame_bytes ps)"
    using writer_finish_content [OF old(2) w'(1)] by (simp add: hdr'_def old(1) w'(2) buf_drop_def buf_flush_def)
  moreover have "valid_header hdr'" using assms(3) by (simp add: hdr'_def valid_header_def)
  moreover have "list_all2 (payload_of decode hdr') ps frames" using old(3) by (simp add: hdr'_def)
  ultimately obtain s where s: "proxy_stream_open d p fs = (Inr s, fs)" "streams decode frames s" "stream_header s = hdr'"
    "next_index s = 0" "seek_target s = None" "frame_count (stream_video s) = of_nat (length frames)"
    using proxy_stream_open_streams [of p fs hdr' ps decode frames d] assms(4) by auto
  have "\<forall>rgba \<in> set frames. length rgba = unat (header_width hdr) * unat (header_height hdr) * 4"
    using old(3) by (auto simp: list_all2_conv_all_nth payload_of_def in_set_conv_nth)
  then show ?thesis
    using s stream_frames_all [OF s(2,5), of "length frames"]
    unfolding complete_stream_def by (intro exI [of _ s]) (simp add: stream_frame_def hdr'_def)
qed

lemma sink_finish_runs: "sink_fine sink \<Longrightarrow> \<exists>sink'. sink_finish sink = (Inr (), sink')"
  using writer_finish_runs [of "sink_writer sink"] by (auto simp: sink_finish_def)

lemma target_size_positive: "fst (target_size pf sw sh) \<noteq> 0" "snd (target_size pf sw sh) \<noteq> 0"
proof -
  obtain v v' where t: "target_size pf sw sh = (ucast (and (max v 2) (not 1) :: u64), ucast (and (max v' 2) (not 1) :: u64))"
    "unat v \<le> min (max 1 (unat (fst (resolution pf)))) (max 1 (unat sw))"
    "unat v' \<le> min (max 1 (unat (snd (resolution pf)))) (max 1 (unat sh))"
    using target_size_parts by blast
  from even_size [OF t(2) u32_max_1(1)] even_size [OF t(3) u32_max_1(1)]
  show "fst (target_size pf sw sh) \<noteq> 0" "snd (target_size pf sw sh) \<noteq> 0"
    unfolding t(1) fst_conv snd_conv by (metis unat_0 not_numeral_le_zero)+
qed

lemma profile_rate_valid: "profile_validate pf = Inr () \<Longrightarrow> profile_rate pf = Some r \<Longrightarrow> f64_is_finite r \<and> \<not> f64_le r f64_zero"
  by (auto simp: profile_validate_def rbind_eq_Inr split: if_splits)

lemma thirty_valid: "f64_is_finite f64_30" "\<not> f64_le f64_30 f64_zero"
  by (simp_all add: f64_30_def f64_is_finite_def f64_le_def f64_mag_def f64_zero_def f64_inf_def fp_inf_def f64_key_def f64_neg_def f64_is_nan_def)

lemma f64_lt_not_le: "f64_lt a b \<Longrightarrow> \<not> f64_le b a"
  by (simp add: f64_lt_def f64_le_def)

lemma source_rate_valid:
  assumes "f64_is_finite r"
  defines "rate \<equiv> if f64_lt f64_zero r then r else f64_30"
  shows "f64_is_finite rate \<and> \<not> f64_le rate f64_zero"
  using assms thirty_valid by (simp add: f64_lt_not_le)

lemma read_settled:
  "fails fs ReadCall (path_key p) = None \<Longrightarrow> read_file p (settle p b fs) = (Inr (content (buf_drop b)), settle p b fs)"
  by (simp add: read_file_def fs_try_def)

lemma not_ok_unit: "r \<noteq> Inr () \<longleftrightarrow> (\<exists>e. r = Inl e)" for r :: "'e + unit"
  by (cases r) auto

lemma video_proxy_keep:
  "video_proxy env k decoder decode img encoder encode rep fl src out pf fs p = Some (r, fs', p') \<Longrightarrow> fails fs' = fails fs"
  unfolding video_proxy_def
  by (auto simp: Let_def not_ok_unit split: sum.splits prod.splits dest!: open_video_keep sink_open_keep)

text \<open>The rate of the source, and the size and rate of its proxy.\<close>

definition source_rate_of :: "('d, 'm, 'h) video_source \<Rightarrow> f64" where
  "source_rate_of s = (if f64_lt f64_zero (frame_rate (source_info s)) then frame_rate (source_info s) else f64_30)"

definition proxy_rate :: "proxy_profile \<Rightarrow> ('d, 'm, 'h) video_source \<Rightarrow> f64" where
  "proxy_rate pf s = (case profile_rate pf of Some r \<Rightarrow> r | None \<Rightarrow> source_rate_of s)"

definition proxy_dims :: "proxy_profile \<Rightarrow> ('d, 'm, 'h) video_source \<Rightarrow> u32 \<times> u32" where
  "proxy_dims pf s = target_size pf (width (source_info s)) (height (source_info s))"

text \<open>
  The file holds the whole video of the source: the frames that the source delivers up to its end, no call of which fails,
  thinned out to the rate of the profile and resized, in a stream of the size and rate of the profile.
\<close>

definition whole_video :: "('m, 'h, 't) kinetix \<Rightarrow> 'd \<Rightarrow> 'd decode_fn \<Rightarrow> image_lib \<Rightarrow> string \<Rightarrow> string \<Rightarrow> proxy_profile
     \<Rightarrow> file_system \<Rightarrow> file_system \<Rightarrow> bool" where
  "whole_video k decoder decode img src out pf fs fs' \<longleftrightarrow>
     (\<exists>s n frames. open_video k decoder src fs = (Inr s, fs) \<and> source_frames n k decode s = Some (frames, None) \<and>
        complete_stream decode decoder out (proxy_dims pf s) (proxy_rate pf s)
          (map (resized img (proxy_dims pf s)) (resampled pf (proxy_rate pf s) (source_rate_of s) frames)) fs')"

text \<open>The source, when it opens, comes to its end or to an error.\<close>

definition video_ends :: "('m, 'h, 't) kinetix \<Rightarrow> 'd \<Rightarrow> 'd decode_fn \<Rightarrow> string \<Rightarrow> file_system \<Rightarrow> bool" where
  "video_ends k decoder decode src fs \<longleftrightarrow>
     (\<forall>s. open_video k decoder src fs = (Inr s, fs) \<longrightarrow> (\<exists>n. source_frames n k decode s \<noteq> None))"

text \<open>
  Nothing stands in the way: the profile is valid, the source delivers well-formed frames to its end, the encoder does not fail
  and the output can be created.
\<close>

definition video_ready :: "('m, 'h, 't) kinetix \<Rightarrow> 'd \<Rightarrow> 'd decode_fn \<Rightarrow> image_lib \<Rightarrow> 'e \<Rightarrow> 'e encode_fn \<Rightarrow> string \<Rightarrow> string
     \<Rightarrow> proxy_profile \<Rightarrow> file_system \<Rightarrow> bool" where
  "video_ready k decoder decode img encoder encode src out pf fs \<longleftrightarrow>
     profile_validate pf = Inr () \<and>
     (\<exists>s n frames sink fs1. open_video k decoder src fs = (Inr s, fs) \<and> source_frames n k decode s = Some (frames, None) \<and>
        (\<forall>f \<in> set frames. frame_fits img encode (proxy_dims pf s) f) \<and>
        sink_open [] encoder out pf (width (source_info s)) (height (source_info s)) (source_rate_of s) fs = (Inr sink, fs1))"

lemma proxy_header_valid:
  assumes "profile_validate pf = Inr ()" "f64_is_finite (frame_rate (source_info s))"
  shows "valid_header \<lparr>header_width = fst (proxy_dims pf s), header_height = snd (proxy_dims pf s), header_fps = proxy_rate pf s,
    header_frames = 0\<rparr>"
proof -
  have "f64_is_finite (proxy_rate pf s) \<and> \<not> f64_le (proxy_rate pf s) f64_zero"
    using source_rate_valid [OF assms(2)] profile_rate_valid [OF assms(1)]
    by (cases "profile_rate pf") (simp_all add: proxy_rate_def source_rate_of_def)
  then show ?thesis using target_size_positive by (simp add: valid_header_def proxy_dims_def)
qed

text \<open>The run once the source is open and the sink is created.\<close>

lemma video_proxy_run:
  assumes "lossless_codec encode decode" "profile_validate pf = Inr ()" "open_video k decoder src fs = (Inr s, fs)"
    "source_frames n k decode s = Some (frames, e)" "fails fs ReadCall (path_key out) = None" "f64_is_finite (frame_rate (source_info s))"
    "sink_open fl encoder out pf (width (source_info s)) (height (source_info s)) (source_rate_of s) fs = (Inr sink, fs2)"
  shows "\<exists>r fs' p'. video_proxy env k decoder decode img encoder encode rep fl src out pf fs p = Some (r, fs', p') \<and> fails fs' = fails fs \<and>
    (r = Inr () \<longrightarrow> whole_video k decoder decode img src out pf fs fs') \<and>
    (calm env rep p \<and> fl = [] \<and> e = None \<and> (\<forall>f \<in> set frames. frame_fits img encode (proxy_dims pf s) f) \<longrightarrow> r = Inr ())"
proof -
  let ?hdr = "\<lparr>header_width = fst (proxy_dims pf s), header_height = snd (proxy_dims pf s), header_fps = proxy_rate pf s, header_frames = 0\<rparr>"
  define keep where "keep = keep_frame pf (proxy_rate pf s) (source_rate_of s)"
  define tot where "tot = max 1 (unat (frame_count (source_info s)))"
  define kept where "kept = resampled pf (proxy_rate pf s) (source_rate_of s) frames"
  have new: "sink_holds decode ?hdr [] sink" "fl = [] \<longrightarrow> sink_fine sink"
    using sink_open_holds [OF assms(7)] by (simp_all add: proxy_dims_def proxy_rate_def)
  have same: "fails fs2 = fails fs" by (rule sink_open_keep [OF assms(7)])
  have kept: "kept_from keep 0 (- 1) frames = kept" by (simp add: keep_def kept_def kept_from_resampled)
  obtain r sink1 p1 where loop: "video_loop env k decode img encode rep keep tot 0 0 (- 1) s sink p = Some (r, sink1, p1)"
    "r = Inr () \<longrightarrow> e = None \<and> sink_holds decode ?hdr (map (resized img (proxy_dims pf s)) kept) sink1"
    "sink_fine sink \<and> calm env rep p \<and> e = None \<and> (\<forall>f \<in> set frames. frame_fits img encode (proxy_dims pf s) f) \<longrightarrow>
       r = Inr () \<and> sink_fine sink1"
    using video_loop_writes [OF assms(1,4) new(1), of env img rep keep tot 0 0 "- 1" p]
    unfolding stream_header.select_convs prod.collapse kept append_Nil by blast
  note run = assms(2,3,7) [unfolded source_rate_of_def]
  have body: "video_proxy env k decoder decode img encoder encode rep fl src out pf fs p =
      (case r of
         Inl d \<Rightarrow> Some (Inl d, settle out (writer_file (sink_writer sink1)) fs2, p1)
       | Inr _ \<Rightarrow> (case sink_finish sink1 of
            (Inl d, sink2) \<Rightarrow> Some (Inl d, settle out (writer_file (sink_writer sink2)) fs2, p1)
          | (Inr _, sink2) \<Rightarrow> Some (Inr (), settle out (writer_file (sink_writer sink2)) fs2, report rep f64_one p1)))"
    using run loop(1) unfolding keep_def tot_def proxy_rate_def source_rate_of_def
    by (simp add: video_proxy_def Let_def split: sum.splits prod.splits)
  show ?thesis
  proof (cases r)
    case (Inl d)
    with body same loop(3) new(2) show ?thesis by auto
  next
    case (Inr u)
    obtain y sink2 where fin: "sink_finish sink1 = (y, sink2)" by fastforce
    show ?thesis
    proof (cases y)
      case (Inl d)
      with body fin same \<open>r = Inr u\<close> loop(3) new(2) sink_finish_runs [of sink1] show ?thesis by auto
    next
      case ok: (Inr v)
      define fs3 where "fs3 = settle out (writer_file (sink_writer sink2)) fs2"
      have "e = None" and holds: "sink_holds decode ?hdr (map (resized img (proxy_dims pf s)) kept) sink1" using loop(2) Inr by simp_all
      have "read_file out fs3 = (Inr (content (buf_drop (writer_file (sink_writer sink2)))), fs3)"
        unfolding fs3_def by (rule read_settled) (use same assms(5) in simp)
      from finished_sink_complete [OF holds _ proxy_header_valid [OF assms(2,6)] this, of decoder] fin ok
      have "complete_stream decode decoder out (proxy_dims pf s) (proxy_rate pf s) (map (resized img (proxy_dims pf s)) kept) fs3" by simp
      with assms(3,4) \<open>e = None\<close> have "whole_video k decoder decode img src out pf fs fs3"
        unfolding whole_video_def kept_def by blast
      with body fin ok Inr same show ?thesis unfolding fs3_def by auto
    qed
  qed
qed

text \<open>A run that succeeds leaves the whole video, one that fails leaves no file.\<close>

lemma generate_video_proxy_leaves:
  assumes "video_ends k decoder decode src fs" "lossless_codec encode decode" "fails fs ReadCall (path_key out) = None"
    "fails fs RemoveFileCall (path_key out) = None"
    "\<forall>s. open_video k decoder src fs = (Inr s, fs) \<longrightarrow> f64_is_finite (frame_rate (source_info s))"
  shows "\<exists>r fs' p'. generate_video_proxy env k decoder decode img encoder encode rep fl src out pf fs p = Some (r, fs', p') \<and>
    (case r of Inl _ \<Rightarrow> \<not> is_file_node (nodes fs' (path_key out)) | Inr _ \<Rightarrow> whole_video k decoder decode img src out pf fs fs') \<and>
    (calm env rep p \<and> fl = [] \<and> video_ready k decoder decode img encoder encode src out pf fs \<longrightarrow> r = Inr ())"
proof -
  let ?ready = "video_ready k decoder decode img encoder encode src out pf fs"
  have "\<exists>r fs' p'. video_proxy env k decoder decode img encoder encode rep fl src out pf fs p = Some (r, fs', p') \<and> fails fs' = fails fs \<and>
      (r = Inr () \<longrightarrow> whole_video k decoder decode img src out pf fs fs') \<and> (calm env rep p \<and> fl = [] \<and> ?ready \<longrightarrow> r = Inr ())"
  proof (cases "profile_validate pf")
    case (Inl e)
    then show ?thesis by (simp add: video_proxy_def video_ready_def)
  next
    case (Inr u)
    then have valid: "profile_validate pf = Inr ()" by simp
    obtain x fs0 where opened: "open_video k decoder src fs = (x, fs0)" by fastforce
    have fs0: "fs0 = fs" by (rule open_video_keep [OF opened])
    show ?thesis
    proof (cases x)
      case (Inl e)
      with valid opened fs0 show ?thesis by (simp add: video_proxy_def video_ready_def)
    next
      case (Inr s)
      note op = opened [unfolded fs0 Inr]
      obtain n frames e where frames: "source_frames n k decode s = Some (frames, e)" using assms(1) op by (auto simp: video_ends_def)
      obtain y fs2 where new: "sink_open fl encoder out pf (width (source_info s)) (height (source_info s)) (source_rate_of s) fs = (y, fs2)"
        by fastforce
      have ready: "e = None \<and> (\<forall>f \<in> set frames. frame_fits img encode (proxy_dims pf s) f) \<and> (fl = [] \<longrightarrow> (\<exists>sink. y = Inr sink))"
        if ?ready
        using that op new source_frames_unique [OF frames] by (fastforce simp: video_ready_def)
      show ?thesis
      proof (cases y)
        case (Inl d)
        have "video_proxy env k decoder decode img encoder encode rep fl src out pf fs p = Some (Inl d, fs2, p)"
          using valid op new Inl by (simp add: video_proxy_def Let_def source_rate_of_def)
        with sink_open_keep [OF new] ready Inl show ?thesis by auto
      next
        case (Inr sink)
        have rate: "f64_is_finite (frame_rate (source_info s))" using assms(5) op by blast
        obtain r fs' p' where "video_proxy env k decoder decode img encoder encode rep fl src out pf fs p = Some (r, fs', p')" "fails fs' = fails fs"
          "r = Inr () \<longrightarrow> whole_video k decoder decode img src out pf fs fs'"
          "calm env rep p \<and> fl = [] \<and> e = None \<and> (\<forall>f \<in> set frames. frame_fits img encode (proxy_dims pf s) f) \<longrightarrow> r = Inr ()"
          using video_proxy_run [OF assms(2) valid op frames assms(3) rate new [unfolded Inr], of env img rep p] by blast
        with ready show ?thesis by blast
      qed
    qed
  qed
  then obtain r fs' p' where run: "video_proxy env k decoder decode img encoder encode rep fl src out pf fs p = Some (r, fs', p')"
    "fails fs' = fails fs" "r = Inr () \<longrightarrow> whole_video k decoder decode img src out pf fs fs'" "calm env rep p \<and> fl = [] \<and> ?ready \<longrightarrow> r = Inr ()"
    by blast
  then show ?thesis
    using remove_partial_gone [of fs' out] assms(4) by (cases r) (auto simp: generate_video_proxy_def)
qed

end
