(* ===== verification/Endings.thy ===== *)
theory Endings
  imports Proxies
begin

text \<open>
  Why the generation of a video proxy returns: a proxy stream ends behind its frame table, and an MP4 source
  ends when its demuxer has no more packets.  Every frame that is delivered uses up an entry of the table or a
  packet, so the calls of \<open>source_frames\<close> come to an end, and with them the loop of \<open>video_proxy.rs\<close>.
\<close>

text \<open>The demuxer has fewer than \<open>n\<close> packets left.\<close>

fun packets_end :: "('m, 'h, 't) kinetix \<Rightarrow> nat \<Rightarrow> 'm \<Rightarrow> bool" where
  "packets_end k 0 m = False"
| "packets_end k (Suc n) m = (case mp4_read k m of (Inr (Some _), m') \<Rightarrow> packets_end k n m' | _ \<Rightarrow> True)"

subsection \<open>Proxy streams\<close>

lemma stream_next_frame_advances:
  "stream_next_frame decode s = (Inr (Some frame), s') \<Longrightarrow>
     next_index s < length (stream_offsets s) \<and> next_index s < next_index s' \<and> stream_offsets s' = stream_offsets s"
proof (induction decode s arbitrary: s' rule: stream_next_frame.induct)
  case (1 decode s)
  obtain r s1 where at: "decode_at decode (next_index s) s = (r, s1)" by fastforce
  obtain frame1 where r: "r = Inr (Some frame1)"
    using 1(2) at by (subst (asm) stream_next_frame.simps) (auto split: sum.splits option.splits)
  note keeps = decode_at_Some [OF at [unfolded r]]
  show ?case
  proof (cases "\<exists>t. seek_target s1 = Some t \<and> before_target (header_fps (stream_header s1)) frame1 t")
    case True
    then obtain t where t: "seek_target s1 = Some t" "before_target (header_fps (stream_header s1)) frame1 t" by blast
    have "stream_next_frame decode (s1\<lparr>next_index := next_index s1 + 1\<rparr>) = (Inr (Some frame), s')"
      using 1(2) at r t by (subst (asm) stream_next_frame.simps) simp
    from 1(1) [OF at [symmetric] r refl refl _ _ this] t keeps show ?thesis by simp
  next
    case False
    with 1(2) at r keeps show ?thesis
      by (subst (asm) stream_next_frame.simps) (auto simp: Let_def split: option.splits if_splits)
  qed
qed

lemma proxy_stream_ends: "length (stream_offsets s) - next_index s < n \<Longrightarrow> source_frames n k decode (ProxyStream s) \<noteq> None"
proof (induction n arbitrary: s)
  case (Suc n)
  obtain r s' where run: "stream_next_frame decode s = (r, s')" by fastforce
  show ?case
  proof (cases "\<exists>frame. r = Inr (Some frame)")
    case True
    then obtain frame where r: "r = Inr (Some frame)" by blast
    with Suc.prems stream_next_frame_advances [OF run [unfolded r]] have "length (stream_offsets s') - next_index s' < n" by auto
    from Suc.IH [OF this] run r show ?thesis by auto
  qed (use run in \<open>auto split: sum.splits option.splits\<close>)
qed simp

subsection \<open>MP4 sources\<close>

text \<open>The frames buffered and the packets to come are at most \<open>n\<close>.\<close>

definition frames_left :: "('m, 'h, 't) kinetix \<Rightarrow> nat \<Rightarrow> ('m, 'h) mp4_source \<Rightarrow> bool" where
  "frames_left k n s \<longleftrightarrow>
     (\<exists>m. (mp4_exhausted s \<or> packets_end k m (mp4_demuxer s)) \<and> m + length (mp4_buffered s) \<le> n)"

lemma mp4_take_packet_grows:
  "mp4_take_packet k packet s = (r, s') \<Longrightarrow>
     length (mp4_buffered s') \<le> length (mp4_buffered s) + 1 \<and> mp4_demuxer s' = mp4_demuxer s \<and> mp4_exhausted s' = mp4_exhausted s"
  unfolding mp4_take_packet_def by (auto simp: Let_def split: sum.splits prod.splits option.splits if_splits)

lemma mp4_fill_returns:
  assumes "packets_end k m (mp4_demuxer s)" "m + length (mp4_buffered s) \<le> n"
  shows "\<exists>r s'. mp4_fill k s = Some (r, s') \<and> (r = Inr () \<longrightarrow> frames_left k n s' \<and> (mp4_buffered s' \<noteq> [] \<or> mp4_exhausted s'))"
  using assms
proof (induction m arbitrary: s)
  case (Suc m)
  show ?case
  proof (cases "mp4_buffered s \<noteq> [] \<or> mp4_exhausted s")
    case True
    then have "mp4_fill k s = Some (Inr (), s)" by (subst mp4_fill.simps) simp
    moreover have "frames_left k n s" unfolding frames_left_def using Suc.prems by blast
    ultimately show ?thesis using True by simp
  next
    case False
    obtain got m' where read: "mp4_read k (mp4_demuxer s) = (got, m')" by fastforce
    let ?s = "s\<lparr>mp4_demuxer := m'\<rparr>"
    consider e where "got = Inl e" | "got = Inr None" | packet where "got = Inr (Some packet)"
      by (cases got; cases "projr got") auto
    then show ?thesis
    proof cases
      case 1
      with False read have "mp4_fill k s = Some (Inl (codec e), ?s)" by (subst mp4_fill.simps) simp
      then show ?thesis by simp
    next
      case 2
      with False read have "mp4_fill k s = Some (Inr (), ?s\<lparr>mp4_exhausted := True\<rparr>)" by (subst mp4_fill.simps) simp
      moreover have "frames_left k n (?s\<lparr>mp4_exhausted := True\<rparr>)" using False by (auto simp: frames_left_def)
      ultimately show ?thesis by simp
    next
      case (3 packet)
      have ends: "packets_end k m m'" "m + length (mp4_buffered s) < n" using Suc.prems read 3 by auto
      show ?thesis
      proof (cases "packet_stream packet \<noteq> of_nat (mp4_index s)")
        case True
        with False read 3 have "mp4_fill k s = mp4_fill k ?s" by (subst mp4_fill.simps) simp
        with Suc.IH [of ?s] ends show ?thesis by simp
      next
        case mine: False
        obtain r s' where take_: "mp4_take_packet k packet ?s = (r, s')" by fastforce
        note grows = mp4_take_packet_grows [OF take_]
        have left: "packets_end k m (mp4_demuxer s')" "m + length (mp4_buffered s') \<le> n" using grows ends by auto
        show ?thesis
        proof (cases r)
          case (Inl e)
          with False read 3 mine take_ have "mp4_fill k s = Some (Inl e, s')" by (subst mp4_fill.simps) simp
          then show ?thesis by simp
        next
          case (Inr u)
          with False read 3 mine take_ have "mp4_fill k s = mp4_fill k s'" by (subst mp4_fill.simps) simp
          with Suc.IH [OF left] show ?thesis by simp
        qed
      qed
    qed
  qed
qed simp

lemma mp4_next_frame_returns:
  "frames_left k n s \<Longrightarrow> \<exists>r s'. mp4_next_frame k s = Some (r, s') \<and>
     (\<forall>frame. r = Inr (Some frame) \<longrightarrow> (\<exists>n' < n. frames_left k n' s'))"
proof (induction n arbitrary: s rule: less_induct)
  case (less n)
  have "\<exists>r s1. mp4_fill k s = Some (r, s1) \<and>
      (r = Inr () \<longrightarrow> frames_left k n s1 \<and> (mp4_buffered s1 \<noteq> [] \<or> mp4_exhausted s1))"
  proof (cases "mp4_exhausted s")
    case True
    then have "mp4_fill k s = Some (Inr (), s)" by (subst mp4_fill.simps) simp
    with True less.prems show ?thesis by simp
  next
    case False
    then obtain m where "packets_end k m (mp4_demuxer s)" "m + length (mp4_buffered s) \<le> n"
      using less.prems by (auto simp: frames_left_def)
    then show ?thesis by (rule mp4_fill_returns)
  qed
  then obtain r s1 where fill: "mp4_fill k s = Some (r, s1)"
    and ok: "r = Inr () \<longrightarrow> frames_left k n s1 \<and> (mp4_buffered s1 \<noteq> [] \<or> mp4_exhausted s1)" by blast
  show ?case
  proof (cases r)
    case (Inl e)
    with fill have "mp4_next_frame k s = Some (Inl e, s1)" by (subst mp4_next_frame.simps) simp
    then show ?thesis by simp
  next
    case (Inr u)
    with ok have left: "frames_left k n s1" "mp4_buffered s1 \<noteq> [] \<or> mp4_exhausted s1" by simp_all
    show ?thesis
    proof (cases "mp4_buffered s1")
      case Nil
      with fill Inr left have "mp4_next_frame k s = Some (Inr None, s1\<lparr>mp4_target := None\<rparr>)"
        by (subst mp4_next_frame.simps) simp
      then show ?thesis by simp
    next
      case (Cons frame rest)
      let ?s = "s1\<lparr>mp4_buffered := rest\<rparr>"
      have fewer: "\<exists>n' < n. frames_left k n' ?s \<and> frames_left k n' (?s\<lparr>mp4_target := t\<rparr>)" for t
      proof -
        obtain m where "mp4_exhausted s1 \<or> packets_end k m (mp4_demuxer s1)" "m + length (mp4_buffered s1) \<le> n"
          using left(1) by (auto simp: frames_left_def)
        with Cons show ?thesis by (intro exI [of _ "m + length rest"]) (auto simp: frames_left_def)
      qed
      show ?thesis
      proof (cases "\<exists>t. mp4_target s1 = Some t \<and> before_target (frame_rate (mp4_video s1)) frame t")
        case True
        then have "mp4_next_frame k s = mp4_next_frame k ?s" using fill Inr Cons by (subst mp4_next_frame.simps) auto
        moreover obtain n' where "n' < n" "frames_left k n' ?s" using fewer by blast
        ultimately show ?thesis using less.IH [of n' ?s] by (metis less_trans)
      next
        case False
        then have "\<exists>t. mp4_next_frame k s = Some (Inr (Some frame), ?s\<lparr>mp4_target := t\<rparr>)"
          using fill Inr Cons
          by (subst mp4_next_frame.simps) (cases "mp4_target s1"; auto intro: exI [of _ None])
        then obtain t where "mp4_next_frame k s = Some (Inr (Some frame), ?s\<lparr>mp4_target := t\<rparr>)" by blast
        moreover obtain n' where "n' < n" "frames_left k n' (?s\<lparr>mp4_target := t\<rparr>)" using fewer [of t] by blast
        ultimately show ?thesis by blast
      qed
    qed
  qed
qed

lemma mp4_source_ends: "frames_left k n s \<Longrightarrow> source_frames (Suc n) k decode (Mp4H264 s) \<noteq> None"
proof (induction n arbitrary: s rule: less_induct)
  case (less n)
  obtain r s' where run: "mp4_next_frame k s = Some (r, s')" and
    fewer: "\<forall>frame. r = Inr (Some frame) \<longrightarrow> (\<exists>n' < n. frames_left k n' s')"
    using mp4_next_frame_returns [OF less.prems] by blast
  show ?case
  proof (cases "\<exists>frame. r = Inr (Some frame)")
    case True
    then obtain frame n' where r: "r = Inr (Some frame)" and n': "n' < n" "frames_left k n' s'" using fewer by blast
    have "source_frames (Suc n') k decode (Mp4H264 s') \<noteq> None" by (rule less.IH [OF n'])
    then obtain x where "source_frames (Suc n') k decode (Mp4H264 s') = Some x" by blast
    from source_frames_more [OF this Suc_leI [OF n'(1)]] run r show ?thesis by simp
  qed (use run in \<open>auto split: sum.splits option.splits\<close>)
qed

subsection \<open>The proxy\<close>

text \<open>The packets of an MP4 source come to an end, and it has a finite frame rate.\<close>

definition finite_source :: "('m, 'h, 't) kinetix \<Rightarrow> 'd \<Rightarrow> string \<Rightarrow> file_system \<Rightarrow> bool" where
  "finite_source k decoder p fs \<longleftrightarrow>
     (\<forall>s. open_video k decoder p fs = (Inr (Mp4H264 s), fs) \<longrightarrow> (\<exists>n. packets_end k n (mp4_demuxer s)) \<and> f64_is_finite (frame_rate (mp4_video s)))"

lemma finite_source_ends: "finite_source k decoder src fs \<Longrightarrow> video_ends k decoder decode src fs"
  unfolding video_ends_def
proof (intro allI impI)
  fix s assume fin: "finite_source k decoder src fs" and open_: "open_video k decoder src fs = (Inr s, fs)"
  show "\<exists>n. source_frames n k decode s \<noteq> None"
  proof (cases s)
    case (ProxyStream x)
    then show ?thesis using proxy_stream_ends [of x] by blast
  next
    case (Mp4H264 x)
    with open_ fin obtain n where "packets_end k n (mp4_demuxer x)" by (auto simp: finite_source_def)
    then have "frames_left k (n + length (mp4_buffered x)) x" unfolding frames_left_def by blast
    with Mp4H264 mp4_source_ends show ?thesis by blast
  qed
qed

lemma file_read_exact_length: "file_read_exact n f = (Inr bs, f') \<Longrightarrow> length bs = n"
  by (auto simp: file_read_exact_def slice_def split: prod.splits option.splits if_splits)

lemma proxy_stream_rate: "proxy_stream_open d p fs = (Inr s, fs') \<Longrightarrow> f64_is_finite (frame_rate (stream_video s))"
  unfolding proxy_stream_open_def
  by (auto elim!: then_tryE simp: Let_def header_read_def give_def valid_header_def
      dest!: header_parse_Inr [rotated] dest: file_read_exact_length split: sum.splits prod.splits if_splits)

lemma finite_source_rate:
  assumes "finite_source k decoder p fs" "open_video k decoder p fs = (Inr s, fs)"
  shows "f64_is_finite (frame_rate (source_info s))"
proof (cases s)
  case (ProxyStream x)
  with assms(2) have "\<exists>fs1. proxy_stream_open decoder p fs1 = (Inr x, fs)"
    by (auto simp: open_video_def Let_def then_try_eq_Inr give_def fail_def split: if_splits)
  with ProxyStream show ?thesis using proxy_stream_rate by auto
qed (use assms in \<open>auto simp: finite_source_def\<close>)

end
