(* ===== verification/Debounce.thy ===== *)
theory Debounce
  imports Prelude Files
begin

text \<open>
  File events (\<open>tpt-av-asset-watcher/src/event.rs\<close>) and their debouncer (\<open>debounce.rs\<close>).

  Times are natural numbers of nanoseconds.  The pending events are a map from paths, which \<open>HashMap\<close>
  compares by component; the order in which a hash map is iterated is the parameter \<open>order\<close>, with the law
  \<open>hash_iterates\<close>.  The abstract debouncer is the history of what was pushed and what came out: \<open>latest\<close> is the
  event of a path that was pushed last and has not come out.
\<close>

subsection \<open>Events\<close>

datatype file_event_type = Created | Modified | Deleted | Renamed string

definition is_invalidation_trigger :: "file_event_type \<Rightarrow> bool" where
  "is_invalidation_trigger t \<longleftrightarrow> t \<noteq> Created"

record file_event =
  event_type :: file_event_type
  event_path :: string
  event_time :: nat

definition event_now :: "nat \<Rightarrow> file_event_type \<Rightarrow> string \<Rightarrow> file_event" where
  "event_now clock t p = \<lparr>event_type = t, event_path = p, event_time = clock\<rparr>"

abbreviation event_key :: "file_event \<Rightarrow> file_key" where "event_key e \<equiv> path_key (event_path e)"

subsection \<open>Hash maps\<close>

type_synonym ('k, 'v) hash_order = "('k \<rightharpoonup> 'v) \<Rightarrow> ('k \<times> 'v) list"

definition hash_iterates :: "('k, 'v) hash_order \<Rightarrow> bool" where
  "hash_iterates order \<longleftrightarrow> (\<forall>m. finite (dom m) \<longrightarrow> distinct (map fst (order m)) \<and> map_of (order m) = m)"

lemma hash_iterates_set: "hash_iterates order \<Longrightarrow> finite (dom m) \<Longrightarrow> (k, v) \<in> set (order m) \<longleftrightarrow> m k = Some v"
  by (metis hash_iterates_def map_of_eq_Some_iff)

lemma hash_iterates_length: "hash_iterates order \<Longrightarrow> finite (dom m) \<Longrightarrow> length (order m) = card (dom m)"
  by (metis hash_iterates_def distinct_card dom_map_of_conv_image_fst list.set_map length_map)

subsection \<open>The debouncer\<close>

record debouncer =
  window :: nat
  pending_events :: "file_key \<rightharpoonup> file_event \<times> nat"

definition debouncer_new :: "nat \<Rightarrow> debouncer" where
  "debouncer_new w = \<lparr>window = w, pending_events = Map.empty\<rparr>"

definition debouncer_push :: "file_event \<Rightarrow> nat \<Rightarrow> debouncer \<Rightarrow> debouncer" where
  "debouncer_push e clock d = d\<lparr>pending_events := (pending_events d)(event_key e \<mapsto> (e, clock + window d))\<rparr>"

text \<open>\<open>min_by_key\<close>: the first of the least.\<close>

fun min_by_key :: "('a \<Rightarrow> 'b :: linorder) \<Rightarrow> 'a list \<Rightarrow> 'a option" where
  "min_by_key f [] = None"
| "min_by_key f (x # xs) = Some (foldl (\<lambda>best y. if f y < f best then y else best) x xs)"

definition debouncer_pop_ready :: "(file_key, file_event \<times> nat) hash_order \<Rightarrow> nat \<Rightarrow> debouncer \<Rightarrow> file_event option \<times> debouncer" where
  "debouncer_pop_ready order clock d =
     (case min_by_key (\<lambda>(_, _, ready_at). ready_at) (filter (\<lambda>(_, _, ready_at). ready_at \<le> clock) (order (pending_events d))) of
        None \<Rightarrow> (None, d)
      | Some (k, e, _) \<Rightarrow> (Some e, d\<lparr>pending_events := (pending_events d)(k := None)\<rparr>))"

definition debouncer_flush :: "(file_key, file_event \<times> nat) hash_order \<Rightarrow> debouncer \<Rightarrow> file_event list \<times> debouncer" where
  "debouncer_flush order d =
     (let events = map (\<lambda>(_, e, ready_at). (ready_at, e)) (order (pending_events d)) in
      (map snd (sort_key fst events), d\<lparr>pending_events := Map.empty\<rparr>))"

definition debouncer_len :: "(file_key, file_event \<times> nat) hash_order \<Rightarrow> debouncer \<Rightarrow> nat" where
  "debouncer_len order d = length (order (pending_events d))"

definition debouncer_is_empty :: "(file_key, file_event \<times> nat) hash_order \<Rightarrow> debouncer \<Rightarrow> bool" where
  "debouncer_is_empty order d \<longleftrightarrow> order (pending_events d) = []"

subsection \<open>What comes out\<close>

lemma foldl_min_by:
  "foldl (\<lambda>best y. if f y < f best then y else best) x xs \<in> insert x (set xs) \<and>
   (\<forall>y \<in> insert x (set xs). (f :: 'a \<Rightarrow> 'b :: linorder) (foldl (\<lambda>best y. if f y < f best then y else best) x xs) \<le> f y)"
proof (induction xs arbitrary: x)
  case (Cons a xs)
  define b where "b = (if f a < f x then a else x)"
  have "f b \<le> f x" "f b \<le> f a" "b = a \<or> b = x" by (auto simp: b_def)
  with Cons.IH [of b] show ?case by (auto simp: b_def [symmetric] intro: order_trans)
qed simp

lemma min_by_key_None [simp]: "min_by_key f xs = None \<longleftrightarrow> xs = []"
  by (cases xs) simp_all

lemma min_by_key_Some: "min_by_key f xs = Some x \<Longrightarrow> x \<in> set xs \<and> (\<forall>y \<in> set xs. f x \<le> f y)"
  using foldl_min_by by (cases xs) fastforce+

definition debouncer_ok :: "debouncer \<Rightarrow> bool" where
  "debouncer_ok d \<longleftrightarrow> finite (dom (pending_events d)) \<and> (\<forall>k e r. pending_events d k = Some (e, r) \<longrightarrow> event_key e = k)"

lemma debouncer_new_ok: "debouncer_ok (debouncer_new w)"
  by (simp add: debouncer_ok_def debouncer_new_def)

lemma debouncer_push_ok: "debouncer_ok d \<Longrightarrow> debouncer_ok (debouncer_push e t d)"
  by (simp add: debouncer_ok_def debouncer_push_def)

lemma debouncer_pop_ready_cases:
  assumes "hash_iterates order" "debouncer_ok d"
  obtains "debouncer_pop_ready order t d = (None, d)" "\<forall>k e r. pending_events d k = Some (e, r) \<longrightarrow> t < r"
  | e r where "debouncer_pop_ready order t d = (Some e, d\<lparr>pending_events := (pending_events d)(event_key e := None)\<rparr>)"
      "pending_events d (event_key e) = Some (e, r)" "r \<le> t" "\<forall>k e' r'. pending_events d k = Some (e', r') \<longrightarrow> r \<le> r'"
proof (cases "min_by_key (\<lambda>(_, _, ready_at). ready_at) (filter (\<lambda>(_, _, ready_at). ready_at \<le> t) (order (pending_events d)))")
  case None
  have fin: "finite (dom (pending_events d))" using assms(2) by (simp add: debouncer_ok_def)
  show ?thesis
  proof (rule that(1))
    show "debouncer_pop_ready order t d = (None, d)" using None by (simp add: debouncer_pop_ready_def)
    show "\<forall>k e r. pending_events d k = Some (e, r) \<longrightarrow> t < r"
      using None hash_iterates_set [OF assms(1) fin] by (fastforce simp: filter_empty_conv not_le)
  qed
next
  case (Some x)
  obtain k e r where x: "x = (k, e, r)" by (cases x)
  have fin: "finite (dom (pending_events d))" using assms(2) by (simp add: debouncer_ok_def)
  note least = min_by_key_Some [OF Some]
  have p: "pending_events d k = Some (e, r)" "r \<le> t" using least x hash_iterates_set [OF assms(1) fin] by auto
  then have key: "event_key e = k" using assms(2) unfolding debouncer_ok_def by blast
  show ?thesis
  proof (rule that(2))
    show "debouncer_pop_ready order t d = (Some e, d\<lparr>pending_events := (pending_events d)(event_key e := None)\<rparr>)"
      using Some x key by (simp add: debouncer_pop_ready_def)
    show "\<forall>k e' r'. pending_events d k = Some (e', r') \<longrightarrow> r \<le> r'"
    proof (intro allI impI)
      fix k e' r' assume "pending_events d k = Some (e', r')"
      with hash_iterates_set [OF assms(1) fin] have "(k, e', r') \<in> set (order (pending_events d))" by blast
      then have "r' \<le> t \<Longrightarrow> (k, e', r') \<in> set (filter (\<lambda>(_, _, ready_at). ready_at \<le> t) (order (pending_events d)))" by simp
      from bspec [OF conjunct2 [OF least] this] x p(2) show "r \<le> r'" by (cases "r' \<le> t") simp_all
    qed
  qed (use p key in simp_all)
qed

subsection \<open>Histories\<close>

datatype debounce_op = Push file_event nat | Pop nat | Flush
datatype debounce_step = Pushed file_event nat | Popped file_event nat | Flushed "file_event list" | Idle nat

definition debounce_do :: "(file_key, file_event \<times> nat) hash_order \<Rightarrow> debounce_op \<Rightarrow> debouncer \<Rightarrow> debounce_step \<times> debouncer" where
  "debounce_do order op d =
     (case op of
        Push e t \<Rightarrow> (Pushed e t, debouncer_push e t d)
      | Pop t \<Rightarrow> (case debouncer_pop_ready order t d of (Some e, d) \<Rightarrow> (Popped e t, d) | (None, d) \<Rightarrow> (Idle t, d))
      | Flush \<Rightarrow> (case debouncer_flush order d of (es, d) \<Rightarrow> (Flushed es, d)))"

fun debounce_run :: "(file_key, file_event \<times> nat) hash_order \<Rightarrow> debounce_op list \<Rightarrow> debouncer \<Rightarrow> debounce_step list \<times> debouncer" where
  "debounce_run order [] d = ([], d)"
| "debounce_run order (op # ops) d =
     (case debounce_do order op d of (x, d) \<Rightarrow> case debounce_run order ops d of (xs, d) \<Rightarrow> (x # xs, d))"

text \<open>The event of each path that was pushed last and has not come out, with the time of the push.\<close>

fun latest_step :: "debounce_step \<Rightarrow> (file_key \<rightharpoonup> file_event \<times> nat) \<Rightarrow> file_key \<rightharpoonup> file_event \<times> nat" where
  "latest_step (Pushed e t) m = m(event_key e \<mapsto> (e, t))"
| "latest_step (Popped e _) m = m(event_key e := None)"
| "latest_step (Flushed _) m = Map.empty"
| "latest_step (Idle _) m = m"

definition latest :: "debounce_step list \<Rightarrow> file_key \<rightharpoonup> file_event \<times> nat" where
  "latest h = foldl (\<lambda>m x. latest_step x m) Map.empty h"

text \<open>What may come out after a history: of a pop, one of the events that have been quiet longest, if it has
  been quiet for the window, and nothing exactly if there is none such; of a flush, all, those that have been
  quiet longest first.\<close>

fun step_allowed :: "nat \<Rightarrow> (file_key \<rightharpoonup> file_event \<times> nat) \<Rightarrow> debounce_step \<Rightarrow> bool" where
  "step_allowed w m (Pushed e t) = True"
| "step_allowed w m (Popped e t) =
     (\<exists>t0. m (event_key e) = Some (e, t0) \<and> t0 + w \<le> t \<and> (\<forall>k e' t'. m k = Some (e', t') \<longrightarrow> t0 \<le> t'))"
| "step_allowed w m (Idle t) = (\<forall>k e t0. m k = Some (e, t0) \<longrightarrow> t < t0 + w)"
| "step_allowed w m (Flushed es) =
     (distinct (map event_key es) \<and> set es = {e. \<exists>k t. m k = Some (e, t)} \<and>
      sorted (map (\<lambda>e. snd (the (m (event_key e)))) es))"

fun history_allowed :: "nat \<Rightarrow> (file_key \<rightharpoonup> file_event \<times> nat) \<Rightarrow> debounce_step list \<Rightarrow> bool" where
  "history_allowed w m [] = True"
| "history_allowed w m (x # xs) = (step_allowed w m x \<and> history_allowed w (latest_step x m) xs)"

definition pending_of :: "nat \<Rightarrow> (file_key \<rightharpoonup> file_event \<times> nat) \<Rightarrow> file_key \<rightharpoonup> file_event \<times> nat" where
  "pending_of w m = (\<lambda>k. map_option (\<lambda>(e, t). (e, t + w)) (m k))"

text \<open>The debouncer refines the history: its pending events are the latest ones.\<close>

lemma pending_of_Some: "pending_of w m k = Some (e, r) \<longleftrightarrow> (\<exists>t. m k = Some (e, t) \<and> r = t + w)"
  by (auto simp: pending_of_def)

lemma pending_of_upd: "pending_of w (m(k \<mapsto> (e, t))) = (pending_of w m)(k \<mapsto> (e, t + w))" "pending_of w (m(k := None)) = (pending_of w m)(k := None)"
  "pending_of w Map.empty = Map.empty"
  by (auto simp: pending_of_def fun_eq_iff)

lemma dom_pending_of: "dom (pending_of w m) = dom m"
  by (auto simp: pending_of_def)

lemma debouncer_flush_allowed:
  assumes "hash_iterates order" "debouncer_ok d" "pending_events d = pending_of (window d) m"
    "debouncer_flush order d = (es, d')"
  shows "step_allowed (window d) m (Flushed es) \<and> d' = d\<lparr>pending_events := Map.empty\<rparr>"
proof -
  let ?w = "window d" and ?p = "pending_events d"
  define xs where "xs = order ?p"
  define ys where "ys = sort_key fst (map (\<lambda>(_, e, r). (r, e)) xs)"
  have fin: "finite (dom ?p)" and keys: "?p k = Some (e, r) \<Longrightarrow> event_key e = k" for k e r
    using assms(2) unfolding debouncer_ok_def by blast+
  have es: "es = map snd ys" "d' = d\<lparr>pending_events := Map.empty\<rparr>"
    using assms(4) by (simp_all add: debouncer_flush_def Let_def xs_def ys_def)
  have member: "(k, e, r) \<in> set xs \<longleftrightarrow> ?p k = Some (e, r)" for k e r
    unfolding xs_def by (rule hash_iterates_set [OF assms(1) fin])
  have key: "event_key (fst (snd x)) = fst x" if "x \<in> set xs" for x
    using that member keys by (metis prod.collapse)
  have in_ys: "(r, e) \<in> set ys \<longleftrightarrow> ?p (event_key e) = Some (e, r)" for r e
  proof -
    have "(r, e) \<in> set ys \<longleftrightarrow> (\<exists>k. (k, e, r) \<in> set xs)" by (simp add: ys_def image_iff split_beta) (metis fst_conv snd_conv prod.collapse)
    also have "\<dots> \<longleftrightarrow> (\<exists>k. ?p k = Some (e, r))" using member by blast
    also have "\<dots> \<longleftrightarrow> ?p (event_key e) = Some (e, r)" using keys by blast
    finally show ?thesis .
  qed
  have "distinct (map fst xs)" using assms(1) fin by (simp add: xs_def hash_iterates_def)
  moreover have "map fst xs = map (\<lambda>y. event_key (snd y)) (map (\<lambda>(_, e, r). (r, e)) xs)"
    using key by (simp add: case_prod_beta)
  ultimately have "distinct (map (\<lambda>y. event_key (snd y)) (map (\<lambda>(_, e, r). (r, e)) xs))" by simp
  then have "distinct (map (\<lambda>y. event_key (snd y)) ys)"
    unfolding ys_def by (metis distinct_map distinct_sort set_sort)
  then have "distinct (map event_key es)" by (simp add: es(1) comp_def)
  moreover have "set es = {e. \<exists>k t. m k = Some (e, t)}"
  proof -
    have "e \<in> set es \<longleftrightarrow> (\<exists>r. ?p (event_key e) = Some (e, r))" for e using in_ys es(1) by force
    moreover have "(\<exists>r. ?p (event_key e) = Some (e, r)) \<longleftrightarrow> (\<exists>k t. m k = Some (e, t))" for e
      using keys unfolding assms(3) pending_of_Some by blast
    ultimately show ?thesis by blast
  qed
  moreover have "sorted (map (\<lambda>e. snd (the (m (event_key e)))) es)"
  proof -
    have "snd (the (m (event_key (snd y)))) = fst y - ?w \<and> ?w \<le> fst y" if "y \<in> set ys" for y
      using that in_ys [of "fst y" "snd y"] unfolding assms(3) pending_of_Some by auto
    then have "map (\<lambda>e. snd (the (m (event_key e)))) es = map (\<lambda>y. fst y - ?w) ys"
      by (simp add: es(1))
    moreover have "sorted (map fst ys)" by (simp add: ys_def)
    then have "sorted_wrt (\<lambda>x y. fst x \<le> fst y) ys" by (simp only: sorted_map)
    then have "sorted_wrt (\<lambda>x y. fst x - ?w \<le> fst y - ?w) ys"
      by (rule sorted_wrt_mono_rel [rotated]) (simp add: diff_le_mono)
    then have "sorted (map (\<lambda>y. fst y - ?w) ys)" by (simp only: sorted_map)
    ultimately show ?thesis by simp
  qed
  ultimately show ?thesis unfolding step_allowed.simps using es(2) by blast
qed

lemma debounce_do_allowed:
  assumes "hash_iterates order" "debouncer_ok d" "pending_events d = pending_of (window d) m" "debounce_do order op d = (x, d')"
  shows "step_allowed (window d) m x \<and> debouncer_ok d' \<and> window d' = window d \<and>
    pending_events d' = pending_of (window d) (latest_step x m)"
proof (cases op)
  case (Push e t)
  with assms show ?thesis
    by (auto simp: debounce_do_def pending_of_upd debouncer_push_ok) (simp_all add: debouncer_push_def)
next
  case (Pop t)
  from assms(1,2) show ?thesis
  proof (cases rule: debouncer_pop_ready_cases [of _ _ t])
    case 1
    then have x: "x = Idle t" "d' = d" using assms(4) Pop by (simp_all add: debounce_do_def)
    have "t < t0 + window d" if "m k = Some (e, t0)" for k e t0
      using 1(2) that unfolding assms(3) pending_of_Some by blast
    with x assms(2,3) show ?thesis by (simp only: step_allowed.simps latest_step.simps) blast
  next
    case (2 e r)
    have x: "x = Popped e t" "d' = d\<lparr>pending_events := (pending_events d)(event_key e := None)\<rparr>"
      using assms(4) Pop 2(1) by (simp_all add: debounce_do_def)
    obtain t0 where t0: "m (event_key e) = Some (e, t0)" "r = t0 + window d"
      using 2(2) unfolding assms(3) pending_of_Some by blast
    have "\<forall>k e' t'. m k = Some (e', t') \<longrightarrow> t0 \<le> t'"
      using 2(4) t0(2) unfolding assms(3) pending_of_Some by (metis add_le_cancel_right)
    with t0 2(3) have "step_allowed (window d) m x" unfolding x step_allowed.simps by blast
    moreover have "debouncer_ok d'" using assms(2) by (simp add: x debouncer_ok_def)
    ultimately show ?thesis using assms(3) by (simp add: x pending_of_upd)
  qed
next
  case Flush
  obtain es d1 where f: "debouncer_flush order d = (es, d1)" by fastforce
  with assms(4) Flush have "x = Flushed es" "d' = d1" by (simp_all add: debounce_do_def)
  with debouncer_flush_allowed [OF assms(1-3) f] show ?thesis by (simp add: debouncer_ok_def pending_of_upd)
qed

lemma debounce_run_allowed:
  assumes "hash_iterates order" "debouncer_ok d" "pending_events d = pending_of (window d) m" "debounce_run order ops d = (h, d')"
  shows "history_allowed (window d) m h \<and> debouncer_ok d' \<and>
    pending_events d' = pending_of (window d) (foldl (\<lambda>m x. latest_step x m) m h)"
  using assms(2-)
proof (induction ops arbitrary: d m h)
  case (Cons op ops)
  obtain x d1 where do_: "debounce_do order op d = (x, d1)" by fastforce
  obtain xs where run: "debounce_run order ops d1 = (xs, d')" "h = x # xs" using Cons.prems do_ by (auto split: prod.splits)
  note step = debounce_do_allowed [OF assms(1) Cons.prems(1,2) do_]
  from Cons.IH [of d1 "latest_step x m" xs] step run show ?case by simp
qed simp

end
