(* ===== verification/Polling.thy ===== *)
theory Polling
  imports Debounce AssetIds
begin

text \<open>
  The polling backend of the watcher (\<open>tpt-av-asset-watcher/src/backend/read_dir.rs\<close>): scans of the watched
  trees and the events of their differences.

  What the system answers about a directory is the parameter \<open>ls\<close>: a failure, or its entries in the order of
  the listing, each a failure or a path with its kind and metadata, if these can be had.  A scanned path is below a
  canonical one, so it is equal to another only if it is the same string.  The time at which an event for a path
  is made is the parameter \<open>stamp\<close>.
\<close>

definition MAX_SCAN_DEPTH :: nat where "MAX_SCAN_DEPTH = 16"

datatype entry_kind = DirEntry | FileEntry | OtherEntry

type_synonym dir_lister = "string \<Rightarrow> io_error + (string \<times> (entry_kind \<times> file_meta) option) option list"

record file_state =
  state_size :: u64
  state_modified :: u64

record poll_state =
  poll_directories :: "string list"
  poll_files :: "string \<rightharpoonup> file_state"

definition poll_default :: poll_state where
  "poll_default = \<lparr>poll_directories = [], poll_files = Map.empty\<rparr>"

definition file_state_of :: "file_meta \<Rightarrow> file_state" where
  "file_state_of meta =
     \<lparr>state_size = meta_len meta,
      state_modified =
        (case meta_modified meta of Inl _ \<Rightarrow> 0 | Inr t \<Rightarrow> if t < 0 then 0 else of_nat (nat t div 1000000))\<rparr>"

function scan_dir :: "dir_lister \<Rightarrow> string \<Rightarrow> nat \<Rightarrow> (string \<rightharpoonup> file_state) \<Rightarrow> string \<rightharpoonup> file_state" where
  "scan_dir ls d depth files =
     (if MAX_SCAN_DEPTH < depth then files
      else case ls d of
        Inl _ \<Rightarrow> files
      | Inr entries \<Rightarrow>
          foldl (\<lambda>files entry.
            case entry of
              Some (p, Some (kind, meta)) \<Rightarrow>
                if kind = DirEntry then scan_dir ls p (depth + 1) files
                else if kind = FileEntry then files(p \<mapsto> file_state_of meta)
                else files
            | _ \<Rightarrow> files) files entries)"
  by pat_completeness auto

termination
  by (relation "measure (\<lambda>(_, _, depth, _). Suc MAX_SCAN_DEPTH - depth)") auto

declare scan_dir.simps [simp del]

definition poll_watch :: "dir_lister \<Rightarrow> os_files \<Rightarrow> string \<Rightarrow> (poll_state, unit) step" where
  "poll_watch ls os directory st =
     (case os_canonicalize os directory of
        Inl e \<Rightarrow> (Inl (Io e), st)
      | Inr d \<Rightarrow>
          if list_ex (path_eq d) (poll_directories st) then (Inr (), st)
          else (Inr (), st\<lparr>poll_files := poll_files st ++ scan_dir ls d 0 Map.empty,
                           poll_directories := poll_directories st @ [d]\<rparr>))"

definition poll_unwatch :: "os_files \<Rightarrow> string \<Rightarrow> (poll_state, unit) step" where
  "poll_unwatch os directory st =
     (let d = canonical_or_self os directory in
      (Inr (), st\<lparr>poll_directories := filter (\<lambda>d'. \<not> path_eq d' d) (poll_directories st),
                  poll_files := (\<lambda>p. if key_below (path_key p) (path_key d) then None else poll_files st p)\<rparr>))"

definition scan_all :: "dir_lister \<Rightarrow> string list \<Rightarrow> string \<rightharpoonup> file_state" where
  "scan_all ls ds = foldl (\<lambda>files d. scan_dir ls d 0 files) Map.empty ds"

text \<open>One round of the scanner thread.\<close>

definition poll_events ::
  "(string, file_state) hash_order \<Rightarrow> (string \<Rightarrow> nat) \<Rightarrow> (string \<rightharpoonup> file_state) \<Rightarrow> (string \<rightharpoonup> file_state) \<Rightarrow> file_event list" where
  "poll_events order stamp files fresh =
     List.map_filter (\<lambda>(p, old).
       case fresh p of
         None \<Rightarrow> Some (event_now (stamp p) Deleted p)
       | Some new \<Rightarrow> if new \<noteq> old then Some (event_now (stamp p) Modified p) else None) (order files) @
     List.map_filter (\<lambda>(p, new). if files p = None then Some (event_now (stamp p) Created p) else None) (order fresh)"

definition poll_round ::
  "(string, file_state) hash_order \<Rightarrow> (string \<Rightarrow> nat) \<Rightarrow> dir_lister \<Rightarrow> poll_state \<Rightarrow> file_event list \<times> poll_state" where
  "poll_round order stamp ls st =
     (let fresh = scan_all ls (poll_directories st) in
      (poll_events order stamp (poll_files st) fresh, st\<lparr>poll_files := fresh\<rparr>))"

subsection \<open>Scans\<close>

text \<open>The files of a tree, down to the deepest level that is scanned.\<close>

inductive found :: "dir_lister \<Rightarrow> string \<Rightarrow> nat \<Rightarrow> string \<Rightarrow> file_state \<Rightarrow> bool" for ls where
  here: "depth \<le> MAX_SCAN_DEPTH \<Longrightarrow> ls d = Inr es \<Longrightarrow> Some (p, Some (FileEntry, meta)) \<in> set es \<Longrightarrow>
     found ls d depth p (file_state_of meta)"
| below: "depth \<le> MAX_SCAN_DEPTH \<Longrightarrow> ls d = Inr es \<Longrightarrow> Some (d', Some (DirEntry, meta)) \<in> set es \<Longrightarrow>
     found ls d' (depth + 1) p s \<Longrightarrow> found ls d depth p s"

inductive_cases foundE: "found ls d depth p s"

text \<open>A scan of something that has the states \<open>F\<close>: a path that is there gets one of its states, others keep theirs.\<close>

definition scan_adds :: "(string \<Rightarrow> file_state \<Rightarrow> bool) \<Rightarrow> (string \<rightharpoonup> file_state) \<Rightarrow> (string \<rightharpoonup> file_state) \<Rightarrow> bool" where
  "scan_adds F files files' \<longleftrightarrow> (\<forall>p. if \<exists>s. F p s then \<exists>s. files' p = Some s \<and> F p s else files' p = files p)"

lemma scan_adds_none: "scan_adds (\<lambda>_ _. False) files files"
  by (simp add: scan_adds_def)

lemma scan_adds_one: "scan_adds (\<lambda>q s. q = p \<and> s = x) files (files(p \<mapsto> x))"
  by (auto simp: scan_adds_def)

lemma scan_adds_append: "scan_adds F a b \<Longrightarrow> scan_adds G b c \<Longrightarrow> scan_adds (\<lambda>p s. F p s \<or> G p s) a c"
  unfolding scan_adds_def by (smt (verit))

lemma scan_adds_cong: "scan_adds F a b \<Longrightarrow> (\<And>p s. F p s \<longleftrightarrow> G p s) \<Longrightarrow> scan_adds G a b"
proof -
  assume "scan_adds F a b" and same: "\<And>p s. F p s \<longleftrightarrow> G p s"
  moreover have "F = G" using same by blast
  ultimately show ?thesis by simp
qed

fun entry_found :: "dir_lister \<Rightarrow> nat \<Rightarrow> (string \<times> (entry_kind \<times> file_meta) option) option \<Rightarrow> string \<Rightarrow> file_state \<Rightarrow> bool" where
  "entry_found ls depth (Some (p, Some (DirEntry, meta))) q s = found ls p (depth + 1) q s"
| "entry_found ls depth (Some (p, Some (FileEntry, meta))) q s = (q = p \<and> s = file_state_of meta)"
| "entry_found ls depth _ q s = False"

lemma found_entries:
  assumes "depth \<le> MAX_SCAN_DEPTH" "ls d = Inr es"
  shows "found ls d depth p s \<longleftrightarrow> (\<exists>e \<in> set es. entry_found ls depth e p s)"
proof
  assume "\<exists>e \<in> set es. entry_found ls depth e p s"
  then obtain e where "e \<in> set es" "entry_found ls depth e p s" by blast
  then show "found ls d depth p s"
    using found.here [where ls = ls, OF assms] found.below [where ls = ls, OF assms] by (cases "(ls, depth, e, p, s)" rule: entry_found.cases) auto
next
  assume "found ls d depth p s"
  then show "\<exists>e \<in> set es. entry_found ls depth e p s"
    by (rule foundE) (metis assms(2) entry_found.simps(1,2) sum.inject(2) Suc_eq_plus1)+
qed

lemma scan_dir_scans: "scan_adds (found ls d depth) files (scan_dir ls d depth files)"
proof (induction ls d depth files rule: scan_dir.induct)
  case (1 ls d depth files)
  show ?case
  proof (cases "MAX_SCAN_DEPTH < depth \<or> (\<exists>e. ls d = Inl e)")
    case True
    then have "\<not> found ls d depth p s" for p s by (auto elim: foundE)
    moreover have "scan_dir ls d depth files = files" using True by (subst scan_dir.simps) auto
    ultimately show ?thesis by (simp add: scan_adds_def)
  next
    case False
    then obtain es where es: "ls d = Inr es" and depth: "depth \<le> MAX_SCAN_DEPTH" by (cases "ls d") auto
    define f where "f = (\<lambda>files entry.
            case entry of
              Some (p, Some (kind, meta)) \<Rightarrow>
                if kind = DirEntry then scan_dir ls p (depth + 1) files
                else if kind = FileEntry then files(p \<mapsto> file_state_of meta)
                else files
            | _ \<Rightarrow> files)"
    have entry: "scan_adds (entry_found ls depth e) a (f a e)" if "e \<in> set es" for e a
    proof -
      consider (into) p meta where "e = Some (p, Some (DirEntry, meta))"
        | (here) p meta where "e = Some (p, Some (FileEntry, meta))"
        | (other) "\<forall>q s. \<not> entry_found ls depth e q s" "f a e = a"
        by (cases "(ls, depth, e, [] :: string, file_state_of undefined)" rule: entry_found.cases) (auto simp: f_def)
      then show ?thesis
      proof cases
        case into
        have "scan_adds (found ls p (depth + 1)) a (scan_dir ls p (depth + 1) a)"
          by (rule 1 [OF _ es that into]) (use depth in auto)
        with into show ?thesis by (simp add: f_def entry_found.simps(1) [abs_def])
      next
        case here
        then have "entry_found ls depth e = (\<lambda>q s. q = p \<and> s = file_state_of meta)" by (intro ext) simp
        with here scan_adds_one [of p "file_state_of meta" a] show ?thesis by (simp add: f_def)
      next
        case other
        then show ?thesis by (simp add: scan_adds_def)
      qed
    qed
    have "scan_adds (\<lambda>p s. \<exists>e \<in> set xs. entry_found ls depth e p s) a (foldl f a xs)" if "set xs \<subseteq> set es" for xs a
      using that
    proof (induction xs arbitrary: a)
      case (Cons e xs)
      have "scan_adds (\<lambda>p s. entry_found ls depth e p s \<or> (\<exists>e \<in> set xs. entry_found ls depth e p s)) a (foldl f (f a e) xs)"
        using Cons by (intro scan_adds_append [OF entry Cons.IH]) auto
      from scan_adds_cong [OF this] show ?case by simp
    qed (simp add: scan_adds_none)
    from this [of es files] have "scan_adds (found ls d depth) files (foldl f files es)"
      by (rule scan_adds_cong) (simp_all add: found_entries [where ls = ls, OF depth es])
    moreover have "scan_dir ls d depth files = foldl f files es"
      using es depth by (subst scan_dir.simps) (simp add: f_def)
    ultimately show ?thesis by simp
  qed
qed

lemma scan_all_scans: "scan_adds (\<lambda>p s. \<exists>d \<in> set ds. found ls d 0 p s) Map.empty (scan_all ls ds)"
proof -
  have "scan_adds (\<lambda>p s. \<exists>d \<in> set ds. found ls d 0 p s) files (foldl (\<lambda>files d. scan_dir ls d 0 files) files ds)" for files
  proof (induction ds arbitrary: files)
    case (Cons d ds)
    from scan_adds_append [OF scan_dir_scans Cons.IH]
    have "scan_adds (\<lambda>p s. found ls d 0 p s \<or> (\<exists>d \<in> set ds. found ls d 0 p s)) files
        (foldl (\<lambda>files d. scan_dir ls d 0 files) (scan_dir ls d 0 files) ds)" .
    from scan_adds_cong [OF this] show ?case by simp
  qed (simp add: scan_adds_none)
  then show ?thesis by (simp add: scan_all_def)
qed

lemma finite_scan_dir: "finite (dom files) \<Longrightarrow> finite (dom (scan_dir ls d depth files))"
proof (induction ls d depth files rule: scan_dir.induct)
  case (1 ls d depth files)
  show ?case
  proof (cases "MAX_SCAN_DEPTH < depth \<or> (\<exists>e. ls d = Inl e)")
    case True
    with 1 show ?thesis by (subst scan_dir.simps) auto
  next
    case False
    then obtain es where es: "ls d = Inr es" and depth: "\<not> MAX_SCAN_DEPTH < depth" by (cases "ls d") auto
    define f where "f = (\<lambda>files entry.
            case entry of
              Some (p, Some (kind, meta)) \<Rightarrow>
                if kind = DirEntry then scan_dir ls p (depth + 1) files
                else if kind = FileEntry then files(p \<mapsto> file_state_of meta)
                else files
            | _ \<Rightarrow> files)"
    have entry: "finite (dom (f a e))" if e: "e \<in> set es" and a: "finite (dom a)" for e a
    proof -
      consider (into) p meta where "e = Some (p, Some (DirEntry, meta))" | (here) "\<forall>p meta. e \<noteq> Some (p, Some (DirEntry, meta))"
        by blast
      then show ?thesis
      proof cases
        case into
        have "finite (dom (scan_dir ls p (depth + 1) a))"
          by (rule 1(1) [OF depth es e into]) (use a in auto)
        with into show ?thesis by (simp add: f_def)
      next
        case here
        with a show ?thesis by (auto simp: f_def split: option.split)
      qed
    qed
    have "finite (dom a) \<Longrightarrow> set xs \<subseteq> set es \<Longrightarrow> finite (dom (foldl f a xs))" for xs a
      using entry by (induction xs arbitrary: a) auto
    moreover have "scan_dir ls d depth files = foldl f files es"
      using es depth by (subst scan_dir.simps) (simp add: f_def)
    ultimately show ?thesis using 1(2) by simp
  qed
qed

lemma finite_scan_all: "finite (dom (scan_all ls ds))"
proof -
  have "finite (dom files) \<Longrightarrow> finite (dom (foldl (\<lambda>files d. scan_dir ls d 0 files) files ds))" for files
    by (induction ds arbitrary: files) (simp_all add: finite_scan_dir)
  then show ?thesis by (simp add: scan_all_def)
qed

subsection \<open>Rounds\<close>

lemma set_map_filter: "y \<in> set (List.map_filter f xs) \<longleftrightarrow> (\<exists>x \<in> set xs. f x = Some y)"
  by (force simp: map_filter_def)

lemma map_filter_paths:
  assumes "\<And>p v e. f (p, v) = Some e \<Longrightarrow> event_path e = p"
  shows "map event_path (List.map_filter f xs) = map fst (filter (\<lambda>x. f x \<noteq> None) xs)"
  using assms by (induction xs) (auto simp: map_filter_def)

lemma poll_events_exact:
  fixes stamp
  assumes "hash_iterates order" "finite (dom files)" "finite (dom fresh)"
  defines "es \<equiv> poll_events order stamp files fresh"
  shows "event_now (stamp p) Deleted p \<in> set es \<longleftrightarrow> files p \<noteq> None \<and> fresh p = None"
    "event_now (stamp p) Created p \<in> set es \<longleftrightarrow> files p = None \<and> fresh p \<noteq> None"
    "event_now (stamp p) Modified p \<in> set es \<longleftrightarrow> files p \<noteq> None \<and> fresh p \<noteq> None \<and> files p \<noteq> fresh p"
    "\<forall>e \<in> set es. \<exists>p. e \<in> {event_now (stamp p) Deleted p, event_now (stamp p) Created p, event_now (stamp p) Modified p}"
    "distinct (map event_path es)"
proof -
  note files = hash_iterates_set [OF assms(1,2)] and fresh = hash_iterates_set [OF assms(1,3)]
  define f where "f = (\<lambda>(p, old). case fresh p of
         None \<Rightarrow> Some (event_now (stamp p) Deleted p)
       | Some new \<Rightarrow> if new \<noteq> old then Some (event_now (stamp p) Modified p) else None)"
  define g where "g = (\<lambda>(p, new :: file_state). if files p = None then Some (event_now (stamp p) Created p) else None)"
  have es: "es = List.map_filter f (order files) @ List.map_filter g (order fresh)"
    by (simp add: es_def poll_events_def f_def g_def)
  have inj: "event_now t ty p = event_now t' ty' p' \<longleftrightarrow> t = t' \<and> ty = ty' \<and> p = p'" for t ty p t' ty' p'
    by (auto simp: event_now_def)
  have member: "e \<in> set es \<longleftrightarrow> (\<exists>p s. files p = Some s \<and> f (p, s) = Some e) \<or> (\<exists>p s. fresh p = Some s \<and> g (p, s) = Some e)" for e
    unfolding es set_append Un_iff set_map_filter using files fresh by (metis (no_types, lifting) surj_pair)
  have f_Some: "f (p, s) = Some e \<longleftrightarrow> fresh p = None \<and> e = event_now (stamp p) Deleted p \<or>
      (\<exists>s'. fresh p = Some s' \<and> s' \<noteq> s \<and> e = event_now (stamp p) Modified p)" for p s e
    by (auto simp: f_def split: option.splits)
  have g_Some: "g (p, s) = Some e \<longleftrightarrow> files p = None \<and> e = event_now (stamp p) Created p" for p s e
    by (auto simp: g_def)
  show "event_now (stamp p) Deleted p \<in> set es \<longleftrightarrow> files p \<noteq> None \<and> fresh p = None"
    "event_now (stamp p) Created p \<in> set es \<longleftrightarrow> files p = None \<and> fresh p \<noteq> None"
    "event_now (stamp p) Modified p \<in> set es \<longleftrightarrow> files p \<noteq> None \<and> fresh p \<noteq> None \<and> files p \<noteq> fresh p"
    unfolding member f_Some g_Some inj by (auto; metis)+
  show "\<forall>e \<in> set es. \<exists>p. e \<in> {event_now (stamp p) Deleted p, event_now (stamp p) Created p, event_now (stamp p) Modified p}"
    by (auto simp: member f_Some g_Some)
  have "map event_path (List.map_filter f (order files)) = map fst (filter (\<lambda>x. f x \<noteq> None) (order files))"
    by (rule map_filter_paths) (auto simp: f_def event_now_def split: option.splits if_splits)
  moreover have "map event_path (List.map_filter g (order fresh)) = map fst (filter (\<lambda>x. g x \<noteq> None) (order fresh))"
    by (rule map_filter_paths) (auto simp: g_def event_now_def split: if_splits)
  moreover have "distinct (map fst (order files))" "distinct (map fst (order fresh))"
    using assms(1-3) by (simp_all add: hash_iterates_def)
  moreover have "fst ` set (filter (\<lambda>x. f x \<noteq> None) (order files)) \<inter> fst ` set (filter (\<lambda>x. g x \<noteq> None) (order fresh)) = {}"
    using files by (auto simp: g_def split: if_splits)
  ultimately show "distinct (map event_path es)"
    unfolding es by (simp add: distinct_map_filter del: set_filter)
qed

text \<open>Overlapping directories: a file below a directory that is no longer watched is forgotten even if another
  watched directory still finds it, and the next round reports it as created.\<close>

lemma unwatch_overlapping:
  assumes "hash_iterates order" "poll_unwatch os directory st = (r, st')" "d \<in> set (poll_directories st')" "found ls d 0 p s"
    "key_below (path_key p) (path_key (canonical_or_self os directory))"
  shows "event_now (stamp p) Created p \<in> set (fst (poll_round order stamp ls st'))"
proof -
  have gone: "poll_files st' p = None" using assms(2,5) by (auto simp: poll_unwatch_def Let_def)
  have "\<exists>s. scan_all ls (poll_directories st') p = Some s"
    using scan_all_scans [of "poll_directories st'" ls] assms(3,4) unfolding scan_adds_def by (metis (full_types))
  then have "\<not> (\<exists>s. found ls d 0 p s) \<or> scan_all ls (poll_directories st') p \<noteq> None" by simp
  then have there: "(p, the (scan_all ls (poll_directories st') p)) \<in> set (order (scan_all ls (poll_directories st')))"
    using assms(4) hash_iterates_set [OF assms(1) finite_scan_all] by auto
  then show ?thesis using gone
    by (force simp: poll_round_def Let_def poll_events_def set_map_filter split: prod.splits)
qed

end
