(* ===== verification/Watching.thy ===== *)
theory Watching
  imports Polling AssetTable Storage
begin

text \<open>
  Crate tpt-av-asset-watcher: the watcher that debounces the events of a backend (\<open>watcher.rs\<close>), the backends on
  the \<open>notify\<close> crate (\<open>backend/mod.rs\<close>, \<open>inotify.rs\<close>, \<open>fsevents.rs\<close>) and the invalidation of caches by events
  (\<open>invalidate.rs\<close>).

  A blocking receive is a function of what happens while it waits: for every turn of its loop the time, what
  came from the channel and the time after that; it is \<open>None\<close> when it has not returned by the last turn.  The
  \<open>notify\<close> crate is not in the repository: it is the parameter record \<open>notify_lib\<close>.
\<close>

subsection \<open>Backends on the notify crate\<close>

datatype rename_mode = RenameBoth | RenameFrom | RenameTo | RenameOther
datatype notify_kind = NotifyCreate | NotifyRemove | NotifyName rename_mode | NotifyModify | NotifyOther

record notify_event =
  notify_event_kind :: notify_kind
  notify_paths :: "string list"

definition first_path_event :: "nat \<Rightarrow> file_event_type \<Rightarrow> notify_event \<Rightarrow> file_event list" where
  "first_path_event clock t ev = (case notify_paths ev of [] \<Rightarrow> [] | p # _ \<Rightarrow> [event_now clock t p])"

definition map_notify_event :: "nat \<Rightarrow> notify_event \<Rightarrow> file_event list" where
  "map_notify_event clock ev =
     (case notify_event_kind ev of
        NotifyCreate \<Rightarrow> first_path_event clock Created ev
      | NotifyRemove \<Rightarrow> first_path_event clock Deleted ev
      | NotifyName RenameBoth \<Rightarrow>
          if 2 \<le> length (notify_paths ev)
          then [event_now clock (Renamed (notify_paths ev ! 0)) (notify_paths ev ! 1)] else []
      | NotifyName RenameFrom \<Rightarrow> first_path_event clock Deleted ev
      | NotifyName RenameTo \<Rightarrow> first_path_event clock Created ev
      | NotifyName RenameOther \<Rightarrow> first_path_event clock Modified ev
      | NotifyModify \<Rightarrow> first_path_event clock Modified ev
      | NotifyOther \<Rightarrow> [])"

record 'n notify_lib =
  notify_new :: "string + 'n"
  notify_watch :: "string \<Rightarrow> 'n \<Rightarrow> (string + unit) \<times> 'n"
  notify_unwatch :: "string \<Rightarrow> 'n \<Rightarrow> (string + unit) \<times> 'n"

definition spawn_notify_watcher :: "'n notify_lib \<Rightarrow> io_error option \<Rightarrow> asset_error + 'n" where
  "spawn_notify_watcher lib spawn =
     (case notify_new lib of
        Inl e \<Rightarrow> Inl (validation (''failed to start file watcher: '' @ e))
      | Inr n \<Rightarrow>
          (case spawn of
             Some e \<Rightarrow> Inl (validation (''failed to spawn watcher thread: '' @ io_error_text e))
           | None \<Rightarrow> Inr n))"

definition notify_backend_watch :: "'n notify_lib \<Rightarrow> io_error option \<Rightarrow> string \<Rightarrow> ('n option, unit) step" where
  "notify_backend_watch lib spawn d b =
     (case (case b of Some n \<Rightarrow> Inr n | None \<Rightarrow> spawn_notify_watcher lib spawn) of
        Inl e \<Rightarrow> (Inl e, b)
      | Inr n \<Rightarrow>
          (case notify_watch lib d n of
             (Inl e, n) \<Rightarrow> (Inl (validation (''cannot watch '' @ path_display d @ '': '' @ e)), Some n)
           | (Inr _, n) \<Rightarrow> (Inr (), Some n)))"

definition notify_backend_unwatch :: "'n notify_lib \<Rightarrow> string \<Rightarrow> ('n option, unit) step" where
  "notify_backend_unwatch lib d b =
     (case b of
        None \<Rightarrow> (Inr (), b)
      | Some n \<Rightarrow>
          (case notify_unwatch lib d n of
             (Inl e, n) \<Rightarrow> (Inl (validation (''cannot unwatch '' @ path_display d @ '': '' @ e)), Some n)
           | (Inr _, n) \<Rightarrow> (Inr (), Some n)))"

subsection \<open>The watcher\<close>

definition DEFAULT_DEBOUNCE_WINDOW :: nat where "DEFAULT_DEBOUNCE_WINDOW = 250000000"

record 'b watcher_backend =
  backend_watch :: "string \<Rightarrow> ('b, unit) step"
  backend_unwatch :: "string \<Rightarrow> ('b, unit) step"
  backend_name :: string

record 'b media_watcher =
  directories :: "string list"
  watcher_debouncer :: debouncer
  backend :: 'b

definition with_backend :: "'b \<Rightarrow> nat \<Rightarrow> 'b media_watcher" where
  "with_backend b w = \<lparr>directories = [], watcher_debouncer = debouncer_new w, backend = b\<rparr>"

definition on_backend :: "('b, 'a) step \<Rightarrow> ('b media_watcher, 'a) step" where
  "on_backend m w = (case m (backend w) of (r, b) \<Rightarrow> (r, w\<lparr>backend := b\<rparr>))"

definition watcher_watch :: "'b watcher_backend \<Rightarrow> os_files \<Rightarrow> string \<Rightarrow> ('b media_watcher, unit) step" where
  "watcher_watch bk os d =
     then_try (on_backend (backend_watch bk d)) (\<lambda>_ w.
       let canonical = canonical_or_self os d in
       (Inr (), if list_ex (path_eq canonical) (directories w) then w else w\<lparr>directories := directories w @ [canonical]\<rparr>))"

definition watcher_unwatch :: "'b watcher_backend \<Rightarrow> os_files \<Rightarrow> string \<Rightarrow> ('b media_watcher, unit) step" where
  "watcher_unwatch bk os d =
     then_try (on_backend (backend_unwatch bk d)) (\<lambda>_ w.
       let canonical = canonical_or_self os d in
       (Inr (), w\<lparr>directories := filter (\<lambda>d'. \<not> path_eq d' canonical) (directories w)\<rparr>))"

datatype received = Received file_event | TimedOut | Disconnected

definition watcher_push :: "file_event \<Rightarrow> nat \<Rightarrow> 'b media_watcher \<Rightarrow> 'b media_watcher" where
  "watcher_push e t w = w\<lparr>watcher_debouncer := debouncer_push e t (watcher_debouncer w)\<rparr>"

definition watcher_pop ::
  "(file_key, file_event \<times> nat) hash_order \<Rightarrow> nat \<Rightarrow> 'b media_watcher \<Rightarrow> file_event option \<times> 'b media_watcher" where
  "watcher_pop order t w = (case debouncer_pop_ready order t (watcher_debouncer w) of (r, d) \<Rightarrow> (r, w\<lparr>watcher_debouncer := d\<rparr>))"

definition drain_pending ::
  "(file_key, file_event \<times> nat) hash_order \<Rightarrow> 'b media_watcher \<Rightarrow> file_event list \<times> 'b media_watcher" where
  "drain_pending order w = (case debouncer_flush order (watcher_debouncer w) of (es, d) \<Rightarrow> (es, w\<lparr>watcher_debouncer := d\<rparr>))"

fun recv :: "(file_key, file_event \<times> nat) hash_order \<Rightarrow> (nat \<times> received \<times> nat) list \<Rightarrow> 'b media_watcher
     \<Rightarrow> ((asset_error + file_event) \<times> 'b media_watcher) option" where
  "recv order [] w = None"
| "recv order ((t1, got, t2) # turns) w =
     (case watcher_pop order t1 w of
        (Some e, w) \<Rightarrow> Some (Inr e, w)
      | (None, w) \<Rightarrow>
          (case got of
             Received raw \<Rightarrow> recv order turns (watcher_push raw t2 w)
           | TimedOut \<Rightarrow> recv order turns w
           | Disconnected \<Rightarrow>
               (case watcher_pop order t2 w of
                  (Some e, w) \<Rightarrow> Some (Inr e, w)
                | (None, w) \<Rightarrow> Some (Inl ChannelClosed, snd (drain_pending order w)))))"

text \<open>The messages in the channel with the times at which they are taken, whether the sender is there, and the time
  of the pop.\<close>

fun try_recv :: "(file_key, file_event \<times> nat) hash_order \<Rightarrow> (file_event \<times> nat) list \<Rightarrow> bool \<Rightarrow> nat
     \<Rightarrow> ('b media_watcher, file_event option) step" where
  "try_recv order [] alive t w =
     (if alive then (case watcher_pop order t w of (r, w) \<Rightarrow> (Inr r, w)) else (Inl ChannelClosed, w))"
| "try_recv order ((raw, t1) # msgs) alive t w = try_recv order msgs alive t (watcher_push raw t1 w)"

subsection \<open>Invalidation\<close>

fun invalidate_each :: "('d, 'w, 'r) redb \<Rightarrow> cache_storage \<Rightarrow> media_info list \<Rightarrow> (file_system \<times> 'd, unit) step" where
  "invalidate_each R st [] = give ()"
| "invalidate_each R st (info # infos) = then_try (invalidate_asset R st (id info)) (\<lambda>_. invalidate_each R st infos)"

definition invalidate_at :: "os_files \<Rightarrow> ('d, 'w, 'r) redb \<Rightarrow> cache_storage \<Rightarrow> string \<Rightarrow> (file_system \<times> 'd, bool) step" where
  "invalidate_at os R st p = (\<lambda>(fs, d).
     case get_assets_by_path os R p d of
       Inl e \<Rightarrow> (Inl e, fs, d)
     | Inr assets \<Rightarrow> then_try (invalidate_each R st assets) (\<lambda>_. give (assets \<noteq> [])) (fs, d))"

definition handle_event :: "os_files \<Rightarrow> ('d, 'w, 'r) redb \<Rightarrow> cache_storage \<Rightarrow> file_event \<Rightarrow> (file_system \<times> 'd, bool) step" where
  "handle_event os R st e =
     invalidate_at os R st (case event_type e of Renamed old_path \<Rightarrow> old_path | _ \<Rightarrow> event_path e)"

fun handle_all_from :: "os_files \<Rightarrow> ('d, 'w, 'r) redb \<Rightarrow> cache_storage \<Rightarrow> nat \<Rightarrow> file_event list \<Rightarrow> (file_system \<times> 'd, nat) step" where
  "handle_all_from os R st n [] = give n"
| "handle_all_from os R st n (e # es) =
     then_try (handle_event os R st e) (\<lambda>hit. handle_all_from os R st (if hit then n + 1 else n) es)"

definition handle_all :: "os_files \<Rightarrow> ('d, 'w, 'r) redb \<Rightarrow> cache_storage \<Rightarrow> file_event list \<Rightarrow> (file_system \<times> 'd, nat) step" where
  "handle_all os R st es = handle_all_from os R st 0 es"

subsection \<open>What an event does\<close>

text \<open>The rows of an asset in a range can be read.\<close>

definition clean_ranges :: "('d, 'w, 'r) redb \<Rightarrow> asset_id \<Rightarrow> bool" where
  "clean_ranges R i \<longleftrightarrow> (\<forall>w it. range_w R CACHE_ENTRIES (KBytes (key_bytes i)) w = Inr it \<longrightarrow> (\<exists>kvs. it = map Inr kvs))"

lemma invalidate_asset_view:
  assumes "invalidate_asset R st i (fs, d) = (Inr n, fs', d')" "redb_laws R dr wr rr" "cache_wf (dr d)" "clean_ranges R i"
  shows "cache_of (dr d') = (cache_of (dr d))(i := \<lambda>_. None)" "cache_wf (dr d')" "swept st i fs'" "\<exists>P. removes_only P fs fs'"
proof -
  have inv: "invalidate_caches R i d = (Inr n, d')" "swept st i fs'" using invalidate_asset_swept [OF assms(1)] by simp_all
  have clean: "range_w R CACHE_ENTRIES (KBytes (key_bytes i)) w = Inr it \<Longrightarrow> \<exists>kvs. it = map Inr kvs" for w it
    using assms(4) by (simp add: clean_ranges_def)
  note view = invalidate_caches_view [OF inv(1) assms(2,3)]
  show "cache_of (dr d') = (cache_of (dr d))(i := \<lambda>_. None)" by (rule view(1)) (rule clean)
  show "cache_wf (dr d')" by (rule view(2)) (rule clean)
  show "swept st i fs'" by (rule inv(2))
  show "\<exists>P. removes_only P fs fs'" using invalidate_asset_only [OF assms(1)] by blast
qed

lemma swept_stays: "removes_only P fs fs' \<Longrightarrow> swept st i fs \<Longrightarrow> swept st i fs'"
  using removes_only_gone removes_only_dir_gone unfolding swept_def by blast

lemma invalidate_each_view:
  assumes "invalidate_each R st infos (fs, d) = (Inr u, fs', d')" "redb_laws R dr wr rr" "cache_wf (dr d)"
    "\<forall>info \<in> set infos. clean_ranges R (id info)"
  shows "cache_of (dr d') = (\<lambda>i. if i \<in> id ` set infos then Map.empty else cache_of (dr d) i) \<and> cache_wf (dr d') \<and>
    (\<forall>info \<in> set infos. swept st (id info) fs') \<and> (\<exists>P. removes_only P fs fs')"
  using assms(1,3,4)
proof (induction infos arbitrary: fs d)
  case Nil
  then show ?case using removes_only_refl by (auto simp: give_def)
next
  case (Cons info infos)
  obtain n fs1 d1 where one: "invalidate_asset R st (id info) (fs, d) = (Inr n, fs1, d1)"
    and rest: "invalidate_each R st infos (fs1, d1) = (Inr u, fs', d')"
    using Cons.prems(1) by (auto simp: then_try_eq_Inr)
  have clean: "clean_ranges R (id info)" using Cons.prems(3) by simp
  note view = invalidate_asset_view [OF one assms(2) Cons.prems(2) clean]
  have "\<forall>info \<in> set infos. clean_ranges R (id info)" using Cons.prems(3) by simp
  note IH = Cons.IH [OF rest view(2) this]
  have "swept st (id info) fs'" using IH view(3) swept_stays by blast
  moreover obtain P Q where "removes_only P fs fs1" "removes_only Q fs1 fs'" using IH view(4) by blast
  then have "removes_only (P \<union> Q) fs fs'" by (blast intro: removes_only_trans removes_only_mono)
  ultimately show ?case using IH view(1) by (auto simp: fun_eq_iff)
qed

text \<open>The assets that an event concerns: those registered at its path, at the old one for a rename.\<close>

definition event_assets :: "os_files \<Rightarrow> media_info set \<Rightarrow> file_event \<Rightarrow> media_info set" where
  "event_assets os A e =
     {info \<in> A. path_eq (canonical_or_self os (path info))
        (canonical_or_self os (case event_type e of Renamed old_path \<Rightarrow> old_path | _ \<Rightarrow> event_path e))}"

lemma handle_event_view:
  assumes "handle_event os R st e (fs, d) = (Inr hit, fs', d')" "redb_laws R dr wr rr" "cache_wf (dr d)" "assets_wf (dr d)"
    "\<forall>info \<in> ran (assets_of (dr d)). clean_ranges R (id info)"
  defines "A \<equiv> event_assets os (ran (assets_of (dr d))) e"
  shows "hit \<longleftrightarrow> A \<noteq> {}"
    "cache_of (dr d') = (\<lambda>i. if i \<in> id ` A then Map.empty else cache_of (dr d) i)"
    "cache_wf (dr d')" "\<forall>info \<in> A. swept st (id info) fs'"
proof -
  let ?p = "case event_type e of Renamed old_path \<Rightarrow> old_path | _ \<Rightarrow> event_path e"
  obtain ms where ms: "list_assets R d = Inr ms"
    using assms(1) by (cases "list_assets R d") (auto simp: handle_event_def invalidate_at_def get_assets_by_path_def rbind_def)
  define infos where "infos = filter (\<lambda>info. path_eq (canonical_or_self os (path info)) (canonical_or_self os ?p)) ms"
  have "get_assets_by_path os R ?p d = Inr infos"
    by (simp add: get_assets_by_path_def ms rbind_def infos_def)
  then have run: "invalidate_each R st infos (fs, d) = (Inr (), fs', d')" "hit \<longleftrightarrow> infos \<noteq> []"
    using assms(1) by (auto simp: handle_event_def invalidate_at_def then_try_eq_Inr give_def)
  have "set ms = ran (assets_of (dr d))" using list_assets_view [OF ms assms(2,4)] by simp
  then have set_infos: "set infos = A" by (auto simp: infos_def A_def event_assets_def)
  have "\<forall>info \<in> set infos. clean_ranges R (id info)" using assms(5) set_infos by (auto simp: A_def event_assets_def)
  note view = invalidate_each_view [OF run(1) assms(2,3) this, unfolded set_infos]
  from view show "cache_of (dr d') = (\<lambda>i. if i \<in> id ` A then Map.empty else cache_of (dr d) i)"
    "cache_wf (dr d')" "\<forall>info \<in> A. swept st (id info) fs'" by simp_all
  show "hit \<longleftrightarrow> A \<noteq> {}" using run(2) set_infos by auto
qed

subsection \<open>What is received\<close>

text \<open>The history of a turn in which nothing was returned.\<close>

fun turn_steps :: "nat \<times> received \<times> nat \<Rightarrow> debounce_step list" where
  "turn_steps (t1, Received raw, t2) = [Idle t1, Pushed raw t2]"
| "turn_steps (t1, _, t2) = [Idle t1]"

definition waited :: "(nat \<times> received \<times> nat) list \<Rightarrow> debounce_step list" where
  "waited turns = concat (map turn_steps turns)"

definition latest_after :: "debounce_step list \<Rightarrow> (file_key \<rightharpoonup> file_event \<times> nat) \<Rightarrow> file_key \<rightharpoonup> file_event \<times> nat" where
  "latest_after h m = foldl (\<lambda>m x. latest_step x m) m h"

definition watcher_refines :: "(file_key \<rightharpoonup> file_event \<times> nat) \<Rightarrow> 'b media_watcher \<Rightarrow> bool" where
  "watcher_refines m w \<longleftrightarrow> debouncer_ok (watcher_debouncer w) \<and>
     pending_events (watcher_debouncer w) = pending_of (window (watcher_debouncer w)) m"

abbreviation watcher_window :: "'b media_watcher \<Rightarrow> nat" where
  "watcher_window w \<equiv> window (watcher_debouncer w)"

lemma watcher_refines_step:
  assumes "hash_iterates order" "watcher_refines m w" "debounce_do order op (watcher_debouncer w) = (x, d)"
  shows "step_allowed (watcher_window w) m x \<and> watcher_refines (latest_step x m) (w\<lparr>watcher_debouncer := d\<rparr>) \<and> window d = watcher_window w"
  using debounce_do_allowed [OF assms(1) _ _ assms(3), of m] assms(2) by (simp add: watcher_refines_def)

lemma watcher_pop_refines:
  assumes "hash_iterates order" "watcher_refines m w" "watcher_pop order t w = (r, w')"
  defines "x \<equiv> case r of Some e \<Rightarrow> Popped e t | None \<Rightarrow> Idle t"
  shows "step_allowed (watcher_window w) m x" "watcher_refines (latest_step x m) w'" "watcher_window w' = watcher_window w"
    "r = None \<Longrightarrow> w' = w"
proof -
  obtain d where pop: "debouncer_pop_ready order t (watcher_debouncer w) = (r, d)" "w' = w\<lparr>watcher_debouncer := d\<rparr>"
    using assms(3) by (auto simp: watcher_pop_def split: prod.splits)
  then have "debounce_do order (Pop t) (watcher_debouncer w) = (x, d)" by (simp add: debounce_do_def x_def split: option.split)
  from watcher_refines_step [OF assms(1,2) this] pop(2)
  show "step_allowed (watcher_window w) m x" "watcher_refines (latest_step x m) w'" "watcher_window w' = watcher_window w" by simp_all
  show "w' = w" if "r = None"
    using pop that by (auto simp: debouncer_pop_ready_def split: option.splits)
qed

lemma history_append:
  "history_allowed n m (h @ h') \<longleftrightarrow> history_allowed n m h \<and> history_allowed n (latest_after h m) h'"
  by (induction h arbitrary: m) (auto simp: latest_after_def)

lemma latest_after_Cons [simp]: "latest_after (x # h) m = latest_after h (latest_step x m)" "latest_after [] m = m"
  by (simp_all add: latest_after_def)

text \<open>How a receive ends: the turn, what was returned and the rest of the history.\<close>

inductive recv_ends :: "nat \<times> received \<times> nat \<Rightarrow> asset_error + file_event \<Rightarrow> debounce_step list \<Rightarrow> bool" where
  event_ready: "recv_ends (t1, got, t2) (Inr e) [Popped e t1]"
| last_event: "recv_ends (t1, Disconnected, t2) (Inr e) [Idle t1, Popped e t2]"
| closed: "recv_ends (t1, Disconnected, t2) (Inl ChannelClosed) [Idle t1, Idle t2, Flushed es]"

lemma recv_history:
  fixes w :: "'b media_watcher"
  assumes "hash_iterates order" "watcher_refines m w"
  shows "case recv order turns w of
      None \<Rightarrow> history_allowed (watcher_window w) m (waited turns)
    | Some (r, w') \<Rightarrow> \<exists>k h. k < length turns \<and> recv_ends (turns ! k) r h \<and>
        history_allowed (watcher_window w) m (waited (take k turns) @ h) \<and>
        watcher_refines (latest_after (waited (take k turns) @ h) m) w'"
  using assms(2)
proof (induction turns arbitrary: m w)
  case (Cons turn turns)
  obtain t1 got t2 where turn: "turn = (t1, got, t2)" by (cases turn)
  obtain p w1 where pop: "watcher_pop order t1 w = (p, w1)" by fastforce
  note one = watcher_pop_refines [OF assms(1) Cons.prems pop]
  have at_once: "\<exists>k h. k < length (turn # turns) \<and> recv_ends ((turn # turns) ! k) r h \<and>
      history_allowed (watcher_window w) m (waited (take k (turn # turns)) @ h) \<and>
      watcher_refines (latest_after (waited (take k (turn # turns)) @ h) m) w'"
    if "recv_ends turn r h" "history_allowed (watcher_window w) m h" "watcher_refines (latest_after h m) w'" for r h w'
    by (rule exI [of _ 0], rule exI [of _ h]) (simp add: that waited_def)
  show ?case
  proof (cases p)
    case (Some e)
    with pop turn have "recv order (turn # turns) w = Some (Inr e, w1)" by simp
    moreover have "recv_ends turn (Inr e) [Popped e t1]" by (simp add: turn recv_ends.intros)
    then have "\<exists>k h. k < length (turn # turns) \<and> recv_ends ((turn # turns) ! k) (Inr e) h \<and>
        history_allowed (watcher_window w) m (waited (take k (turn # turns)) @ h) \<and>
        watcher_refines (latest_after (waited (take k (turn # turns)) @ h) m) w1"
      by (rule at_once) (use one Some in simp_all)
    ultimately show ?thesis by (simp only: option.case prod.case)
  next
    case None
    with one have idle: "step_allowed (watcher_window w) m (Idle t1)" "w1 = w" by simp_all
    have later: "case recv order turns w2 of
        None \<Rightarrow> history_allowed (watcher_window w) m (waited (turn # turns))
      | Some (r, w') \<Rightarrow> \<exists>k h. k < length (turn # turns) \<and> recv_ends ((turn # turns) ! k) r h \<and>
          history_allowed (watcher_window w) m (waited (take k (turn # turns)) @ h) \<and>
          watcher_refines (latest_after (waited (take k (turn # turns)) @ h) m) w'"
      if step: "history_allowed (watcher_window w) m (turn_steps turn)" "watcher_refines (latest_after (turn_steps turn) m) w2"
        "watcher_window w2 = watcher_window w" for w2 :: "'b media_watcher"
    proof (cases "recv order turns w2")
      case None
      with Cons.IH [OF step(2)] step show ?thesis by (simp add: waited_def history_append)
    next
      case (Some z)
      then obtain r w' where z: "recv order turns w2 = Some (r, w')" by (cases z) simp
      with Cons.IH [OF step(2)] obtain k h where k: "k < length turns" "recv_ends (turns ! k) r h"
        "history_allowed (watcher_window w2) (latest_after (turn_steps turn) m) (waited (take k turns) @ h)"
        "watcher_refines (latest_after (waited (take k turns) @ h) (latest_after (turn_steps turn) m)) w'" by auto
      have "waited (take (Suc k) (turn # turns)) = turn_steps turn @ waited (take k turns)" by (simp add: waited_def)
      moreover have "latest_after (a @ b) m = latest_after b (latest_after a m)" for a b m by (simp add: latest_after_def)
      ultimately show ?thesis
        unfolding z option.case prod.case using k step(1,3)
        by (intro exI [of _ "Suc k"] exI [of _ h]) (simp add: history_append)
    qed
    show ?thesis
    proof (cases got)
      case (Received raw)
      have push: "debounce_do order (Push raw t2) (watcher_debouncer w) = (Pushed raw t2, debouncer_push raw t2 (watcher_debouncer w))"
        by (simp add: debounce_do_def)
      have "recv order (turn # turns) w = recv order turns (watcher_push raw t2 w)" using pop turn None Received idle by simp
      then show ?thesis
        using later [of "watcher_push raw t2 w"] idle watcher_refines_step [OF assms(1) Cons.prems push] turn Received
        by (simp add: watcher_push_def)
    next
      case TimedOut
      then have "recv order (turn # turns) w = recv order turns w" using pop turn None idle by simp
      then show ?thesis using later [of w] idle turn TimedOut Cons.prems by simp
    next
      case Disconnected
      obtain p2 w2 where pop2: "watcher_pop order t2 w = (p2, w2)" by fastforce
      note two = watcher_pop_refines [OF assms(1) Cons.prems pop2]
      show ?thesis
      proof (cases p2)
        case (Some e)
        have "recv order (turn # turns) w = Some (Inr e, w2)" using pop turn None Disconnected idle pop2 Some by simp
        moreover have "recv_ends turn (Inr e) [Idle t1, Popped e t2]" by (simp add: turn Disconnected recv_ends.intros)
        then have "\<exists>k h. k < length (turn # turns) \<and> recv_ends ((turn # turns) ! k) (Inr e) h \<and>
            history_allowed (watcher_window w) m (waited (take k (turn # turns)) @ h) \<and>
            watcher_refines (latest_after (waited (take k (turn # turns)) @ h) m) w2"
          by (rule at_once) (use idle two Some in simp_all)
        ultimately show ?thesis by (simp only: option.case prod.case)
      next
        case no: None
        obtain es d where flush: "debouncer_flush order (watcher_debouncer w) = (es, d)" by fastforce
        then have "debounce_do order Flush (watcher_debouncer w) = (Flushed es, d)" by (simp add: debounce_do_def)
        note three = watcher_refines_step [OF assms(1) Cons.prems this]
        have "recv order (turn # turns) w = Some (Inl ChannelClosed, w\<lparr>watcher_debouncer := d\<rparr>)"
          using pop turn None Disconnected idle pop2 no two(4) flush by (simp add: drain_pending_def)
        moreover have "recv_ends turn (Inl ChannelClosed) [Idle t1, Idle t2, Flushed es]"
          by (simp add: turn Disconnected recv_ends.intros)
        then have "\<exists>k h. k < length (turn # turns) \<and> recv_ends ((turn # turns) ! k) (Inl ChannelClosed) h \<and>
            history_allowed (watcher_window w) m (waited (take k (turn # turns)) @ h) \<and>
            watcher_refines (latest_after (waited (take k (turn # turns)) @ h) m) (w\<lparr>watcher_debouncer := d\<rparr>)"
          by (rule at_once) (use idle two no three in simp_all)
        ultimately show ?thesis by (simp only: option.case prod.case)
      qed
    qed
  qed
qed (simp add: waited_def)

end
