(* ===== verification/Queue.thy ===== *)
theory Queue
  imports Media "HOL-Library.Multiset"
begin

text \<open>
  Jobs (\<open>tpt-av-asset-pipeline/src/job.rs\<close>) and the prioritized job queue (\<open>queue.rs\<close>).  The locale
  \<open>priority_fifo\<close> is the contract of the queue: one first-in first-out line per priority, of which a
  pop serves the first ready job of the highest priority that has one.  It is interpreted on the
  code's sorted vector.
\<close>

text \<open>
  A job is what its trait methods return; \<open>body\<close> is what only \<open>execute\<close> uses.  All implementations
  of the trait return the same values on each call.
\<close>

record 'x job =
  job_ident :: u64
  job_prio :: priority
  job_asset :: asset_id
  job_kind :: string
  job_payload :: string
  job_body :: 'x

record 'x queue_entry =
  entry_job :: "'x job"
  entry_seq :: u64

record 'x job_queue =
  entries :: "'x queue_entry list"
  next_seq :: u64

definition queue_new :: "'x job_queue" where
  "queue_new = \<lparr>entries = [], next_seq = 0\<rparr>"

text \<open>The order of the pairs \<open>(Reverse(priority), seq)\<close>.\<close>

definition entry_order_le :: "'x queue_entry \<Rightarrow> 'x queue_entry \<Rightarrow> bool" where
  "entry_order_le a b \<longleftrightarrow>
     job_prio (entry_job b) < job_prio (entry_job a) \<or>
     job_prio (entry_job a) = job_prio (entry_job b) \<and> entry_seq a \<le> entry_seq b"

text \<open>
  \<open>partition_point\<close> of a vector whose elements satisfying \<open>P\<close> come first: how many they are.  The
  queue's vector is always so (\<open>queue_inv\<close>).
\<close>

definition partition_point :: "('a \<Rightarrow> bool) \<Rightarrow> 'a list \<Rightarrow> nat" where
  "partition_point P xs = length (takeWhile P xs)"

definition queue_push :: "'x job \<Rightarrow> 'x job_queue \<Rightarrow> 'x job_queue" where
  "queue_push job q =
     (let seq = next_seq q;
          q = q\<lparr>next_seq := next_seq q + 1\<rparr>;
          entry = \<lparr>entry_job = job, entry_seq = seq\<rparr>;
          index = partition_point (\<lambda>existing. entry_order_le existing entry) (entries q)
      in q\<lparr>entries := list_insert index entry (entries q)\<rparr>)"

definition pop_ready :: "(u64 \<Rightarrow> bool) \<Rightarrow> 'x job_queue \<Rightarrow> ('x job \<times> 'x job_queue) option" where
  "pop_ready is_ready q =
     (case position (\<lambda>entry. is_ready (job_ident (entry_job entry))) (entries q) of
        None \<Rightarrow> None
      | Some index \<Rightarrow>
          Some (entry_job (entries q ! index), q\<lparr>entries := list_remove index (entries q)\<rparr>))"

definition queue_remove :: "u64 \<Rightarrow> 'x job_queue \<Rightarrow> ('x job \<times> 'x job_queue) option" where
  "queue_remove jid q =
     (case position (\<lambda>entry. job_ident (entry_job entry) = jid) (entries q) of
        None \<Rightarrow> None
      | Some index \<Rightarrow>
          Some (entry_job (entries q ! index), q\<lparr>entries := list_remove index (entries q)\<rparr>))"

definition queue_ids :: "'x job_queue \<Rightarrow> u64 list" where
  "queue_ids q = map (\<lambda>e. job_ident (entry_job e)) (entries q)"

definition queue_len :: "'x job_queue \<Rightarrow> nat" where "queue_len q = length (entries q)"

definition queue_is_empty :: "'x job_queue \<Rightarrow> bool" where "queue_is_empty q \<longleftrightarrow> entries q = []"

definition queue_priorities :: "'x job_queue \<Rightarrow> priority list" where
  "queue_priorities q = map (\<lambda>e. job_prio (entry_job e)) (entries q)"

subsection \<open>The contract\<close>

locale priority_fifo =
  fixes inv :: "'q \<Rightarrow> bool"
    and line :: "'q \<Rightarrow> priority \<Rightarrow> 'x job list"
    and room :: "'q \<Rightarrow> bool"
    and push :: "'x job \<Rightarrow> 'q \<Rightarrow> 'q"
    and pop :: "(u64 \<Rightarrow> bool) \<Rightarrow> 'q \<Rightarrow> ('x job \<times> 'q) option"
  assumes push_inv: "inv q \<Longrightarrow> room q \<Longrightarrow> inv (push j q)"
    and push_line: "inv q \<Longrightarrow> room q \<Longrightarrow> line (push j q) = (line q)(job_prio j := line q (job_prio j) @ [j])"
    and line_prio: "inv q \<Longrightarrow> j \<in> set (line q p) \<Longrightarrow> job_prio j = p"
    and pop_inv: "inv q \<Longrightarrow> pop ready q = Some (j, q') \<Longrightarrow> inv q'"
    and pop_None: "inv q \<Longrightarrow> pop ready q = None \<longleftrightarrow> (\<forall>p. \<forall>j \<in> set (line q p). \<not> ready (job_ident j))"
    and pop_above: "inv q \<Longrightarrow> pop ready q = Some (j, q') \<Longrightarrow> job_prio j < p \<Longrightarrow>
       \<forall>k \<in> set (line q p). \<not> ready (job_ident k)"
    and pop_line: "inv q \<Longrightarrow> pop ready q = Some (j, q') \<Longrightarrow>
       ready (job_ident j) \<and>
       (\<exists>before after. line q (job_prio j) = before @ j # after \<and>
          (\<forall>k \<in> set before. \<not> ready (job_ident k)) \<and>
          line q' = (line q)(job_prio j := before @ after))"
begin

text \<open>A pop serves the highest priority that has a ready job.\<close>

lemma pop_highest:
  assumes "inv q" "pop ready q = Some (j, q')" "k \<in> set (line q p)" "ready (job_ident k)"
  shows "job_prio k \<le> job_prio j"
  using pop_above [OF assms(1,2), of p] assms(3,4) line_prio [OF assms(1,3)] by fastforce

text \<open>With every job ready, a line is served in the order of submission.\<close>

lemma pop_all_ready:
  assumes "inv q" "pop (\<lambda>_. True) q = Some (j, q')"
  shows "line q (job_prio j) = j # line q' (job_prio j)"
  using pop_line [OF assms] by auto

text \<open>A job that is pushed is served after those of its priority that were waiting and ready.\<close>

lemma push_then_pop:
  assumes "inv q" "room q" "pop (\<lambda>_. True) (push j q) = Some (j, q')" "j \<notin> set (line q (job_prio j))"
  shows "line q (job_prio j) = []"
proof -
  have "line (push j q) (job_prio j) = line q (job_prio j) @ [j]"
    using push_line [OF assms(1,2)] by simp
  moreover have "hd (line (push j q) (job_prio j)) = j"
    using pop_all_ready [OF push_inv [OF assms(1,2)] assms(3)] by simp
  ultimately show ?thesis using assms(4) by (metis hd_append2 hd_in_set)
qed

text \<open>Nothing is lost or made up: what was queued is what was popped and what is still queued.\<close>

lemma pop_members:
  assumes "inv q" "pop ready q = Some (j, q')"
  shows "set (line q p) = (if p = job_prio j then insert j (set (line q' p)) else set (line q' p))"
  using pop_line [OF assms] by auto

end

subsection \<open>The code's queue\<close>

definition queue_inv :: "'x job_queue \<Rightarrow> bool" where
  "queue_inv q \<longleftrightarrow>
     sorted_wrt (\<lambda>a b. entry_order_le a b \<and> entry_seq a \<noteq> entry_seq b) (entries q) \<and>
     (\<forall>e \<in> set (entries q). entry_seq e < next_seq q)"

text \<open>The sequence counter has a successor: it would wrap after \<open>2 ^ 64\<close> submissions.\<close>

definition queue_room :: "'x job_queue \<Rightarrow> bool" where
  "queue_room q \<longleftrightarrow> next_seq q \<noteq> - 1"

definition queue_line :: "'x job_queue \<Rightarrow> priority \<Rightarrow> 'x job list" where
  "queue_line q p = filter (\<lambda>j. job_prio j = p) (map entry_job (entries q))"

lemma queue_inv_new: "queue_inv queue_new"
  by (simp add: queue_inv_def queue_new_def)

lemma entry_order_new:
  assumes "queue_inv q" "e \<in> set (entries q)"
  shows "entry_order_le e \<lparr>entry_job = j, entry_seq = next_seq q\<rparr> \<longleftrightarrow> job_prio j \<le> job_prio (entry_job e)"
  using assms by (auto simp: entry_order_le_def queue_inv_def less_imp_le)

lemma word_less_succ: "x \<noteq> - 1 \<Longrightarrow> x < x + 1" for x :: u64
proof -
  assume "x \<noteq> - 1"
  then have "x + 1 \<noteq> 0" by (metis add_eq_0_iff2)
  then have "unat (x + 1) = unat x + 1" by (metis Suc_eq_plus1 add.commute unatSuc)
  then show ?thesis by (simp add: word_less_nat_alt)
qed

text \<open>A push puts the job between the entries of at least its priority and the others.\<close>

lemma queue_push_entries:
  assumes "queue_inv q"
  obtains before after where "entries q = before @ after"
    "entries (queue_push j q) = before @ \<lparr>entry_job = j, entry_seq = next_seq q\<rparr> # after"
    "\<forall>e \<in> set before. job_prio j \<le> job_prio (entry_job e)"
    "\<forall>e \<in> set after. job_prio (entry_job e) < job_prio j"
proof -
  define new where "new = \<lparr>entry_job = j, entry_seq = next_seq q\<rparr>"
  define before where "before = takeWhile (\<lambda>e. entry_order_le e new) (entries q)"
  define after where "after = dropWhile (\<lambda>e. entry_order_le e new) (entries q)"
  have split: "entries q = before @ after" by (simp add: before_def after_def)
  have "entries (queue_push j q) = list_insert (length before) new (entries q)"
    by (simp add: queue_push_def Let_def partition_point_def before_def new_def)
  then have pushed: "entries (queue_push j q) = before @ new # after"
    by (simp add: list_insert_def split)
  have "\<forall>e \<in> set before. entry_order_le e new"
    unfolding before_def by (auto dest: set_takeWhileD)
  then have high: "\<forall>e \<in> set before. job_prio j \<le> job_prio (entry_job e)"
    using entry_order_new [OF assms] split unfolding new_def by auto
  have low: "job_prio (entry_job e) < job_prio j" if e: "e \<in> set after" for e
  proof (cases after)
    case (Cons a as)
    have "\<not> entry_order_le a new"
      using hd_dropWhile [of "\<lambda>e. entry_order_le e new" "entries q"] Cons unfolding after_def by simp
    then have a: "job_prio (entry_job a) < job_prio j"
      using entry_order_new [OF assms, of a j] split Cons unfolding new_def by (simp add: not_le)
    have "sorted_wrt (\<lambda>a b. entry_order_le a b \<and> entry_seq a \<noteq> entry_seq b) (a # as)"
      using assms split Cons by (simp add: queue_inv_def sorted_wrt_append)
    then have "e = a \<or> entry_order_le a e" using e Cons by auto
    with a show ?thesis by (auto simp: entry_order_le_def)
  qed (use e in simp)
  show thesis
    using that [OF split pushed [unfolded new_def] high] low by blast
qed

lemma queue_push_inv:
  assumes "queue_inv q" "queue_room q"
  shows "queue_inv (queue_push j q)"
proof -
  from queue_push_entries [OF assms(1), of j] obtain before after where split: "entries q = before @ after"
    and pushed: "entries (queue_push j q) = before @ \<lparr>entry_job = j, entry_seq = next_seq q\<rparr> # after"
    and prio: "\<forall>e \<in> set before. job_prio j \<le> job_prio (entry_job e)"
      "\<forall>e \<in> set after. job_prio (entry_job e) < job_prio j"
    by metis
  have seq: "next_seq (queue_push j q) = next_seq q + 1"
    by (simp add: queue_push_def Let_def)
  have "next_seq q < next_seq q + 1"
    using assms(2) unfolding queue_room_def by (rule word_less_succ)
  moreover have "\<forall>e \<in> set (entries q). entry_seq e < next_seq q"
    using assms(1) by (simp add: queue_inv_def)
  ultimately have "\<forall>e \<in> set (entries (queue_push j q)). entry_seq e < next_seq (queue_push j q)"
    unfolding pushed seq using split by (auto intro: less_trans)
  moreover have "sorted_wrt (\<lambda>a b. entry_order_le a b \<and> entry_seq a \<noteq> entry_seq b) (entries (queue_push j q))"
  proof -
    have old: "sorted_wrt (\<lambda>a b. entry_order_le a b \<and> entry_seq a \<noteq> entry_seq b) (before @ after)"
      and below: "\<forall>e \<in> set (before @ after). entry_seq e < next_seq q"
      using assms(1) split by (simp_all add: queue_inv_def)
    have "entry_order_le e \<lparr>entry_job = j, entry_seq = next_seq q\<rparr>" if "e \<in> set before" for e
      using entry_order_new [OF assms(1), of e j] prio(1) split that by simp
    moreover have "entry_order_le \<lparr>entry_job = j, entry_seq = next_seq q\<rparr> e" if "e \<in> set after" for e
      using prio(2) that by (simp add: entry_order_le_def)
    ultimately show ?thesis
      unfolding pushed using old below by (force simp: sorted_wrt_append)
  qed
  ultimately show ?thesis by (simp add: queue_inv_def)
qed

lemma queue_push_line:
  assumes "queue_inv q"
  shows "queue_line (queue_push j q) = (queue_line q)(job_prio j := queue_line q (job_prio j) @ [j])"
proof
  fix p
  from queue_push_entries [OF assms, of j] obtain before after where split: "entries q = before @ after"
    and pushed: "entries (queue_push j q) = before @ \<lparr>entry_job = j, entry_seq = next_seq q\<rparr> # after"
    and "\<forall>e \<in> set after. job_prio (entry_job e) < job_prio j"
    by metis
  then have "filter (\<lambda>k. job_prio k = job_prio j) (map entry_job after) = []"
    by (auto simp: filter_empty_conv)
  then show "queue_line (queue_push j q) p =
      ((queue_line q)(job_prio j := queue_line q (job_prio j) @ [j])) p"
    unfolding queue_line_def pushed split by simp
qed

text \<open>Taking out the entry that \<open>position\<close> finds.\<close>

lemma pop_ready_entries:
  assumes "pop_ready ready q = Some (j, q')"
  obtains before e after where "entries q = before @ e # after" "entry_job e = j"
    "ready (job_ident j)" "\<forall>x \<in> set before. \<not> ready (job_ident (entry_job x))"
    "q' = q\<lparr>entries := before @ after\<rparr>"
proof -
  from assms obtain i where i: "position (\<lambda>e. ready (job_ident (entry_job e))) (entries q) = Some i"
    "j = entry_job (entries q ! i)" "q' = q\<lparr>entries := list_remove i (entries q)\<rparr>"
    by (auto simp: pop_ready_def split: option.splits)
  from i(1) show thesis
    by (rule position_SomeE) (use i(2,3) that in auto)
qed

lemma queue_remove_pop: "queue_remove jid q = pop_ready (\<lambda>i. i = jid) q"
  by (simp add: queue_remove_def pop_ready_def)

lemma pop_ready_None: "pop_ready ready q = None \<longleftrightarrow> (\<forall>i \<in> set (queue_ids q). \<not> ready i)"
proof -
  have "pop_ready ready q = None \<longleftrightarrow> position (\<lambda>e. ready (job_ident (entry_job e))) (entries q) = None"
    by (simp add: pop_ready_def split: option.splits)
  then show ?thesis by (simp add: position_None queue_ids_def)
qed

lemma pop_ready_inv:
  assumes "queue_inv q" "pop_ready ready q = Some (j, q')"
  shows "queue_inv q'"
  using assms(2)
proof (rule pop_ready_entries)
  fix before e after
  assume "entries q = before @ e # after" "q' = q\<lparr>entries := before @ after\<rparr>"
  with assms(1) show "queue_inv q'" by (auto simp: queue_inv_def sorted_wrt_append)
qed

interpretation jq: priority_fifo queue_inv queue_line queue_room queue_push pop_ready
proof
  fix q q' :: "'x job_queue" and j :: "'x job" and ready p
  show "queue_inv q \<Longrightarrow> queue_room q \<Longrightarrow> queue_inv (queue_push j q)"
    by (rule queue_push_inv)
  show "queue_inv q \<Longrightarrow> queue_room q \<Longrightarrow>
      queue_line (queue_push j q) = (queue_line q)(job_prio j := queue_line q (job_prio j) @ [j])"
    by (rule queue_push_line)
  show "queue_inv q \<Longrightarrow> j \<in> set (queue_line q p) \<Longrightarrow> job_prio j = p"
    by (simp add: queue_line_def)
  show "queue_inv q \<Longrightarrow> pop_ready ready q = Some (j, q') \<Longrightarrow> queue_inv q'"
    by (rule pop_ready_inv)
  show "queue_inv q \<Longrightarrow>
      pop_ready ready q = None \<longleftrightarrow> (\<forall>p. \<forall>j \<in> set (queue_line q p). \<not> ready (job_ident j))"
    by (auto simp: pop_ready_None queue_line_def queue_ids_def)
  show "\<forall>k \<in> set (queue_line q p). \<not> ready (job_ident k)"
    if "queue_inv q" "pop_ready ready q = Some (j, q')" "job_prio j < p"
    using that(2)
  proof (rule pop_ready_entries)
    fix before e after
    assume e: "entries q = before @ e # after" "entry_job e = j"
      "\<forall>x \<in> set before. \<not> ready (job_ident (entry_job x))"
    have "\<forall>x \<in> set after. entry_order_le e x" using that(1) e(1) by (auto simp: queue_inv_def sorted_wrt_append)
    then have "\<forall>x \<in> set after. job_prio (entry_job x) \<le> job_prio j"
      using e(2) by (auto simp: entry_order_le_def)
    moreover have "\<forall>x \<in> set (queue_line q p). \<exists>y \<in> set (entries q). x = entry_job y \<and> job_prio x = p"
      by (auto simp: queue_line_def)
    ultimately show ?thesis using e that(3) by fastforce
  qed
  show "ready (job_ident j) \<and> (\<exists>before after. queue_line q (job_prio j) = before @ j # after \<and>
       (\<forall>k \<in> set before. \<not> ready (job_ident k)) \<and>
       queue_line q' = (queue_line q)(job_prio j := before @ after))"
    if "queue_inv q" "pop_ready ready q = Some (j, q')"
    using that(2)
  proof (rule pop_ready_entries)
    fix before e after
    assume e: "entries q = before @ e # after" "entry_job e = j" "ready (job_ident j)"
      "\<forall>x \<in> set before. \<not> ready (job_ident (entry_job x))" "q' = q\<lparr>entries := before @ after\<rparr>"
    define line where "line es = filter (\<lambda>k. job_prio k = job_prio j) (map entry_job es)" for es :: "'x queue_entry list"
    have "queue_line q (job_prio j) = line before @ j # line after"
      "queue_line q' = (queue_line q)(job_prio j := line before @ line after)"
      "\<forall>k \<in> set (line before). \<not> ready (job_ident k)"
      using e by (auto simp: queue_line_def line_def fun_eq_iff)
    with e(3) show ?thesis by blast
  qed
qed

text \<open>The contents of the queue, whatever the order.\<close>

definition queue_jobs :: "'x job_queue \<Rightarrow> 'x job multiset" where
  "queue_jobs q = mset (map entry_job (entries q))"

lemma queue_jobs_push: "queue_jobs (queue_push j q) = add_mset j (queue_jobs q)"
  unfolding queue_jobs_def queue_push_def Let_def list_insert_def
  by (simp del: mset_map add: mset_map [symmetric]) (metis append_take_drop_id mset_append union_mset_add_mset_right map_append)

lemma queue_jobs_pop:
  "pop_ready ready q = Some (j, q') \<Longrightarrow> queue_jobs q = add_mset j (queue_jobs q') \<and> ready (job_ident j)"
  by (erule pop_ready_entries) (auto simp: queue_jobs_def)

end
