(* ===== verification/Scheduler.thy ===== *)
theory Scheduler
  imports Media
begin

text \<open>
  Job dependencies (\<open>tpt-av-asset-pipeline/src/scheduler.rs\<close>): the edges, the completed jobs and the
  dead ones.  \<open>sched_inv\<close> is the exclusion of completion and death that the pipeline keeps;
  \<open>mark_dead\<close> alone enforces it, \<open>mark_completed\<close> relies on its caller.
\<close>

record scheduler =
  deps :: "u64 \<Rightarrow> u64 list option"
  completed :: "u64 set"
  dead :: "u64 set"

definition scheduler_new :: scheduler where
  "scheduler_new = \<lparr>deps = (\<lambda>_. None), completed = {}, dead = {}\<rparr>"

definition sched_register :: "u64 \<Rightarrow> u64 list \<Rightarrow> scheduler \<Rightarrow> scheduler" where
  "sched_register j ds s = s\<lparr>deps := (deps s)(j \<mapsto> ds)\<rparr>"

definition mark_completed :: "u64 \<Rightarrow> scheduler \<Rightarrow> scheduler" where
  "mark_completed j s = s\<lparr>completed := insert j (completed s)\<rparr>"

definition mark_dead :: "u64 \<Rightarrow> scheduler \<Rightarrow> scheduler" where
  "mark_dead j s =
     (let s = s\<lparr>dead := insert j (dead s)\<rparr>
      in s\<lparr>completed := completed s - {j}\<rparr>)"

definition is_ready :: "u64 \<Rightarrow> scheduler \<Rightarrow> bool" where
  "is_ready j s =
     (case deps s j of None \<Rightarrow> True | Some ds \<Rightarrow> list_all (\<lambda>d. d \<in> completed s) ds)"

definition is_blocked_forever :: "u64 \<Rightarrow> scheduler \<Rightarrow> bool" where
  "is_blocked_forever j s =
     (case deps s j of None \<Rightarrow> False | Some ds \<Rightarrow> list_ex (\<lambda>d. d \<in> dead s) ds)"

definition sched_forget :: "u64 \<Rightarrow> scheduler \<Rightarrow> scheduler" where
  "sched_forget j s = s\<lparr>deps := (deps s)(j := None)\<rparr>"

lemma sched_simps [simp]:
  "deps (sched_register j ds s) = (deps s)(j \<mapsto> ds)"
  "completed (sched_register j ds s) = completed s" "dead (sched_register j ds s) = dead s"
  "deps (mark_completed j s) = deps s" "completed (mark_completed j s) = insert j (completed s)"
  "dead (mark_completed j s) = dead s"
  "deps (mark_dead j s) = deps s" "completed (mark_dead j s) = completed s - {j}"
  "dead (mark_dead j s) = insert j (dead s)"
  "deps (sched_forget j s) = (deps s)(j := None)"
  by (simp_all add: sched_register_def mark_completed_def mark_dead_def sched_forget_def)

definition dependencies :: "scheduler \<Rightarrow> u64 \<Rightarrow> u64 set" where
  "dependencies s j = (case deps s j of None \<Rightarrow> {} | Some ds \<Rightarrow> set ds)"

lemma is_ready_iff: "is_ready j s \<longleftrightarrow> dependencies s j \<subseteq> completed s"
  by (auto simp: is_ready_def dependencies_def list_all_iff split: option.splits)

lemma is_blocked_iff: "is_blocked_forever j s \<longleftrightarrow> dependencies s j \<inter> dead s \<noteq> {}"
  by (auto simp: is_blocked_forever_def dependencies_def list_ex_iff split: option.splits)

definition sched_inv :: "scheduler \<Rightarrow> bool" where
  "sched_inv s \<longleftrightarrow> completed s \<inter> dead s = {}"

lemma sched_inv_new: "sched_inv scheduler_new"
  by (simp add: sched_inv_def scheduler_new_def)

lemma sched_inv_steps:
  assumes "sched_inv s"
  shows "sched_inv (sched_register j ds s)" "sched_inv (mark_dead j s)" "sched_inv (sched_forget j s)"
    and "j \<notin> dead s \<Longrightarrow> sched_inv (mark_completed j s)"
  using assms by (auto simp: sched_inv_def sched_forget_def)

text \<open>A job is never both ready and blocked, and a blocked job stays blocked.\<close>

lemma ready_not_blocked: "sched_inv s \<Longrightarrow> is_ready j s \<Longrightarrow> \<not> is_blocked_forever j s"
  by (auto simp: is_ready_iff is_blocked_iff sched_inv_def)

end
