(* ===== verification/Tracker.thy ===== *)
theory Tracker
  imports JobTable Progress
begin

text \<open>
  The progress registry of the pipeline (\<open>tpt-av-asset-pipeline/src/progress.rs\<close>): a map from job ids
  to progress snapshots behind one lock, so every method is one step on the map.  Waiting is modelled
  by the check that the wait loop repeats whenever it is woken (\<open>wait_check\<close>; \<open>None\<close> is: keep
  waiting), and by that loop over the sequence of maps it sees (\<open>wait_for\<close>).
\<close>

record job_progress =
  progress_job :: u64
  progress_state :: job_state
  fraction_done :: f64
  progress_message :: "string option"
  progress_updated_ms :: u64

type_synonym tracker = "u64 \<Rightarrow> job_progress option"

definition progress_is_terminal :: "job_progress \<Rightarrow> bool" where
  "progress_is_terminal p \<longleftrightarrow> is_terminal (progress_state p)"

definition tracker_new :: tracker where "tracker_new = (\<lambda>_. None)"

definition tracker_register :: "int \<Rightarrow> u64 \<Rightarrow> tracker \<Rightarrow> tracker" where
  "tracker_register clock j t =
     t(j \<mapsto> \<lparr>progress_job = j, progress_state = Pending, fraction_done = f64_zero, progress_message = None,
           progress_updated_ms = now_ms clock\<rparr>)"

definition update_fraction :: "int \<Rightarrow> u64 \<Rightarrow> f64 \<Rightarrow> string option \<Rightarrow> tracker \<Rightarrow> tracker" where
  "update_fraction clock j f msg t =
     (case t j of
        None \<Rightarrow> t
      | Some p \<Rightarrow> t(j \<mapsto> p\<lparr>fraction_done := f64_clamp f f64_zero f64_one, progress_message := msg,
                         progress_updated_ms := now_ms clock\<rparr>))"

definition update_state :: "int \<Rightarrow> u64 \<Rightarrow> job_state \<Rightarrow> tracker \<Rightarrow> tracker" where
  "update_state clock j st t =
     (case t j of
        None \<Rightarrow> t
      | Some p \<Rightarrow>
          (let p = p\<lparr>progress_state := st, progress_updated_ms := now_ms clock\<rparr>;
               p = (if is_terminal st
                    then p\<lparr>fraction_done := (case st of Completed \<Rightarrow> f64_one | _ \<Rightarrow> fraction_done p)\<rparr>
                    else p)
           in t(j \<mapsto> p)))"

text \<open>The reporter of a job run: every report updates the job's fraction and message.\<close>

definition reporter_for :: "int \<Rightarrow> u64 \<Rightarrow> tracker reporter" where
  "reporter_for clock j =
     with_callback (\<lambda>ev (c, t). (c, update_fraction clock j (fraction ev) (message ev) t))"

definition snapshot :: "u64 \<Rightarrow> tracker \<Rightarrow> job_progress option" where
  "snapshot j t = t j"

text \<open>The order of a hash map's values is unspecified.\<close>

definition snapshots :: "tracker \<Rightarrow> job_progress set" where
  "snapshots t = ran t"

definition wait_check :: "u64 \<Rightarrow> tracker \<Rightarrow> (asset_error + job_progress) option" where
  "wait_check j t =
     (case t j of
        None \<Rightarrow> Some (Inl (JobNotFound j))
      | Some p \<Rightarrow> if progress_is_terminal p then Some (Inr p) else None)"

fun wait_for :: "u64 \<Rightarrow> tracker list \<Rightarrow> (asset_error + job_progress) option" where
  "wait_for j [] = None"
| "wait_for j (t # ts) = (case wait_check j t of Some r \<Rightarrow> Some r | None \<Rightarrow> wait_for j ts)"

text \<open>With a deadline: each map comes with whether the deadline has passed when it is seen.\<close>

fun wait_for_timeout :: "u64 \<Rightarrow> (tracker \<times> bool) list \<Rightarrow> (asset_error + job_progress) option" where
  "wait_for_timeout j [] = None"
| "wait_for_timeout j ((t, expired) # ts) =
     (case t j of
        None \<Rightarrow> Some (Inl (JobNotFound j))
      | Some p \<Rightarrow>
          if progress_is_terminal p then Some (Inr p)
          else if expired then Some (Inr p)
          else wait_for_timeout j ts)"

fun wait_all :: "(tracker \<times> bool) list \<Rightarrow> bool option" where
  "wait_all [] = None"
| "wait_all ((t, expired) # ts) =
     (if \<forall>p \<in> ran t. progress_is_terminal p then Some True
      else if expired then Some False
      else wait_all ts)"

subsection \<open>Properties of the map\<close>

lemma update_state_eq:
  "update_state clock j st t k =
     (if k = j then map_option (\<lambda>p. p\<lparr>progress_state := st, progress_updated_ms := now_ms clock,
        fraction_done := (if st = Completed then f64_one else fraction_done p)\<rparr>) (t j)
      else t k)"
  by (cases st) (auto simp: update_state_def Let_def is_terminal_def split: option.splits)

lemma update_fraction_eq:
  "update_fraction clock j f msg t k =
     (if k = j then map_option (\<lambda>p. p\<lparr>fraction_done := f64_clamp f f64_zero f64_one,
        progress_message := msg, progress_updated_ms := now_ms clock\<rparr>) (t j)
      else t k)"
  by (auto simp: update_fraction_def split: option.splits)

text \<open>The state of a job in the registry.\<close>

definition tracked_state :: "tracker \<Rightarrow> u64 \<Rightarrow> job_state option" where
  "tracked_state t j = map_option progress_state (t j)"

lemma tracked_state_simps [simp]:
  "tracked_state (tracker_register clock j t) = (tracked_state t)(j \<mapsto> Pending)"
  "tracked_state (update_fraction clock j f msg t) = tracked_state t"
  "tracked_state (update_state clock j st t) =
     (tracked_state t)(j := map_option (\<lambda>_. st) (tracked_state t j))"
  by (auto simp: fun_eq_iff tracked_state_def tracker_register_def update_fraction_eq update_state_eq
      option.map_comp o_def)

text \<open>Every snapshot is filed under its job and its fraction is between zero and one.\<close>

definition tracker_ok :: "tracker \<Rightarrow> bool" where
  "tracker_ok t \<longleftrightarrow> (\<forall>j p. t j = Some p \<longrightarrow> progress_job p = j \<and> unit_fraction (fraction_done p))"

lemma tracker_ok_new: "tracker_ok tracker_new"
  by (simp add: tracker_ok_def tracker_new_def)

lemma tracker_ok_register: "tracker_ok t \<Longrightarrow> tracker_ok (tracker_register clock j t)"
  by (simp add: tracker_ok_def tracker_register_def)

lemma tracker_ok_update_state: "tracker_ok t \<Longrightarrow> tracker_ok (update_state clock j st t)"
  by (auto simp: tracker_ok_def update_state_eq split: if_splits)

lemma tracker_ok_update_fraction:
  "tracker_ok t \<Longrightarrow> unit_fraction f \<Longrightarrow> tracker_ok (update_fraction clock j f msg t)"
  by (auto simp: tracker_ok_def update_fraction_eq f64_clamp_unit split: if_splits)

lemma reporter_for_keeps: "callback_keeps (reporter_for clock j) (\<lambda>s. tracker_ok (snd s))"
  by (auto simp: callback_keeps_def reporter_for_def with_callback_def reporter_default_def
      tracker_ok_update_fraction)

lemma reporter_for_states:
  "callback_keeps (reporter_for clock j) (\<lambda>s. tracked_state (snd s) = ts)"
  by (auto simp: callback_keeps_def reporter_for_def with_callback_def reporter_default_def)

text \<open>A job run's reports change nothing but the job's fraction, message and time.\<close>

lemma reports_keep:
  assumes "tracker_ok t"
  shows "tracker_ok (snd (report (reporter_for clock j) x (c, t)))"
    "tracker_ok (snd (report_with_message (reporter_for clock j) x msg (c, t)))"
    "tracked_state (snd (report (reporter_for clock j) x (c, t))) = tracked_state t"
    "tracked_state (snd (report_with_message (reporter_for clock j) x msg (c, t))) = tracked_state t"
  using report_keeps [OF reporter_for_keeps, of "(c, t)"] report_keeps [OF reporter_for_states, of "(c, t)"]
    assms by simp_all

subsection \<open>Waiting\<close>

lemma wait_for_returns:
  "(\<exists>t \<in> set ts. case t j of None \<Rightarrow> True | Some p \<Rightarrow> progress_is_terminal p) \<longleftrightarrow> wait_for j ts \<noteq> None"
  by (induction ts) (auto simp: wait_check_def split: option.splits)

lemma wait_for_terminal: "wait_for j ts = Some (Inr p) \<Longrightarrow> progress_is_terminal p \<and> (\<exists>t \<in> set ts. t j = Some p)"
  by (induction ts) (auto simp: wait_check_def split: option.splits if_splits)

lemma wait_all_True:
  "wait_all ts = Some True \<Longrightarrow> \<exists>t \<in> fst ` set ts. \<forall>p \<in> ran t. progress_is_terminal p"
  by (induction ts rule: wait_all.induct) (auto split: if_splits)

end
