(* ===== verification/Pipeline.thy ===== *)
theory Pipeline
  imports Queue Scheduler Tracker
begin

text \<open>
  The pipeline handle and the state it shares with its workers
  (\<open>tpt-av-asset-pipeline/src/pipeline.rs\<close>, \<open>worker.rs\<close>).  Every critical section of the code is one
  definition on the shared state; the methods compose them in program order.  Theory \<open>Interleaving\<close>
  runs the same sections of several threads in any order.

  The cancellation flags of the reporters live in a store (\<open>flags\<close>), as a reporter in the \<open>running\<close>
  map and the one a job polls are clones that share a flag.  \<open>upsert\<close> stands for the attached
  database's \<open>upsert_job\<close>, which takes the clock.  A persist that panics is \<open>None\<close>.
\<close>

record submitted_meta =
  meta_asset :: asset_id
  meta_priority :: priority
  meta_kind :: string
  meta_payload :: string
  meta_created_ms :: u64

record ('x, 'd) shared =
  queue :: "'x job_queue"
  shutdown :: bool
  tracker :: tracker
  scheduler :: scheduler
  running :: "u64 \<Rightarrow> nat option"
  submitted :: "u64 \<Rightarrow> submitted_meta option"
  job_db :: "'d option"
  next_id :: u64
  flags :: "nat \<Rightarrow> bool"
  next_flag :: nat

definition shared_default :: "('x, 'd) shared" where
  "shared_default =
     \<lparr>queue = queue_new, shutdown = False, tracker = tracker_new, scheduler = scheduler_new,
      running = (\<lambda>_. None), submitted = (\<lambda>_. None), job_db = None, next_id = 0,
      flags = (\<lambda>_. False), next_flag = 0\<rparr>"

type_synonym 'd upsert = "int \<Rightarrow> job_record \<Rightarrow> 'd \<Rightarrow> (asset_error + unit) \<times> 'd"

definition pipeline_new :: "nat \<Rightarrow> asset_error + ('x, 'd) shared" where
  "pipeline_new num_workers =
     (if num_workers = 0 then Inl (validation ''pipeline needs at least one worker'')
      else Inr shared_default)"

definition attach_db :: "'d \<Rightarrow> ('x, 'd) shared \<Rightarrow> ('x, 'd) shared" where
  "attach_db d sh = sh\<lparr>job_db := Some d\<rparr>"

definition with_db :: "nat \<Rightarrow> 'd \<Rightarrow> asset_error + ('x, 'd) shared" where
  "with_db num_workers d = rbind (pipeline_new num_workers) (\<lambda>sh. Inr (attach_db d sh))"

subsection \<open>Persisting a job\<close>

definition job_record_of ::
  "int \<Rightarrow> u64 \<Rightarrow> job_state \<Rightarrow> string option \<Rightarrow> submitted_meta \<Rightarrow> job_progress \<Rightarrow> job_record" where
  "job_record_of clock j st err meta p =
     \<lparr>job_id = j, asset_id = meta_asset meta, job_priority = meta_priority meta, state = st,
      kind = meta_kind meta, progress = fraction_done p, resume_hint = 0, payload = meta_payload meta,
      created_ms = meta_created_ms meta, updated_ms = now_ms clock, error = err\<rparr>"

definition persist ::
  "'d upsert \<Rightarrow> int \<Rightarrow> u64 \<Rightarrow> job_state \<Rightarrow> string option \<Rightarrow> ('x, 'd) shared \<Rightarrow> ('x, 'd) shared option" where
  "persist upsert clock j st err sh =
     (case job_db sh of
        None \<Rightarrow> Some sh
      | Some d \<Rightarrow>
          (case submitted sh j of
             None \<Rightarrow> Some sh
           | Some meta \<Rightarrow>
               (case snapshot j (tracker sh) of
                  None \<Rightarrow> None
                | Some p \<Rightarrow>
                    Some (sh\<lparr>job_db := Some (snd (upsert clock (job_record_of clock j st err meta p) d))\<rparr>))))"

lemma persist_only_db: "persist upsert clock j st err sh = Some sh' \<Longrightarrow> sh' = sh\<lparr>job_db := job_db sh'\<rparr>"
  unfolding persist_def by (auto split: option.splits)

subsection \<open>Submitting\<close>

definition submit_deps :: "'x job \<Rightarrow> u64 list \<Rightarrow> ('x, 'd) shared \<Rightarrow> ('x, 'd) shared" where
  "submit_deps job ds sh = sh\<lparr>scheduler := sched_register (job_ident job) ds (scheduler sh)\<rparr>"

definition submit_track :: "int \<Rightarrow> 'x job \<Rightarrow> ('x, 'd) shared \<Rightarrow> ('x, 'd) shared" where
  "submit_track clock job sh = sh\<lparr>tracker := tracker_register clock (job_ident job) (tracker sh)\<rparr>"

definition submit_meta :: "int \<Rightarrow> 'x job \<Rightarrow> ('x, 'd) shared \<Rightarrow> ('x, 'd) shared" where
  "submit_meta clock job sh =
     sh\<lparr>submitted := (submitted sh)(job_ident job \<mapsto>
       \<lparr>meta_asset = job_asset job, meta_priority = job_prio job, meta_kind = job_kind job,
        meta_payload = job_payload job, meta_created_ms = now_ms clock\<rparr>)\<rparr>"

definition submit_push :: "'x job \<Rightarrow> ('x, 'd) shared \<Rightarrow> ('x, 'd) shared" where
  "submit_push job sh = sh\<lparr>queue := queue_push job (queue sh)\<rparr>"

definition submit_with_deps ::
  "'d upsert \<Rightarrow> int \<Rightarrow> 'x job \<Rightarrow> u64 list \<Rightarrow> ('x, 'd) shared
     \<Rightarrow> ((asset_error + u64) \<times> ('x, 'd) shared) option" where
  "submit_with_deps upsert clock job ds sh =
     (if shutdown sh then Some (Inl ChannelClosed, sh)
      else
        let i = job_ident job;
            sh = submit_deps job ds sh;
            sh = submit_track clock job sh;
            sh = submit_meta clock job sh
        in Option.bind (persist upsert clock i Pending None sh) (\<lambda>sh.
           Some (Inr i, submit_push job sh)))"

definition submit ::
  "'d upsert \<Rightarrow> int \<Rightarrow> 'x job \<Rightarrow> ('x, 'd) shared \<Rightarrow> ((asset_error + u64) \<times> ('x, 'd) shared) option" where
  "submit upsert clock job sh = submit_with_deps upsert clock job [] sh"

definition fetch_job_id :: "('x, 'd) shared \<Rightarrow> u64 \<times> ('x, 'd) shared" where
  "fetch_job_id sh = (next_id sh + 1, sh\<lparr>next_id := next_id sh + 1\<rparr>)"

subsection \<open>Cancelling\<close>

definition cancel_dequeue :: "u64 \<Rightarrow> ('x, 'd) shared \<Rightarrow> ('x, 'd) shared option" where
  "cancel_dequeue j sh = map_option (\<lambda>(_, q). sh\<lparr>queue := q\<rparr>) (queue_remove j (queue sh))"

definition set_state :: "int \<Rightarrow> u64 \<Rightarrow> job_state \<Rightarrow> ('x, 'd) shared \<Rightarrow> ('x, 'd) shared" where
  "set_state clock j st sh = sh\<lparr>tracker := update_state clock j st (tracker sh)\<rparr>"

definition set_dead :: "u64 \<Rightarrow> ('x, 'd) shared \<Rightarrow> ('x, 'd) shared" where
  "set_dead j sh = sh\<lparr>scheduler := mark_dead j (scheduler sh)\<rparr>"

definition cancel_token :: "u64 \<Rightarrow> ('x, 'd) shared \<Rightarrow> ('x, 'd) shared" where
  "cancel_token j sh =
     (case running sh j of None \<Rightarrow> sh | Some n \<Rightarrow> sh\<lparr>flags := (flags sh)(n := True)\<rparr>)"

definition cancel ::
  "'d upsert \<Rightarrow> int \<Rightarrow> u64 \<Rightarrow> ('x, 'd) shared \<Rightarrow> ((asset_error + unit) \<times> ('x, 'd) shared) option" where
  "cancel upsert clock j sh =
     (if snapshot j (tracker sh) = None then Some (Inl (JobNotFound j), sh)
      else
        case cancel_dequeue j sh of
          Some sh \<Rightarrow>
            (let sh = set_state clock j JobCancelled sh;
                 sh = set_dead j sh
             in Option.bind (persist upsert clock j JobCancelled None sh) (\<lambda>sh. Some (Inr (), sh)))
        | None \<Rightarrow> Some (Inr (), cancel_token j sh))"

subsection \<open>Progress, waiting and stopping\<close>

definition get_progress :: "u64 \<Rightarrow> ('x, 'd) shared \<Rightarrow> asset_error + job_progress option" where
  "get_progress j sh =
     (case snapshot j (tracker sh) of Some p \<Rightarrow> Inr (Some p) | None \<Rightarrow> Inl (JobNotFound j))"

definition pipeline_wait_for :: "u64 \<Rightarrow> tracker list \<Rightarrow> (asset_error + unit) option" where
  "pipeline_wait_for j ts = map_option (\<lambda>r. rbind r (\<lambda>_. Inr ())) (wait_for j ts)"

definition queued_count :: "('x, 'd) shared \<Rightarrow> nat" where
  "queued_count sh = queue_len (queue sh)"

definition set_shutdown :: "('x, 'd) shared \<Rightarrow> ('x, 'd) shared" where
  "set_shutdown sh = sh\<lparr>shutdown := True\<rparr>"

subsection \<open>Taking a job\<close>

datatype 'x take = TakeJob "'x job" | TakeEmpty | TakeShutdown

definition blocked_ids :: "('x, 'd) shared \<Rightarrow> u64 list" where
  "blocked_ids sh = filter (\<lambda>i. is_blocked_forever i (scheduler sh)) (queue_ids (queue sh))"

text \<open>
  The sweep over the blocked jobs holds both locks until it removes a job; it then lets them go to
  persist.  \<open>sweep_locked\<close> is the part under the locks: the removed job, if any, and the ids left.
\<close>

fun sweep_locked :: "int \<Rightarrow> u64 list \<Rightarrow> ('x, 'd) shared \<Rightarrow> (u64 \<times> u64 list) option \<times> ('x, 'd) shared" where
  "sweep_locked clock [] sh = (None, sh)"
| "sweep_locked clock (i # ids) sh =
     (case queue_remove i (queue sh) of
        None \<Rightarrow> sweep_locked clock ids sh
      | Some (_, q) \<Rightarrow>
          (let sh = sh\<lparr>queue := q\<rparr>;
               sh = set_state clock i JobCancelled sh;
               sh = set_dead i sh
           in (Some (i, ids), sh)))"

definition dependency_failed :: string where "dependency_failed = ''dependency failed''"

text \<open>One removal leaves fewer ids, so the sweep ends.\<close>

lemma sweep_locked_shorter: "sweep_locked clock ids sh = (Some (i, ids'), sh') \<Longrightarrow> length ids' < length ids"
  by (induction clock ids sh rule: sweep_locked.induct) (fastforce simp: Let_def split: option.splits)+

function sweep :: "'d upsert \<Rightarrow> int \<Rightarrow> u64 list \<Rightarrow> ('x, 'd) shared \<Rightarrow> ('x, 'd) shared option" where
  "sweep upsert clock ids sh =
     (case sweep_locked clock ids sh of
        (None, sh) \<Rightarrow> Some sh
      | (Some (i, ids), sh) \<Rightarrow>
          Option.bind (persist upsert clock i JobCancelled (Some dependency_failed) sh) (\<lambda>sh.
            sweep upsert clock ids sh))"
  by pat_completeness auto

termination
  by (relation "measure (\<lambda>(_, _, ids, _). length ids)") (auto dest: sweep_locked_shorter [OF sym])

declare sweep.simps [simp del]

definition take_next :: "('x, 'd) shared \<Rightarrow> 'x take \<times> ('x, 'd) shared" where
  "take_next sh =
     (if shutdown sh \<and> queue_is_empty (queue sh) then (TakeShutdown, sh)
      else
        case pop_ready (\<lambda>i. is_ready i (scheduler sh)) (queue sh) of
          Some (job, q) \<Rightarrow> (TakeJob job, sh\<lparr>queue := q\<rparr>)
        | None \<Rightarrow> (TakeEmpty, sh))"

definition try_take ::
  "'d upsert \<Rightarrow> int \<Rightarrow> ('x, 'd) shared \<Rightarrow> ('x take \<times> ('x, 'd) shared) option" where
  "try_take upsert clock sh =
     Option.bind (sweep upsert clock (blocked_ids sh) sh) (\<lambda>sh. Some (take_next sh))"

subsection \<open>Running a job\<close>

datatype outcome = JobOk | JobErr asset_error | JobPanic

fun outcome_state :: "outcome \<Rightarrow> job_state \<times> string option" where
  "outcome_state JobOk = (Completed, None)"
| "outcome_state (JobErr e) =
     (if e = Cancelled then (JobCancelled, Some ''cancelled'') else (Failed, Some (error_display e)))"
| "outcome_state JobPanic = (Failed, Some ''job panicked'')"

definition run_register :: "u64 \<Rightarrow> ('x, 'd) shared \<Rightarrow> nat \<times> ('x, 'd) shared" where
  "run_register j sh =
     (let n = next_flag sh
      in (n, sh\<lparr>next_flag := n + 1, flags := (flags sh)(n := False), running := (running sh)(j \<mapsto> n)\<rparr>))"

definition run_unregister :: "u64 \<Rightarrow> ('x, 'd) shared \<Rightarrow> ('x, 'd) shared" where
  "run_unregister j sh = sh\<lparr>running := (running sh)(j := None)\<rparr>"

definition finish_sched :: "u64 \<Rightarrow> job_state \<Rightarrow> ('x, 'd) shared \<Rightarrow> ('x, 'd) shared" where
  "finish_sched j st sh =
     sh\<lparr>scheduler := (case st of Completed \<Rightarrow> mark_completed j (scheduler sh)
                            | _ \<Rightarrow> mark_dead j (scheduler sh))\<rparr>"

text \<open>
  \<open>execute\<close> is the body of the job, code of its own: it polls and may set its cancellation flag and
  reports to the registry through the reporter it is given.
\<close>

type_synonym 'x execute =
  "'x \<Rightarrow> tracker reporter \<Rightarrow> tracker shared_flag \<Rightarrow> outcome \<times> tracker shared_flag"

definition run_job ::
  "'d upsert \<Rightarrow> int \<Rightarrow> 'x execute \<Rightarrow> 'x job \<Rightarrow> ('x, 'd) shared \<Rightarrow> ('x, 'd) shared option" where
  "run_job upsert clock execute job sh =
     (let j = job_ident job;
          sh = set_state clock j Running sh
      in Option.bind (persist upsert clock j Running None sh) (\<lambda>sh.
         let (n, sh) = run_register j sh;
             (result, flag, t) = execute (job_body job) (reporter_for clock j) (flags sh n, tracker sh);
             sh = sh\<lparr>flags := (flags sh)(n := flag), tracker := t\<rparr>;
             sh = run_unregister j sh;
             (st, err) = outcome_state result;
             sh = set_state clock j st sh;
             sh = finish_sched j st sh
         in persist upsert clock j st err sh))"

text \<open>One turn of the worker loop that is not shut down; \<open>True\<close> is: the worker returns.\<close>

definition worker_turn ::
  "'d upsert \<Rightarrow> int \<Rightarrow> 'x execute \<Rightarrow> ('x, 'd) shared \<Rightarrow> (bool \<times> ('x, 'd) shared) option" where
  "worker_turn upsert clock execute sh =
     Option.bind (try_take upsert clock sh) (\<lambda>(t, sh).
       case t of
         TakeJob job \<Rightarrow> map_option (Pair False) (run_job upsert clock execute job sh)
       | TakeEmpty \<Rightarrow> Some (shutdown sh \<and> queue_is_empty (queue sh), sh)
       | TakeShutdown \<Rightarrow> Some (True, sh))"

text \<open>The loop, for as many turns as the fuel allows.\<close>

fun worker_run ::
  "'d upsert \<Rightarrow> int \<Rightarrow> 'x execute \<Rightarrow> nat \<Rightarrow> ('x, 'd) shared \<Rightarrow> ('x, 'd) shared option" where
  "worker_run upsert clock execute 0 sh = Some sh"
| "worker_run upsert clock execute (Suc fuel) sh =
     (if shutdown sh then Some sh
      else Option.bind (worker_turn upsert clock execute sh) (\<lambda>(finished, sh).
             if finished then Some sh else worker_run upsert clock execute fuel sh))"

end
