(* ===== verification/FloatText.thy ===== *)
theory FloatText
  imports Rounding
begin

text \<open>
  Rust's \<open>str::parse\<close> of an \<open>f64\<close>: a sign, then \<open>inf\<close>, \<open>infinity\<close> or \<open>nan\<close> in any case, or digits with a
  point and an exponent, rounded to nearest.  What \<open>f64_display\<close> writes is read back as the same float.
\<close>

definition ascii_lower :: "char \<Rightarrow> char" where
  "ascii_lower c = (let k = of_char c :: nat in if 65 \<le> k \<and> k \<le> 90 then char_of (k + 32) else c)"

definition is_digit :: "char \<Rightarrow> bool" where "is_digit c \<longleftrightarrow> digit_val c \<noteq> None"

fun split_sign :: "string \<Rightarrow> bool \<times> string" where
  "split_sign [] = (False, [])"
| "split_sign (c # cs) =
     (if c = CHR ''-'' then (True, cs) else if c = CHR ''+'' then (False, cs) else (False, c # cs))"

fun parse_exponent :: "string \<Rightarrow> int option" where
  "parse_exponent [] = Some 0"
| "parse_exponent (c # cs) =
     (if ascii_lower c = CHR ''e'' then
        (case split_sign cs of
           (neg, ds) \<Rightarrow> if ds = [] then None else map_option (\<lambda>n. if neg then - int n else int n) (digits_val 0 ds))
      else None)"

text \<open>The digits in front of the point, those behind it and the rest.\<close>

definition split_number :: "string \<Rightarrow> string \<times> string \<times> string" where
  "split_number s =
     (let whole = takeWhile is_digit s; rest = dropWhile is_digit s in
      case rest of
        c # cs \<Rightarrow> if c = CHR ''.'' then (whole, takeWhile is_digit cs, dropWhile is_digit cs) else (whole, [], rest)
      | [] \<Rightarrow> (whole, [], []))"

definition parse_decimal :: "bool \<Rightarrow> string \<Rightarrow> f64 option" where
  "parse_decimal neg s =
     (case split_number s of
        (whole, frac, rest) \<Rightarrow>
          if whole = [] \<and> frac = [] then None
          else case (digits_val 0 (whole @ frac), parse_exponent rest) of
            (Some n, Some e) \<Rightarrow>
              (let x = e - int (length frac) in
               Some (if 0 \<le> x then f64_pack neg (n * 10 ^ nat x * f64_unit) 1
                     else f64_pack neg (n * f64_unit) (10 ^ nat (- x))))
          | _ \<Rightarrow> None)"

definition parse_f64 :: "string \<Rightarrow> f64 option" where
  "parse_f64 s =
     (case split_sign s of
        (neg, body) \<Rightarrow>
          let lower = map ascii_lower body in
          if lower = ''inf'' \<or> lower = ''infinity'' then Some (f64_make neg f64_inf)
          else if lower = ''nan'' then Some (f64_make neg (f64_mag f64_nan))
          else parse_decimal neg body)"

subsection \<open>Digits that read back\<close>

lemma dec_unit_multiple: "dec_unit = (5 ^ 1074 * 10 ^ 26) * f64_unit"
proof -
  have split: "(a * b) ^ (m + n) = (a ^ m * (a * b) ^ n) * b ^ m" for a b :: nat and m n
    by (simp add: power_add power_mult_distrib ac_simps)
  have "(10 :: nat) = 5 * 2" by simp
  moreover have "(1100 :: nat) = 1074 + 26" by simp
  ultimately show ?thesis unfolding dec_unit_def f64_unit_def by (metis split)
qed

lemma dec_unit_pos: "0 < dec_unit"
  unfolding dec_unit_def by (rule zero_less_power) (rule zero_less_numeral)

lemma f64_near_0: "f64_reads_back mag 0 (f64_near mag 0)"
proof -
  have pos: "0 < f64_unit" "0 < dec_unit" by (rule f64_unit_pos, rule dec_unit_pos)
  define c :: nat where "c = 5 ^ 1074 * 10 ^ 26"
  have unit: "dec_unit = c * f64_unit" unfolding c_def by (rule dec_unit_multiple)
  have "f64_near mag 0 = round_half_even (fp_scaled 52 mag * c * f64_unit) f64_unit"
    by (simp add: f64_near_def unit mult.assoc)
  also have "\<dots> = fp_scaled 52 mag * c" by (rule round_half_even_exact [OF pos(1)])
  finally have "f64_near mag 0 * 10 ^ 0 * f64_unit = fp_scaled 52 mag * dec_unit" by (simp add: unit mult.assoc)
  then show ?thesis unfolding f64_reads_back_def using fp_round_mag_exact [OF pos(2)] by simp
qed

lemma f64_digits_reads_back: "f64_digits mag t = (d, t') \<Longrightarrow> f64_reads_back mag t' d"
  by (induction t) (auto simp: f64_near_0 split: if_splits)

lemma round_half_even_scale: "0 < c \<Longrightarrow> round_half_even (p * c) (q * c) = round_half_even p q"
  by (simp add: round_half_even_def Let_def mult_mod_left mult.assoc [symmetric] flip: mult.assoc)

lemma fp_round_mag_scale: "0 < c \<Longrightarrow> fp_round_mag mb (p * c) (q * c) = fp_round_mag mb p q"
  using round_half_even_scale [of c p "q * 2 ^ k" for k]
  by (simp add: fp_round_mag_def Let_def ac_simps)

subsection \<open>What is displayed reads back\<close>

lemma is_digit_facts:
  "is_digit c \<Longrightarrow> ascii_lower c = c \<and> c \<noteq> CHR ''-'' \<and> c \<noteq> CHR ''+'' \<and> c \<noteq> CHR ''i'' \<and> c \<noteq> CHR ''n'' \<and> c \<noteq> CHR ''.''"
  by (auto simp: is_digit_def digit_val_def ascii_lower_def Let_def split: if_splits)

lemma dot_no_digit [simp]: "\<not> is_digit (CHR ''.'')"
  using is_digit_facts by blast

lemma is_digit_zero [simp]: "is_digit (CHR ''0'')" "digit_val (CHR ''0'') = Some 0"
  by (simp_all add: is_digit_def digit_val_def)

lemma dec_string_all_digits: "\<forall>c \<in> set (dec_string n). is_digit c"
  using dec_string_digits [of n] by (auto simp: is_digit_def)

lemma split_number_whole: "\<forall>c \<in> set s. is_digit c \<Longrightarrow> split_number s = (s, [], [])"
  by (simp add: split_number_def Let_def takeWhile_eq_all_conv [THEN iffD2] dropWhile_eq_Nil_conv [THEN iffD2])

lemma split_number_point:
  assumes "\<forall>c \<in> set a. is_digit c" "\<forall>c \<in> set b. is_digit c"
  shows "split_number (a @ CHR ''.'' # b) = (a, b, [])"
proof -
  have "takeWhile is_digit (a @ CHR ''.'' # b) = a" "dropWhile is_digit (a @ CHR ''.'' # b) = CHR ''.'' # b"
    using assms(1) by (simp_all add: takeWhile_append2 dropWhile_append2)
  moreover have "takeWhile is_digit b = b" "dropWhile is_digit b = []"
    using assms(2) by (simp_all add: takeWhile_eq_all_conv dropWhile_eq_Nil_conv)
  ultimately show ?thesis by (simp add: split_number_def)
qed

lemma f64_pack_scale: "0 < c \<Longrightarrow> f64_pack neg (p * c) (q * c) = f64_pack neg p q"
  by (simp add: f64_pack_def fp_round_mag_scale)

lemma decimal_text_parses:
  "parse_decimal neg (decimal_text d t) = Some (f64_pack neg (d * 10 ^ t * f64_unit) dec_unit) \<and>
   (\<exists>c cs. decimal_text d t = c # cs \<and> is_digit c)"
proof (cases "1100 \<le> t")
  case True
  define n where "n = d * 10 ^ (t - 1100)"
  have shown: "decimal_text d t = dec_string n" using True by (simp add: decimal_text_def n_def)
  obtain c cs where s: "dec_string n = c # cs" by (cases "dec_string n") simp_all
  have "is_digit c" using dec_string_all_digits [of n] s by simp
  moreover have "parse_decimal neg (dec_string n) = Some (f64_pack neg (n * f64_unit) 1)"
    by (simp add: parse_decimal_def split_number_whole dec_string_all_digits digits_val_dec_string)
  moreover have "d * 10 ^ t = n * dec_unit"
  proof -
    have "(10 :: nat) ^ t = 10 ^ (t - 1100) * 10 ^ 1100" using True by (metis le_add_diff_inverse2 power_add)
    then show ?thesis by (simp only: n_def dec_unit_def mult.assoc)
  qed
  then have "f64_pack neg (d * 10 ^ t * f64_unit) dec_unit = f64_pack neg (n * f64_unit * dec_unit) (1 * dec_unit)"
    by (simp add: ac_simps)
  moreover note dec_unit_pos
  ultimately show ?thesis using f64_pack_scale [of dec_unit neg "n * f64_unit" 1] s shown by metis
next
  case False
  define k where "k = 1100 - t"
  define padded where "padded = replicate (Suc k - length (dec_string d)) (CHR ''0'') @ dec_string d"
  define n where "n = length padded - k"
  have k: "0 < k" using False by (simp add: k_def)
  have len: "Suc k \<le> length padded" by (simp add: padded_def)
  have shown: "decimal_text d t = take n padded @ CHR ''.'' # drop n padded"
    using False unfolding decimal_text_def Let_def k_def [symmetric] padded_def [symmetric] n_def [symmetric] by simp
  have digits: "\<forall>c \<in> set padded. is_digit c" using dec_string_all_digits [of d] by (auto simp: padded_def)
  then have parts: "\<forall>c \<in> set (take n padded). is_digit c" "\<forall>c \<in> set (drop n padded). is_digit c"
    by (meson in_set_takeD in_set_dropD)+
  have "take n padded \<noteq> []" using len by (auto simp: n_def)
  then obtain c cs where head: "take n padded = c # cs" by (cases "take n padded") simp_all
  have "is_digit c" using parts(1) head by simp
  have "length (drop n padded) = k" using len by (simp add: n_def)
  moreover have "digits_val 0 padded = Some d" unfolding padded_def digits_val_zeros by (rule digits_val_dec_string)
  ultimately have "parse_decimal neg (decimal_text d t) = Some (f64_pack neg (d * f64_unit) (10 ^ k))"
    using k head unfolding shown parse_decimal_def split_number_point [OF parts]
    by (simp add: append_take_drop_id [of n padded] flip: head) linarith
  moreover have "f64_pack neg (d * 10 ^ t * f64_unit) dec_unit = f64_pack neg (d * f64_unit * 10 ^ t) (10 ^ k * 10 ^ t)"
  proof -
    have "k + t = 1100" using False by (simp add: k_def)
    then have "dec_unit = 10 ^ (k + t)" by (simp only: dec_unit_def)
    then show ?thesis by (simp only: power_add ac_simps)
  qed
  moreover have "f64_pack neg (d * f64_unit * 10 ^ t) (10 ^ k * 10 ^ t) = f64_pack neg (d * f64_unit) (10 ^ k)"
    by (rule f64_pack_scale) simp
  moreover have "\<exists>c cs. decimal_text d t = c # cs \<and> is_digit c" using \<open>is_digit c\<close> head shown by simp
  ultimately show ?thesis by simp
qed

lemma parse_f64_display: "\<not> f64_is_nan x \<Longrightarrow> parse_f64 (f64_display x) = Some x"
proof -
  assume number: "\<not> f64_is_nan x"
  let ?sign = "if f64_neg x then ''-'' else ''''"
  have numeric: "parse_f64 (?sign @ c # cs) = parse_decimal (f64_neg x) (c # cs)" if "is_digit c" for c cs
    using is_digit_facts [OF that] by (simp add: parse_f64_def)
  show ?thesis
  proof (cases "f64_mag x = f64_inf \<or> f64_mag x = 0")
    case True
    then show ?thesis
    proof
      assume inf: "f64_mag x = f64_inf"
      have "ascii_lower (CHR ''i'') = CHR ''i''" "ascii_lower (CHR ''n'') = CHR ''n''" "ascii_lower (CHR ''f'') = CHR ''f''"
        by (simp_all add: ascii_lower_def)
      then have "parse_f64 (?sign @ ''inf'') = Some (f64_make (f64_neg x) f64_inf)"
        by (simp add: parse_f64_def)
      then show ?thesis using number inf f64_make_parts [of x] by (simp add: f64_display_def)
    next
      assume zero: "f64_mag x = 0"
      have "parse_decimal (f64_neg x) ''0'' = Some (f64_pack (f64_neg x) (0 * f64_unit) 1)"
        by (simp add: parse_decimal_def split_number_whole)
      also have "f64_pack (f64_neg x) (0 * f64_unit) 1 = f64_make (f64_neg x) 0"
        by (simp add: f64_pack_def fp_round_mag_def round_half_even_def bit_length.simps)
      also have "\<dots> = x" using f64_make_parts [of x] zero by simp
      finally have "parse_decimal (f64_neg x) ''0'' = Some x" .
      moreover have "f64_display x = ?sign @ ''0''"
        using number zero f64_inf_less by (auto simp: f64_display_def f64_inf_def fp_inf_def)
      ultimately show ?thesis using numeric [of "CHR ''0''" "[]"] by simp
    qed
  next
    case False
    obtain d t where digits: "f64_digits (f64_mag x) (1100 + length (dec_string (fp_scaled 52 (f64_mag x) div f64_unit))) = (d, t)"
      by fastforce
    have shown: "f64_display x = ?sign @ decimal_text d t"
      using number False digits by (simp add: f64_display_def Let_def)
    obtain c cs where c: "decimal_text d t = c # cs" "is_digit c" using decimal_text_parses [of "f64_neg x" d t] by blast
    have "fp_round_mag 52 (d * 10 ^ t * f64_unit) dec_unit = f64_mag x"
      using f64_digits_reads_back [OF digits] by (simp add: f64_reads_back_def)
    moreover have "f64_mag x < f64_inf" using number False by (simp add: f64_is_nan_def)
    ultimately have "f64_pack (f64_neg x) (d * 10 ^ t * f64_unit) dec_unit = x"
      using f64_make_parts [of x] by (simp add: f64_pack_def)
    then show ?thesis
      using numeric [OF c(2), of cs] decimal_text_parses [of "f64_neg x" d t] unfolding shown c(1) by simp
  qed
qed

end
