(* ===== verification/Jobs.thy ===== *)
theory Jobs
  imports Pipeline JobTable CacheTable Endings FloatText
begin

text \<open>
  The jobs that fill the cache (\<open>tpt-av-asset-pipeline/src/jobs.rs\<close>): their payloads, their execution on the
  file system and the database, and their rebuilding from a persisted record.

  A job's handle of the database is the database it is executed on.  What a job uses that is not in the
  repository (decoders, codecs, the image library) and the faults of the file it writes are the fields of the
  parameter \<open>job_env\<close>.
\<close>

definition SEP :: char where "SEP = CHR 0x01"

record waveform_job =
  wj_id :: u64
  wj_asset :: asset_id
  wj_path :: string
  wj_chunk_size :: u32
  wj_sample_rate :: u32
  wj_storage :: cache_storage

record thumbnail_job =
  tj_id :: u64
  tj_asset :: asset_id
  tj_path :: string
  tj_interval :: f64
  tj_resolution :: "u32 \<times> u32"
  tj_storage :: cache_storage

text \<open>Video and audio proxy jobs have the same fields.\<close>

record proxy_job =
  pj_id :: u64
  pj_asset :: asset_id
  pj_path :: string
  pj_output :: string
  pj_profile :: proxy_profile

text \<open>The constructors.\<close>

definition waveform_job_new :: "u64 \<Rightarrow> asset_id \<Rightarrow> string \<Rightarrow> u32 \<Rightarrow> u32 \<Rightarrow> cache_storage \<Rightarrow> waveform_job" where [simp]:
  "waveform_job_new i a p chunk_size rate st =
     \<lparr>wj_id = i, wj_asset = a, wj_path = p, wj_chunk_size = chunk_size, wj_sample_rate = rate, wj_storage = st\<rparr>"

definition thumbnail_job_new :: "u64 \<Rightarrow> asset_id \<Rightarrow> string \<Rightarrow> f64 \<Rightarrow> u32 \<times> u32 \<Rightarrow> cache_storage \<Rightarrow> thumbnail_job" where [simp]:
  "thumbnail_job_new i a p interval res st =
     \<lparr>tj_id = i, tj_asset = a, tj_path = p, tj_interval = interval, tj_resolution = res, tj_storage = st\<rparr>"

definition video_proxy_job_new :: "u64 \<Rightarrow> asset_id \<Rightarrow> string \<Rightarrow> string \<Rightarrow> proxy_profile \<Rightarrow> proxy_job" where [simp]:
  "video_proxy_job_new i a source output pf =
     \<lparr>pj_id = i, pj_asset = a, pj_path = source, pj_output = output, pj_profile = pf\<rparr>"

definition audio_proxy_job_new :: "u64 \<Rightarrow> asset_id \<Rightarrow> string \<Rightarrow> string \<Rightarrow> proxy_profile \<Rightarrow> proxy_job" where [simp]:
  "audio_proxy_job_new i a source output pf =
     \<lparr>pj_id = i, pj_asset = a, pj_path = source, pj_output = output, pj_profile = pf\<rparr>"

datatype cache_job =
    WaveformJob waveform_job
  | ThumbnailJob thumbnail_job
  | VideoProxyJob proxy_job
  | AudioProxyJob proxy_job

subsection \<open>What a job says of itself\<close>

definition waveform_payload :: "waveform_job \<Rightarrow> string" where
  "waveform_payload j =
     to_string_lossy (wj_path j) @ SEP # dec_string (unat (wj_chunk_size j)) @ SEP # dec_string (unat (wj_sample_rate j))"

definition thumbnail_payload :: "thumbnail_job \<Rightarrow> string" where
  "thumbnail_payload j =
     to_string_lossy (tj_path j) @ SEP # f64_display (tj_interval j) @ SEP # dec_string (unat (fst (tj_resolution j))) @
     SEP # dec_string (unat (snd (tj_resolution j)))"

definition proxy_payload :: "proxy_job \<Rightarrow> string" where
  "proxy_payload j =
     to_string_lossy (pj_path j) @ SEP # to_string_lossy (pj_output j) @ SEP # profile_name (pj_profile j)"

text \<open>The trait methods of the four kinds.\<close>

definition waveform_boxed :: "waveform_job \<Rightarrow> cache_job job" where [simp]:
  "waveform_boxed j =
     \<lparr>job_ident = wj_id j, job_prio = High, job_asset = wj_asset j, job_kind = ''waveform'',
      job_payload = waveform_payload j, job_body = WaveformJob j\<rparr>"

definition thumbnail_boxed :: "thumbnail_job \<Rightarrow> cache_job job" where [simp]:
  "thumbnail_boxed j =
     \<lparr>job_ident = tj_id j, job_prio = Normal, job_asset = tj_asset j, job_kind = ''thumbnails'',
      job_payload = thumbnail_payload j, job_body = ThumbnailJob j\<rparr>"

definition video_boxed :: "proxy_job \<Rightarrow> cache_job job" where [simp]:
  "video_boxed j =
     \<lparr>job_ident = pj_id j, job_prio = Normal, job_asset = pj_asset j, job_kind = ''video_proxy'',
      job_payload = proxy_payload j, job_body = VideoProxyJob j\<rparr>"

definition audio_boxed :: "proxy_job \<Rightarrow> cache_job job" where [simp]:
  "audio_boxed j =
     \<lparr>job_ident = pj_id j, job_prio = Normal, job_asset = pj_asset j, job_kind = ''audio_proxy'',
      job_payload = proxy_payload j, job_body = AudioProxyJob j\<rparr>"

fun boxed_job :: "cache_job \<Rightarrow> cache_job job" where
  "boxed_job (WaveformJob j) = waveform_boxed j"
| "boxed_job (ThumbnailJob j) = thumbnail_boxed j"
| "boxed_job (VideoProxyJob j) = video_boxed j"
| "boxed_job (AudioProxyJob j) = audio_boxed j"

subsection \<open>Rebuilding\<close>

definition payload_field :: "string \<Rightarrow> nat \<Rightarrow> string" where
  "payload_field p n = (let fields = split_on SEP p in if n < length fields then fields ! n else '''')"

definition parse_u32 :: "string \<Rightarrow> u32 option" where
  "parse_u32 s = map_option of_nat (parse_unsigned (2 ^ 32) s)"

definition rebuild_job :: "job_record \<Rightarrow> cache_storage \<Rightarrow> cache_job option" where
  "rebuild_job r st =
     (let fld = payload_field (payload r); i = job_id r; a = asset_id r in
      if kind r = ''waveform'' then
        Option.bind (parse_u32 (fld 1)) (\<lambda>chunk_size.
        Option.bind (parse_u32 (fld 2)) (\<lambda>rate.
          Some (WaveformJob (waveform_job_new i a (fld 0) chunk_size rate st))))
      else if kind r = ''thumbnails'' then
        Option.bind (parse_f64 (fld 1)) (\<lambda>interval.
        Option.bind (parse_u32 (fld 2)) (\<lambda>w.
        Option.bind (parse_u32 (fld 3)) (\<lambda>h.
          Some (ThumbnailJob (thumbnail_job_new i a (fld 0) interval (w, h) st)))))
      else if kind r = ''video_proxy'' then
        Some (VideoProxyJob (video_proxy_job_new i a (fld 0) (fld 1) proxy_1080p_low))
      else if kind r = ''audio_proxy'' then
        Some (AudioProxyJob (audio_proxy_job_new i a (fld 0) (fld 1) audio_proxy_flac))
      else None)"

subsection \<open>Executing\<close>

record ('s, 'm, 'h, 't, 'd, 'e, 'p) job_env =
  env_flag :: "'p shared_flag \<Rightarrow> 'p shared_flag"
  env_wav :: "'s opener"
  env_flac :: "'s opener"
  env_samples :: "'s decoder_fn"
  env_kinetix :: "('m, 'h, 't) kinetix"
  env_decoder :: 'd
  env_decode :: "'d decode_fn"
  env_encoder :: 'e
  env_encode :: "'e encode_fn"
  env_images :: image_lib
  env_faults :: "(nat \<times> io_error) option list"

text \<open>What comes last: the entry in the database.\<close>

definition record_result ::
  "('db, 'w, 'r) redb \<Rightarrow> asset_id \<Rightarrow> cache_type \<Rightarrow> string \<Rightarrow> (asset_error + unit) \<Rightarrow> file_system \<Rightarrow> 'db \<Rightarrow> 'q
     \<Rightarrow> (asset_error + unit) \<times> file_system \<times> 'db \<times> 'q" where
  "record_result R i ty p r fs d q =
     (case r of
        Inl e \<Rightarrow> (Inl e, fs, d, q)
      | Inr _ \<Rightarrow> (case record_cache_entry R i ty p d of (r, d) \<Rightarrow> (r, fs, d, q)))"

text \<open>The peaks file is written through its handle; what it holds is in the file system.\<close>

definition settle_peaks :: "waveform_cache \<Rightarrow> file_system \<Rightarrow> file_system" where
  "settle_peaks c fs = fs\<lparr>nodes := (nodes fs)(path_key (peaks_path c) \<mapsto> FileNode (content (peaks_file c)))\<rparr>"

definition waveform_execute ::
  "('s, 'm, 'h, 't, 'd, 'e, 'p) job_env \<Rightarrow> ('db, 'w, 'r) redb \<Rightarrow> 'p reporter \<Rightarrow> waveform_job \<Rightarrow> file_system \<Rightarrow> 'db \<Rightarrow> 'p shared_flag
     \<Rightarrow> ((asset_error + unit) \<times> file_system \<times> 'db \<times> 'p shared_flag) option" where
  "waveform_execute E R rep j fs d p =
     (case waveform_open (wj_asset j) (wj_storage j) fs of
        (Inl e, fs) \<Rightarrow> Some (Inl e, fs, d, p)
      | (Inr c, fs) \<Rightarrow>
          map_option (\<lambda>(r, c, p). record_result R (wj_asset j) WaveformPeaks (peaks_path c) r (settle_peaks c fs) d p)
            (waveform_generate (env_flag E) (env_wav E) (env_flac E) (env_samples E) rep
               \<lparr>gen_chunk_size = wj_chunk_size j, gen_sample_rate = wj_sample_rate j\<rparr> (wj_path j) fs
               (c\<lparr>peaks_file := (peaks_file c)\<lparr>faults := env_faults E\<rparr>\<rparr>) p))"

definition thumbnail_execute ::
  "('s, 'm, 'h, 't, 'd, 'e, 'p) job_env \<Rightarrow> ('db, 'w, 'r) redb \<Rightarrow> 'p reporter \<Rightarrow> thumbnail_job \<Rightarrow> file_system \<Rightarrow> 'db \<Rightarrow> 'p shared_flag
     \<Rightarrow> ((asset_error + unit) \<times> file_system \<times> 'db \<times> 'p shared_flag) option" where
  "thumbnail_execute E R rep j fs d p =
     (case thumbnails_create (tj_asset j) (tj_storage j) (tj_interval j) (tj_resolution j) fs of
        (Inl e, fs) \<Rightarrow> Some (Inl e, fs, d, p)
      | (Inr c, fs) \<Rightarrow>
          map_option (\<lambda>(r, fs, p). record_result R (tj_asset j) VideoThumbnails (thumbnail_dir (tj_storage j) (tj_asset j)) r fs d p)
            (thumbnails_generate (env_flag E) (env_kinetix E) (env_decoder E) (env_decode E) (env_images E) rep
               \<lparr>thumb_gen_interval = tj_interval j, thumb_gen_resolution = tj_resolution j\<rparr> c (tj_path j) fs p))"

definition video_execute ::
  "('s, 'm, 'h, 't, 'd, 'e, 'p) job_env \<Rightarrow> ('db, 'w, 'r) redb \<Rightarrow> 'p reporter \<Rightarrow> proxy_job \<Rightarrow> file_system \<Rightarrow> 'db \<Rightarrow> 'p shared_flag
     \<Rightarrow> ((asset_error + unit) \<times> file_system \<times> 'db \<times> 'p shared_flag) option" where
  "video_execute E R rep j fs d p =
     map_option (\<lambda>(r, fs, p). record_result R (pj_asset j) VideoProxy (pj_output j) r fs d p)
       (generate_video_proxy (env_flag E) (env_kinetix E) (env_decoder E) (env_decode E) (env_images E) (env_encoder E) (env_encode E)
          rep (env_faults E) (pj_path j) (pj_output j) (pj_profile j) fs p)"

definition audio_execute ::
  "('s, 'm, 'h, 't, 'd, 'e, 'p) job_env \<Rightarrow> ('db, 'w, 'r) redb \<Rightarrow> 'p reporter \<Rightarrow> proxy_job \<Rightarrow> file_system \<Rightarrow> 'db \<Rightarrow> 'p shared_flag
     \<Rightarrow> ((asset_error + unit) \<times> file_system \<times> 'db \<times> 'p shared_flag) option" where
  "audio_execute E R rep j fs d p =
     map_option (\<lambda>(r, fs, p). record_result R (pj_asset j) AudioProxy (pj_output j) r fs d p)
       (generate_audio_proxy (env_flag E) (env_wav E) (env_flac E) (env_samples E) rep (env_faults E) (pj_path j) (pj_output j)
          (pj_profile j) fs p)"

fun job_execute ::
  "('s, 'm, 'h, 't, 'd, 'e, 'p) job_env \<Rightarrow> ('db, 'w, 'r) redb \<Rightarrow> 'p reporter \<Rightarrow> cache_job \<Rightarrow> file_system \<Rightarrow> 'db \<Rightarrow> 'p shared_flag
     \<Rightarrow> ((asset_error + unit) \<times> file_system \<times> 'db \<times> 'p shared_flag) option" where
  "job_execute E R rep (WaveformJob j) fs d p = waveform_execute E R rep j fs d p"
| "job_execute E R rep (ThumbnailJob j) fs d p = thumbnail_execute E R rep j fs d p"
| "job_execute E R rep (VideoProxyJob j) fs d p = video_execute E R rep j fs d p"
| "job_execute E R rep (AudioProxyJob j) fs d p = audio_execute E R rep j fs d p"

subsection \<open>A persisted job is rebuilt\<close>

text \<open>A text that a payload can carry: it is valid UTF-8 and has no separator.\<close>

definition payload_text :: "string \<Rightarrow> bool" where
  "payload_text s \<longleftrightarrow> utf8_valid s \<and> SEP \<notin> set s"

lemma payload_textD: "payload_text s \<Longrightarrow> to_string_lossy s = s \<and> SEP \<notin> set s"
  by (simp add: payload_text_def to_string_lossy_valid)

lemma SEP_no_digit: "\<not> is_digit SEP"
  by (simp add: SEP_def is_digit_def digit_val_def)

lemma SEP_dec_string [simp]: "SEP \<notin> set (dec_string n)"
  using dec_string_all_digits [of n] SEP_no_digit by blast

lemma SEP_decimal_text: "SEP \<notin> set (decimal_text d t)"
  by (auto simp: decimal_text_def Let_def SEP_dec_string dest: in_set_takeD in_set_dropD) (auto simp: SEP_def)

lemma SEP_f64_display [simp]: "SEP \<notin> set (f64_display x)"
  using SEP_decimal_text by (auto simp: f64_display_def Let_def split: prod.splits) (simp_all add: SEP_def)

lemma parse_u32_dec [simp]: "parse_u32 (dec_string (unat (n :: u32))) = Some n"
  using unsigned_less [of n, where 'a = nat] by (simp add: parse_u32_def parse_dec_string)

text \<open>What a job is after a crash: proxy jobs lose their profile.\<close>

fun recovered_job :: "cache_storage \<Rightarrow> cache_job \<Rightarrow> cache_job" where
  "recovered_job st (WaveformJob j) = WaveformJob (j\<lparr>wj_storage := st\<rparr>)"
| "recovered_job st (ThumbnailJob j) = ThumbnailJob (j\<lparr>tj_storage := st\<rparr>)"
| "recovered_job st (VideoProxyJob j) = VideoProxyJob (j\<lparr>pj_profile := proxy_1080p_low\<rparr>)"
| "recovered_job st (AudioProxyJob j) = AudioProxyJob (j\<lparr>pj_profile := audio_proxy_flac\<rparr>)"

fun persistent_job :: "cache_job \<Rightarrow> bool" where
  "persistent_job (WaveformJob j) \<longleftrightarrow> payload_text (wj_path j)"
| "persistent_job (ThumbnailJob j) \<longleftrightarrow> payload_text (tj_path j) \<and> \<not> f64_is_nan (tj_interval j)"
| "persistent_job (VideoProxyJob j) \<longleftrightarrow> payload_text (pj_path j) \<and> payload_text (pj_output j)"
| "persistent_job (AudioProxyJob j) \<longleftrightarrow> payload_text (pj_path j) \<and> payload_text (pj_output j)"

text \<open>The record carries what the job says of itself.\<close>

definition records_job :: "cache_job job \<Rightarrow> job_record \<Rightarrow> bool" where
  "records_job b r \<longleftrightarrow> job_id r = job_ident b \<and> asset_id r = job_asset b \<and> kind r = job_kind b \<and> payload r = job_payload b"

lemma rebuild_recorded:
  assumes "persistent_job j" "records_job (boxed_job j) r"
  shows "rebuild_job r st = Some (recovered_job st j)"
proof (cases j)
  case (WaveformJob w)
  with assms show ?thesis
    using split_on_append [of SEP] split_on_absent [of SEP]
    by (simp add: records_job_def rebuild_job_def payload_field_def waveform_payload_def payload_textD)
next
  case (ThumbnailJob t)
  then have "split_on SEP (thumbnail_payload t) =
      [tj_path t, f64_display (tj_interval t), dec_string (unat (fst (tj_resolution t))), dec_string (unat (snd (tj_resolution t)))]"
    using assms(1) by (simp add: thumbnail_payload_def payload_textD split_on_append split_on_absent)
  with assms ThumbnailJob show ?thesis
    by (simp add: records_job_def rebuild_job_def payload_field_def parse_f64_display)
next
  case (VideoProxyJob v)
  have "split_on SEP (proxy_payload v) = pj_path v # pj_output v # split_on SEP (profile_name (pj_profile v))"
    using assms(1) VideoProxyJob by (simp add: proxy_payload_def payload_textD split_on_append)
  with assms(2) VideoProxyJob show ?thesis
    by (simp add: records_job_def rebuild_job_def payload_field_def)
next
  case (AudioProxyJob v)
  have "split_on SEP (proxy_payload v) = pj_path v # pj_output v # split_on SEP (profile_name (pj_profile v))"
    using assms(1) AudioProxyJob by (simp add: proxy_payload_def payload_textD split_on_append)
  with assms(2) AudioProxyJob show ?thesis
    by (simp add: records_job_def rebuild_job_def payload_field_def)
qed

end
