(* ===== verification/Recovery.thy ===== *)
theory Recovery
  imports Jobs
begin

text \<open>
  Starting, stopping and recovering a pipeline (\<open>tpt-av-asset-pipeline/src/pipeline.rs\<close>).

  The engine is the state of the pipeline with the database: the one attached to the pipeline, if one is, and
  otherwise another one.  The parameter \<open>clock\<close> is the time at which a job is submitted.  The recovery itself is run without other threads in between; what they may do to what it
  submits is in theory Interleaving.
\<close>

subsection \<open>Starting and stopping\<close>

record pipeline_handle =
  num_workers :: nat
  started :: bool
  worker_count :: nat

definition handle_new :: "nat \<Rightarrow> pipeline_handle" where
  "handle_new n = \<lparr>num_workers = n, started = False, worker_count = 0\<rparr>"

text \<open>\<open>spawns\<close>: whether each of the spawns fails.\<close>

fun spawn_workers :: "io_error option list \<Rightarrow> nat \<Rightarrow> (pipeline_handle, unit) step" where
  "spawn_workers spawns 0 h = (Inr (), h)"
| "spawn_workers spawns (Suc n) h =
     (case (case spawns of [] \<Rightarrow> None | s # _ \<Rightarrow> s) of
        Some e \<Rightarrow> (Inl (validation (''failed to spawn worker: '' @ io_error_text e)), h)
      | None \<Rightarrow> spawn_workers (tl spawns) n (h\<lparr>worker_count := worker_count h + 1\<rparr>))"

definition pipeline_start :: "io_error option list \<Rightarrow> (pipeline_handle, unit) step" where
  "pipeline_start spawns h =
     (if started h then (Inr (), h) else spawn_workers spawns (num_workers h) (h\<lparr>started := True\<rparr>))"

definition pipeline_stop :: "pipeline_handle \<Rightarrow> ('x, 'd) shared \<Rightarrow> (asset_error + unit) \<times> pipeline_handle \<times> ('x, 'd) shared" where
  "pipeline_stop h sh = (Inr (), h\<lparr>worker_count := 0\<rparr>, set_shutdown sh)"

subsection \<open>Recovering\<close>

type_synonym 'd engine = "(cache_job, 'd) shared \<times> 'd"

definition engine_db :: "'d engine \<Rightarrow> 'd" where
  "engine_db s = (case job_db (fst s) of Some d \<Rightarrow> d | None \<Rightarrow> snd s)"

definition on_engine_db :: "('d \<Rightarrow> (asset_error + 'a) \<times> 'd) \<Rightarrow> ('d engine, 'a) step" where
  "on_engine_db f s =
     (case f (engine_db s) of
        (r, d) \<Rightarrow> (r, case job_db (fst s) of Some _ \<Rightarrow> ((fst s)\<lparr>job_db := Some d\<rparr>, snd s) | None \<Rightarrow> (fst s, d)))"

text \<open>The records of one state; the result counts on from \<open>n\<close>.\<close>

fun recover_records ::
  "('d, 'w, 'r) redb \<Rightarrow> 'd upsert \<Rightarrow> (u64 \<Rightarrow> int) \<Rightarrow> cache_storage \<Rightarrow> nat \<Rightarrow> job_record list \<Rightarrow> 'd engine
     \<Rightarrow> ((asset_error + nat) \<times> 'd engine) option" where
  "recover_records R upsert clock st n [] s = Some (Inr n, s)"
| "recover_records R upsert clock st n (r # rs) s =
     (case rebuild_job r st of
        None \<Rightarrow> recover_records R upsert clock st n rs s
      | Some j \<Rightarrow>
          (case on_engine_db (delete_job R (job_id r)) s of
             (Inl e, s) \<Rightarrow> Some (Inl e, s)
           | (Inr _, s) \<Rightarrow>
               Option.bind (submit upsert (clock (job_ident (boxed_job j))) (boxed_job j) (fst s)) (\<lambda>(x, sh).
                 case x of
                   Inl e \<Rightarrow> Some (Inl e, sh, snd s)
                 | Inr _ \<Rightarrow> recover_records R upsert clock st (n + 1) rs (sh, snd s))))"

fun recover_states ::
  "('d, 'w, 'r) redb \<Rightarrow> 'd upsert \<Rightarrow> (u64 \<Rightarrow> int) \<Rightarrow> cache_storage \<Rightarrow> nat \<Rightarrow> job_state list \<Rightarrow> 'd engine
     \<Rightarrow> ((asset_error + nat) \<times> 'd engine) option" where
  "recover_states R upsert clock st n [] s = Some (Inr n, s)"
| "recover_states R upsert clock st n (x # xs) s =
     (case jobs_in_state R x (engine_db s) of
        Inl e \<Rightarrow> Some (Inl e, s)
      | Inr rs \<Rightarrow>
          Option.bind (recover_records R upsert clock st n rs s) (\<lambda>(y, s).
            case y of Inl e \<Rightarrow> Some (Inl e, s) | Inr n \<Rightarrow> recover_states R upsert clock st n xs s))"

definition recover_interrupted ::
  "('d, 'w, 'r) redb \<Rightarrow> 'd upsert \<Rightarrow> (u64 \<Rightarrow> int) \<Rightarrow> cache_storage \<Rightarrow> 'd engine \<Rightarrow> ((asset_error + nat) \<times> 'd engine) option" where
  "recover_interrupted R upsert clock st s = recover_states R upsert clock st 0 [Pending, Running] s"

subsection \<open>What is queued\<close>

definition queued_jobs :: "('x, 'd) shared \<Rightarrow> 'x job multiset" where
  "queued_jobs sh = image_mset entry_job (mset (entries (queue sh)))"

definition rebuilt_jobs :: "cache_storage \<Rightarrow> job_record list \<Rightarrow> cache_job job list" where
  "rebuilt_jobs st rs = map boxed_job (List.map_filter (\<lambda>r. rebuild_job r st) rs)"

lemma rebuilt_jobs_simps [simp]:
  "rebuilt_jobs st [] = []"
  "rebuilt_jobs st (r # rs) = (case rebuild_job r st of None \<Rightarrow> rebuilt_jobs st rs | Some j \<Rightarrow> boxed_job j # rebuilt_jobs st rs)"
  by (simp_all add: rebuilt_jobs_def map_filter_def split: option.split)

lemma mset_list_insert: "mset (list_insert i x xs) = add_mset x (mset xs)"
proof -
  have "mset xs = mset (take i xs) + mset (drop i xs)" by (metis append_take_drop_id mset_append)
  then show ?thesis by (simp add: list_insert_def)
qed

lemma queued_push: "queued_jobs (submit_push job sh) = queued_jobs sh + {# job #}"
  by (simp add: queued_jobs_def submit_push_def queue_push_def Let_def mset_list_insert)

lemma submit_queues:
  assumes "submit upsert clock job sh = Some (Inr x, sh')"
  shows "queued_jobs sh' = queued_jobs sh + {# job #}" "shutdown sh' = shutdown sh"
proof -
  obtain sh1 where sh1: "persist upsert clock (job_ident job) Pending None
      (submit_meta clock job (submit_track clock job (submit_deps job [] sh))) = Some sh1" "sh' = submit_push job sh1"
    using assms by (auto simp: submit_def submit_with_deps_def Let_def bind_eq_Some_conv split: if_splits)
  note only = persist_only_db [OF sh1(1)]
  have "queue sh1 = queue sh" "shutdown sh1 = shutdown sh"
    by (subst only, simp add: submit_meta_def submit_track_def submit_deps_def)+
  then show "queued_jobs sh' = queued_jobs sh + {# job #}" "shutdown sh' = shutdown sh"
    unfolding sh1(2) queued_push by (simp_all add: queued_jobs_def submit_push_def)
qed

text \<open>A submission returns: the job it persists is tracked.\<close>

lemma submit_total:
  "\<exists>sh'. submit upsert clock job sh = Some (if shutdown sh then Inl ChannelClosed else Inr (job_ident job), sh')"
proof -
  let ?sh = "submit_meta clock job (submit_track clock job (submit_deps job [] sh))"
  have "snapshot (job_ident job) (tracker ?sh) \<noteq> None"
    by (simp add: submit_meta_def submit_track_def submit_deps_def snapshot_def tracker_register_def)
  then have "persist upsert clock (job_ident job) Pending None ?sh \<noteq> None"
    by (auto simp: persist_def split: option.splits)
  then show ?thesis by (auto simp: submit_def submit_with_deps_def Let_def)
qed

lemma on_engine_db_queue: "on_engine_db f s = (r, s') \<Longrightarrow> queued_jobs (fst s') = queued_jobs (fst s) \<and> shutdown (fst s') = shutdown (fst s)"
  by (auto simp: on_engine_db_def queued_jobs_def split: prod.splits option.splits)

lemma recover_records_queues:
  "recover_records R upsert clock st n rs s = Some (Inr m, s') \<Longrightarrow>
     queued_jobs (fst s') = queued_jobs (fst s) + mset (rebuilt_jobs st rs) \<and> m = n + length (rebuilt_jobs st rs)"
proof (induction rs arbitrary: n s)
  case (Cons r rs)
  show ?case
  proof (cases "rebuild_job r st")
    case None
    with Cons show ?thesis by simp
  next
    case (Some j)
    obtain b s1 where del: "on_engine_db (delete_job R (job_id r)) s = (Inr b, s1)"
      using Cons.prems Some by (auto split: prod.splits sum.splits)
    obtain y sh where y: "submit upsert (clock (job_ident (boxed_job j))) (boxed_job j) (fst s1) = Some (y, sh)"
      using Cons.prems Some del by (auto simp: bind_eq_Some_conv)
    then obtain x where x: "y = Inr x" using Cons.prems Some del by (cases y) auto
    note sub = y [unfolded x]
    have rest: "recover_records R upsert clock st (n + 1) rs (sh, snd s1) = Some (Inr m, s')"
      using Cons.prems Some del sub by simp
    from Cons.IH [OF rest] submit_queues(1) [OF sub] on_engine_db_queue [OF del] Some show ?thesis by simp
  qed
qed simp

lemma recover_states_Cons:
  "recover_states R upsert clock st n (x # xs) s = Some (Inr m, s') \<longleftrightarrow>
     (\<exists>rs k s1. jobs_in_state R x (engine_db s) = Inr rs \<and> recover_records R upsert clock st n rs s = Some (Inr k, s1) \<and>
        recover_states R upsert clock st k xs s1 = Some (Inr m, s'))"
proof (cases "jobs_in_state R x (engine_db s)")
  case (Inr rs)
  then show ?thesis
  proof (cases "recover_records R upsert clock st n rs s")
    case (Some z)
    then show ?thesis using Inr by (cases z; cases "fst z") auto
  qed simp
qed simp

lemma recover_interrupted_queues:
  assumes "recover_interrupted R upsert clock st s = Some (Inr n, s')"
  obtains ps rs s1 where "jobs_in_state R Pending (engine_db s) = Inr ps"
    "recover_records R upsert clock st 0 ps s = Some (Inr (length (rebuilt_jobs st ps)), s1)"
    "jobs_in_state R Running (engine_db s1) = Inr rs"
    "queued_jobs (fst s') = queued_jobs (fst s) + mset (rebuilt_jobs st ps) + mset (rebuilt_jobs st rs)"
    "n = length (rebuilt_jobs st ps) + length (rebuilt_jobs st rs)"
proof -
  obtain ps k s1 where ps: "jobs_in_state R Pending (engine_db s) = Inr ps"
    and one: "recover_records R upsert clock st 0 ps s = Some (Inr k, s1)"
    and rest: "recover_states R upsert clock st k [Running] s1 = Some (Inr n, s')"
    using assms unfolding recover_interrupted_def recover_states_Cons by blast
  then obtain rs where rs: "jobs_in_state R Running (engine_db s1) = Inr rs"
    and two: "recover_records R upsert clock st k rs s1 = Some (Inr n, s')"
    unfolding recover_states_Cons by auto
  note q1 = recover_records_queues [OF one] and q2 = recover_records_queues [OF two]
  show ?thesis by (rule that [OF ps _ rs]) (use one q1 q2 in simp_all)
qed

text \<open>A recovery returns.\<close>

lemma recover_records_total: "\<exists>y s'. recover_records R upsert clock st n rs s = Some (y, s')"
proof (induction rs arbitrary: n s)
  case (Cons r rs)
  show ?case
  proof (cases "rebuild_job r st")
    case None
    with Cons show ?thesis by simp
  next
    case (Some j)
    obtain b s1 where del: "on_engine_db (delete_job R (job_id r)) s = (b, s1)" by (metis prod.collapse)
    obtain sh where sub: "submit upsert (clock (job_ident (boxed_job j))) (boxed_job j) (fst s1) =
        Some (if shutdown (fst s1) then Inl ChannelClosed else Inr (job_ident (boxed_job j)), sh)"
      using submit_total by blast
    show ?thesis using Cons.IH Some del sub by (cases b) auto
  qed
qed simp

lemma recover_interrupted_total: "\<exists>y s'. recover_interrupted R upsert clock st s = Some (y, s')"
proof -
  have "\<exists>y s'. recover_states R upsert clock st n xs s = Some (y, s')" for n xs s
  proof (induction xs arbitrary: n s)
    case (Cons x xs)
    show ?case
    proof (cases "jobs_in_state R x (engine_db s)")
      case (Inr rs)
      obtain y s' where "recover_records R upsert clock st n rs s = Some (y, s')" using recover_records_total by blast
      with Inr Cons show ?thesis by (cases y) simp_all
    qed simp
  qed simp
  then show ?thesis unfolding recover_interrupted_def .
qed


subsection \<open>Recovering with the jobs table\<close>

lemma on_engine_db_Inr:
  assumes "on_engine_db f s = (r, s')"
  obtains d where "f (engine_db s) = (r, d)" "engine_db s' = d" "job_db (fst s') = map_option (\<lambda>_. d) (job_db (fst s))"
  using assms by (cases s) (auto simp: on_engine_db_def engine_db_def split: prod.splits option.splits)

lemma job_id_record_of [simp]: "job_id (job_record_of clock j st err meta p) = j" "state (job_record_of clock j st err meta p) = st"
  by (simp_all add: job_record_of_def)

text \<open>What a submission leaves in the database, if its write succeeds: the job's record, pending.\<close>

definition pending_record :: "cache_job job \<Rightarrow> job_record \<Rightarrow> bool" where
  "pending_record b r \<longleftrightarrow> records_job b r \<and> state r = Pending \<and> job_priority r = job_prio b"

lemma storable_kind: "storable_str (job_kind (boxed_job j))"
  by (cases j) (simp_all add: storable_str_def utf8_valid_ascii)

lemma submit_persists:
  assumes run: "submit (upsert_job R) clock (boxed_job j) sh = Some (Inr i, sh')" and db: "job_db sh = Some d"
    and laws: "redb_laws R dr wr rr" and store: "storable_str (job_payload (boxed_job j))"
  obtains r x d' where "upsert_job R clock r d = (x, d')" "job_db sh' = Some d'" "pending_record (boxed_job j) r"
    "x = Inr () \<longrightarrow> jobs_of (dr d') = (jobs_of (dr d))(job_id r \<mapsto> r)" "x = Inr () \<longrightarrow> jobs_wf (dr d) \<longrightarrow> jobs_wf (dr d')"
    "x \<noteq> Inr () \<longrightarrow> d' = d"
proof -
  let ?b = "boxed_job j"
  let ?sh = "submit_meta clock ?b (submit_track clock ?b (submit_deps ?b [] sh))"
  obtain sh1 where sh1: "persist (upsert_job R) clock (job_ident ?b) Pending None ?sh = Some sh1" "sh' = submit_push ?b sh1"
    using run by (auto simp: submit_def submit_with_deps_def Let_def bind_eq_Some_conv split: if_splits)
  have meta: "submitted ?sh (job_ident ?b) = Some \<lparr>meta_asset = job_asset ?b, meta_priority = job_prio ?b, meta_kind = job_kind ?b,
      meta_payload = job_payload ?b, meta_created_ms = now_ms clock\<rparr>" "job_db ?sh = Some d"
    using db by (simp_all add: submit_meta_def submit_track_def submit_deps_def)
  obtain p where "sh1 = ?sh\<lparr>job_db := Some (snd (upsert_job R clock (job_record_of clock (job_ident ?b) Pending None
      \<lparr>meta_asset = job_asset ?b, meta_priority = job_prio ?b, meta_kind = job_kind ?b,
       meta_payload = job_payload ?b, meta_created_ms = now_ms clock\<rparr> p) d))\<rparr>"
    using sh1(1) unfolding persist_def meta by (auto split: option.splits)
  then obtain r where r: "job_db sh' = Some (snd (upsert_job R clock r d))" "pending_record ?b r" "updated_ms r = now_ms clock"
    "error r = None"
    by (auto simp: sh1(2) submit_push_def pending_record_def records_job_def job_record_of_def)
  have storable: "storable_job r"
    using r(2,4) store storable_kind by (simp add: storable_job_def pending_record_def records_job_def)
  have self: "stored_job clock r = r" using r(3) by (simp add: stored_job_def)
  obtain x d' where up: "upsert_job R clock r d = (x, d')" by (metis prod.collapse)
  have "d' = d" if "x \<noteq> Inr ()" using that up upsert_job_error [of R clock r d _ d'] by (cases x) auto
  then show ?thesis
    using up r(1,2) upsert_job_view [OF _ laws storable, of clock d d'] upsert_job_wf [OF _ laws storable, of clock d d'] self
    by (intro that [of r x d']) auto
qed

lemma rebuilt_ident: "rebuild_job r st = Some j \<Longrightarrow> job_ident (boxed_job j) = job_id r"
  by (auto simp: rebuild_job_def Let_def bind_eq_Some_conv split: if_splits)

text \<open>Recovering records touches no other job in the database; what it leaves of theirs is pending.\<close>

definition recovered_rows :: "job_record list \<Rightarrow> (u64 \<Rightarrow> job_record option) \<Rightarrow> (u64 \<Rightarrow> job_record option) \<Rightarrow> bool" where
  "recovered_rows rs old new \<longleftrightarrow>
     (\<forall>i. new i = old i \<or> (i \<in> job_id ` set rs \<and> (\<forall>r. new i = Some r \<longrightarrow> state r = Pending)))"

definition resubmittable :: "cache_storage \<Rightarrow> job_record \<Rightarrow> bool" where
  "resubmittable st r \<longleftrightarrow> (\<forall>j. rebuild_job r st = Some j \<longrightarrow> storable_str (job_payload (boxed_job j)))"

lemma recovered_rows_trans:
  "recovered_rows [r] f g \<Longrightarrow> recovered_rows rs g h \<Longrightarrow> recovered_rows (r # rs) f h"
  unfolding recovered_rows_def by (metis insertCI insertE empty_iff image_insert image_empty list.simps(15) list.set(1))

lemma recovered_rows_Cons: "recovered_rows rs f g \<Longrightarrow> recovered_rows (r # rs) f g"
  by (auto simp: recovered_rows_def)

lemma recover_one_rows:
  assumes del: "on_engine_db (delete_job R (job_id r)) s = (Inr b, s1)" and j: "rebuild_job r st = Some j"
    and sub: "submit (upsert_job R) clock (boxed_job j) (fst s1) = Some (Inr x, sh)"
    and laws: "redb_laws R dr wr rr" and wf: "jobs_wf (dr (engine_db s))" and store: "resubmittable st r"
  shows "recovered_rows [r] (jobs_of (dr (engine_db s))) (jobs_of (dr (engine_db (sh, snd s1))))"
    "jobs_wf (dr (engine_db (sh, snd s1)))"
proof -
  obtain d where d: "delete_job R (job_id r) (engine_db s) = (Inr b, d)" "engine_db s1 = d"
    using del by (rule on_engine_db_Inr)
  note gone = delete_job_view(1,2) [OF d(1) laws]
  have wf1: "jobs_wf (dr d)" using wf by (auto simp: gone(1) jobs_wf_def)
  have "recovered_rows [r] (jobs_of (dr (engine_db s))) (jobs_of (dr (engine_db (sh, snd s1)))) \<and>
      jobs_wf (dr (engine_db (sh, snd s1)))"
  proof (cases "job_db (fst s1)")
    case None
    then have "job_db sh = None"
      using sub by (auto simp: submit_def submit_with_deps_def Let_def persist_def submit_push_def submit_meta_def submit_track_def
          submit_deps_def split: if_splits)
    with None d(2) gone(2) wf1 show ?thesis by (auto simp: engine_db_def recovered_rows_def)
  next
    case (Some d0)
    then have d0: "job_db (fst s1) = Some d" using d(2) by (simp add: engine_db_def)
    have st: "storable_str (job_payload (boxed_job j))" using store j by (simp add: resubmittable_def)
    obtain r' y d' where r': "upsert_job R clock r' d = (y, d')" "job_db sh = Some d'" "pending_record (boxed_job j) r'"
      "y = Inr () \<longrightarrow> jobs_of (dr d') = (jobs_of (dr d))(job_id r' \<mapsto> r')" "y = Inr () \<longrightarrow> jobs_wf (dr d) \<longrightarrow> jobs_wf (dr d')"
      "y \<noteq> Inr () \<longrightarrow> d' = d"
      by (rule submit_persists [OF sub d0 laws st])
    have "job_id r' = job_id r" "state r' = Pending"
      using r'(3) rebuilt_ident [OF j] by (simp_all add: pending_record_def records_job_def)
    then show ?thesis using r' wf1 gone(2) by (cases "y = Inr ()") (auto simp: engine_db_def recovered_rows_def)
  qed
  then show "recovered_rows [r] (jobs_of (dr (engine_db s))) (jobs_of (dr (engine_db (sh, snd s1))))"
    "jobs_wf (dr (engine_db (sh, snd s1)))" by blast+
qed

lemma recover_records_rows:
  assumes laws: "redb_laws R dr wr rr"
  shows "recover_records R (upsert_job R) clock st n rs s = Some (Inr m, s') \<Longrightarrow> jobs_wf (dr (engine_db s)) \<Longrightarrow>
     \<forall>r \<in> set rs. resubmittable st r \<Longrightarrow>
     recovered_rows rs (jobs_of (dr (engine_db s))) (jobs_of (dr (engine_db s'))) \<and> jobs_wf (dr (engine_db s'))"
proof (induction rs arbitrary: n s)
  case (Cons r rs)
  show ?case
  proof (cases "rebuild_job r st")
    case None
    with Cons recovered_rows_Cons show ?thesis by simp
  next
    case (Some j)
    obtain b s1 where del: "on_engine_db (delete_job R (job_id r)) s = (Inr b, s1)"
      using Cons.prems Some by (auto split: prod.splits sum.splits)
    obtain y sh where y: "submit (upsert_job R) (clock (job_ident (boxed_job j))) (boxed_job j) (fst s1) = Some (y, sh)"
      using Cons.prems Some del by (auto simp: bind_eq_Some_conv)
    then obtain x where x: "y = Inr x" using Cons.prems Some del by (cases y) auto
    note sub = y [unfolded x]
    have rest: "recover_records R (upsert_job R) clock st (n + 1) rs (sh, snd s1) = Some (Inr m, s')"
      using Cons.prems Some del sub by simp
    note one = recover_one_rows [OF del Some sub laws Cons.prems(2)]
    have "resubmittable st r" using Cons.prems(3) by simp
    from Cons.IH [OF rest one(2) [OF this]] Cons.prems(3) one(1) [OF this] recovered_rows_trans show ?thesis
      by (metis list.set_intros(2))
  qed
qed (simp add: recovered_rows_def)


text \<open>The records in one state, in the order of their ids.\<close>

definition records_in :: "job_state \<Rightarrow> (u64 \<Rightarrow> job_record option) \<Rightarrow> job_record list \<Rightarrow> bool" where
  "records_in x jobs rs \<longleftrightarrow> set rs = {r \<in> ran jobs. state r = x} \<and> sorted_wrt (<) (map job_id rs)"

lemma running_kept:
  assumes "recovered_rows ps (jobs_of rows) (jobs_of rows')" "records_in Pending (jobs_of rows) ps"
  shows "{r \<in> ran (jobs_of rows'). state r = Running} = {r \<in> ran (jobs_of rows). state r = Running}"
proof -
  have "jobs_of rows' i = Some r \<longleftrightarrow> jobs_of rows i = Some r" if "state r = Running" for i r
  proof -
    have "i \<notin> job_id ` set ps" if "jobs_of rows i = Some r"
    proof
      assume "i \<in> job_id ` set ps"
      then obtain q where "q \<in> ran (jobs_of rows)" "state q = Pending" "job_id q = i"
        using assms(2) by (auto simp: records_in_def)
      then have "jobs_of rows i = Some q" using jobs_of_id by (auto simp: ran_def)
      with \<open>state q = Pending\<close> \<open>state r = Running\<close> that show False by simp
    qed
    then show ?thesis using assms(1) \<open>state r = Running\<close> unfolding recovered_rows_def
      by (metis job_state.distinct(1))
  qed
  then show ?thesis by (auto simp: ran_def)
qed

lemma recover_interrupted_exact:
  assumes run: "recover_interrupted R (upsert_job R) clock st s = Some (Inr n, s')"
    and laws: "redb_laws R dr wr rr" and wf: "jobs_wf (dr (engine_db s))"
    and store: "\<forall>r \<in> ran (jobs_of (dr (engine_db s))). state r = Pending \<longrightarrow> resubmittable st r"
  obtains ps rs where "records_in Pending (jobs_of (dr (engine_db s))) ps" "records_in Running (jobs_of (dr (engine_db s))) rs"
    "queued_jobs (fst s') = queued_jobs (fst s) + mset (rebuilt_jobs st (ps @ rs))" "n = length (rebuilt_jobs st (ps @ rs))"
proof -
  obtain ps rs s1 where ps: "jobs_in_state R Pending (engine_db s) = Inr ps"
    and one: "recover_records R (upsert_job R) clock st 0 ps s = Some (Inr (length (rebuilt_jobs st ps)), s1)"
    and rs: "jobs_in_state R Running (engine_db s1) = Inr rs"
    and q: "queued_jobs (fst s') = queued_jobs (fst s) + mset (rebuilt_jobs st ps) + mset (rebuilt_jobs st rs)"
      "n = length (rebuilt_jobs st ps) + length (rebuilt_jobs st rs)"
    by (rule recover_interrupted_queues [OF run])
  have pend: "records_in Pending (jobs_of (dr (engine_db s))) ps"
    using jobs_in_state_view [OF ps laws wf] by (simp add: records_in_def)
  then have "\<forall>r \<in> set ps. resubmittable st r" using store by (simp add: records_in_def)
  note kept = recover_records_rows [OF laws one wf this]
  have "records_in Running (jobs_of (dr (engine_db s))) rs"
    using jobs_in_state_view [OF rs laws conjunct2 [OF kept]] running_kept [OF conjunct1 [OF kept] pend]
    by (simp add: records_in_def)
  with pend show ?thesis by (rule that) (simp_all add: q rebuilt_jobs_def map_filter_def)
qed


text \<open>The counter of job ids is not advanced: an id given out afterwards can be that of a recovered job.\<close>

lemma on_engine_db_next: "on_engine_db f s = (r, s') \<Longrightarrow> next_id (fst s') = next_id (fst s)"
  by (auto simp: on_engine_db_def split: prod.splits option.splits)

lemma submit_next: "submit upsert clock job sh = Some (x, sh') \<Longrightarrow> next_id sh' = next_id sh"
  by (auto simp: submit_def submit_with_deps_def Let_def persist_def submit_push_def submit_meta_def submit_track_def
      submit_deps_def bind_eq_Some_conv split: if_splits option.splits)

lemma recover_records_next:
  "recover_records R upsert clock st n rs s = Some (y, s') \<Longrightarrow> next_id (fst s') = next_id (fst s)"
proof (induction rs arbitrary: n s)
  case (Cons r rs)
  show ?case
  proof (cases "rebuild_job r st")
    case None
    with Cons show ?thesis by simp
  next
    case (Some j)
    obtain b s1 where del: "on_engine_db (delete_job R (job_id r)) s = (b, s1)" by (metis prod.collapse)
    obtain x sh where sub: "submit upsert (clock (job_ident (boxed_job j))) (boxed_job j) (fst s1) = Some (x, sh)"
      using submit_total by blast
    have "next_id (fst s') = next_id (fst s1)"
      using Cons.IH [of "n + 1" "(sh, snd s1)"] Cons.prems Some del sub submit_next [OF sub] by (cases b; cases x) auto
    then show ?thesis using on_engine_db_next [OF del] by simp
  qed
qed simp

lemma recover_interrupted_next:
  assumes "recover_interrupted R upsert clock st s = Some (y, s')"
  shows "next_id (fst s') = next_id (fst s)"
proof -
  have "recover_states R upsert clock st n xs s = Some (y, s') \<Longrightarrow> next_id (fst s') = next_id (fst s)" for n xs s
  proof (induction xs arbitrary: n s)
    case (Cons x xs)
    show ?case
    proof (cases "jobs_in_state R x (engine_db s)")
      case (Inr rs)
      obtain z s1 where one: "recover_records R upsert clock st n rs s = Some (z, s1)" using recover_records_total by blast
      with Inr Cons.prems Cons.IH [of _ s1] recover_records_next [OF one] show ?thesis by (cases z) auto
    qed (use Cons.prems in simp)
  qed simp
  with assms show ?thesis unfolding recover_interrupted_def by blast
qed

end
