(* ===== verification/Importer.thy ===== *)
theory Importer
  imports Recovery AssetTable
begin

text \<open>
  The import of media files (\<open>tpt-av-asset-pipeline/src/importer.rs\<close>): a file is probed, its asset is written to
  the database, and the jobs that fill its caches are submitted.
\<close>

subsection \<open>Extensions of paths\<close>

text \<open>A file name in front of and behind its last point; a name that begins with its only point has no extension.\<close>

definition split_extension :: "string \<Rightarrow> string \<times> string option" where
  "split_extension n =
     (let after = takeWhile (\<lambda>c. c \<noteq> CHR ''.'') (rev n); before = drop (length after + 1) (rev n) in
      if n = ''..'' \<or> CHR ''.'' \<notin> set n \<or> before = [] then (n, None) else (rev before, Some (rev after)))"

definition path_extension :: "string \<Rightarrow> string option" where
  "path_extension p = Option.bind (file_name p) (\<lambda>n. snd (split_extension n))"

definition path_file_stem :: "string \<Rightarrow> string option" where
  "path_file_stem p = map_option (\<lambda>n. fst (split_extension n)) (file_name p)"

text \<open>The extension as text, in lower case.\<close>

definition lower_extension :: "string \<Rightarrow> string option" where
  "lower_extension p =
     Option.bind (path_extension p) (\<lambda>e. if utf8_valid e then Some (map ascii_lower e) else None)"

definition IMAGE_EXTS :: "string list" where
  "IMAGE_EXTS = [''jpg'', ''jpeg'', ''png'', ''bmp'', ''gif'', ''tiff'']"

subsection \<open>Probing\<close>

definition probed_video :: "asset_id \<Rightarrow> string \<Rightarrow> video_info \<Rightarrow> media_info" where
  "probed_video i p v =
     (media_info_new i p Video)\<lparr>duration_secs := Some (video_duration_secs v), video := Some v\<rparr>"

definition probed_audio :: "asset_id \<Rightarrow> string \<Rightarrow> audio_stream_info \<Rightarrow> media_info" where
  "probed_audio i p a =
     (media_info_new i p Audio)\<lparr>duration_secs := stream_duration a,
       audio := Some \<lparr>sample_rate = stream_sample_rate a, channels = stream_channels a, bit_depth = stream_bit_depth a,
         audio_codec = stream_codec a, audio_bit_rate = None,
         audio_duration_secs = (case stream_duration a of None \<Rightarrow> f64_zero | Some d \<Rightarrow> d)\<rparr>\<rparr>"

definition probe_media_info ::
  "os_files \<Rightarrow> ('s, 'm, 'h, 't, 'd, 'e, 'p) job_env \<Rightarrow> string \<Rightarrow> (file_system, media_info) step" where
  "probe_media_info os E p fs =
     (case from_path os p of
        Inl e \<Rightarrow> (Inl e, fs)
      | Inr i \<Rightarrow>
          (case probe_video (env_kinetix E) (env_decoder E) p fs of
             (Inr v, fs) \<Rightarrow> (Inr (probed_video i p v), fs)
           | (Inl _, fs) \<Rightarrow>
               (case probe_audio (env_wav E) (env_flac E) p fs of
                  (Inr a, fs) \<Rightarrow> (Inr (probed_audio i p a), fs)
                | (Inl _, fs) \<Rightarrow>
                    (case lower_extension p of
                       Some e \<Rightarrow>
                         if e \<in> set IMAGE_EXTS then (Inr (media_info_new i p Image), fs)
                         else (Inl (UnsupportedFormat p), fs)
                     | None \<Rightarrow> (Inl (UnsupportedFormat p), fs)))))"

subsection \<open>Importing\<close>

record asset_importer =
  import_storage :: cache_storage
  thumbnail_interval :: f64
  thumbnail_resolution :: "u32 \<times> u32"
  import_chunk_size :: u32

definition importer_new :: "cache_storage \<Rightarrow> asset_importer" where
  "importer_new st = \<lparr>import_storage = st, thumbnail_interval = f64_one, thumbnail_resolution = (320, 180),
     import_chunk_size = 1024\<rparr>"

definition with_thumbnails :: "f64 \<Rightarrow> u32 \<times> u32 \<Rightarrow> asset_importer \<Rightarrow> asset_importer" where
  "with_thumbnails interval res imp = imp\<lparr>thumbnail_interval := interval, thumbnail_resolution := res\<rparr>"

definition with_chunk_size :: "u32 \<Rightarrow> asset_importer \<Rightarrow> asset_importer" where
  "with_chunk_size n imp = imp\<lparr>import_chunk_size := n\<rparr>"

text \<open>The jobs for an asset, with two fresh ids.\<close>

definition import_jobs :: "asset_importer \<Rightarrow> media_info \<Rightarrow> ('x, 'd) shared \<Rightarrow> cache_job list \<times> ('x, 'd) shared" where
  "import_jobs imp info sh =
     (case media_type info of
        Audio \<Rightarrow>
          (let (i1, sh) = fetch_job_id sh; (i2, sh) = fetch_job_id sh in
           ([WaveformJob (waveform_job_new i1 (id info) (path info) (import_chunk_size imp)
               (case audio info of None \<Rightarrow> 48000 | Some a \<Rightarrow> sample_rate a) (import_storage imp)),
             AudioProxyJob (audio_proxy_job_new i2 (id info) (path info)
               (proxy_path (import_storage imp) (id info) (output_extension audio_proxy_flac)) audio_proxy_flac)], sh))
      | Video \<Rightarrow>
          (let (i1, sh) = fetch_job_id sh; (i2, sh) = fetch_job_id sh in
           ([ThumbnailJob (thumbnail_job_new i1 (id info) (path info) (thumbnail_interval imp) (thumbnail_resolution imp)
               (import_storage imp)),
             VideoProxyJob (video_proxy_job_new i2 (id info) (path info)
               (proxy_path (import_storage imp) (id info) (output_extension proxy_1080p_low)) proxy_1080p_low)], sh))
      | Image \<Rightarrow> ([], sh))"

fun submit_all :: "'d upsert \<Rightarrow> (u64 \<Rightarrow> int) \<Rightarrow> cache_job list \<Rightarrow> (cache_job, 'd) shared
     \<Rightarrow> ((asset_error + u64 list) \<times> (cache_job, 'd) shared) option" where
  "submit_all upsert clock [] sh = Some (Inr [], sh)"
| "submit_all upsert clock (j # js) sh =
     Option.bind (submit upsert (clock (job_ident (boxed_job j))) (boxed_job j) sh) (\<lambda>(x, sh).
       case x of
         Inl e \<Rightarrow> Some (Inl e, sh)
       | Inr i \<Rightarrow> map_option (\<lambda>(y, sh). (rbind y (\<lambda>is. Inr (i # is)), sh)) (submit_all upsert clock js sh))"

definition import_with_jobs ::
  "os_files \<Rightarrow> ('s, 'm, 'h, 't, 'dd, 'e, 'p) job_env \<Rightarrow> ('d, 'w, 'r) redb \<Rightarrow> 'd upsert \<Rightarrow> (u64 \<Rightarrow> int) \<Rightarrow> asset_importer \<Rightarrow> string
     \<Rightarrow> 'd engine \<Rightarrow> file_system \<Rightarrow> ((asset_error + asset_id \<times> u64 list) \<times> 'd engine \<times> file_system) option" where
  "import_with_jobs os E R upsert clock imp p s fs =
     (case os_metadata os p of
        Inl _ \<Rightarrow> Some (Inl (NotFound p), s, fs)
      | Inr _ \<Rightarrow>
          (case probe_media_info os E p fs of
             (Inl e, fs) \<Rightarrow> Some (Inl e, s, fs)
           | (Inr info, fs) \<Rightarrow>
               (case on_engine_db (upsert_asset R info) s of
                  (Inl e, s) \<Rightarrow> Some (Inl e, s, fs)
                | (Inr _, s) \<Rightarrow>
                    (case import_jobs imp info (fst s) of
                       (jobs, sh) \<Rightarrow>
                         map_option (\<lambda>(x, sh). (rbind x (\<lambda>is. Inr (id info, is)), (sh, snd s), fs))
                           (submit_all upsert clock jobs sh)))))"

definition import_media ::
  "os_files \<Rightarrow> ('s, 'm, 'h, 't, 'dd, 'e, 'p) job_env \<Rightarrow> ('d, 'w, 'r) redb \<Rightarrow> 'd upsert \<Rightarrow> (u64 \<Rightarrow> int) \<Rightarrow> asset_importer \<Rightarrow> string
     \<Rightarrow> 'd engine \<Rightarrow> file_system \<Rightarrow> ((asset_error + asset_id) \<times> 'd engine \<times> file_system) option" where
  "import_media os E R upsert clock imp p s fs =
     map_option (\<lambda>(x, s, fs). (rbind x (\<lambda>(i, _). Inr i), s, fs)) (import_with_jobs os E R upsert clock imp p s fs)"

subsection \<open>What an import schedules\<close>

lemma submit_ident: "submit upsert clock job sh = Some (Inr x, sh') \<Longrightarrow> x = job_ident job"
  by (auto simp: submit_def submit_with_deps_def Let_def bind_eq_Some_conv split: if_splits)

lemma submit_all_queues:
  "submit_all upsert clock js sh = Some (Inr is, sh') \<Longrightarrow>
     is = map (\<lambda>j. job_ident (boxed_job j)) js \<and> queued_jobs sh' = queued_jobs sh + mset (map boxed_job js)"
proof (induction js arbitrary: sh "is" sh')
  case (Cons j js)
  obtain x sh1 where one: "submit upsert (clock (job_ident (boxed_job j))) (boxed_job j) sh = Some (x, sh1)"
    using Cons.prems by (auto simp: bind_eq_Some_conv)
  then obtain i where i: "x = Inr i" using Cons.prems by (cases x) auto
  obtain y sh2 where rest: "submit_all upsert clock js sh1 = Some (y, sh2)" using Cons.prems one i by auto
  then obtain is' where y: "y = Inr is'" using Cons.prems one i by (cases y) (auto simp: rbind_def)
  have "is = i # is'" "sh' = sh2" using Cons.prems one i rest y by (auto simp: rbind_def)
  with Cons.IH [OF rest [unfolded y]] submit_queues(1) [OF one [unfolded i]] submit_ident [OF one [unfolded i]]
  show ?case by simp
qed simp

lemma import_jobs_facts:
  assumes "import_jobs imp info sh = (js, sh')"
  shows "queue sh' = queue sh" "\<forall>j \<in> set js. job_asset (boxed_job j) = id info"
    "map (\<lambda>j. job_kind (boxed_job j)) js =
       (case media_type info of Audio \<Rightarrow> [''waveform'', ''audio_proxy''] | Video \<Rightarrow> [''thumbnails'', ''video_proxy''] | Image \<Rightarrow> [])"
    "map (\<lambda>j. job_ident (boxed_job j)) js = (if media_type info = Image then [] else [next_id sh + 1, next_id sh + 2])"
  using assms by (auto simp: import_jobs_def fetch_job_id_def Let_def split: media_type.splits)

lemma import_with_jobs_effect:
  assumes "import_with_jobs os E R upsert clock imp p s fs = Some (Inr (i, is), s', fs')"
  obtains info s1 js sh1 where "probe_media_info os E p fs = (Inr info, fs')" "i = id info"
    "on_engine_db (upsert_asset R info) s = (Inr (), s1)" "import_jobs imp info (fst s1) = (js, sh1)"
    "is = map (\<lambda>j. job_ident (boxed_job j)) js"
    "queued_jobs (fst s') = queued_jobs (fst s) + mset (map boxed_job js)"
proof -
  obtain info fs1 where info: "probe_media_info os E p fs = (Inr info, fs1)"
    using assms by (auto simp: import_with_jobs_def split: sum.splits prod.splits)
  obtain s1 where s1: "on_engine_db (upsert_asset R info) s = (Inr (), s1)"
    using assms info by (auto simp: import_with_jobs_def split: sum.splits prod.splits)
  obtain js sh1 where js: "import_jobs imp info (fst s1) = (js, sh1)" by fastforce
  obtain x sh2 where sub: "submit_all upsert clock js sh1 = Some (x, sh2)"
    using assms info s1 js by (auto simp: import_with_jobs_def split: sum.splits)
  then obtain is' where x: "x = Inr is'"
    using assms info s1 js by (cases x) (auto simp: import_with_jobs_def rbind_def split: sum.splits)
  have eq: "fs1 = fs'" "i = id info" "is = is'" "fst s' = sh2"
    using assms info s1 js sub x by (auto simp: import_with_jobs_def rbind_def split: sum.splits)
  note q = submit_all_queues [OF sub [unfolded x]]
  have "queued_jobs sh1 = queued_jobs (fst s)"
    using import_jobs_facts(1) [OF js] on_engine_db_queue [OF s1] by (simp add: queued_jobs_def)
  then show ?thesis using q eq by (intro that [OF info [unfolded eq(1)] eq(2) s1 js]) simp_all
qed

lemma submit_all_total: "\<not> shutdown sh \<Longrightarrow> \<exists>is sh'. submit_all upsert clock js sh = Some (Inr is, sh')"
proof (induction js arbitrary: sh)
  case (Cons j js)
  obtain sh1 where one: "submit upsert (clock (job_ident (boxed_job j))) (boxed_job j) sh = Some (Inr (job_ident (boxed_job j)), sh1)"
    using submit_total [of upsert "clock (job_ident (boxed_job j))" "boxed_job j" sh] Cons.prems by auto
  from submit_queues(2) [OF this] Cons.prems have "\<not> shutdown sh1" by simp
  from Cons.IH [OF this] one show ?case by (auto simp: rbind_def)
qed simp


lemma probe_media_info_facts:
  assumes "probe_media_info os E p fs = (Inr info, fs')"
  shows "from_path os p = Inr (id info)" "path info = p"
proof -
  obtain i where i: "from_path os p = Inr i"
    using assms by (auto simp: probe_media_info_def split: sum.splits)
  then have "id info = i \<and> path info = p"
    using assms by (auto simp: probe_media_info_def probed_video_def probed_audio_def media_info_new_def
        split: sum.splits prod.splits option.splits if_splits)
  with i show "from_path os p = Inr (id info)" "path info = p" by simp_all
qed

text \<open>An import into a pipeline that runs fails before it has submitted anything, or submits all its jobs.\<close>

lemma import_all_or_nothing:
  assumes "\<not> shutdown (fst s)"
  obtains (fails) e s' fs' where "import_with_jobs os E R upsert clock imp p s fs = Some (Inl e, s', fs')"
    "queued_jobs (fst s') = queued_jobs (fst s)"
  | (runs) i "is" s' fs' where "import_with_jobs os E R upsert clock imp p s fs = Some (Inr (i, is), s', fs')"
proof (cases "os_metadata os p")
  case (Inl e)
  then show ?thesis by (intro fails [of "NotFound p" s fs]) (simp_all add: import_with_jobs_def)
next
  case (Inr m)
  obtain y fs1 where probe: "probe_media_info os E p fs = (y, fs1)" by (metis prod.collapse)
  show ?thesis
  proof (cases y)
    case (Inl e)
    with probe Inr show ?thesis by (intro fails [of e s fs1]) (simp_all add: import_with_jobs_def)
  next
    case info: (Inr info)
    obtain z s1 where db: "on_engine_db (upsert_asset R info) s = (z, s1)" by (metis prod.collapse)
    note same = on_engine_db_queue [OF db]
    show ?thesis
    proof (cases z)
      case (Inl e)
      with probe Inr info db same show ?thesis by (intro fails [of e s1 fs1]) (simp_all add: import_with_jobs_def)
    next
      case (Inr u)
      obtain js sh1 where js: "import_jobs imp info (fst s1) = (js, sh1)" by (metis prod.collapse)
      have "shutdown sh1 = shutdown (fst s1)"
        using js by (auto simp: import_jobs_def fetch_job_id_def Let_def split: media_type.splits)
      then obtain "is" sh2 where "submit_all upsert clock js sh1 = Some (Inr is, sh2)"
        using submit_all_total [of sh1 upsert clock js] same assms by auto
      with Inr probe info db js \<open>os_metadata os p = Inr m\<close> show ?thesis
        by (intro runs [of "id info" "is" "(sh2, snd s1)" fs1]) (simp add: import_with_jobs_def rbind_def)
    qed
  qed
qed

end
