(* ===== verification/ThumbnailFiles.thy ===== *)
theory ThumbnailFiles
  imports Thumbnails
begin

text \<open>
  The files of the thumbnail cache (\<open>tpt-av-asset-cache/src/thumbnail.rs\<close>): the name of a file determines its index,
  what is written is read back, and a thumbnail of one index leaves those of the others.
\<close>

subsection \<open>Names\<close>

lemma digits_val_index_text: "digits_val 0 (index_text i) = Some (unat i)"
  by (simp add: index_text_def Let_def digits_val_zeros digits_val_dec_string)

lemma index_text_inject: "index_text i = index_text j \<longleftrightarrow> i = j"
  using digits_val_index_text [of i] digits_val_index_text [of j] by (metis option.inject word_unat_eq_iff)

lemma index_text_digits: "c \<in> set (index_text i) \<Longrightarrow> digit_val c \<noteq> None"
proof -
  assume "c \<in> set (index_text i)"
  then have "c = CHR ''0'' \<or> c \<in> set (dec_string (unat i))" by (auto simp: index_text_def Let_def)
  then show ?thesis using dec_string_digits [of "unat i"] by (auto simp: digit_val_def)
qed

lemma index_text_not_Nil [simp]: "index_text i \<noteq> []"
  by (simp add: index_text_def Let_def)

lemma parse_index_text: "parse_unsigned (2 ^ 64) (index_text i) = Some (unat i)"
proof -
  obtain c cs where eq: "index_text i = c # cs" by (cases "index_text i") auto
  have "c \<noteq> CHR ''+''" using index_text_digits [of c i] by (auto simp: eq digit_val_def)
  with digits_val_index_text [of i] unsigned_less [of i, where 'a = nat] show ?thesis
    by (simp add: parse_unsigned_def eq)
qed

lemma plain_index_name: "plain_name (index_text i @ ''.jpg'')"
proof -
  have "CHR ''/'' \<notin> set (index_text i)" using index_text_digits [of "CHR ''/''" i] by (auto simp: digit_val_def)
  then show ?thesis by (cases "index_text i") (auto simp: plain_name_def)
qed

lemma file_for_index_key: "path_key (file_for_index d i) = (is_absolute d, components d @ [index_text i @ ''.jpg''])"
  unfolding file_for_index_def by (rule path_key_join [OF plain_index_name])

lemma meta_key: "path_key (path_join d ''meta'') = (is_absolute d, components d @ [''meta''])"
  by (rule path_key_join) (simp add: plain_name_def)

lemma file_keys_differ:
  "path_key (file_for_index d i) = path_key (file_for_index d j) \<longleftrightarrow> i = j"
  "path_key (path_join d ''meta'') \<noteq> path_key (file_for_index d i)"
proof -
  have "index_text i @ ''.jpg'' \<noteq> ''meta''"
  proof
    assume "index_text i @ ''.jpg'' = ''meta''"
    then have "last (index_text i @ ''.jpg'') = last ''meta''" by (rule arg_cong)
    then show False by simp
  qed
  then show "path_key (file_for_index d i) = path_key (file_for_index d j) \<longleftrightarrow> i = j"
    "path_key (path_join d ''meta'') \<noteq> path_key (file_for_index d i)"
    by (auto simp: file_for_index_key meta_key index_text_inject)
qed

subsection \<open>Calls that keep files\<close>

text \<open>The faults stay, and so does every file but those of some keys.\<close>

definition keeps_files :: "file_key set \<Rightarrow> file_system \<Rightarrow> file_system \<Rightarrow> bool" where
  "keeps_files K fs fs' \<longleftrightarrow> fails fs' = fails fs \<and>
     (\<forall>k bs. k \<notin> K \<longrightarrow> nodes fs k = Some (FileNode bs) \<longrightarrow> nodes fs' k = Some (FileNode bs))"

lemma keeps_files_refl: "keeps_files K fs fs"
  by (simp add: keeps_files_def)

lemma keeps_files_trans: "keeps_files K a b \<Longrightarrow> keeps_files L b c \<Longrightarrow> keeps_files (K \<union> L) a c"
  by (simp add: keeps_files_def)

lemma write_file_keeps: "write_file p bs fs = (r, fs') \<Longrightarrow> keeps_files {path_key p} fs fs'"
  by (auto simp: write_file_def fs_try_def set_nodes_def keeps_files_def split: option.splits if_splits)

lemma write_file_written: "write_file p bs fs = (Inr u, fs') \<Longrightarrow> nodes fs' (path_key p) = Some (FileNode bs)"
  by (auto simp: write_file_def fs_try_def set_nodes_def split: option.splits if_splits)

lemma create_dir_all_keeps: "create_dir_all p fs = (r, fs') \<Longrightarrow> keeps_files {} fs fs'"
  by (force simp: create_dir_all_def fs_try_def set_nodes_def keeps_files_def list_ex_iff is_file_node_def
      split: option.splits if_splits)

lemma write_meta_keeps: "write_meta c fs = (r, fs') \<Longrightarrow> keeps_files {path_key (path_join (thumb_dir c) ''meta'')} fs fs'"
  unfolding write_meta_def
  by (erule then_tryE) (use write_file_keeps keeps_files_trans in \<open>fastforce+\<close>)

text \<open>No read fails.\<close>

definition readable :: "file_system \<Rightarrow> bool" where
  "readable fs \<longleftrightarrow> (\<forall>k. fails fs ReadCall k = None)"

lemma readableD: "readable fs \<Longrightarrow> fails fs' = fails fs \<Longrightarrow> fails fs' ReadCall k = None"
  by (simp only: readable_def)

lemma read_file_node:
  assumes "nodes fs (path_key p) = Some (FileNode bs)" "fails fs ReadCall (path_key p) = None"
  shows "read_file p fs = (Inr bs, fs)"
  using assms by (simp add: read_file_def fs_try_def)

lemma read_file_Inr:
  "read_file p fs = (Inr bs, fs') \<Longrightarrow> fs' = fs \<and> nodes fs (path_key p) = Some (FileNode bs) \<and> fails fs ReadCall (path_key p) = None"
  by (auto simp: read_file_def fs_try_def split: option.splits node.splits)

subsection \<open>Creating and opening\<close>

lemma meta_bytes_fields:
  "length (meta_bytes c) = META_LEN" "slice 0 8 (meta_bytes c) = META_MAGIC"
  "slice 8 8 (meta_bytes c) = u64_to_le (thumb_interval c)" "slice 16 4 (meta_bytes c) = u32_to_le (fst (thumb_resolution c))"
  "slice 20 4 (meta_bytes c) = u32_to_le (snd (thumb_resolution c))"
  by (simp_all add: meta_bytes_def META_LEN_def META_MAGIC_def slice_def length_to_le)

lemma thumbnails_create_open:
  assumes "thumbnails_create i st interval res fs = (Inr c, fs')" "readable fs"
  shows "thumbnails_open i st fs' = (Inr c, fs')"
proof -
  let ?d = "thumbnail_dir st i"
  let ?c = "\<lparr>thumb_asset = i, thumb_dir = ?d, thumb_interval = interval, thumb_resolution = res\<rparr>"
  let ?m = "path_join ?d ''meta''"
  obtain fs1 fs2 where run: "create_dir_all ?d fs = (Inr (), fs1)" "write_file ?m [] fs1 = (Inr (), fs2)"
    "write_file ?m (meta_bytes ?c) fs2 = (Inr (), fs')" "c = ?c"
    using assms(1) by (auto simp: thumbnails_create_def Let_def write_meta_def fail_def give_def then_try_eq_Inr split: if_splits)
  have "fails fs' = fails fs"
    using create_dir_all_keeps [OF run(1)] write_file_keeps [OF run(2)] write_file_keeps [OF run(3)] by (simp add: keeps_files_def)
  then have "read_file ?m fs' = (Inr (meta_bytes ?c), fs')"
    using write_file_written [OF run(3)] by (intro read_file_node readableD [OF assms(2)])
  then show ?thesis by (simp add: thumbnails_open_def meta_bytes_fields run(4) from_to_le)
qed

subsection \<open>Writing and reading\<close>

definition decoded_thumbnail :: "image_lib \<Rightarrow> thumbnail_cache \<Rightarrow> u64 \<Rightarrow> bytes \<Rightarrow> asset_error + thumbnail option" where
  "decoded_thumbnail img c index jpeg =
     (case image_decode img jpeg of
        Inl e \<Rightarrow> Inl (codec (''jpeg decode failed: '' @ e))
      | Inr (w, h, pixels) \<Rightarrow>
          Inr (Some \<lparr>thumb_time = f64_mul (f64_of_nat (unat index)) (thumb_interval c), thumb_data = pixels,
                     thumb_width = w, thumb_height = h\<rparr>))"

lemma thumbnail_load_file:
  "read_file (file_for_index (thumb_dir c) i) fs = (Inr jpeg, fs) \<Longrightarrow> thumbnail_load img c i fs = (decoded_thumbnail img c i jpeg, fs)"
  by (auto simp: thumbnail_load_def decoded_thumbnail_def split: sum.splits)

lemma thumbnail_load_SomeE:
  assumes "thumbnail_load img c i fs = (Inr (Some x), fs1)"
  obtains jpeg where "nodes fs (path_key (file_for_index (thumb_dir c) i)) = Some (FileNode jpeg)"
    "decoded_thumbnail img c i jpeg = Inr (Some x)" "fs1 = fs"
proof -
  obtain r fs2 where r: "read_file (file_for_index (thumb_dir c) i) fs = (r, fs2)" by (metis prod.collapse)
  show ?thesis
  proof (cases r)
    case (Inl e)
    with r assms show ?thesis by (cases e) (auto simp: thumbnail_load_def split: if_splits)
  next
    case (Inr jpeg)
    note node = read_file_Inr [OF r [unfolded Inr]]
    with r Inr thumbnail_load_file [of c i fs jpeg img] assms show ?thesis by (intro that [of jpeg]) simp_all
  qed
qed

lemma write_thumbnail_file:
  assumes "write_thumbnail img c t fs = (Inr (), fs')"
  obtains jpeg where "jpeg_encode img (thumb_width t) (thumb_height t) (thumb_data t) = Inr jpeg"
    "nodes fs' (path_key (file_for_index (thumb_dir c) (index_for_time c (thumb_time t)))) = Some (FileNode jpeg)"
    "keeps_files {path_key (file_for_index (thumb_dir c) (index_for_time c (thumb_time t))), path_key (path_join (thumb_dir c) ''meta'')} fs fs'"
proof -
  let ?p = "file_for_index (thumb_dir c) (index_for_time c (thumb_time t))" and ?m = "path_join (thumb_dir c) ''meta''"
  obtain jpeg where jpeg: "jpeg_encode img (thumb_width t) (thumb_height t) (thumb_data t) = Inr jpeg"
    using assms by (auto simp: write_thumbnail_def Let_def fail_def split: if_splits sum.splits)
  obtain fs1 fs2 where run: "(case path_parent ?p of None \<Rightarrow> give () | Some parent \<Rightarrow> create_dir_all parent) fs = (Inr (), fs1)"
    "write_file ?p jpeg fs1 = (Inr (), fs2)" "(if \<not> fs_exists ?m fs2 then write_meta c fs2 else (Inr (), fs2)) = (Inr (), fs')"
    using assms jpeg by (auto simp: write_thumbnail_def Let_def fail_def then_try_eq_Inr split: if_splits)
  have one: "keeps_files {} fs fs1"
    using run(1) create_dir_all_keeps by (cases "path_parent ?p") (auto simp: give_def keeps_files_refl)
  have three: "keeps_files {path_key ?m} fs2 fs'"
    using run(3) write_meta_keeps [of c fs2 "Inr ()" fs'] by (auto simp: keeps_files_def split: if_splits)
  have "keeps_files {path_key ?p, path_key ?m} fs fs'"
    using keeps_files_trans [OF keeps_files_trans [OF one write_file_keeps [OF run(2)]] three] by (simp add: insert_commute)
  moreover have "nodes fs' (path_key ?p) = Some (FileNode jpeg)"
    using three write_file_written [OF run(2)] file_keys_differ(2) [of "thumb_dir c"] unfolding keeps_files_def by (metis singletonD)
  ultimately show ?thesis using jpeg by (intro that)
qed

lemma thumbnail_written:
  assumes "write_thumbnail img c t fs = (Inr (), fs')" "readable fs"
  obtains jpeg where "jpeg_encode img (thumb_width t) (thumb_height t) (thumb_data t) = Inr jpeg"
    "\<And>u. index_for_time c u = index_for_time c (thumb_time t) \<Longrightarrow>
       read_thumbnail img c u fs' = (decoded_thumbnail img c (index_for_time c u) jpeg, fs')"
    "\<And>u x. index_for_time c u \<noteq> index_for_time c (thumb_time t) \<Longrightarrow> read_thumbnail img c u fs = (Inr (Some x), fs) \<Longrightarrow>
       read_thumbnail img c u fs' = (Inr (Some x), fs')"
proof -
  obtain jpeg where w: "jpeg_encode img (thumb_width t) (thumb_height t) (thumb_data t) = Inr jpeg"
    "nodes fs' (path_key (file_for_index (thumb_dir c) (index_for_time c (thumb_time t)))) = Some (FileNode jpeg)"
    "keeps_files {path_key (file_for_index (thumb_dir c) (index_for_time c (thumb_time t))), path_key (path_join (thumb_dir c) ''meta'')} fs fs'"
    by (rule write_thumbnail_file [OF assms(1)])
  have "fails fs' = fails fs" using w(3) by (simp only: keeps_files_def)
  note ok = readableD [OF assms(2) this]
  show ?thesis
  proof (rule that [OF w(1)])
    fix u assume "index_for_time c u = index_for_time c (thumb_time t)"
    then show "read_thumbnail img c u fs' = (decoded_thumbnail img c (index_for_time c u) jpeg, fs')"
      unfolding read_thumbnail_def using w(2) ok by (intro thumbnail_load_file read_file_node) simp_all
  next
    fix u x assume other: "index_for_time c u \<noteq> index_for_time c (thumb_time t)" and old: "read_thumbnail img c u fs = (Inr (Some x), fs)"
    obtain bs where bs: "nodes fs (path_key (file_for_index (thumb_dir c) (index_for_time c u))) = Some (FileNode bs)"
      "decoded_thumbnail img c (index_for_time c u) bs = Inr (Some x)"
      using old unfolding read_thumbnail_def by (rule thumbnail_load_SomeE)
    have "nodes fs' (path_key (file_for_index (thumb_dir c) (index_for_time c u))) = Some (FileNode bs)"
      using w(3) bs(1) other file_keys_differ [of "thumb_dir c"] unfolding keeps_files_def by (metis insertE singletonD)
    then show "read_thumbnail img c u fs' = (Inr (Some x), fs')"
      unfolding read_thumbnail_def bs(2) [symmetric] using ok by (intro thumbnail_load_file read_file_node) simp_all
  qed
qed

end
