(* ===== verification/Samples.thy ===== *)
theory Samples
  imports AssetTable CacheTable JobTable Storage PeakGen Endings Watching Importer ThumbnailFiles
    "HOL-Library.Char_ord" "HOL-Library.Product_Lexorder"
begin

text \<open>
  Concrete data for the witnesses: metadata, and databases of the in-memory store, on which the
  operations always return.
\<close>

definition sample_info :: media_info where
  "sample_info =
     \<lparr>id = from_parts 0xAA 17 4096, path = ''/media/a.mkv'', name = ''a.mkv'', info_size = 4096,
      media_type = Video, duration_secs = Some f64_one,
      video = Some \<lparr>width = 3840, height = 2160, frame_rate = f64_one, video_codec = ''h264'',
        pixel_format = ''yuv420p'', video_bit_rate = Some 50000000, frame_count = 86316,
        video_duration_secs = f64_one\<rparr>,
      audio = Some \<lparr>sample_rate = 48000, channels = 2, bit_depth = 16, audio_codec = ''aac'',
        audio_bit_rate = None, audio_duration_secs = f64_one\<rparr>\<rparr>"

lemma storable_sample_info: "storable_info sample_info"
  by (simp add: storable_info_def sample_info_def storable_str_def storable_video_def storable_audio_def
      to_string_lossy_valid utf8_valid_ascii)

lemma mem_upsert_asset:
  "upsert_asset mem_redb m d = (Inr (), d(ASSETS := (KBytes (asset_key (id m)), encode_media_info m) # d ASSETS))"
  by (simp add: upsert_asset_def with_write_txn_def Let_def)

lemma mem_empty_wf: "assets_wf (mem_rows mem_empty)" "cache_wf (mem_rows mem_empty)" "jobs_wf (mem_rows mem_empty)"
  by (simp_all add: assets_wf_def cache_wf_def jobs_wf_def mem_rows_def mem_empty_def)

subsection \<open>Cache entries\<close>

definition mem_record :: "asset_id \<Rightarrow> cache_type \<Rightarrow> string \<Rightarrow> mem_db \<Rightarrow> mem_db" where
  "mem_record i ty p d = snd (record_cache_entry mem_redb i ty p d)"

lemma mem_record_cache_entry: "record_cache_entry mem_redb i ty p d = (Inr (), mem_record i ty p d)"
  by (simp add: mem_record_def record_cache_entry_def with_write_txn_def Let_def)

lemmas mem_record_view =
  record_cache_entry_view [where dr = mem_rows, OF mem_record_cache_entry mem_redb_laws]
lemmas mem_record_wf =
  record_cache_entry_wf [where dr = mem_rows, OF mem_record_cache_entry mem_redb_laws]

text \<open>Two assets with a waveform each, and thumbnails for the first.\<close>

definition sample_cache :: mem_db where
  "sample_cache =
     mem_record (from_parts 2 0 0) WaveformPeaks ''/c/b''
       (mem_record (from_parts 1 0 0) VideoThumbnails ''/c/t''
         (mem_record (from_parts 1 0 0) WaveformPeaks ''/c/w'' mem_empty))"

lemma sample_paths:
  "storable_str ''/c/b''" "storable_str ''/c/t''" "storable_str ''/c/w''"
  "to_string_lossy ''/c/b'' = ''/c/b''" "to_string_lossy ''/c/t'' = ''/c/t''" "to_string_lossy ''/c/w'' = ''/c/w''"
  by (simp_all add: storable_str_def to_string_lossy_valid utf8_valid_ascii)

lemma sample_cache_rows:
  "cache_wf (mem_rows sample_cache)"
  "cache_of (mem_rows sample_cache) (from_parts 1 0 0) = [WaveformPeaks \<mapsto> ''/c/w'', VideoThumbnails \<mapsto> ''/c/t'']"
  "cache_of (mem_rows sample_cache) (from_parts 2 0 0) = [WaveformPeaks \<mapsto> ''/c/b'']"
proof -
  have empty: "cache_of (mem_rows mem_empty) i = Map.empty" for i
    by (simp add: cache_of_def mem_rows_def mem_empty_def fun_eq_iff)
  have differ: "from_parts 1 0 0 \<noteq> from_parts 2 0 0" by (simp add: from_parts_def)
  show "cache_wf (mem_rows sample_cache)"
    unfolding sample_cache_def by (intro mem_record_wf mem_empty_wf) (simp_all only: sample_paths)
  have view: "cache_of (mem_rows sample_cache) =
      ((cache_of (mem_rows mem_empty))
        (from_parts 1 0 0 := [WaveformPeaks \<mapsto> ''/c/w'', VideoThumbnails \<mapsto> ''/c/t''],
         from_parts 2 0 0 := [WaveformPeaks \<mapsto> ''/c/b'']))"
    unfolding sample_cache_def using differ by (simp add: mem_record_view sample_paths empty)
  show "cache_of (mem_rows sample_cache) (from_parts 1 0 0) = [WaveformPeaks \<mapsto> ''/c/w'', VideoThumbnails \<mapsto> ''/c/t'']"
    "cache_of (mem_rows sample_cache) (from_parts 2 0 0) = [WaveformPeaks \<mapsto> ''/c/b'']"
    unfolding view using differ by simp_all
qed

lemma list_rows_total:
  "\<forall>kv \<in> set kvs. own_key prefix (fst kv) \<longrightarrow> (\<exists>e. row_entry (fst kv) (snd kv) = Inr e) \<Longrightarrow>
     \<exists>es. list_rows prefix (map Inr kvs) = Inr es"
proof (induction kvs)
  case (Cons kv kvs)
  then obtain es where "list_rows prefix (map Inr kvs) = Inr es" by auto
  with Cons.prems show ?case
    by (cases kv) (auto simp: row_entry_def result_simps Let_def)
qed simp

lemma mem_list_total:
  assumes "cache_wf (mem_rows d)"
  shows "\<exists>es. list_cache_entries mem_redb i d = Inr es"
proof -
  define kvs where "kvs = filter (\<lambda>kv. KBytes (key_bytes i) \<le> fst kv) (in_order (d CACHE_ENTRIES))"
  have "\<exists>e. row_entry (fst kv) (snd kv) = Inr e" if "kv \<in> set kvs" for kv
  proof -
    have "map_of (in_order (d CACHE_ENTRIES)) (fst kv) = Some (snd kv)"
      using that sorted_in_order [of "d CACHE_ENTRIES"]
      by (auto simp: kvs_def strict_sorted_iff intro: map_of_is_SomeI)
    then have "mem_rows d CACHE_ENTRIES (fst kv) = Some (snd kv)"
      by (simp add: mem_rows_def map_of_in_order)
    with cache_wfD [OF assms] obtain j ty p where "fst kv = entry_key j ty" "entry_path (snd kv) = Some p"
      by metis
    then show ?thesis using row_entry_key by metis
  qed
  then have "\<exists>es. list_rows (key_bytes i) (map Inr kvs) = Inr es"
    by (intro list_rows_total) blast
  then show ?thesis by (simp add: list_cache_entries_def Let_def kvs_def)
qed

lemma mem_remove_keys_total: "\<exists>n' d'. remove_keys mem_redb keys n d = Inr (n', d')"
  by (induction keys arbitrary: n d) simp_all

lemma mem_invalidate_total: "\<exists>n d'. invalidate_caches mem_redb i d = (Inr n, d')"
proof -
  obtain n d' where "remove_keys mem_redb (List.map_filter (key_of_row (key_bytes i))
      (map Inr (filter (\<lambda>kv. KBytes (key_bytes i) \<le> fst kv) (in_order (d CACHE_ENTRIES))))) 0 d = Inr (n, d')"
    using mem_remove_keys_total by blast
  then show ?thesis by (simp add: invalidate_caches_def with_write_txn_def Let_def)
qed

subsection \<open>Jobs\<close>

definition sample_record :: job_record where
  "sample_record =
     \<lparr>job_id = 42, asset_id = from_parts 9 8 7, job_priority = High, state = Failed, kind = ''waveform'',
      progress = f64_one, resume_hint = 12, payload = ''/media/a.wav'', created_ms = 1000,
      updated_ms = 2000, error = Some ''decode blew up''\<rparr>"

lemma storable_sample_record: "storable_job sample_record"
  by (simp add: storable_job_def sample_record_def storable_str_def utf8_valid_ascii)

definition sample_jobs :: mem_db where
  "sample_jobs = snd (upsert_job mem_redb 0 sample_record mem_empty)"

lemma mem_upsert_job: "upsert_job mem_redb 0 sample_record mem_empty = (Inr (), sample_jobs)"
  by (simp add: sample_jobs_def upsert_job_def with_write_txn_def Let_def)

lemma sample_jobs_rows:
  "jobs_wf (mem_rows sample_jobs)"
  "jobs_of (mem_rows sample_jobs) = [42 \<mapsto> stored_job 0 sample_record]"
proof -
  show "jobs_wf (mem_rows sample_jobs)"
    by (rule upsert_job_wf [where dr = mem_rows, OF mem_upsert_job mem_redb_laws storable_sample_record mem_empty_wf(3)])
  have "jobs_of (mem_rows mem_empty) = Map.empty"
    by (simp add: jobs_of_def mem_rows_def mem_empty_def fun_eq_iff)
  then show "jobs_of (mem_rows sample_jobs) = [42 \<mapsto> stored_job 0 sample_record]"
    using upsert_job_view [where dr = mem_rows, OF mem_upsert_job mem_redb_laws storable_sample_record]
    by (simp add: sample_record_def)
qed

lemma mem_jobs_total: "\<exists>js. jobs_in_state mem_redb st sample_jobs = Inr js"
proof -
  have "decode_job_record 42 (job_row 0 sample_record) = Inr (stored_job 0 sample_record)"
    using decode_job_row [OF storable_sample_record, of 0] by (simp add: sample_record_def)
  moreover have "job_id sample_record = 42" by (simp add: sample_record_def)
  ultimately show ?thesis
    by (simp add: jobs_in_state_def all_jobs_def sample_jobs_def upsert_job_def with_write_txn_def Let_def
        mem_empty_def in_order_def)
qed

subsection \<open>Files\<close>

text \<open>A cache with the waveforms of two assets, one of them registered, and an unregistered proxy.\<close>

abbreviation "asset_a \<equiv> from_parts 1 0 0"
abbreviation "asset_b \<equiv> from_parts 2 0 0"

definition sample_store :: cache_storage where "sample_store = storage_new ''/c''"

definition sample_tree :: file_system where
  "sample_tree =
     \<lparr>nodes = [path_key (waveform_path sample_store asset_a) \<mapsto> FileNode [1],
               path_key (waveform_path sample_store asset_b) \<mapsto> FileNode [2],
               path_key (proxy_path sample_store asset_a ''tkvp'') \<mapsto> FileNode [3]],
      fails = (\<lambda>_ _. None)\<rparr>"

lemma sample_tree_plain: "fails sample_tree = (\<lambda>_ _. None)" "nodes sample_tree k \<noteq> Some DirNode"
  by (simp_all add: sample_tree_def)

definition sample_registry :: mem_db where
  "sample_registry = mem_record asset_a WaveformPeaks (waveform_path sample_store asset_a) mem_empty"

lemma asset_hash_ab: "asset_hash asset_a \<noteq> asset_hash asset_b"
  by (simp add: asset_hash_inject hash_eq_iff from_parts_def)

lemma utf8_valid_hex: "utf8_valid (hex_digits n k)"
proof -
  have "\<forall>c \<in> set (hex_digits n k). (of_char c :: nat) < 128"
    by (induction n arbitrary: k) auto
  then show ?thesis by (rule utf8_valid_ascii)
qed

lemma sample_waveform_path: "waveform_path sample_store i = ''/c/waveforms/'' @ asset_hash i @ ''.peaks''"
  using name_digit_hash [of i] plain_name_hash [of "[]" i]
  by (cases "asset_hash i")
    (simp_all add: waveform_path_def waveform_dir_def sample_store_def storage_new_def path_join_def is_absolute_def
      name_digit_def plain_name_def)

lemma sample_waveform_text:
  "utf8_valid (waveform_path sample_store i)" "storable_str (waveform_path sample_store i)"
proof -
  have "utf8_valid (''/c/waveforms/'' @ asset_hash i @ ''.peaks'')"
    unfolding asset_hash_def by (intro utf8_valid_append utf8_valid_hex) (simp_all add: utf8_valid_ascii)
  then show "utf8_valid (waveform_path sample_store i)" by (simp add: sample_waveform_path)
  then show "storable_str (waveform_path sample_store i)"
    by (simp add: storable_str_def sample_waveform_path)
qed

lemma sample_registry_rows:
  "cache_wf (mem_rows sample_registry)"
  "cache_of (mem_rows sample_registry) asset_a = [WaveformPeaks \<mapsto> waveform_path sample_store asset_a]"
proof -
  have empty: "cache_of (mem_rows mem_empty) i = Map.empty" for i
    by (simp add: cache_of_def mem_rows_def mem_empty_def fun_eq_iff)
  show "cache_wf (mem_rows sample_registry)"
    unfolding sample_registry_def by (rule mem_record_wf [OF _ mem_empty_wf(2)]) (simp add: to_string_lossy_valid sample_waveform_text)
  show "cache_of (mem_rows sample_registry) asset_a = [WaveformPeaks \<mapsto> waveform_path sample_store asset_a]"
    unfolding sample_registry_def
    by (simp add: mem_record_view sample_waveform_text empty to_string_lossy_valid)
qed

lemma sample_registry_list:
  "list_cache_entries mem_redb asset_a sample_registry = Inr [(WaveformPeaks, waveform_path sample_store asset_a)]"
proof -
  obtain es where es: "list_cache_entries mem_redb asset_a sample_registry = Inr es"
    using mem_list_total [OF sample_registry_rows(1)] by blast
  have "es = entries_of (cache_of (mem_rows sample_registry) asset_a)"
    by (rule list_cache_entries_view [where dr = mem_rows, OF es mem_redb_laws sample_registry_rows(1)])
  then show ?thesis
    using es sample_registry_rows(2) by (simp add: entries_of_def all_cache_types_def List.map_filter_def)
qed

text \<open>The sweep of a tree without refusals, where the asset has no file in place of its directory or the reverse.\<close>

lemma remove_asset_files_total:
  assumes "fails fs = (\<lambda>_ _. None)" "nodes fs (path_key (waveform_path st i)) \<noteq> Some DirNode"
    "\<forall>ext. nodes fs (path_key (proxy_path st i ext)) \<noteq> Some DirNode"
  shows "\<exists>n fs'. remove_asset_files st i fs = (Inr n, fs')"
proof -
  have keep: "\<exists>n' fs'. remove_if (fs_exists p fs) (remove_file p) n fs = (Inr n', fs')"
    if "fails fs = (\<lambda>_ _. None)" "nodes fs (path_key p) \<noteq> Some DirNode" for p n fs
    using that
    by (cases "nodes fs (path_key p)"; cases "the (nodes fs (path_key p))")
      (simp_all add: remove_if_def fs_exists_def fs_node_def then_try_def remove_file_def fs_try_def set_nodes_def give_def)
  have dirs: "\<exists>n' fs'. remove_if (fs_is_dir p fs) (remove_dir_all p) n fs = (Inr n', fs')"
    if "fails fs = (\<lambda>_ _. None)" for p n fs
    using that by (simp add: remove_if_def fs_is_dir_def fs_node_def then_try_def remove_dir_all_def fs_try_def
        set_nodes_def give_def)
  have mono: "fails fs' = (\<lambda>_ _. None) \<and> (\<forall>p. nodes fs (path_key p) \<noteq> Some DirNode \<longrightarrow> nodes fs' (path_key p) \<noteq> Some DirNode)"
    if "removes_only P fs fs'" "fails fs = (\<lambda>_ _. None)" for P fs fs'
    using that unfolding removes_only_def by (metis option.distinct(1))
  obtain n1 a where 1: "remove_if (fs_exists (waveform_path st i) fs) (remove_file (waveform_path st i)) 0 fs = (Inr n1, a)"
    using keep assms(1,2) by blast
  note m1 = mono [OF conjunct1 [OF remove_if_file [OF 1]] assms(1)]
  obtain n2 b where 2: "remove_if (fs_is_dir (thumbnail_dir st i) a) (remove_dir_all (thumbnail_dir st i)) n1 a = (Inr n2, b)"
    using dirs m1 by blast
  note m2 = mono [OF conjunct1 [OF remove_if_dir [OF 2]] conjunct1 [OF m1]]
  obtain n3 c where 3: "remove_if (fs_exists (proxy_path st i ''mp4'') b) (remove_file (proxy_path st i ''mp4'')) n2 b = (Inr n3, c)"
    using keep m1 m2 assms(3) by metis
  note m3 = mono [OF conjunct1 [OF remove_if_file [OF 3]] conjunct1 [OF m2]]
  obtain n4 d where 4: "remove_if (fs_exists (proxy_path st i ''flac'') c) (remove_file (proxy_path st i ''flac'')) n3 c = (Inr n4, d)"
    using keep m1 m2 m3 assms(3) by metis
  show ?thesis unfolding remove_asset_files_def by (simp add: then_try_def 1 2 3 4)
qed

subsection \<open>Audio\<close>

text \<open>A decoder of a list of samples, and a mono stream.\<close>

definition list_decode :: "f32 list decoder_fn" where "list_decode m s = (Inr (take m s), drop m s)"

lemma list_decode_steady: "steady list_decode (\<lambda>s. s) nch"
  by (simp add: steady_def list_decode_def)

lemma list_decode_never_fails: "never_fails list_decode"
  by (simp add: never_fails_def list_decode_def)

text \<open>A decoder that gives one sample with each call.\<close>

definition drip_decode :: "f32 list decoder_fn" where "drip_decode m s = (Inr (take (min m 1) s), drop (min m 1) s)"

lemma drip_decode_drips: "drips drip_decode (\<lambda>s. s)"
  unfolding drips_def
proof (intro allI impI)
  fix m :: nat and s :: "f32 list" assume "0 < m"
  then have "min m 1 = 1" by simp
  then show "\<exists>s'. drip_decode m s = (Inr (take 1 s), s') \<and> s' = drop 1 s" by (simp only: drip_decode_def ex_simps) blast
qed

definition sample_stream :: audio_stream_info where
  "sample_stream = \<lparr>stream_sample_rate = 48000, stream_channels = 1, stream_bit_depth = 16, stream_codec = ''wav'',
     total_frames = Some 1, stream_duration = None\<rparr>"

lemma calm_default: "calm (\<lambda>q. q) reporter_new (False, w)"
  by (simp add: calm_def is_cancelled_def callback_keeps_def reporter_new_def reporter_default_def)

subsection \<open>Video\<close>

text \<open>A codec of single black pixels, a directory without files, and a file in it.\<close>

definition black :: bytes where "black = [0, 0, 0, 7]"

definition pixel_encode :: "unit encode_fn" where
  "pixel_encode seq planes e = (if planes = rgba_to_planes black 1 1 then (Inr [1, 2, 3], e) else (Inl ''size'', e))"

definition pixel_decode :: "unit decode_fn" where
  "pixel_decode seq bs d = (if bs = [1, 2, 3] then (Inr (rgba_to_planes black 1 1), d) else (Inl ''data'', d))"

lemma pixel_codec: "lossless_codec pixel_encode pixel_decode"
  by (simp add: lossless_codec_def pixel_encode_def pixel_decode_def)

definition no_files :: file_system where "no_files = \<lparr>nodes = Map.empty, fails = (\<lambda>_ _. None)\<rparr>"

definition one_file :: "string \<Rightarrow> bytes \<Rightarrow> file_system" where
  "one_file p bs = no_files\<lparr>nodes := [path_key p \<mapsto> FileNode bs]\<rparr>"

lemma read_one_file [simp]: "read_file p (one_file p bs) = (Inr bs, one_file p bs)"
  by (simp add: read_file_def fs_try_def one_file_def no_files_def)

lemma path_key_p: "path_key ''p'' = (False, [''p''])" "path_parent ''p'' = Some ''''"
  by (simp_all add: path_key_def path_parent_def is_absolute_def components_def Let_def)

lemma one_valid: "f64_is_finite f64_one" "\<not> f64_le f64_one f64_zero"
  by (simp_all add: f64_is_finite_def f64_le_def f64_mag_def f64_one_def f64_zero_def f64_inf_def fp_inf_def f64_key_def f64_neg_def f64_is_nan_def)

lemma sample_writer:
  obtains wr fs wr1 wr2 where "writer_create [] () ''p'' 1 1 f64_one no_files = (Inr wr, fs)"
    "write_frames pixel_encode [black] wr = (Inr (), wr1)" "writer_finish wr1 = (Inr (), wr2)"
proof -
  obtain fs where w: "write_file ''p'' [] no_files = (Inr (), fs)"
    by (simp add: write_file_def fs_try_def path_key_p no_files_def dirs_to_def set_nodes_def)
  obtain wr where wr: "writer_create [] () ''p'' 1 1 f64_one no_files = (Inr wr, fs)"
    by (simp add: writer_create_def path_key_p then_try_def give_def w buf_write_def buf_capacity_def Let_def)
  note new = writer_create_writes [OF wr]
  have "unfailing (writer_file wr)" using new(6) by (simp add: unfailing_def)
  then obtain wr1 where wr1: "write_frame pixel_encode black wr = (Inr (), wr1)" "unfailing (writer_file wr1)"
    by (rule write_frame_runs [of wr black pixel_encode "[1, 2, 3]" "()"]) (simp_all add: new(2) pixel_encode_def black_def)
  obtain wr2 where "writer_finish wr1 = (Inr (), wr2)"
    using writer_finish_runs [OF wr1(2)] by blast
  then show ?thesis using that wr wr1(1) by (simp add: then_try_def)
qed

subsection \<open>Proxies\<close>

text \<open>A decoder that finds one sample in every file, and a demuxer that finds no track.\<close>

definition sample_raw :: raw_stream_info where
  "sample_raw = \<lparr>raw_sample_rate = 48000, raw_channels = 1, raw_bit_depth = 16, raw_total_frames = Some 1\<rparr>"

definition sample_opener :: "f32 list opener" where "sample_opener n = Some ([f32_one], sample_raw)"

lemma sample_open_audio:
  "open_audio sample_opener sample_opener ''s'' (one_file ''s'' bs) = (Inr ([f32_one], stream_info ''wav'' sample_raw), one_file ''s'' bs)"
  by (simp add: open_audio_def open_node_def fs_try_def one_file_def no_files_def then_try_def sample_opener_def give_def)

lemma sample_wav_new: obtains w fs where "wav_new [] ''p'' spec (one_file ''s'' bs) = (Inr w, fs)"
proof -
  obtain fs where w: "write_file ''p'' [] (one_file ''s'' bs) = (Inr (), fs)"
    by (simp add: write_file_def fs_try_def path_key_p one_file_def no_files_def dirs_to_def set_nodes_def path_key_def
        is_absolute_def components_def Let_def)
  have "unfailing \<lparr>inner = new_file [], pending = []\<rparr>" by (simp add: unfailing_def new_file_def)
  from buf_write_all_runs [OF this]
  have "\<exists>b. buf_write_all bss \<lparr>inner = new_file [], pending = []\<rparr> = (Inr (), b)" for bss by metis
  then obtain b where "buf_write_all
       [as_bytes ''RIFF'', [0, 0, 0, 0], as_bytes ''WAVE'', as_bytes ''fmt '', u32_to_le 16, u16_to_le 1,
        u16_to_le (spec_channels spec), u32_to_le (spec_rate spec), u32_to_le (spec_rate spec * ucast (spec_channels spec * 2)),
        u16_to_le (spec_channels spec * 2), u16_to_le 16, as_bytes ''data'', [0, 0, 0, 0]]
       \<lparr>inner = new_file [], pending = []\<rparr> = (Inr (), b)" by blast
  then have "wav_new [] ''p'' spec (one_file ''s'' bs) = (Inr \<lparr>wav_file = b, wav_bytes = 0, wav_path = ''p''\<rparr>, fs)"
    by (simp add: wav_new_def path_key_p then_try_def give_def w Let_def del: buf_write_all.simps)
  then show ?thesis by (rule that)
qed

definition sample_kinetix :: "(unit, unit, unit) kinetix" where
  "sample_kinetix = \<lparr>mp4_new = (\<lambda>_. Inl ''no box''), mp4_tracks = (\<lambda>_. []), mp4_seek = (\<lambda>_ m. m),
     mp4_read = (\<lambda>m. (Inr None, m)), h264_new = (), h264_decode = (\<lambda>_ h. (Inr None, h)), time_none = (\<lambda>_. True),
     time_secs = (\<lambda>_. f64_zero)\<rparr>"

definition sample_images :: image_lib where
  "sample_images = \<lparr>image_from_raw = (\<lambda>w h bs. length bs = unat w * unat h * 4), image_resize = (\<lambda>_ _ bs _ _. bs),
     jpeg_encode = (\<lambda>_ _ bs. Inr bs), image_decode = (\<lambda>bs. Inr (1, 1, bs))\<rparr>"

lemma sample_finite_source: "finite_source sample_kinetix d p fs"
proof -
  have "mp4_open sample_kinetix p a \<noteq> (Inr s, b)" for s a b
    by (auto simp: mp4_open_def sample_kinetix_def fail_def then_try_eq_Inr)
  then have "open_video sample_kinetix d p fs \<noteq> (Inr (Mp4H264 s), fs)" for s
    by (auto simp: open_video_def Let_def then_try_eq_Inr give_def fail_def split: if_splits)
  then show ?thesis by (simp add: finite_source_def)
qed

subsection \<open>Watching\<close>

text \<open>Hash maps iterated in the order of their keys.\<close>

definition sorted_order :: "('k :: linorder, 'v) hash_order" where
  "sorted_order m = map (\<lambda>k. (k, the (m k))) (sorted_list_of_set (dom m))"

lemma sorted_order_iterates: "hash_iterates (sorted_order :: ('k :: linorder, 'v) hash_order)"
proof -
  have "map_of (sorted_order m) k = m k" if "finite (dom m)" for m :: "'k \<rightharpoonup> 'v" and k
  proof (cases "m k")
    case None
    with that show ?thesis by (simp add: sorted_order_def map_of_eq_None_iff image_image domIff)
  next
    case (Some v)
    moreover have "(k, v) \<in> set (sorted_order m)" using that Some by (force simp: sorted_order_def)
    moreover have "distinct (map fst (sorted_order m))" by (simp add: sorted_order_def comp_def)
    ultimately show ?thesis by simp
  qed
  then show ?thesis by (auto simp: hash_iterates_def fun_eq_iff) (simp add: sorted_order_def comp_def)
qed

lemma sorted_order_small [simp]: "sorted_order Map.empty = []" "sorted_order [k \<mapsto> v] = [(k, v)]"
  by (simp_all add: sorted_order_def)

definition sample_event :: file_event where
  "sample_event = \<lparr>event_type = Modified, event_path = ''/media/a.mkv'', event_time = 5\<rparr>"

text \<open>A directory with one file.\<close>

definition sample_ls :: dir_lister where
  "sample_ls d = (if d = ''/d'' then Inr [Some (''/d/a'', Some (FileEntry, \<lparr>meta_modified = Inr 7000000, meta_len = 3\<rparr>))] else Inl not_found)"

lemma sample_scan: "scan_all sample_ls [''/d''] = [''/d/a'' \<mapsto> \<lparr>state_size = 3, state_modified = 7\<rparr>]"
  by (simp add: scan_all_def scan_dir.simps sample_ls_def MAX_SCAN_DEPTH_def file_state_of_def)

text \<open>A database with one asset, whose path is its own canonical form.\<close>

definition sample_os :: os_files where "sample_os = \<lparr>os_metadata = (\<lambda>_. Inl not_found), os_canonicalize = Inr\<rparr>"

definition sample_assets :: mem_db where "sample_assets = snd (upsert_asset mem_redb sample_info mem_empty)"

lemma sample_assets_rows:
  "assets_wf (mem_rows sample_assets)" "cache_wf (mem_rows sample_assets)"
  "assets_of (mem_rows sample_assets) = [id sample_info \<mapsto> stored_info sample_info]"
proof -
  have run: "upsert_asset mem_redb sample_info mem_empty = (Inr (), sample_assets)"
    by (simp add: sample_assets_def mem_upsert_asset)
  show "assets_wf (mem_rows sample_assets)"
    by (rule upsert_asset_wf [where dr = mem_rows, OF run mem_redb_laws storable_sample_info mem_empty_wf(1)])
  show "cache_wf (mem_rows sample_assets)"
    by (simp add: cache_wf_def sample_assets_def mem_upsert_asset mem_rows_def mem_empty_def)
  have "assets_of (mem_rows mem_empty) = Map.empty" by (simp add: assets_of_def mem_rows_def mem_empty_def fun_eq_iff)
  then show "assets_of (mem_rows sample_assets) = [id sample_info \<mapsto> stored_info sample_info]"
    using upsert_asset_view [where dr = mem_rows, OF run mem_redb_laws storable_sample_info] by simp
qed

lemma sample_assets_list: "list_assets mem_redb sample_assets = Inr [stored_info sample_info]"
proof -
  have "\<exists>ms. list_assets mem_redb sample_assets = Inr ms"
    using decode_encode_media_info [OF storable_sample_info]
    by (simp add: list_assets_def sample_assets_def mem_upsert_asset mem_empty_def in_order_def rbind_def)
  then obtain ms where ms: "list_assets mem_redb sample_assets = Inr ms" by blast
  note view = list_assets_view [where dr = mem_rows, OF ms mem_redb_laws sample_assets_rows(1)]
  have "set ms = {stored_info sample_info}" using view sample_assets_rows(3) by simp
  moreover have "distinct (map id ms)" by (rule list_assets_distinct) (use view in blast)
  then have "distinct ms" by (simp add: distinct_map)
  ultimately have "set ms = {stored_info sample_info}" "distinct ms" by simp_all
  then have "ms = [stored_info sample_info]" by (cases ms; cases "tl ms") auto
  with ms show ?thesis by simp
qed

lemma mem_clean_ranges: "clean_ranges mem_redb i"
  by (simp add: clean_ranges_def)

lemma sample_handle_event:
  "\<exists>fs' d'. handle_event sample_os mem_redb sample_store sample_event (no_files, sample_assets) = (Inr True, fs', d')"
proof -
  have "get_assets_by_path sample_os mem_redb ''/media/a.mkv'' sample_assets = Inr [stored_info sample_info]"
    by (simp add: get_assets_by_path_def sample_assets_list rbind_def canonical_or_self_def sample_os_def stored_info_def
        sample_info_def path_eq_def to_string_lossy_valid utf8_valid_ascii)
  moreover obtain es where es: "list_cache_entries mem_redb (id (stored_info sample_info)) sample_assets = Inr es"
    using mem_list_total [OF sample_assets_rows(2)] by blast
  moreover have "es = []"
    using list_cache_entries_view [where dr = mem_rows, OF es mem_redb_laws sample_assets_rows(2)]
    by (simp add: entries_of_def all_cache_types_def List.map_filter_def cache_of_def mem_rows_def sample_assets_def mem_upsert_asset mem_empty_def)
  moreover obtain n fs' where "remove_asset_files sample_store (id (stored_info sample_info)) no_files = (Inr n, fs')"
  proof -
    have "\<exists>n fs'. remove_asset_files sample_store (id (stored_info sample_info)) no_files = (Inr n, fs')"
      by (rule remove_asset_files_total) (simp_all add: no_files_def)
    then show ?thesis using that by blast
  qed
  moreover obtain n' d' where "invalidate_caches mem_redb (id (stored_info sample_info)) sample_assets = (Inr n', d')"
    using mem_invalidate_total by blast
  ultimately show ?thesis
    by (auto simp: handle_event_def sample_event_def invalidate_at_def then_try_def give_def invalidate_asset_def Let_def)
qed


subsection \<open>Recovery\<close>

lemma collect_rows_total:
  "\<forall>kv \<in> set kvs. \<exists>x. f (fst kv) (snd kv) = Inr x \<Longrightarrow> \<exists>xs. collect_rows f (map Inr kvs) = Inr xs"
  by (induction kvs) (auto simp: result_simps)

lemma mem_jobs_wf_total:
  assumes "jobs_wf (mem_rows d)"
  shows "\<exists>js. jobs_in_state mem_redb x d = Inr js"
proof -
  have "\<exists>r. decode_job_record (key_num (fst kv)) (snd kv) = Inr r" if "kv \<in> set (in_order (d JOBS))" for kv
  proof -
    have "map_of (in_order (d JOBS)) (fst kv) = Some (snd kv)"
      using that sorted_in_order [of "d JOBS"] by (auto simp: strict_sorted_iff intro: map_of_is_SomeI)
    then have "mem_rows d JOBS (fst kv) = Some (snd kv)" by (simp add: mem_rows_def map_of_in_order)
    with assms show ?thesis unfolding jobs_wf_def by (metis rkey.sel(2))
  qed
  then obtain js where "collect_rows (\<lambda>k. decode_job_record (key_num k)) (map Inr (in_order (d JOBS))) = Inr js"
    using collect_rows_total [of "in_order (d JOBS)" "\<lambda>k. decode_job_record (key_num k)"] by blast
  then show ?thesis by (simp add: jobs_in_state_def all_jobs_def)
qed

lemma mem_delete_job: "\<exists>b d'. delete_job mem_redb i d = (Inr b, d')"
  by (simp add: delete_job_def with_write_txn_def)

lemma mem_recover_records_total:
  "\<not> shutdown (fst s) \<Longrightarrow>
     \<exists>m s'. recover_records mem_redb (upsert_job mem_redb) clock st n rs s = Some (Inr m, s') \<and> \<not> shutdown (fst s')"
proof (induction rs arbitrary: n s)
  case (Cons r rs)
  show ?case
  proof (cases "rebuild_job r st")
    case None
    with Cons show ?thesis by simp
  next
    case (Some j)
    obtain b s1 where del: "on_engine_db (delete_job mem_redb (job_id r)) s = (Inr b, s1)"
      using mem_delete_job [of "job_id r" "engine_db s"] by (cases "job_db (fst s)") (auto simp: on_engine_db_def)
    then have live: "\<not> shutdown (fst s1)" using Cons.prems on_engine_db_queue by blast
    then obtain sh where sub: "submit (upsert_job mem_redb) (clock (job_ident (boxed_job j))) (boxed_job j) (fst s1) =
        Some (Inr (job_ident (boxed_job j)), sh)"
      using submit_total [of "upsert_job mem_redb" "clock (job_ident (boxed_job j))" "boxed_job j" "fst s1"] by auto
    have "\<not> shutdown (fst (sh, snd s1))" using submit_queues(2) [OF sub] live by simp
    from Cons.IH [OF this] Some del sub show ?thesis by simp
  qed
qed auto

lemma mem_recover_total:
  assumes "\<not> shutdown (fst s)" "jobs_wf (mem_rows (engine_db s))"
    and "\<forall>r \<in> ran (jobs_of (mem_rows (engine_db s))). state r = Pending \<longrightarrow> resubmittable st r"
  shows "\<exists>n s'. recover_interrupted mem_redb (upsert_job mem_redb) clock st s = Some (Inr n, s')"
proof -
  obtain ps where ps: "jobs_in_state mem_redb Pending (engine_db s) = Inr ps" using mem_jobs_wf_total [OF assms(2)] by blast
  obtain m s1 where one: "recover_records mem_redb (upsert_job mem_redb) clock st 0 ps s = Some (Inr m, s1)" "\<not> shutdown (fst s1)"
    using mem_recover_records_total [OF assms(1)] by blast
  have "\<forall>r \<in> set ps. resubmittable st r" using jobs_in_state_view(1) [where dr = mem_rows, OF ps mem_redb_laws assms(2)] assms(3) by simp
  then have "jobs_wf (mem_rows (engine_db s1))" using recover_records_rows [where dr = mem_rows, OF mem_redb_laws one(1) assms(2)] by blast
  then obtain rs where rs: "jobs_in_state mem_redb Running (engine_db s1) = Inr rs" using mem_jobs_wf_total by blast
  obtain k s2 where "recover_records mem_redb (upsert_job mem_redb) clock st m rs s1 = Some (Inr k, s2)"
    using mem_recover_records_total [OF one(2)] by blast
  with ps one rs show ?thesis by (simp add: recover_interrupted_def)
qed

text \<open>A waveform job and its record.\<close>

definition sample_waveform :: cache_job where
  "sample_waveform = WaveformJob \<lparr>wj_id = 7, wj_asset = asset_a, wj_path = ''/media/a.wav'', wj_chunk_size = 8,
     wj_sample_rate = 9, wj_storage = sample_store\<rparr>"

definition sample_pending :: job_record where
  "sample_pending = \<lparr>job_id = 7, asset_id = asset_a, job_priority = High, state = Pending, kind = ''waveform'',
     progress = f64_zero, resume_hint = 0, payload = job_payload (boxed_job sample_waveform), created_ms = 1, updated_ms = 1,
     error = None\<rparr>"

lemma sample_payload: "payload_text ''/media/a.wav''" "storable_str (job_payload (boxed_job sample_waveform))"
proof -
  show path: "payload_text ''/media/a.wav''" by (simp add: payload_text_def utf8_valid_ascii SEP_def)
  have "dec_string 8 = ''8''" "dec_string 9 = ''9''" by (simp_all add: dec_string.simps digit_char_def char_of_def bit_0)
  then have "job_payload (boxed_job sample_waveform) = ''/media/a.wav'' @ SEP # ''8'' @ SEP # ''9''"
    using payload_textD [OF path] by (simp add: sample_waveform_def waveform_payload_def)
  then show "storable_str (job_payload (boxed_job sample_waveform))" by (simp add: storable_str_def utf8_valid_ascii SEP_def)
qed

lemma sample_waveform_persistent: "persistent_job sample_waveform"
  using sample_payload(1) by (simp add: sample_waveform_def)

definition sample_crash :: "mem_db engine" where
  "sample_crash = (shared_default, snd (upsert_job mem_redb 0 sample_pending mem_empty))"

lemma sample_crash_rows:
  "jobs_wf (mem_rows (engine_db sample_crash))"
  "jobs_of (mem_rows (engine_db sample_crash)) = [7 \<mapsto> sample_pending]"
proof -
  have store: "storable_job sample_pending"
    using sample_payload(2) by (simp add: storable_job_def sample_pending_def storable_str_def utf8_valid_ascii)
  have run: "upsert_job mem_redb 0 sample_pending mem_empty = (Inr (), engine_db sample_crash)"
    by (simp add: sample_crash_def engine_db_def shared_default_def upsert_job_def with_write_txn_def Let_def)
  show "jobs_wf (mem_rows (engine_db sample_crash))"
    by (rule upsert_job_wf [where dr = mem_rows, OF run mem_redb_laws store mem_empty_wf(3)])
  have "jobs_of (mem_rows mem_empty) = Map.empty" by (simp add: jobs_of_def mem_rows_def mem_empty_def fun_eq_iff)
  then show "jobs_of (mem_rows (engine_db sample_crash)) = [7 \<mapsto> sample_pending]"
    using upsert_job_view [where dr = mem_rows, OF run mem_redb_laws store]
    by (simp add: sample_pending_def stored_job_def now_ms_def)
qed

lemma sample_rebuild: "rebuild_job sample_pending st = Some (recovered_job st sample_waveform)"
  by (rule rebuild_recorded [OF sample_waveform_persistent]) (simp add: records_job_def sample_pending_def sample_waveform_def)

lemma sample_resubmittable: "resubmittable st sample_pending"
  using sample_rebuild sample_payload(2) by (simp add: resubmittable_def) (simp add: sample_waveform_def waveform_payload_def)


subsection \<open>Importing\<close>

definition sample_env :: "(f32 list, unit, unit, unit, unit, unit, unit) job_env" where
  "sample_env = \<lparr>env_flag = (\<lambda>q. q), env_wav = sample_opener, env_flac = sample_opener, env_samples = list_decode,
     env_kinetix = sample_kinetix, env_decoder = (), env_decode = pixel_decode, env_encoder = (), env_encode = pixel_encode,
     env_images = sample_images, env_faults = []\<rparr>"

definition sample_disk :: os_files where
  "sample_disk = \<lparr>os_metadata = (\<lambda>_. Inr \<lparr>meta_modified = Inr 5, meta_len = 3\<rparr>), os_canonicalize = Inr\<rparr>"

lemma sample_probe:
  "\<exists>i. probe_media_info sample_disk sample_env ''s'' (one_file ''s'' []) =
     (Inr (probed_audio i ''s'' (stream_info ''wav'' sample_raw)), one_file ''s'' [])"
proof -
  have "open_video sample_kinetix () ''s'' (one_file ''s'' []) = (Inl (UnsupportedFormat ''s''), one_file ''s'' [])"
    by (simp add: open_video_def Let_def then_try_def fail_def)
  then have "probe_video sample_kinetix () ''s'' (one_file ''s'' []) = (Inl (UnsupportedFormat ''s''), one_file ''s'' [])"
    by (simp add: probe_video_def then_try_def)
  moreover have "probe_audio sample_opener sample_opener ''s'' (one_file ''s'' []) =
      (Inr (stream_info ''wav'' sample_raw), one_file ''s'' [])"
    by (simp add: probe_audio_def sample_open_audio then_try_def give_def)
  moreover obtain i where "from_path sample_disk ''s'' = Inr i"
    by (simp add: from_path_def sample_disk_def rbind_def)
  ultimately show ?thesis by (intro exI [of _ i]) (simp add: probe_media_info_def sample_env_def)
qed

lemma sample_import:
  "\<exists>i s'. import_with_jobs sample_disk sample_env mem_redb (upsert_job mem_redb) clock (importer_new sample_store) ''s''
     (shared_default, mem_empty) (one_file ''s'' []) = Some (Inr (i, [1, 2]), s', one_file ''s'' [])"
proof -
  obtain i where probe: "probe_media_info sample_disk sample_env ''s'' (one_file ''s'' []) =
     (Inr (probed_audio i ''s'' (stream_info ''wav'' sample_raw)), one_file ''s'' [])" using sample_probe by blast
  let ?info = "probed_audio i ''s'' (stream_info ''wav'' sample_raw)"
  obtain d where db: "on_engine_db (upsert_asset mem_redb ?info) (shared_default :: (cache_job, mem_db) shared, mem_empty) = (Inr (), shared_default, d)"
    by (simp add: on_engine_db_def engine_db_def mem_upsert_asset shared_default_def)
  obtain js sh where js: "import_jobs (importer_new sample_store) ?info (shared_default :: (cache_job, mem_db) shared) = (js, sh)"
    by (metis prod.collapse)
  have "media_type ?info = Audio" by (simp add: probed_audio_def media_info_new_def)
  then have ids: "map (\<lambda>j. job_ident (boxed_job j)) js = [1, 2]"
    using import_jobs_facts(4) [OF js] by (simp add: shared_default_def)
  have "\<not> shutdown sh"
    using js by (auto simp: import_jobs_def fetch_job_id_def shared_default_def Let_def split: media_type.splits)
  then obtain "is" sh' where sub: "submit_all (upsert_job mem_redb) clock js sh = Some (Inr is, sh')"
    using submit_all_total by blast
  from submit_all_queues [OF this] ids have "is = [1, 2]" by simp
  moreover have "os_metadata sample_disk ''s'' = Inr \<lparr>meta_modified = Inr 5, meta_len = 3\<rparr>" by (simp add: sample_disk_def)
  ultimately have "import_with_jobs sample_disk sample_env mem_redb (upsert_job mem_redb) clock (importer_new sample_store) ''s''
      (shared_default, mem_empty) (one_file ''s'' []) = Some (Inr (id ?info, [1, 2]), (sh', d), one_file ''s'' [])"
    using probe db js sub by (simp add: import_with_jobs_def rbind_def)
  then show ?thesis by blast
qed


subsection \<open>The command line\<close>

definition sample_peaks :: waveform_cache where
  "sample_peaks = \<lparr>waveform_asset = asset_a, peaks_path = ''p'',
     peaks_file = closed_file (PEAKS_MAGIC @ u32_to_le 0 @ u32_to_le 0 @ u64_to_le 1 @ replicate 20 0),
     peaks_reader = \<lparr>reader_chunk_size = 0, reader_sample_rate = 0, reader_count = 1\<rparr>\<rparr>"

lemma sample_peaks_ok: "peaks_ok sample_peaks" "chunk_count sample_peaks = 1" "faults (peaks_file sample_peaks) = []"
  by (simp_all add: sample_peaks_def peaks_ok_def Let_def slice_def chunk_count_def length_to_le)


subsection \<open>Thumbnails\<close>

lemma butlast_dirs_to: "butlast (dirs_to (a, cs @ [x])) = dirs_to (a, cs)"
  by (simp add: dirs_to_def butlast_append map_butlast [symmetric])

lemma sample_thumbnails:
  "\<exists>c fs. thumbnails_create asset_a sample_store f64_one (1, 1) no_files = (Inr c, fs)"
proof -
  let ?d = "thumbnail_dir sample_store asset_a"
  obtain fs1 where one: "create_dir_all ?d no_files = (Inr (), fs1)" "\<forall>k \<in> set (dirs_to (path_key ?d)). nodes fs1 k = Some DirNode"
    "\<forall>k. k \<notin> set (dirs_to (path_key ?d)) \<longrightarrow> nodes fs1 k = None" "fails fs1 = (\<lambda>_ _. None)"
    by (simp add: create_dir_all_def fs_try_def no_files_def set_nodes_def list_ex_iff is_file_node_def)
  have key: "path_key (path_join ?d ''meta'') = (is_absolute ?d, components ?d @ [''meta''])" by (rule meta_key)
  have dirs: "butlast (dirs_to (path_key (path_join ?d ''meta''))) = dirs_to (path_key ?d)"
    unfolding key butlast_dirs_to by (simp add: path_key_def)
  have new: "path_key (path_join ?d ''meta'') \<notin> set (dirs_to (path_key ?d))"
    unfolding key by (auto simp: dirs_to_def path_key_def dest: arg_cong [where f = length])
  have put: "\<exists>fs''. write_file (path_join ?d ''meta'') bs fs' = (Inr (), fs'') \<and> fails fs'' = (\<lambda>_ _. None) \<and>
      nodes fs'' = (nodes fs')(path_key (path_join ?d ''meta'') \<mapsto> FileNode bs)"
    if "fails fs' = (\<lambda>_ _. None)" "nodes fs' (path_key (path_join ?d ''meta'')) \<noteq> Some DirNode"
      "\<forall>k \<in> set (dirs_to (path_key ?d)). nodes fs' k = Some DirNode" for bs fs'
    using that by (simp add: write_file_def fs_try_def set_nodes_def dirs list_ex_iff)
  obtain fs2 where two: "write_file (path_join ?d ''meta'') [] fs1 = (Inr (), fs2)" "fails fs2 = (\<lambda>_ _. None)"
    "nodes fs2 = (nodes fs1)(path_key (path_join ?d ''meta'') \<mapsto> FileNode [])"
    using put [of fs1 "[]"] one(2-4) new by auto
  have nodir: "nodes fs2 (path_key (path_join ?d ''meta'')) \<noteq> Some DirNode" unfolding two(3) fun_upd_same by simp
  have "nodes fs2 k = Some DirNode" if "k \<in> set (dirs_to (path_key ?d))" for k
  proof -
    have "k \<noteq> path_key (path_join ?d ''meta'')" using that new by blast
    then show ?thesis using one(2) that unfolding two(3) by (metis fun_upd_other)
  qed
  then obtain fs3 where "write_file (path_join ?d ''meta'') (meta_bytes \<lparr>thumb_asset = asset_a, thumb_dir = ?d, thumb_interval = f64_one,
      thumb_resolution = (1, 1)\<rparr>) fs2 = (Inr (), fs3)"
    using put [OF two(2) nodir] by blast
  with one(1) two(1) show ?thesis
    by (simp add: thumbnails_create_def write_meta_def then_try_def give_def one_valid Let_def) (simp add: f64_lt_def f64_key_def
        f64_zero_def f64_one_def f64_neg_def f64_mag_def f64_is_nan_def f64_inf_eq)
qed

end
