(* ===== verification/JobEffects.thy ===== *)
theory JobEffects
  imports Jobs
begin

text \<open>
  What a proxy job leaves (\<open>tpt-av-asset-pipeline/src/jobs.rs\<close>): the file of the generator and the entry in the
  database.
\<close>

text \<open>The entry of one asset and one cache is set, and nothing else.\<close>

definition entry_set :: "asset_id \<Rightarrow> cache_type \<Rightarrow> string \<Rightarrow> rows \<Rightarrow> rows \<Rightarrow> bool" where
  "entry_set i ty p rows rows' \<longleftrightarrow> cache_of rows' = (cache_of rows)(i := (cache_of rows i)(ty \<mapsto> to_string_lossy p))"

lemma record_cache_entry_unchanged: "record_cache_entry R i ty p d = (Inl e, d') \<Longrightarrow> d' = d"
  unfolding record_cache_entry_def Let_def by (rule with_write_txn_Inl)

lemma record_result_effect:
  assumes "record_result R i ty p r fs d q = (r', fs', d', q')" "redb_laws R dr wr rr" "storable_str (to_string_lossy p)"
  shows "fs' = fs" "q' = q" "r' = Inr () \<longrightarrow> r = Inr () \<and> entry_set i ty p (dr d) (dr d')" "r' \<noteq> Inr () \<longrightarrow> d' = d"
    "r \<noteq> Inr () \<longrightarrow> r' = r"
proof -
  show "fs' = fs" "q' = q" "r \<noteq> Inr () \<longrightarrow> r' = r"
    using assms(1) by (auto simp: record_result_def split: sum.splits prod.splits)
  show "r' = Inr () \<longrightarrow> r = Inr () \<and> entry_set i ty p (dr d) (dr d')"
    using assms(1) record_cache_entry_view [OF _ assms(2,3)] by (auto simp: record_result_def entry_set_def split: sum.splits prod.splits)
  show "r' \<noteq> Inr () \<longrightarrow> d' = d"
    using assms(1) record_cache_entry_unchanged [of R i ty p d]
    by (cases r'; cases r; cases "record_cache_entry R i ty p d") (auto simp: record_result_def)
qed

text \<open>An audio job: the whole WAV file, registered; or no file; or only the entry failed.\<close>

definition audio_job_whole :: "('s, 'm, 'h, 't, 'd, 'e, 'p) job_env \<Rightarrow> proxy_job \<Rightarrow> file_system \<Rightarrow> file_system \<Rightarrow> bool" where
  "audio_job_whole E j fs fs' \<longleftrightarrow>
     whole_wav (env_wav E) (env_flac E) (env_samples E) (pj_path j) fs (nodes fs' (path_key (pj_output j)))"

lemma audio_job_effect:
  assumes proxy: "audio_ends (env_wav E) (env_flac E) (env_samples E) (pj_path j) fs" "fails fs RemoveFileCall (path_key (pj_output j)) = None"
    and laws: "redb_laws R dr wr rr" "storable_str (to_string_lossy (pj_output j))"
  shows "\<exists>r fs' d' q'. job_execute E R rep (AudioProxyJob j) fs d q = Some (r, fs', d', q') \<and>
    (case r of
       Inr _ \<Rightarrow> audio_job_whole E j fs fs' \<and> entry_set (pj_asset j) AudioProxy (pj_output j) (dr d) (dr d')
     | Inl e \<Rightarrow> d' = d \<and> (\<not> is_file_node (nodes fs' (path_key (pj_output j))) \<or> audio_job_whole E j fs fs')) \<and>
    (calm (env_flag E) rep q \<and> env_faults E = [] \<and>
       audio_ready (env_wav E) (env_flac E) (env_samples E) (pj_path j) (pj_output j) (pj_profile j) fs \<longrightarrow> audio_job_whole E j fs fs')"
proof -
  obtain g fs3 q3 where g: "generate_audio_proxy (env_flag E) (env_wav E) (env_flac E) (env_samples E) rep (env_faults E) (pj_path j)
      (pj_output j) (pj_profile j) fs q = Some (g, fs3, q3)"
    "case g of Inl _ \<Rightarrow> \<not> is_file_node (nodes fs3 (path_key (pj_output j))) | Inr _ \<Rightarrow> audio_job_whole E j fs fs3"
    "calm (env_flag E) rep q \<and> env_faults E = [] \<and>
       audio_ready (env_wav E) (env_flac E) (env_samples E) (pj_path j) (pj_output j) (pj_profile j) fs \<longrightarrow> g = Inr ()"
    using generate_audio_proxy_leaves [OF proxy, of "env_flag E" rep "env_faults E" "pj_profile j" q] unfolding audio_job_whole_def by blast
  obtain r fs' d' q' where res: "record_result R (pj_asset j) AudioProxy (pj_output j) g fs3 d q3 = (r, fs', d', q')"
    by (metis prod.collapse)
  have run: "job_execute E R rep (AudioProxyJob j) fs d q = Some (r, fs', d', q')"
    using g(1) res by (simp add: audio_execute_def)
  note eff = record_result_effect [OF res laws]
  have "case r of
      Inr _ \<Rightarrow> audio_job_whole E j fs fs' \<and> entry_set (pj_asset j) AudioProxy (pj_output j) (dr d) (dr d')
    | Inl e \<Rightarrow> d' = d \<and> (\<not> is_file_node (nodes fs' (path_key (pj_output j))) \<or> audio_job_whole E j fs fs')"
    using g(2) eff by (cases r; cases g) auto
  moreover have "calm (env_flag E) rep q \<and> env_faults E = [] \<and>
      audio_ready (env_wav E) (env_flac E) (env_samples E) (pj_path j) (pj_output j) (pj_profile j) fs \<longrightarrow> audio_job_whole E j fs fs'"
    using g(2,3) eff(1) by auto
  ultimately show ?thesis using run by blast
qed

text \<open>A video job: the whole video, registered; or no file; or only the entry failed.\<close>

definition video_job_whole :: "('s, 'm, 'h, 't, 'd, 'e, 'p) job_env \<Rightarrow> proxy_job \<Rightarrow> file_system \<Rightarrow> file_system \<Rightarrow> bool" where
  "video_job_whole E j = whole_video (env_kinetix E) (env_decoder E) (env_decode E) (env_images E) (pj_path j) (pj_output j) (pj_profile j)"

definition video_job_ready :: "('s, 'm, 'h, 't, 'd, 'e, 'p) job_env \<Rightarrow> proxy_job \<Rightarrow> file_system \<Rightarrow> bool" where
  "video_job_ready E j = video_ready (env_kinetix E) (env_decoder E) (env_decode E) (env_images E) (env_encoder E) (env_encode E)
     (pj_path j) (pj_output j) (pj_profile j)"

lemma video_job_effect:
  assumes proxy: "finite_source (env_kinetix E) (env_decoder E) (pj_path j) fs" "lossless_codec (env_encode E) (env_decode E)"
      "fails fs ReadCall (path_key (pj_output j)) = None" "fails fs RemoveFileCall (path_key (pj_output j)) = None"
    and laws: "redb_laws R dr wr rr" "storable_str (to_string_lossy (pj_output j))"
  shows "\<exists>r fs' d' q'. job_execute E R rep (VideoProxyJob j) fs d q = Some (r, fs', d', q') \<and>
    (case r of
       Inr _ \<Rightarrow> video_job_whole E j fs fs' \<and> entry_set (pj_asset j) VideoProxy (pj_output j) (dr d) (dr d')
     | Inl e \<Rightarrow> d' = d \<and> (\<not> is_file_node (nodes fs' (path_key (pj_output j))) \<or> video_job_whole E j fs fs')) \<and>
    (calm (env_flag E) rep q \<and> env_faults E = [] \<and> video_job_ready E j fs \<longrightarrow> video_job_whole E j fs fs')"
proof -
  have rate: "\<forall>s. open_video (env_kinetix E) (env_decoder E) (pj_path j) fs = (Inr s, fs) \<longrightarrow> f64_is_finite (frame_rate (source_info s))"
    using finite_source_rate [OF proxy(1)] by blast
  obtain g fs3 q3 where g: "generate_video_proxy (env_flag E) (env_kinetix E) (env_decoder E) (env_decode E) (env_images E)
      (env_encoder E) (env_encode E) rep (env_faults E) (pj_path j) (pj_output j) (pj_profile j) fs q = Some (g, fs3, q3)"
    "case g of Inl _ \<Rightarrow> \<not> is_file_node (nodes fs3 (path_key (pj_output j))) | Inr _ \<Rightarrow> video_job_whole E j fs fs3"
    "calm (env_flag E) rep q \<and> env_faults E = [] \<and> video_job_ready E j fs \<longrightarrow> g = Inr ()"
    using generate_video_proxy_leaves [OF finite_source_ends [OF proxy(1)] proxy(2-4) rate,
        of "env_flag E" "env_images E" "env_encoder E" rep "env_faults E" "pj_profile j" q]
    unfolding video_job_whole_def video_job_ready_def by blast
  obtain r fs' d' q' where res: "record_result R (pj_asset j) VideoProxy (pj_output j) g fs3 d q3 = (r, fs', d', q')"
    by (metis prod.collapse)
  have run: "job_execute E R rep (VideoProxyJob j) fs d q = Some (r, fs', d', q')"
    using g(1) res by (simp add: video_execute_def)
  note eff = record_result_effect [OF res laws]
  have "case r of
      Inr _ \<Rightarrow> video_job_whole E j fs fs' \<and> entry_set (pj_asset j) VideoProxy (pj_output j) (dr d) (dr d')
    | Inl e \<Rightarrow> d' = d \<and> (\<not> is_file_node (nodes fs' (path_key (pj_output j))) \<or> video_job_whole E j fs fs')"
    using g(2) eff by (cases r; cases g) auto
  moreover have "calm (env_flag E) rep q \<and> env_faults E = [] \<and> video_job_ready E j fs \<longrightarrow> video_job_whole E j fs fs'"
    using g(2,3) eff(1) by auto
  ultimately show ?thesis using run by blast
qed

end
