(* ===== verification/ThumbnailTimes.thy ===== *)
theory ThumbnailTimes
  imports Rounding ThumbnailFiles
begin

text \<open>
  The times of thumbnails (\<open>tpt-av-asset-cache/src/thumbnail.rs\<close>): the generator multiplies an index by the interval, and
  the cache divides the time by the interval and rounds to get the index of the file.  Both operations round; that the
  index comes back is a fact about doubles.
\<close>

subsection \<open>Rounding, on both sides\<close>

lemma round_half_even_ge:
  assumes "0 < q"
  shows "2 * p \<le> 2 * (q * round_half_even p q) + q"
proof -
  have p: "p = q * (p div q) + p mod q" by simp
  have "p mod q < q" using assms by simp
  have "round_half_even p q = p div q \<and> 2 * (p mod q) \<le> q \<or> round_half_even p q = Suc (p div q)"
    by (simp add: round_half_even_def Let_def)
  then consider (down) "round_half_even p q = p div q" "2 * (p mod q) \<le> q" | (up) "round_half_even p q = Suc (p div q)"
    by blast
  then show ?thesis
  proof cases
    case down
    then show ?thesis unfolding down(1) using p by linarith
  next
    case up
    have "q * Suc (p div q) = q * (p div q) + q" by simp
    then show ?thesis unfolding up using p \<open>p mod q < q\<close> by linarith
  qed
qed

text \<open>A quotient that is not subnormal, or is a whole number of the smallest subnormals, is rounded by half a unit in the
  last place.\<close>

lemma fp_round_near:
  assumes "0 < q" "q dvd p \<or> 2 ^ mb * q \<le> p"
  defines "v \<equiv> fp_scaled mb (fp_round_mag mb p q)"
  shows "2 ^ Suc mb * (q * v) \<le> 2 ^ Suc mb * p + p" "2 ^ Suc mb * p \<le> 2 ^ Suc mb * (q * v) + p"
proof -
  define k where "k = bit_length (p div q) - Suc mb"
  let ?r = "round_half_even p (q * 2 ^ k)"
  have v: "v = ?r * 2 ^ k" unfolding v_def by (rule fp_scaled_round [OF assms(1) k_def])
  have pos: "0 < q * 2 ^ k" using assms(1) by simp
  have near: "2 * (q * v) \<le> 2 * p + q * 2 ^ k" "2 * p \<le> 2 * (q * v) + q * 2 ^ k"
    using round_half_even_le [OF pos, of p] round_half_even_ge [OF pos, of p] by (simp_all add: v algebra_simps)
  have "2 ^ mb * (q * 2 ^ k) \<le> p \<or> q * v = p"
  proof (cases "k = 0")
    case False
    then have "p div q \<noteq> 0" by (metis k_def bit_length_0 diff_0_eq_0)
    then have "2 ^ (bit_length (p div q) - 1) \<le> p div q" using bit_length_bounds by blast
    moreover have "bit_length (p div q) - 1 = mb + k" using False by (simp add: k_def)
    ultimately have "2 ^ (mb + k) * q \<le> p div q * q" by simp
    also have "\<dots> \<le> p" by simp
    finally show ?thesis by (simp add: power_add algebra_simps)
  next
    case True
    show ?thesis
    proof (cases "q dvd p")
      case True
      then obtain c where c: "p = c * q" by (metis dvd_def mult.commute)
      have "v = c" using \<open>k = 0\<close> round_half_even_exact [OF assms(1), of c] by (simp add: v c)
      then show ?thesis by (simp add: c)
    qed (use assms(2) \<open>k = 0\<close> in simp)
  qed
  then consider (near) "2 ^ mb * (q * 2 ^ k) \<le> p" | (exact) "q * v = p" by blast
  note cases = this
  have "2 ^ mb * (2 * (q * v)) \<le> 2 ^ mb * (2 * p + q * 2 ^ k)" using near(1) by (rule mult_le_mono2)
  then show "2 ^ Suc mb * (q * v) \<le> 2 ^ Suc mb * p + p" by (cases rule: cases) (simp_all add: algebra_simps)
  have "2 ^ mb * (2 * p) \<le> 2 ^ mb * (2 * (q * v) + q * 2 ^ k)" using near(2) by (rule mult_le_mono2)
  then show "2 ^ Suc mb * p \<le> 2 ^ Suc mb * (q * v) + p" by (cases rule: cases) (simp_all add: algebra_simps)
qed

lemma f64_pack_value:
  assumes "f64_is_finite (f64_pack neg p q)"
  shows "f64_value (f64_pack neg p q) = fp_scaled 52 (fp_round_mag 52 p q)" "f64_neg (f64_pack neg p q) = neg"
proof -
  have "min f64_inf (fp_round_mag 52 p q) < 2 ^ 63" using f64_inf_less by (simp add: min_less_iff_disj)
  note parts = f64_mag_make [OF this, of neg] f64_neg_make [OF this, of neg]
  with assms have "fp_round_mag 52 p q < f64_inf" by (simp add: f64_is_finite_def f64_pack_def)
  with parts show "f64_value (f64_pack neg p q) = fp_scaled 52 (fp_round_mag 52 p q)" "f64_neg (f64_pack neg p q) = neg"
    by (simp_all add: f64_value_def f64_pack_def)
qed

lemma f64_value_0: "f64_value x = 0 \<longleftrightarrow> f64_mag x = 0"
  by (auto simp: f64_value_def fp_scaled_def)

subsection \<open>An index comes back from its time\<close>

text \<open>A positive interval, and the double of a whole number times it.\<close>

lemma time_near:
  assumes "f64_is_finite x" "\<not> f64_neg x" "i < 2 ^ 53" "f64_is_finite (f64_mul (f64_of_nat i) x)"
  defines "t \<equiv> f64_mul (f64_of_nat i) x"
  shows "2 ^ 53 * f64_value t \<le> 2 ^ 53 * (i * f64_value x) + i * f64_value x" "\<not> f64_neg t"
    "2 ^ 53 * (i * f64_value x) \<le> 2 ^ 53 * f64_value t + i * f64_value x"
proof -
  let ?p = "i * f64_unit * f64_value x"
  note i = f64_of_nat_value [OF assms(3)]
  have t: "t = f64_pack False ?p f64_unit"
    using i f64_finite_facts [OF i(2)] f64_finite_facts [OF assms(1)] assms(2) by (simp add: t_def f64_mul_def Let_def f64_value_def)
  note val = f64_pack_value [OF assms(4) [folded t_def, unfolded t]]
  show "\<not> f64_neg t" unfolding t using val(2) by simp
  have "f64_unit dvd ?p" by simp
  note near = fp_round_near [OF f64_unit_pos disjI1 [OF this], of 52, folded val(1), folded t]
  have "f64_unit * (2 ^ 53 * f64_value t) \<le> f64_unit * (2 ^ 53 * (i * f64_value x) + i * f64_value x)"
    "f64_unit * (2 ^ 53 * (i * f64_value x)) \<le> f64_unit * (2 ^ 53 * f64_value t + i * f64_value x)"
    using near by (simp_all add: algebra_simps)
  then show "2 ^ 53 * f64_value t \<le> 2 ^ 53 * (i * f64_value x) + i * f64_value x"
    "2 ^ 53 * (i * f64_value x) \<le> 2 ^ 53 * f64_value t + i * f64_value x"
    using f64_unit_pos by (simp_all only: mult_le_cancel1)
qed

lemma near_whole:
  fixes m d u :: nat
  assumes "2 ^ 106 * m \<le> 2 ^ 106 * d + (2 ^ 54 + 1) * m" "2 ^ 106 * d \<le> (2 ^ 53 + 1) * (2 ^ 53 + 1) * m" "m \<le> 2 ^ 50 * u" "0 < u"
  shows "2 * m \<le> 2 * d + u" "2 * d < 2 * m + u"
  using assms by simp_all

lemma index_bounds:
  fixes v d t u i :: nat
  assumes "2 ^ 53 * t \<le> 2 ^ 53 * (i * v) + i * v" "2 ^ 53 * (i * v) \<le> 2 ^ 53 * t + i * v"
    "2 ^ 53 * (v * d) \<le> 2 ^ 53 * (t * u) + t * u" "2 ^ 53 * (t * u) \<le> 2 ^ 53 * (v * d) + t * u"
    "i < 2 ^ 50" "0 < v" "0 < u"
  shows "(2 * d + u) div (2 * u) = i"
proof -
  have "2 ^ 53 * (2 ^ 53 * (v * d)) \<le> (2 ^ 53 + 1) * u * (2 ^ 53 * t)" using mult_le_mono2 [OF assms(3), of "2 ^ 53"] by (simp add: algebra_simps)
  also have "\<dots> \<le> (2 ^ 53 + 1) * u * ((2 ^ 53 + 1) * (i * v))" using assms(1) by (intro mult_le_mono2) simp
  finally have "v * (2 ^ 106 * d) \<le> v * ((2 ^ 53 + 1) * (2 ^ 53 + 1) * (i * u))" by (simp add: algebra_simps)
  then have up: "2 ^ 106 * d \<le> (2 ^ 53 + 1) * (2 ^ 53 + 1) * (i * u)" using assms(6) by (simp only: mult_le_cancel1)
  define a b e where "a = i * v * u" and "b = t * u" and "e = v * d"
  have "2 ^ 53 * (i * v) * u \<le> (2 ^ 53 * t + i * v) * u" by (rule mult_le_mono1 [OF assms(2)])
  moreover have "2 ^ 53 * t * u \<le> (2 ^ 53 * (i * v) + i * v) * u" by (rule mult_le_mono1 [OF assms(1)])
  ultimately have "2 ^ 53 * a \<le> 2 ^ 53 * b + a" "2 ^ 53 * b \<le> 2 ^ 53 * a + a" "2 ^ 53 * b \<le> 2 ^ 53 * e + b"
    using assms(4) by (simp_all only: a_def b_def e_def add_mult_distrib mult.assoc)
  then have "2 ^ 106 * a \<le> 2 ^ 106 * e + (2 ^ 54 + 1) * a" by simp
  then have "v * (2 ^ 106 * (i * u)) \<le> v * (2 ^ 106 * d + (2 ^ 54 + 1) * (i * u))"
    by (simp only: a_def e_def add_mult_distrib2 mult_ac)
  then have lo: "2 ^ 106 * (i * u) \<le> 2 ^ 106 * d + (2 ^ 54 + 1) * (i * u)" using assms(6) by (simp only: mult_le_cancel1)
  have "i * u \<le> 2 ^ 50 * u" using assms(5) by (intro mult_le_mono1) simp
  from near_whole [OF lo up this assms(7)] have "2 * (i * u) \<le> 2 * d + u" "2 * d < 2 * (i * u) + u" .
  then show ?thesis using assms(7) by (intro div_nat_eqI) (simp_all add: algebra_simps)
qed

lemma half_bound: "v \<le> m \<Longrightarrow> 2 ^ 53 * m \<le> 2 ^ 53 * t + m \<Longrightarrow> v \<le> 2 * (t :: nat)"
  by simp

lemma multiple_bound: "m \<le> 2 ^ 50 * v \<Longrightarrow> 2 ^ 53 * t \<le> 2 ^ 53 * m + m \<Longrightarrow> t \<le> 2 ^ 53 * (v :: nat)"
  by simp

lemma index_comes_back:
  assumes "f64_is_finite x" "f64_lt f64_zero x" "i < 2 ^ 50" "f64_is_finite (f64_mul (f64_of_nat i) x)"
  shows "f64_to_u64 (f64_round (f64_div (f64_max (f64_mul (f64_of_nat i) x) f64_zero) x)) = of_nat i"
proof -
  let ?t = "f64_mul (f64_of_nat i) x"
  have x: "\<not> f64_neg x" "f64_mag x \<noteq> 0" using assms(2) by (auto simp: f64_lt_def f64_key_def split: if_splits)
  have v: "0 < f64_value x" using x(2) f64_value_0 [of x] by simp
  have i: "i < 2 ^ 53" using assms(3) by simp
  note t = time_near [OF assms(1) x(1) i assms(4)]
  have max: "f64_max ?t f64_zero = ?t"
    using t(2) f64_finite_facts [OF assms(4)] by (simp add: f64_max_def f64_lt_def f64_key_def)
  let ?p = "f64_value ?t * f64_unit" and ?q = "f64_value x"
  have quot: "f64_div ?t x = f64_pack False ?p ?q"
    using f64_finite_facts [OF assms(1)] f64_finite_facts [OF assms(4)] x t(2) by (simp add: f64_div_def Let_def f64_value_def)
  have "i * f64_value x \<le> 2 ^ 50 * f64_value x" using assms(3) by (intro mult_le_mono1) simp
  then have "f64_value ?t \<le> 2 ^ 53 * f64_value x" by (rule multiple_bound) (rule t(1))
  then have "?p \<le> 2 ^ 53 * f64_value x * f64_unit" by (rule mult_le_mono1)
  also have "\<dots> = 2 ^ 53 * f64_unit * f64_value x" by (simp only: mult_ac)
  also have "\<dots> \<le> 2 ^ 1990 * ?q" using f64_unit_bounds(2) by (rule mult_le_mono1)
  finally have "?p \<le> 2 ^ 1990 * ?q" .
  note fin = f64_pack_finite [OF v this, of False]
  have "?q dvd ?p \<or> 2 ^ 52 * ?q \<le> ?p"
  proof (cases "i = 0")
    case True
    with t(1) show ?thesis by simp
  next
    case False
    then have "f64_value x \<le> i * f64_value x" by simp
    then have "f64_value x \<le> 2 * f64_value ?t" by (rule half_bound) (rule t(3))
    then have "2 ^ 52 * ?q \<le> 2 ^ 53 * f64_value ?t" by simp
    also have "\<dots> \<le> f64_unit * f64_value ?t" using f64_unit_bounds(1) by (intro mult_le_mono1) simp
    finally show ?thesis by (simp add: mult.commute)
  qed
  note near = fp_round_near [OF v this, folded f64_pack_value(1) [OF fin(1)]]
  have idx: "(2 * f64_value (f64_pack False ?p ?q) + f64_unit) div (2 * f64_unit) = i"
    by (rule index_bounds [OF t(1,3) _ _ assms(3) v f64_unit_pos]) (use near in simp_all)
  then have "f64_to_u64 (f64_round (f64_pack False ?p ?q)) = of_nat i"
    using f64_round_u64 [OF fin(1)] fin(2) i by simp
  then show ?thesis by (simp only: max quot)
qed

end
