(* ===== verification/ThumbnailJobs.thy ===== *)
theory ThumbnailJobs
  imports ThumbnailTimes JobEffects
begin

text \<open>
  What a thumbnail job leaves (\<open>ThumbnailGenerator\<close> in \<open>tpt-av-asset-cache/src/thumbnail.rs\<close> and
  \<open>tpt-av-asset-pipeline/src/jobs.rs\<close>): a file for every index, which is found again at its time.
\<close>

subsection \<open>Sources that end\<close>

text \<open>Wherever a demuxer stands, it runs out of packets.\<close>

definition ends_anywhere :: "('m, 'h, 't) kinetix \<Rightarrow> bool" where
  "ends_anywhere k \<longleftrightarrow> (\<forall>m. \<exists>n. packets_end k n m)"

lemma source_next_frame_returns:
  assumes "ends_anywhere k"
  obtains r src' where "source_next_frame k decode src = Some (r, src')"
proof (cases src)
  case (ProxyStream s)
  then show ?thesis using that by (cases "stream_next_frame decode s") simp
next
  case (Mp4H264 s)
  obtain m where "packets_end k m (mp4_demuxer s)" using assms unfolding ends_anywhere_def by blast
  then have "frames_left k (m + length (mp4_buffered s)) s" unfolding frames_left_def by blast
  then obtain r s' where "mp4_next_frame k s = Some (r, s')" using mp4_next_frame_returns by blast
  with Mp4H264 that show ?thesis by simp
qed

lemma thumbnails_loop_returns:
  assumes "ends_anywhere k"
  shows "\<exists>y. thumbnails_loop env k decode img rep g c tot i n src fs p = Some y"
proof (induction n arbitrary: i src fs p)
  case (Suc n)
  obtain r src' where next_: "source_next_frame k decode (source_seek_to k (f64_mul (f64_of_nat i) (thumb_gen_interval g)) src) = Some (r, src')"
    using source_next_frame_returns [OF assms] by blast
  show ?case using Suc.IH next_ by (auto simp: Let_def split: sum.splits option.splits prod.splits)
qed simp

subsection \<open>What the loop stores\<close>

text \<open>The source before the turn of an index, and the frame that the turn takes from it.\<close>

fun source_at :: "('m, 'h, 't) kinetix \<Rightarrow> 'd decode_fn \<Rightarrow> f64 \<Rightarrow> ('d, 'm, 'h) video_source \<Rightarrow> nat \<Rightarrow> ('d, 'm, 'h) video_source option" where
  "source_at k decode interval src 0 = Some src"
| "source_at k decode interval src (Suc i) =
     Option.bind (source_at k decode interval src i) (\<lambda>src.
       map_option snd (source_next_frame k decode (source_seek_to k (f64_mul (f64_of_nat i) interval) src)))"

definition turn_frame :: "('m, 'h, 't) kinetix \<Rightarrow> 'd decode_fn \<Rightarrow> f64 \<Rightarrow> ('d, 'm, 'h) video_source \<Rightarrow> nat \<Rightarrow> rgba_frame \<Rightarrow> bool" where
  "turn_frame k decode interval src i frame \<longleftrightarrow>
     (\<exists>src1 src2. source_at k decode interval src i = Some src1 \<and>
        source_next_frame k decode (source_seek_to k (f64_mul (f64_of_nat i) interval) src1) = Some (Inr (Some frame), src2))"

text \<open>The JPEG of a frame, resized.\<close>

definition thumbnail_image :: "image_lib \<Rightarrow> u32 \<times> u32 \<Rightarrow> rgba_frame \<Rightarrow> bytes \<Rightarrow> bool" where
  "thumbnail_image img res frame jpeg \<longleftrightarrow>
     image_from_raw img (frame_width frame) (frame_height frame) (frame_data frame) \<and>
     jpeg_encode img (fst res) (snd res)
       (image_resize img (frame_width frame) (frame_height frame) (frame_data frame) (fst res) (snd res)) = Inr jpeg"

text \<open>The JPEG was made in a turn below \<open>n\<close> whose time has this index.\<close>

definition made_in_turn :: "('m, 'h, 't) kinetix \<Rightarrow> 'd decode_fn \<Rightarrow> image_lib \<Rightarrow> ('d, 'm, 'h) video_source \<Rightarrow> thumbnail_cache \<Rightarrow> nat \<Rightarrow> u64 \<Rightarrow> bytes \<Rightarrow> bool" where
  "made_in_turn k decode img src c n i jpeg \<longleftrightarrow>
     (\<exists>j < n. \<exists>frame. index_for_time c (f64_mul (f64_of_nat j) (thumb_interval c)) = i \<and>
        turn_frame k decode (thumb_interval c) src j frame \<and> thumbnail_image img (thumb_resolution c) frame jpeg)"

text \<open>The file of an index that holds a JPEG as wanted.\<close>

definition index_stored :: "(u64 \<Rightarrow> bytes \<Rightarrow> bool) \<Rightarrow> thumbnail_cache \<Rightarrow> file_system \<Rightarrow> u64 \<Rightarrow> bool" where
  "index_stored made c fs i \<longleftrightarrow> (\<exists>jpeg. nodes fs (path_key (file_for_index (thumb_dir c) i)) = Some (FileNode jpeg) \<and> made i jpeg)"

definition meta_stored :: "thumbnail_cache \<Rightarrow> file_system \<Rightarrow> bool" where
  "meta_stored c fs \<longleftrightarrow> nodes fs (path_key (path_join (thumb_dir c) ''meta'')) = Some (FileNode (meta_bytes c))"

text \<open>A run only adds thumbnails.\<close>

definition stores_more :: "(u64 \<Rightarrow> bytes \<Rightarrow> bool) \<Rightarrow> thumbnail_cache \<Rightarrow> file_system \<Rightarrow> file_system \<Rightarrow> bool" where
  "stores_more made c fs fs' \<longleftrightarrow> fails fs' = fails fs \<and> (meta_stored c fs \<longrightarrow> meta_stored c fs') \<and>
     (\<forall>i. index_stored made c fs i \<longrightarrow> index_stored made c fs' i)"

lemma stores_more_refl: "stores_more made c fs fs"
  by (simp add: stores_more_def)

lemma stores_more_trans: "stores_more made c a b \<Longrightarrow> stores_more made c b d \<Longrightarrow> stores_more made c a d"
  by (simp add: stores_more_def)

lemma write_meta_stored: "write_meta c fs = (Inr u, fs') \<Longrightarrow> meta_stored c fs'"
  by (auto simp: write_meta_def meta_stored_def then_try_eq_Inr dest: write_file_written)

lemma write_thumbnail_meta:
  assumes "write_thumbnail img c t fs = (Inr (), fs')" "meta_stored c fs"
  shows "meta_stored c fs'"
proof -
  let ?p = "file_for_index (thumb_dir c) (index_for_time c (thumb_time t))" and ?m = "path_join (thumb_dir c) ''meta''"
  obtain jpeg fs1 fs2 where run: "(case path_parent ?p of None \<Rightarrow> give () | Some parent \<Rightarrow> create_dir_all parent) fs = (Inr (), fs1)"
    "write_file ?p jpeg fs1 = (Inr (), fs2)" "(if \<not> fs_exists ?m fs2 then write_meta c fs2 else (Inr (), fs2)) = (Inr (), fs')"
    using assms(1) by (auto simp: write_thumbnail_def Let_def fail_def then_try_eq_Inr split: if_splits sum.splits)
  have one: "keeps_files {} fs fs1"
    using run(1) create_dir_all_keeps by (cases "path_parent ?p") (auto simp: give_def keeps_files_refl)
  have "meta_stored c fs2"
    using keeps_files_trans [OF one write_file_keeps [OF run(2)]] assms(2) file_keys_differ(2) [of "thumb_dir c"]
    unfolding keeps_files_def meta_stored_def by blast
  then show ?thesis using run(3) write_meta_stored by (auto split: if_splits)
qed

lemma write_thumbnail_stores:
  fixes frame :: rgba_frame
  assumes "write_thumbnail img c t fs = (Inr (), fs')"
    "image_from_raw img (frame_width frame) (frame_height frame) (frame_data frame)"
    "thumb_data t = image_resize img (frame_width frame) (frame_height frame) (frame_data frame) (fst (thumb_resolution c)) (snd (thumb_resolution c))"
    "thumb_width t = fst (thumb_resolution c)" "thumb_height t = snd (thumb_resolution c)"
    "\<And>jpeg. thumbnail_image img (thumb_resolution c) frame jpeg \<Longrightarrow> made (index_for_time c (thumb_time t)) jpeg"
  shows "index_stored made c fs' (index_for_time c (thumb_time t))" "stores_more made c fs fs'"
proof -
  let ?i = "index_for_time c (thumb_time t)"
  obtain jpeg where w: "jpeg_encode img (thumb_width t) (thumb_height t) (thumb_data t) = Inr jpeg"
    "nodes fs' (path_key (file_for_index (thumb_dir c) ?i)) = Some (FileNode jpeg)"
    "keeps_files {path_key (file_for_index (thumb_dir c) ?i), path_key (path_join (thumb_dir c) ''meta'')} fs fs'"
    by (rule write_thumbnail_file [OF assms(1)])
  have "made ?i jpeg" by (rule assms(6)) (use assms(2-5) w(1) in \<open>simp add: thumbnail_image_def\<close>)
  then show here: "index_stored made c fs' ?i" using w(2) unfolding index_stored_def by blast
  have "index_stored made c fs' j" if "index_stored made c fs j" for j
  proof (cases "j = ?i")
    case False
    then show ?thesis
      using that w(3) file_keys_differ [of "thumb_dir c"] unfolding keeps_files_def index_stored_def by (metis insertE singletonD)
  qed (use here in simp)
  then show "stores_more made c fs fs'"
    using w(3) write_thumbnail_meta [OF assms(1)] by (simp add: stores_more_def keeps_files_def)
qed

lemma thumbnails_loop_stores:
  assumes "thumbnails_loop env k decode img rep g c tot i n src fs p = Some (r, src', fs', p')" "thumb_gen_resolution g = thumb_resolution c"
    "thumb_gen_interval g = thumb_interval c" "source_at k decode (thumb_interval c) src0 i = Some src" "i + n \<le> all"
  defines "made \<equiv> made_in_turn k decode img src0 c all"
  shows "r = Inr () \<Longrightarrow> stores_more made c fs fs' \<and> (\<forall>j. i \<le> j \<and> j < i + n \<longrightarrow>
       index_stored made c fs' (index_for_time c (f64_mul (f64_of_nat j) (thumb_interval c))))"
  using assms(1,4,5)
proof (induction n arbitrary: i src fs p)
  case 0
  then show ?case by (auto simp: stores_more_refl)
next
  case (Suc n)
  let ?secs = "f64_mul (f64_of_nat i) (thumb_interval c)" and ?p = "env p"
  note done_ = Suc.prems(1) and body = Suc.prems(2) [simplified, unfolded assms(3)]
  obtain u where calm: "check_cancelled ?p = Inr u" using body done_ by (cases "check_cancelled ?p") (auto simp: Let_def)
  obtain y src1 where next_: "source_next_frame k decode (source_seek_to k ?secs src) = Some (y, src1)"
    using body calm by (auto simp: Let_def bind_eq_Some_conv)
  obtain frame where frame: "y = Inr (Some frame)" "image_from_raw img (frame_width frame) (frame_height frame) (frame_data frame)"
    using body calm next_ done_ by (auto simp: Let_def split: sum.splits option.splits if_splits prod.splits)
  let ?t = "\<lparr>thumb_time = ?secs,
      thumb_data = image_resize img (frame_width frame) (frame_height frame) (frame_data frame) (fst (thumb_resolution c)) (snd (thumb_resolution c)),
      thumb_width = fst (thumb_resolution c), thumb_height = snd (thumb_resolution c)\<rparr>"
  obtain fs1 where w: "write_thumbnail img c ?t fs = (Inr (), fs1)" and
    rest: "thumbnails_loop env k decode img rep g c tot (i + 1) n src1 fs1 (report_ratio rep (f64_of_nat (i + 1)) (f64_of_nat tot) ?p) = Some (r, src', fs', p')"
    using body calm next_ frame done_ assms(2) by (auto simp: Let_def split: sum.splits prod.splits)
  have made: "made (index_for_time c ?secs) jpeg" if "thumbnail_image img (thumb_resolution c) frame jpeg" for jpeg
    using that next_ frame(1) Suc.prems(3,4) unfolding made_def made_in_turn_def turn_frame_def by (intro exI [of _ i]) auto
  have one: "index_stored made c fs1 (index_for_time c ?secs)" "stores_more made c fs fs1"
    using write_thumbnail_stores [OF w frame(2), of made] made by simp_all
  have "source_at k decode (thumb_interval c) src0 (i + 1) = Some src1" using Suc.prems(3) next_ by simp
  from Suc.IH [OF done_ rest this] Suc.prems(4) have more: "stores_more made c fs1 fs'" and later: "\<forall>j. i + 1 \<le> j \<and> j < i + 1 + n \<longrightarrow>
      index_stored made c fs' (index_for_time c (f64_mul (f64_of_nat j) (thumb_interval c)))" by simp_all
  have "index_stored made c fs' (index_for_time c ?secs)" using one(1) more by (simp add: stores_more_def)
  with later have "\<forall>j. i \<le> j \<and> j < i + Suc n \<longrightarrow> index_stored made c fs' (index_for_time c (f64_mul (f64_of_nat j) (thumb_interval c)))"
    by (metis Suc_eq_plus1 add_Suc_right add_Suc le_neq_implies_less Suc_leI)
  then show ?case using stores_more_trans [OF one(2) more] by blast
qed

subsection \<open>The job\<close>

definition thumbnail_total :: "video_info \<Rightarrow> f64 \<Rightarrow> nat" where
  "thumbnail_total info interval = max 1 (unat (f64_to_u64 (f64_ceil (f64_div (video_duration_secs info) interval))))"

text \<open>A stored index is read at its time.\<close>

lemma index_stored_read:
  assumes "index_stored made c fs (of_nat i)" "readable fs" "f64_is_finite (thumb_interval c)" "f64_lt f64_zero (thumb_interval c)"
    "i < 2 ^ 50" "f64_is_finite (f64_mul (f64_of_nat i) (thumb_interval c))"
  obtains jpeg where "made (of_nat i) jpeg"
    "read_thumbnail img c (f64_mul (f64_of_nat i) (thumb_interval c)) fs = (decoded_thumbnail img c (of_nat i) jpeg, fs)"
proof -
  obtain jpeg where jpeg: "nodes fs (path_key (file_for_index (thumb_dir c) (of_nat i))) = Some (FileNode jpeg)"
    "made (of_nat i) jpeg" using assms(1) by (auto simp: index_stored_def)
  have "index_for_time c (f64_mul (f64_of_nat i) (thumb_interval c)) = of_nat i"
    unfolding index_for_time_def by (rule index_comes_back [OF assms(3-6)])
  moreover have "read_file (file_for_index (thumb_dir c) (of_nat i)) fs = (Inr jpeg, fs)"
    by (rule read_file_node [OF jpeg(1) readableD [OF assms(2) refl]])
  ultimately have "read_thumbnail img c (f64_mul (f64_of_nat i) (thumb_interval c)) fs = (decoded_thumbnail img c (of_nat i) jpeg, fs)"
    by (simp add: read_thumbnail_def thumbnail_load_file)
  with jpeg(2) show thesis by (rule that)
qed

lemma thumbnails_open_stored:
  assumes "thumbnails_create i st interval res fs = (Inr c, fs1)"
  shows "c = \<lparr>thumb_asset = i, thumb_dir = thumbnail_dir st i, thumb_interval = interval, thumb_resolution = res\<rparr>"
    "f64_is_finite interval" "f64_lt f64_zero interval" "meta_stored c fs1"
    "keeps_files {path_key (path_join (thumbnail_dir st i) ''meta'')} fs fs1"
    "meta_stored c fs' \<Longrightarrow> readable fs' \<Longrightarrow> thumbnails_open i st fs' = (Inr c, fs')"
proof -
  let ?d = "thumbnail_dir st i"
  let ?c = "\<lparr>thumb_asset = i, thumb_dir = ?d, thumb_interval = interval, thumb_resolution = res\<rparr>"
  obtain fs2 where run: "create_dir_all ?d fs = (Inr (), fs2)" "write_meta ?c fs2 = (Inr (), fs1)" "c = ?c"
    and valid: "f64_is_finite interval" "f64_lt f64_zero interval"
    using assms by (auto simp: thumbnails_create_def Let_def fail_def give_def then_try_eq_Inr split: if_splits)
  show c: "c = ?c" and "f64_is_finite interval" "f64_lt f64_zero interval" by (rule run valid)+
  show "meta_stored c fs1" using write_meta_stored [OF run(2)] run(3) by simp
  show "keeps_files {path_key (path_join ?d ''meta'')} fs fs1"
    using keeps_files_trans [OF create_dir_all_keeps [OF run(1)] write_meta_keeps [OF run(2)]] by simp
  assume stored: "meta_stored c fs'" "readable fs'"
  have "nodes fs' (path_key (path_join ?d ''meta'')) = Some (FileNode (meta_bytes ?c))" using stored(1) c by (simp add: meta_stored_def)
  from read_file_node [OF this readableD [OF stored(2) refl]]
  have "read_file (path_join ?d ''meta'') fs' = (Inr (meta_bytes ?c), fs')" .
  then show "thumbnails_open i st fs' = (Inr c, fs')" by (simp add: thumbnails_open_def meta_bytes_fields c from_to_le)
qed

text \<open>
  The cache opens, and every index below the number of thumbnails is read at its time: the frame that its own turn took from
  the source.  (Turns from \<open>2 ^ 50\<close> on, or at a time that is not finite, might have the same index.)
\<close>

definition thumbnails_complete :: "('s, 'm, 'h, 't, 'd, 'e, 'p) job_env \<Rightarrow> thumbnail_job \<Rightarrow> ('d, 'm, 'h) video_source \<Rightarrow> nat \<Rightarrow> file_system \<Rightarrow> bool" where
  "thumbnails_complete E j src n fs \<longleftrightarrow>
     (let time = (\<lambda>i. f64_mul (f64_of_nat i) (tj_interval j)); sound = (\<lambda>i. i < 2 ^ 50 \<and> f64_is_finite (time i)) in
      \<exists>c. thumbnails_open (tj_asset j) (tj_storage j) fs = (Inr c, fs) \<and>
        thumb_interval c = tj_interval j \<and> thumb_resolution c = tj_resolution j \<and>
        (\<forall>i < n. sound i \<longrightarrow>
           (\<exists>i' < n. \<exists>frame jpeg. (i' = i \<or> \<not> sound i') \<and> turn_frame (env_kinetix E) (env_decode E) (tj_interval j) src i' frame \<and>
              thumbnail_image (env_images E) (tj_resolution j) frame jpeg \<and>
              read_thumbnail (env_images E) c (time i) fs = (decoded_thumbnail (env_images E) c (of_nat i) jpeg, fs))))"

lemma thumbnail_job_effect:
  assumes ends: "ends_anywhere (env_kinetix E)" "readable fs"
    and laws: "redb_laws R dr wr rr" "storable_str (to_string_lossy (thumbnail_dir (tj_storage j) (tj_asset j)))"
  shows "\<exists>r fs' d' z'. job_execute E R rep (ThumbnailJob j) fs d z = Some (r, fs', d', z') \<and>
    (case r of
       Inl _ \<Rightarrow> d' = d
     | Inr _ \<Rightarrow> entry_set (tj_asset j) VideoThumbnails (thumbnail_dir (tj_storage j) (tj_asset j)) (dr d) (dr d') \<and>
         (\<exists>c fs1 src. thumbnails_create (tj_asset j) (tj_storage j) (tj_interval j) (tj_resolution j) fs = (Inr c, fs1) \<and>
            open_video (env_kinetix E) (env_decoder E) (tj_path j) fs1 = (Inr src, fs1) \<and>
            thumbnails_complete E j src (thumbnail_total (source_info src) (tj_interval j)) fs'))"
proof -
  let ?dir = "thumbnail_dir (tj_storage j) (tj_asset j)"
  let ?g = "\<lparr>thumb_gen_interval = tj_interval j, thumb_gen_resolution = tj_resolution j\<rparr>"
  obtain y fs1 where made: "thumbnails_create (tj_asset j) (tj_storage j) (tj_interval j) (tj_resolution j) fs = (y, fs1)"
    by (metis prod.collapse)
  show ?thesis
  proof (cases y)
    case (Inl e)
    with made show ?thesis by (simp add: thumbnail_execute_def)
  next
    case (Inr c)
    note cache = thumbnails_open_stored [OF made [unfolded Inr]]
    obtain v fs2 where opened: "open_video (env_kinetix E) (env_decoder E) (tj_path j) fs1 = (v, fs2)" by (metis prod.collapse)
    have same: "fs2 = fs1" by (rule open_video_keep [OF opened])
    show ?thesis
    proof (cases v)
      case (Inl e)
      with made Inr opened show ?thesis
        by (simp add: thumbnail_execute_def thumbnails_generate_def record_result_def)
    next
      case src: (Inr src)
      let ?n = "thumbnail_total (source_info src) (tj_interval j)"
      obtain g src' fs3 z3 where loop: "thumbnails_loop (env_flag E) (env_kinetix E) (env_decode E) (env_images E) rep ?g c ?n 0 ?n src fs1 z =
          Some (g, src', fs3, z3)"
        using thumbnails_loop_returns [OF ends(1)] by (metis prod.collapse)
      let ?z = "case g of Inl _ \<Rightarrow> z3 | Inr _ \<Rightarrow> report rep f64_one z3"
      obtain r fs' d' z' where res: "record_result R (tj_asset j) VideoThumbnails ?dir g fs3 d ?z = (r, fs', d', z')"
        by (metis prod.collapse)
      have run: "job_execute E R rep (ThumbnailJob j) fs d z = Some (r, fs', d', z')"
        using made Inr opened src same loop res
        by (simp add: thumbnail_execute_def thumbnails_generate_def generate_from_source_def thumbnail_total_def Let_def)
      note eff = record_result_effect [OF res laws]
      have "r = Inr () \<Longrightarrow> thumbnails_complete E j src ?n fs'"
      proof -
        assume "r = Inr ()"
        then have g: "g = Inr ()" and fs': "fs' = fs3" using eff by simp_all
        have fields: "thumb_interval c = tj_interval j" "thumb_resolution c = tj_resolution j" by (simp_all add: cache(1))
        let ?made = "made_in_turn (env_kinetix E) (env_decode E) (env_images E) src c ?n"
        note stored = thumbnails_loop_stores [OF loop, unfolded fields thumbnail_generator.select_convs, OF refl refl _ _ g, of src ?n, simplified]
        have more: "stores_more ?made c fs1 fs3" using stored by blast
        have "fails fs3 = fails fs" using more cache(5) by (simp add: stores_more_def keeps_files_def)
        then have readable: "readable fs3" unfolding readable_def using readableD [OF ends(2)] by blast
        have "meta_stored c fs3" using more cache(4) by (simp add: stores_more_def)
        note open_ = cache(6) [OF this readable]
        let ?time = "\<lambda>i. f64_mul (f64_of_nat i) (tj_interval j)"
        let ?sound = "\<lambda>i. i < 2 ^ 50 \<and> f64_is_finite (?time i)"
        have same_index: "index_for_time c (?time i) = of_nat i" if "?sound i" for i
          unfolding index_for_time_def fields(1) by (rule index_comes_back [OF cache(2,3)]) (use that in blast)+
        have "\<exists>i' < ?n. \<exists>frame jpeg. (i' = i \<or> \<not> ?sound i') \<and> turn_frame (env_kinetix E) (env_decode E) (tj_interval j) src i' frame \<and>
            thumbnail_image (env_images E) (tj_resolution j) frame jpeg \<and>
            read_thumbnail (env_images E) c (?time i) fs3 = (decoded_thumbnail (env_images E) c (of_nat i) jpeg, fs3)"
          if i: "i < ?n" "?sound i" for i
        proof -
          have "index_stored ?made c fs3 (of_nat i)" using stored i(1) same_index [OF i(2)] by fastforce
          then obtain jpeg where jpeg: "?made (of_nat i) jpeg"
            "read_thumbnail (env_images E) c (?time i) fs3 = (decoded_thumbnail (env_images E) c (of_nat i) jpeg, fs3)"
            using index_stored_read [OF _ readable, of ?made c i "env_images E", unfolded fields, OF _ cache(2,3)] i(2) by blast
          then obtain i' frame where i': "i' < ?n" "index_for_time c (?time i') = of_nat i"
            "turn_frame (env_kinetix E) (env_decode E) (tj_interval j) src i' frame" "thumbnail_image (env_images E) (tj_resolution j) frame jpeg"
            unfolding made_in_turn_def fields by blast
          have "i' = i" if "?sound i'"
          proof -
            have "(of_nat i' :: u64) = of_nat i" using same_index [OF that] i'(2) by simp
            then have "unat (of_nat i' :: u64) = unat (of_nat i :: u64)" by simp
            then show ?thesis using that i(2) by (simp add: unat_of_nat take_bit_eq_mod)
          qed
          with i' jpeg(2) show ?thesis by blast
        qed
        with open_ fields show ?thesis unfolding fs' thumbnails_complete_def Let_def by blast
      qed
      moreover have "r \<noteq> Inr () \<longrightarrow> d' = d" "r = Inr () \<longrightarrow> entry_set (tj_asset j) VideoThumbnails ?dir (dr d) (dr d')"
        using eff by blast+
      ultimately have "case r of Inl _ \<Rightarrow> d' = d
         | Inr _ \<Rightarrow> entry_set (tj_asset j) VideoThumbnails ?dir (dr d) (dr d') \<and> thumbnails_complete E j src ?n fs'"
        by (cases r) simp_all
      with run made Inr opened src same show ?thesis by (cases r) auto
    qed
  qed
qed

end
