(* ===== verification/SampleVideos.thy ===== *)
theory SampleVideos
  imports Samples JobEffects ThumbnailJobs
begin

text \<open>
  Concrete data for the witnesses of the video jobs: a proxy stream of one frame of two by two pixels, and an environment
  whose codec knows that frame.
\<close>

subsection \<open>Doubles\<close>

lemma div_one:
  assumes "f64_is_finite x" "\<not> f64_neg x"
  shows "f64_div x f64_one = x"
proof -
  have "fp_round_mag 52 (fp_scaled 52 (f64_mag x) * f64_unit) f64_unit = f64_mag x" by (rule fp_round_mag_exact) simp
  moreover have "fp_scaled 52 (f64_mag f64_one) = f64_unit" using f64_one_value by (simp only: f64_value_def)
  moreover have "\<not> f64_is_nan f64_one" "f64_mag f64_one \<noteq> f64_inf" "f64_mag f64_one \<noteq> 0" "\<not> f64_neg f64_one"
    by (simp_all add: f64_is_nan_def f64_inf_eq f64_mag_def f64_one_def f64_neg_def)
  ultimately have "f64_div x f64_one = f64_make False (min f64_inf (f64_mag x))"
    using assms f64_finite_facts [OF assms(1)] by (simp only: f64_div_def Let_def f64_pack_def if_False simp_thms)
  also have "\<dots> = x" using assms f64_make_parts [of x] by (simp add: f64_is_finite_def)
  finally show ?thesis .
qed

lemma small_naturals: "f64_of_nat 0 = f64_zero" "f64_of_nat 1 = f64_one"
proof -
  show "f64_of_nat 0 = f64_zero"
    by (simp add: f64_of_nat_def f64_pack_def fp_round_mag_def round_half_even_def f64_make_def f64_zero_def)
  have "1 * f64_unit = fp_scaled 52 (f64_mag f64_one) * 1" using f64_one_value by (simp only: f64_value_def)
  then have "fp_round_mag 52 (1 * f64_unit) 1 = f64_mag f64_one" by (simp only: fp_round_mag_exact zero_less_one)
  moreover have "f64_make False (min f64_inf (f64_mag f64_one)) = f64_one"
    by (simp add: f64_inf_eq f64_mag_def f64_one_def f64_make_def)
  ultimately show "f64_of_nat 1 = f64_one" by (simp only: f64_of_nat_def f64_pack_def)
qed

lemma whole_of_one: "f64_to_u64 (f64_ceil f64_one) = 1"
proof -
  have "f64_whole_up f64_one = 1"
  proof -
    have "f64_whole_up f64_one = (f64_unit + (f64_unit - 1)) div f64_unit"
      using f64_one_value by (simp only: f64_whole_up_def f64_value_def)
    also have "\<dots> = 1" using f64_unit_pos by (intro div_nat_eqI) simp_all
    finally show ?thesis .
  qed
  moreover have "\<not> f64_neg f64_one" by (simp add: f64_neg_def f64_one_def)
  ultimately have "f64_ceil f64_one = f64_of_nat 1"
    using one_valid(1) by (simp only: f64_ceil_def f64_integral_def f64_of_nat_def if_False simp_thms)
  then have ceil: "f64_ceil f64_one = f64_one" by (simp only: small_naturals)
  have "f64_whole_down f64_one = 1"
  proof -
    have "f64_whole_down f64_one = f64_unit div f64_unit"
      using f64_one_value by (simp only: f64_whole_down_def f64_value_def)
    then show ?thesis using f64_unit_pos by (metis div_self less_numeral_extra(3))
  qed
  then show ?thesis unfolding ceil f64_to_u64_def
    by (simp add: f64_is_nan_def f64_inf_eq f64_mag_def f64_one_def f64_neg_def)
qed

lemma max_of_one: "f64_max f64_one f64_1e_9 = f64_one"
  by (simp add: f64_max_def f64_is_nan_def f64_inf_eq f64_mag_def f64_one_def f64_neg_def f64_lt_def f64_key_def f64_1e_9_def)

lemma half_valid: "f64_is_finite f64_half" "\<not> f64_neg f64_half"
  by (simp_all add: f64_is_finite_def f64_inf_eq f64_mag_def f64_neg_def f64_half_def)

lemma add_not_less:
  assumes "f64_is_finite a" "\<not> f64_neg a" "f64_is_finite b" "\<not> f64_neg b"
  shows "\<not> f64_lt (f64_add a b) f64_zero"
proof -
  have less: "min f64_inf n < 2 ^ 63" for n using f64_inf_less by (simp add: min_less_iff_disj)
  have "\<not> f64_neg (f64_add a b)"
    using assms f64_finite_facts [OF assms(1)] f64_finite_facts [OF assms(3)] less f64_neg_make [of 0 False]
    by (simp add: f64_add_def f64_signed_def f64_pack_def Let_def)
  then show ?thesis by (simp add: f64_lt_def f64_key_def)
qed

subsection \<open>A stream of one frame\<close>

definition square :: bytes where "square = [0, 0, 0, 255, 0, 0, 0, 255, 0, 0, 0, 255, 0, 0, 0, 255]"

definition square_encode :: "unit encode_fn" where
  "square_encode seq planes e = (if planes = rgba_to_planes square 2 2 then (Inr [1, 2, 3], e) else (Inl ''size'', e))"

definition square_decode :: "unit decode_fn" where
  "square_decode seq bs d = (if bs = [1, 2, 3] then (Inr (rgba_to_planes square 2 2), d) else (Inl ''data'', d))"

lemma square_codec: "lossless_codec square_encode square_decode"
  by (simp add: lossless_codec_def square_encode_def square_decode_def)

definition square_header :: stream_header where
  "square_header = \<lparr>header_width = 2, header_height = 2, header_fps = f64_one, header_frames = 1\<rparr>"

definition square_bytes :: bytes where "square_bytes = header_bytes square_header @ frame_bytes [1, 2, 3]"

definition square_env :: "(f32 list, unit, unit, unit, unit, unit, 'p) job_env" where
  "square_env = \<lparr>env_flag = (\<lambda>q. q), env_wav = sample_opener, env_flac = sample_opener, env_samples = list_decode,
    env_kinetix = sample_kinetix, env_decoder = (), env_decode = square_decode, env_encoder = (), env_encode = square_encode,
    env_images = sample_images, env_faults = []\<rparr>"

lemma square_env_simps:
  "env_flag square_env = (\<lambda>q. q)" "env_kinetix square_env = sample_kinetix" "env_decoder square_env = ()"
  "env_decode square_env = square_decode" "env_encoder square_env = ()" "env_encode square_env = square_encode"
  "env_images square_env = sample_images" "env_faults square_env = []"
  by (simp_all add: square_env_def)

lemma opaque_square: "opaque square = square" "length square = 16"
proof -
  show "length square = 16" by (simp add: square_def)
  have "[0..<4] = [0, 1, 2, 3 :: nat]" by (simp add: upt_rec)
  then show "opaque square = square" by (simp add: opaque_def square_def)
qed

lemma square_payload: "list_all2 (payload_of square_decode square_header) [[1, 2, 3]] [square]"
  by (simp add: payload_of_def square_decode_def square_header_def opaque_square)

lemma square_valid: "valid_header square_header"
  using one_valid by (simp add: valid_header_def square_header_def)

text \<open>The frame of the stream, and the stream when it is opened.\<close>

definition square_frame :: rgba_frame where
  "square_frame = \<lparr>frame_index = 0, frame_time = f64_zero, frame_width = 2, frame_height = 2, frame_data = square\<rparr>"

lemma square_frame_at: "stream_frame square_header [square] 0 = square_frame"
proof -
  have "f64_div f64_zero f64_one = f64_zero" by (rule div_one) simp_all
  then show ?thesis by (simp add: stream_frame_def square_frame_def square_header_def max_of_one small_naturals opaque_square)
qed

lemma opened_video:
  assumes "proxy_stream_open d p fs = (Inr s, fs')"
  shows "width (stream_video s) = header_width (stream_header s)" "height (stream_video s) = header_height (stream_header s)"
    "frame_rate (stream_video s) = header_fps (stream_header s)"
    "video_duration_secs (stream_video s) = f64_div (f64_of_nat (length (stream_offsets s))) (f64_max (header_fps (stream_header s)) f64_1e_9)"
proof -
  obtain bs fs1 where bs: "read_file p fs = (Inr bs, fs1)" using assms by (auto simp: proxy_stream_open_def then_try_eq_Inr)
  obtain x f where x: "header_read (closed_file bs) = (x, f)" by fastforce
  obtain t g where t: "scan_frame_table (length bs) f = (t, g)" by fastforce
  show "width (stream_video s) = header_width (stream_header s)" "height (stream_video s) = header_height (stream_header s)"
    "frame_rate (stream_video s) = header_fps (stream_header s)"
    "video_duration_secs (stream_video s) = f64_div (f64_of_nat (length (stream_offsets s))) (f64_max (header_fps (stream_header s)) f64_1e_9)"
    using assms by (cases x; auto simp: proxy_stream_open_def then_try_def bs x t split: if_splits)+
qed

lemma square_open:
  assumes "read_file p fs = (Inr square_bytes, fs)"
  obtains s where "open_video k () p fs = (Inr (ProxyStream s), fs)" "streams square_decode [square] s" "stream_header s = square_header"
    "next_index s = 0" "seek_target s = None" "frame_count (stream_video s) = 1" "width (stream_video s) = 2"
    "height (stream_video s) = 2" "frame_rate (stream_video s) = f64_one" "video_duration_secs (stream_video s) = f64_one"
proof -
  have "read_file p fs = (Inr (header_bytes square_header @ concat (map frame_bytes [[1, 2, 3]])), fs)"
    using assms by (simp add: square_bytes_def)
  from proxy_stream_open_streams [OF this square_valid square_payload, of "()"] obtain s where
    s: "proxy_stream_open () p fs = (Inr s, fs)" "streams square_decode [square] s" "stream_header s = square_header"
      "next_index s = 0" "seek_target s = None" "frame_count (stream_video s) = 1" by auto
  have magic: "slice 0 7 (take 12 square_bytes) = CONTAINER_MAGIC" "7 \<le> length (take 12 square_bytes)"
    by (simp_all add: square_bytes_def header_bytes_def slice_def)
  then have "open_video k () p fs = (Inr (ProxyStream s), fs)"
    using assms s(1) by (simp add: open_video_def then_try_def Let_def)
  moreover note opened_video [OF s(1)]
  moreover have "length (stream_offsets s) = 1" using s(2) by (auto simp: streams_def Let_def dest: list_all2_lengthD)
  moreover have "f64_div f64_one f64_one = f64_one" by (rule div_one) simp_all
  ultimately show ?thesis
    using that [of s] s by (simp add: square_header_def max_of_one small_naturals [unfolded One_nat_def])
qed

lemma square_next:
  assumes "streams square_decode [square] s" "stream_header s = square_header" "next_index s = 0"
    "\<not> dropped square_header [square] (seek_target s) 0"
  obtains s1 s2 where "stream_next_frame square_decode s = (Inr (Some square_frame), s1)"
    "stream_next_frame square_decode s1 = (Inr None, s2)"
proof -
  from stream_next_frame_streams [OF assms(1)] assms(2-4) obtain s1 where
    s1: "stream_next_frame square_decode s = (Inr (Some square_frame), s1)" "streams square_decode [square] s1" "next_index s1 = 1"
    by (auto simp: square_frame_at)
  from stream_next_frame_streams [OF s1(2)] s1(3) obtain s2 where "stream_next_frame square_decode s1 = (Inr None, s2)" by auto
  with s1(1) show ?thesis by (rule that)
qed

text \<open>A quarter of a second is less than half a frame before the first frame of the stream.\<close>

definition quarter :: f64 where "quarter = 0x3FD0000000000000"

lemma quarter_value: "f64_is_finite quarter" "\<not> f64_neg quarter" "f64_value quarter * 4 = f64_unit" "f64_max quarter f64_zero = quarter"
proof -
  show "f64_is_finite quarter" "\<not> f64_neg quarter" by (simp_all add: f64_is_finite_def f64_inf_eq f64_mag_def f64_neg_def quarter_def)
  show "f64_value quarter * 4 = f64_unit" by (simp add: quarter_def f64_value_def fp_scaled_def f64_unit_def f64_mag_def)
  show "f64_max quarter f64_zero = quarter"
    by (simp add: f64_max_def f64_is_nan_def f64_inf_eq f64_mag_def f64_neg_def f64_lt_def f64_key_def f64_zero_def quarter_def)
qed

lemma quarter_rounds: "f64_to_u64 (f64_round (f64_mul quarter f64_one)) = 0"
proof -
  let ?v = "f64_value quarter"
  have "0 < ?v" using quarter_value(3) f64_unit_pos by (cases "?v") simp_all
  have "f64_whole_near quarter = (2 * ?v + ?v * 4) div (2 * (?v * 4))"
    by (simp only: f64_whole_near_def f64_value_def [symmetric] quarter_value(3))
  also have "\<dots> = 0" using \<open>0 < ?v\<close> by simp
  finally have "f64_round quarter = f64_zero"
    using quarter_value small_naturals(1) by (simp only: f64_round_def f64_integral_def f64_of_nat_def if_False simp_thms)
  moreover have "f64_to_u64 f64_zero = 0"
    by (simp add: f64_to_u64_def f64_is_nan_def f64_inf_eq f64_mag_def f64_neg_def f64_zero_def f64_whole_down_def fp_scaled_def)
  ultimately show ?thesis by (simp only: f64_mul_one [OF quarter_value(1)])
qed

lemma square_not_early: "\<not> before_target f64_one square_frame quarter" "f64_lt (frame_time square_frame) quarter"
proof -
  show "f64_lt (frame_time square_frame) quarter"
    by (simp add: square_frame_def f64_lt_def f64_key_def f64_is_nan_def f64_inf_eq f64_mag_def f64_neg_def f64_zero_def quarter_def)
  have half: "f64_div f64_half f64_one = f64_half" by (rule div_one [OF half_valid])
  let ?h = "fp_scaled 52 (f64_mag f64_half)"
  have pos: "0 < ?h"
  proof -
    have "fp_scaled 52 (f64_mag quarter) \<le> ?h" by (rule fp_scaled_mono) (simp add: f64_mag_def quarter_def f64_half_def)
    moreover have "0 < fp_scaled 52 (f64_mag quarter)" using quarter_value(3) f64_unit_pos by (metis f64_value_def mult_0 neq0_conv)
    ultimately show ?thesis by simp
  qed
  have round: "fp_round_mag 52 ?h 1 = f64_mag f64_half" using fp_round_mag_exact [of 1 52 "f64_mag f64_half"] by simp
  have zero: "f64_signed f64_zero = 0" "\<not> f64_is_nan f64_zero" "f64_mag f64_zero \<noteq> f64_inf"
    by (simp_all add: f64_signed_def f64_mag_def f64_neg_def f64_zero_def f64_is_nan_def f64_inf_eq fp_scaled_def)
  have "f64_signed f64_half = int ?h" using half_valid(2) by (simp only: f64_signed_def if_False)
  then have "f64_add f64_zero f64_half = f64_pack False ?h 1"
    using zero pos f64_finite_facts [OF half_valid(1)] by (simp add: f64_add_def Let_def del: One_nat_def)
  also have "\<dots> = f64_half"
    using half_valid round f64_make_parts [of f64_half] by (simp add: f64_pack_def f64_is_finite_def)
  finally have "f64_add f64_zero f64_half = f64_half" .
  moreover have "\<not> f64_lt f64_half quarter"
    by (simp add: f64_lt_def f64_key_def f64_is_nan_def f64_inf_eq f64_mag_def f64_neg_def f64_half_def quarter_def)
  ultimately show "\<not> before_target f64_one square_frame quarter"
    by (simp add: before_target_def square_frame_def max_of_one half)
qed

subsection \<open>The proxy of the stream\<close>

lemma size_two: "target_size pf 2 2 = (2, 2)"
proof -
  obtain v v' where t: "target_size pf 2 2 = (ucast (and (max v 2) (not 1) :: u64), ucast (and (max v' 2) (not 1) :: u64))"
    "unat v \<le> min (max 1 (unat (fst (resolution pf)))) (max 1 (unat (2 :: u32)))"
    "unat v' \<le> min (max 1 (unat (snd (resolution pf)))) (max 1 (unat (2 :: u32)))"
    using target_size_parts [of pf 2 2] by blast
  from even_size [OF t(2) u32_max_1(1)] even_size [OF t(3) u32_max_1(1)]
  have "unat (fst (target_size pf 2 2)) = unat (2 :: u32)" "unat (snd (target_size pf 2 2)) = unat (2 :: u32)"
    unfolding t(1) fst_conv snd_conv by simp_all
  then show ?thesis by (simp only: word_unat_eq_iff [symmetric] prod_eq_iff fst_conv snd_conv simp_thms)
qed

lemma square_writer:
  obtains w fs where "writer_create [] () ''p'' 2 2 f64_one (one_file ''s'' square_bytes) = (Inr w, fs)"
proof -
  obtain fs where w: "write_file ''p'' [] (one_file ''s'' square_bytes) = (Inr (), fs)"
    by (simp add: write_file_def fs_try_def path_key_p one_file_def no_files_def dirs_to_def set_nodes_def path_key_def
        is_absolute_def components_def)
  obtain wr where "writer_create [] () ''p'' 2 2 f64_one (one_file ''s'' square_bytes) = (Inr wr, fs)"
    by (simp add: writer_create_def path_key_p then_try_def give_def w buf_write_def buf_capacity_def Let_def)
  then show ?thesis by (rule that)
qed

definition square_job :: proxy_job where
  "square_job = \<lparr>pj_id = 1, pj_asset = asset_a, pj_path = ''s'', pj_output = ''p'', pj_profile = proxy_720p_medium\<rparr>"

lemma calm_reports:
  "report_ratio reporter_new a b (False, ()) = (False, ())" "report reporter_new a (False, ()) = (False, ())"
  by (simp_all add: report_ratio_def report_def report_event_def reporter_new_def reporter_default_def)

lemma square_proxy:
  assumes "calm (\<lambda>q. q) rep q"
  shows "\<exists>fs' q'. generate_video_proxy (\<lambda>q. q) sample_kinetix () square_decode sample_images () square_encode rep []
     ''s'' ''p'' proxy_720p_medium (one_file ''s'' square_bytes) q = Some (Inr (), fs', q')"
proof -
  let ?fs = "one_file ''s'' square_bytes"
  obtain s where s: "open_video sample_kinetix () ''s'' ?fs = (Inr (ProxyStream s), ?fs)" "streams square_decode [square] s"
    "stream_header s = square_header" "next_index s = 0" "seek_target s = None" "frame_count (stream_video s) = 1"
    "width (stream_video s) = 2" "height (stream_video s) = 2" "frame_rate (stream_video s) = f64_one"
    by (rule square_open [OF read_one_file])
  have valid: "profile_validate proxy_720p_medium = Inr ()" "profile_rate proxy_720p_medium = None"
    by (simp_all add: profile_validate_def proxy_720p_medium_def is_audio_only_def rbind_def VIDEO_CODEC_def)
  obtain w fs where w: "writer_create [] () ''p'' 2 2 f64_one ?fs = (Inr w, fs)" by (rule square_writer)
  let ?sink = "\<lparr>sink_writer = w, sink_target = (2, 2)\<rparr>"
  have sink: "sink_open [] () ''p'' proxy_720p_medium 2 2 f64_one ?fs = (Inr ?sink, fs)"
    by (simp add: sink_open_def valid size_two then_try_def give_def w)
  note new = writer_create_writes [OF w]
  have "unfailing (writer_file w)" using new(6) by (simp add: unfailing_def)
  then obtain w1 where w1: "write_frame square_encode square w = (Inr (), w1)" "unfailing (writer_file w1)"
    by (rule write_frame_runs [of w square square_encode "[1, 2, 3]" "()"]) (simp_all add: new(2) square_encode_def opaque_square)
  obtain w2 where w2: "writer_finish w1 = (Inr (), w2)" using writer_finish_runs [OF w1(2)] by blast
  have "\<not> dropped square_header [square] (seek_target s) 0" by (simp add: s(5) dropped_def)
  then obtain s1 s2 where frames: "stream_next_frame square_decode s = (Inr (Some square_frame), s1)"
    "stream_next_frame square_decode s1 = (Inr None, s2)" by (rule square_next [OF s(2-4)])
  have kept: "write_resized sample_images square_encode square_frame ?sink = (Inr (), ?sink\<lparr>sink_writer := w1\<rparr>)"
    using w1(1) by (simp add: write_resized_def sample_images_def square_frame_def opaque_square)
  let ?q = "report_ratio rep (f64_of_nat 1) (f64_of_nat 1) q"
  have calm: "check_cancelled q = Inr ()" "check_cancelled ?q = Inr ()"
    using calm_env [OF assms] calm_env [OF calm_report [OF assms]] by simp_all
  have "video_loop (\<lambda>q. q) sample_kinetix square_decode sample_images square_encode rep
      (keep_frame proxy_720p_medium f64_one f64_one) 1 0 0 (- 1) (ProxyStream s) ?sink q =
      Some (Inr (), ?sink\<lparr>sink_writer := w1\<rparr>, ?q)"
    by (subst video_loop.simps, subst video_loop.simps)
      (simp add: calm [unfolded One_nat_def] frames keep_frame_def valid kept)
  moreover have "f64_lt f64_zero f64_one" by (simp add: f64_lt_def)
  ultimately show ?thesis
    using s sink w2 by (simp add: generate_video_proxy_def video_proxy_def valid Let_def sink_finish_def)
qed

lemma square_job_runs:
  assumes "calm (\<lambda>q. q) rep q"
  shows "\<exists>fs' d' q'. job_execute square_env mem_redb rep (VideoProxyJob square_job) (one_file ''s'' square_bytes) mem_empty q =
     Some (Inr (), fs', d', q')"
  using square_proxy [OF assms] by (auto simp: video_execute_def square_env_simps square_job_def record_result_def mem_record_cache_entry)

text \<open>Nothing stands in the way of the job.\<close>

lemma square_ready: "video_job_ready (square_env :: (_, _, _, _, _, _, 'p) job_env) square_job (one_file ''s'' square_bytes)"
proof -
  let ?fs = "one_file ''s'' square_bytes"
  obtain s where s: "open_video sample_kinetix () ''s'' ?fs = (Inr (ProxyStream s), ?fs)" "streams square_decode [square] s"
    "stream_header s = square_header" "next_index s = 0" "seek_target s = None" "frame_count (stream_video s) = 1"
    "width (stream_video s) = 2" "height (stream_video s) = 2" "frame_rate (stream_video s) = f64_one"
    by (rule square_open [OF read_one_file])
  have "\<not> dropped square_header [square] (seek_target s) 0" by (simp add: s(5) dropped_def)
  then obtain s1 s2 where "stream_next_frame square_decode s = (Inr (Some square_frame), s1)"
    "stream_next_frame square_decode s1 = (Inr None, s2)" by (rule square_next [OF s(2-4)])
  then have frames: "source_frames (Suc (Suc 0)) sample_kinetix square_decode (ProxyStream s) = Some ([square_frame], None)" by simp
  have valid: "profile_validate proxy_720p_medium = Inr ()" "profile_rate proxy_720p_medium = None"
    by (simp_all add: profile_validate_def proxy_720p_medium_def is_audio_only_def rbind_def VIDEO_CODEC_def)
  have rate: "source_rate_of (ProxyStream s) = f64_one" "proxy_dims proxy_720p_medium (ProxyStream s) = (2, 2)"
    by (simp_all add: source_rate_of_def proxy_dims_def s(7-9) size_two f64_lt_def)
  have fits: "\<forall>f \<in> set [square_frame]. frame_fits sample_images square_encode (proxy_dims proxy_720p_medium (ProxyStream s)) f"
    unfolding rate(2) by (simp add: frame_fits_def resized_def sample_images_def square_frame_def opaque_square square_encode_def)
  obtain w fs where w: "writer_create [] () ''p'' 2 2 f64_one ?fs = (Inr w, fs)" by (rule square_writer)
  have "sink_open [] () ''p'' proxy_720p_medium 2 2 f64_one ?fs = (Inr \<lparr>sink_writer = w, sink_target = (2, 2)\<rparr>, fs)"
    by (simp add: sink_open_def valid size_two then_try_def give_def w)
  then have "sink_open [] () ''p'' proxy_720p_medium (width (source_info (ProxyStream s))) (height (source_info (ProxyStream s)))
      (source_rate_of (ProxyStream s)) ?fs = (Inr \<lparr>sink_writer = w, sink_target = (2, 2)\<rparr>, fs)" by (simp add: s(7,8) rate)
  with s(1) frames fits valid(1) show ?thesis
    unfolding video_job_ready_def video_ready_def square_env_simps square_job_def proxy_job.select_convs by blast
qed

text \<open>The whole video of the stream is its frame.\<close>

lemma square_whole:
  assumes "video_job_whole (square_env :: (_, _, _, _, _, _, 'p) job_env) square_job (one_file ''s'' square_bytes) fs'"
  shows "complete_stream square_decode () ''p'' (2, 2) f64_one [square] fs'"
proof -
  let ?fs = "one_file ''s'' square_bytes"
  obtain s where s: "open_video sample_kinetix () ''s'' ?fs = (Inr (ProxyStream s), ?fs)" "streams square_decode [square] s"
    "stream_header s = square_header" "next_index s = 0" "seek_target s = None" "frame_count (stream_video s) = 1"
    "width (stream_video s) = 2" "height (stream_video s) = 2" "frame_rate (stream_video s) = f64_one"
    by (rule square_open [OF read_one_file])
  have "\<not> dropped square_header [square] (seek_target s) 0" by (simp add: s(5) dropped_def)
  then obtain s1 s2 where "stream_next_frame square_decode s = (Inr (Some square_frame), s1)"
    "stream_next_frame square_decode s1 = (Inr None, s2)" by (rule square_next [OF s(2-4)])
  then have frames: "source_frames (Suc (Suc 0)) sample_kinetix square_decode (ProxyStream s) = Some ([square_frame], None)" by simp
  have none: "profile_rate proxy_720p_medium = None" by (simp add: proxy_720p_medium_def)
  have rate: "source_rate_of (ProxyStream s) = f64_one" "proxy_rate proxy_720p_medium (ProxyStream s) = f64_one"
    "proxy_dims proxy_720p_medium (ProxyStream s) = (2, 2)"
    by (simp_all add: source_rate_of_def proxy_rate_def proxy_dims_def none s(7-9) size_two f64_lt_def)
  obtain n fr where n: "source_frames n sample_kinetix square_decode (ProxyStream s) = Some (fr, None)"
    "complete_stream square_decode () ''p'' (2, 2) f64_one (map (resized sample_images (2, 2)) (resampled proxy_720p_medium f64_one f64_one fr)) fs'"
    using assms s(1) by (auto simp: video_job_whole_def whole_video_def square_env_simps square_job_def rate)
  have "fr = [square_frame]" using source_frames_unique [OF frames n(1)] by simp
  with n(2) show ?thesis by (simp add: resampled_def none resized_def sample_images_def square_frame_def opaque_square)
qed

subsection \<open>The thumbnails of the stream\<close>

definition square_thumbnails :: thumbnail_job where
  "square_thumbnails = \<lparr>tj_id = 1, tj_asset = asset_a, tj_path = ''s'', tj_interval = f64_one, tj_resolution = (2, 2), tj_storage = sample_store\<rparr>"

lemma sample_thumbnail_dir: "thumbnail_dir sample_store i = ''/c/thumbnails/'' @ asset_hash i"
  using name_digit_hash [of i] plain_name_hash [of "[]" i]
  by (cases "asset_hash i")
    (simp_all add: thumbnail_dir_def thumbnail_root_def sample_store_def storage_new_def path_join_def is_absolute_def
      name_digit_def plain_name_def)

lemma sample_thumbnail_text: "storable_str (to_string_lossy (thumbnail_dir sample_store i))"
proof -
  have "utf8_valid (''/c/thumbnails/'' @ asset_hash i)"
    unfolding asset_hash_def by (intro utf8_valid_append utf8_valid_hex) (simp_all add: utf8_valid_ascii)
  then show ?thesis by (simp add: sample_thumbnail_dir storable_str_def to_string_lossy_valid)
qed

text \<open>Calls on a disk without refusals, below directories that are there.\<close>

definition has_dir :: "string \<Rightarrow> file_system \<Rightarrow> bool" where
  "has_dir d fs \<longleftrightarrow> fails fs = (\<lambda>_ _. None) \<and> (\<forall>k \<in> set (dirs_to (path_key d)). nodes fs k = Some DirNode)"

lemma put_in_dir:
  assumes "has_dir d fs" "path_key p = (is_absolute d, components d @ [n])" "nodes fs (path_key p) \<noteq> Some DirNode"
  obtains fs' where "write_file p bs fs = (Inr (), fs')" "has_dir d fs'" "\<forall>q. path_key q \<noteq> path_key p \<longrightarrow> nodes fs' (path_key q) = nodes fs (path_key q)"
proof -
  have dirs: "butlast (dirs_to (path_key p)) = dirs_to (path_key d)"
    unfolding assms(2) butlast_dirs_to by (simp add: path_key_def)
  have new: "path_key p \<notin> set (dirs_to (path_key d))"
    unfolding assms(2) by (auto simp: dirs_to_def path_key_def dest: arg_cong [where f = length])
  let ?fs = "fs\<lparr>nodes := (nodes fs)(path_key p \<mapsto> FileNode bs)\<rparr>"
  have "write_file p bs fs = (Inr (), ?fs)"
    using assms(1,3) by (simp add: write_file_def fs_try_def set_nodes_def dirs list_ex_iff has_dir_def)
  moreover have "has_dir d ?fs" using assms(1) new by (auto simp: has_dir_def)
  ultimately show ?thesis by (rule that) simp
qed

lemma make_dir:
  assumes "fails fs = (\<lambda>_ _. None)" "\<forall>k \<in> set (dirs_to (path_key d)). \<not> is_file_node (nodes fs k)"
  obtains fs' where "create_dir_all d fs = (Inr (), fs')" "has_dir d fs'"
    "\<forall>k. k \<notin> set (dirs_to (path_key d)) \<longrightarrow> nodes fs' k = nodes fs k"
proof -
  let ?fs = "fs\<lparr>nodes := (\<lambda>k. if k \<in> set (dirs_to (path_key d)) then Some DirNode else nodes fs k)\<rparr>"
  have "create_dir_all d fs = (Inr (), ?fs)"
    using assms by (simp add: create_dir_all_def fs_try_def set_nodes_def list_ex_iff)
  then show ?thesis by (rule that) (use assms(1) in \<open>simp_all add: has_dir_def\<close>)
qed

lemma below_dir: "path_key p = (is_absolute d, components d @ [n]) \<Longrightarrow> path_key p \<notin> set (dirs_to (path_key d))"
  by (auto simp: dirs_to_def path_key_def dest: arg_cong [where f = length])

lemma create_succeeds:
  assumes "fails fs = (\<lambda>_ _. None)" "\<forall>k. nodes fs k \<noteq> None \<longrightarrow> k = path_key ''s''" "is_absolute (thumbnail_dir st i)"
    "f64_is_finite interval" "f64_lt f64_zero interval" "fst res \<noteq> 0" "snd res \<noteq> 0"
  obtains c fs1 where "thumbnails_create i st interval res fs = (Inr c, fs1)" "has_dir (thumbnail_dir st i) fs1"
    "nodes fs1 (path_key ''s'') = nodes fs (path_key ''s'')" "\<forall>j. nodes fs1 (path_key (file_for_index (thumbnail_dir st i) j)) = None"
    "c = \<lparr>thumb_asset = i, thumb_dir = thumbnail_dir st i, thumb_interval = interval, thumb_resolution = res\<rparr>"
    "nodes fs1 (path_key (path_join (thumbnail_dir st i) ''meta'')) \<noteq> None"
proof -
  let ?d = "thumbnail_dir st i"
  let ?m = "path_join ?d ''meta''"
  let ?c = "\<lparr>thumb_asset = i, thumb_dir = ?d, thumb_interval = interval, thumb_resolution = res\<rparr>"
  have "\<not> fst (path_key ''s'')" by (simp add: path_key_def is_absolute_def)
  then have alone: "k \<noteq> path_key ''s''" if "fst k" for k using that by blast
  have abs: "fst k" if "k \<in> set (dirs_to (path_key ?d))" for k using that assms(3) by (auto simp: dirs_to_def path_key_def)
  have none: "nodes fs k = None" if "fst k" for k using alone [OF that] assms(2) by blast
  obtain fs1 where one: "create_dir_all ?d fs = (Inr (), fs1)" "has_dir ?d fs1"
    "\<forall>k. k \<notin> set (dirs_to (path_key ?d)) \<longrightarrow> nodes fs1 k = nodes fs k"
    by (rule make_dir [OF assms(1), of ?d]) (use abs none in \<open>auto simp: is_file_node_def\<close>)
  have key: "path_key ?m = (is_absolute ?d, components ?d @ [''meta''])" by (rule meta_key)
  have m: "nodes fs1 (path_key ?m) = None"
  proof -
    have "fst (path_key ?m)" by (simp add: key assms(3))
    from none [OF this] show ?thesis by (simp only: one(3) [rule_format, OF below_dir [OF key]])
  qed
  obtain fs2 where two: "write_file ?m [] fs1 = (Inr (), fs2)" "has_dir ?d fs2"
    "\<forall>q. path_key q \<noteq> path_key ?m \<longrightarrow> nodes fs2 (path_key q) = nodes fs1 (path_key q)"
    by (rule put_in_dir [OF one(2) key, of "[]"]) (simp add: m)
  obtain fs3 where three: "write_file ?m (meta_bytes ?c) fs2 = (Inr (), fs3)" "has_dir ?d fs3"
    "\<forall>q. path_key q \<noteq> path_key ?m \<longrightarrow> nodes fs3 (path_key q) = nodes fs2 (path_key q)"
    by (rule put_in_dir [OF two(2) key, of "meta_bytes ?c"]) (simp add: write_file_written [OF two(1)])
  have "thumbnails_create i st interval res fs = (Inr ?c, fs3)"
    using one(1) two(1) three(1) assms(4-7) by (simp add: thumbnails_create_def write_meta_def then_try_def give_def Let_def)
  moreover have "nodes fs3 (path_key ''s'') = nodes fs (path_key ''s'')"
    using two(3) [rule_format, of "''s''"] three(3) [rule_format, of "''s''"] one(3) [rule_format, of "path_key ''s''"] abs alone key assms(3)
    by (metis fst_conv)
  moreover have "nodes fs3 (path_key (file_for_index ?d j)) = None" for j
  proof -
    have "nodes fs3 (path_key (file_for_index ?d j)) = nodes fs1 (path_key (file_for_index ?d j))"
      using two(3) three(3) file_keys_differ(2) [of ?d j] by metis
    also have "\<dots> = nodes fs (path_key (file_for_index ?d j))" by (rule one(3) [rule_format, OF below_dir [OF file_for_index_key]])
    also have "\<dots> = None" by (rule none) (simp add: file_for_index_key assms(3))
    finally show ?thesis .
  qed
  moreover have "nodes fs3 (path_key ?m) \<noteq> None" using write_file_written [OF three(1)] by simp
  ultimately show ?thesis using three(2) that by blast
qed

lemma write_succeeds:
  assumes "has_dir (thumb_dir c) fs" "is_absolute (thumb_dir c)"
    "nodes fs (path_key (file_for_index (thumb_dir c) (index_for_time c (thumb_time t)))) = None"
    "nodes fs (path_key (path_join (thumb_dir c) ''meta'')) \<noteq> None"
    "image_from_raw img (thumb_width t) (thumb_height t) (thumb_data t)" "jpeg_encode img (thumb_width t) (thumb_height t) (thumb_data t) = Inr jpeg"
  obtains fs' where "write_thumbnail img c t fs = (Inr (), fs')"
proof -
  let ?p = "file_for_index (thumb_dir c) (index_for_time c (thumb_time t))" and ?m = "path_join (thumb_dir c) ''meta''"
  note key = file_for_index_key [of "thumb_dir c" "index_for_time c (thumb_time t)"]
  have p: "is_absolute ?p" "components ?p = components (thumb_dir c) @ [index_text (index_for_time c (thumb_time t)) @ ''.jpg'']"
    using key assms(2) by (simp_all add: path_key_def)
  obtain q where q: "path_parent ?p = Some q" "path_key q = path_key (thumb_dir c)"
    by (rule parent_components [OF p]) (use assms(2) in \<open>simp add: path_key_def\<close>)
  have "fails fs = (\<lambda>_ _. None)" "\<forall>k \<in> set (dirs_to (path_key q)). \<not> is_file_node (nodes fs k)"
    using assms(1) by (auto simp: has_dir_def q(2) is_file_node_def)
  then obtain fs1 where one: "create_dir_all q fs = (Inr (), fs1)" "has_dir q fs1"
    "\<forall>k. k \<notin> set (dirs_to (path_key q)) \<longrightarrow> nodes fs1 k = nodes fs k" by (rule make_dir)
  have "has_dir (thumb_dir c) fs1" using one(2) by (simp add: has_dir_def q(2))
  moreover have "nodes fs1 (path_key ?p) \<noteq> Some DirNode"
    using one(3) [rule_format, of "path_key ?p"] below_dir [OF key] assms(3) by (simp add: q(2))
  ultimately obtain fs2 where two: "write_file ?p jpeg fs1 = (Inr (), fs2)" "has_dir (thumb_dir c) fs2"
    "\<forall>r. path_key r \<noteq> path_key ?p \<longrightarrow> nodes fs2 (path_key r) = nodes fs1 (path_key r)" by (rule put_in_dir [OF _ key])
  have "nodes fs2 (path_key ?m) = nodes fs (path_key ?m)"
    using two(3) [rule_format, OF file_keys_differ(2)] one(3) [rule_format, of "path_key ?m"] below_dir [OF meta_key] by (simp add: q(2))
  then have "fs_exists ?m fs2" using assms(4) two(2) by (simp add: fs_exists_def fs_node_def has_dir_def)
  with assms(5,6) q(1) one(1) two(1) have "write_thumbnail img c t fs = (Inr (), fs2)"
    by (simp add: write_thumbnail_def then_try_def Let_def)
  then show ?thesis by (rule that)
qed

lemma square_thumbnails_run:
  "\<exists>fs' d'. job_execute square_env mem_redb reporter_new (ThumbnailJob square_thumbnails) (one_file ''s'' square_bytes) mem_empty (False, ()) =
     Some (Inr (), fs', d', (False, ()))"
proof -
  let ?fs = "one_file ''s'' square_bytes" and ?d = "thumbnail_dir sample_store asset_a"
  let ?g = "\<lparr>thumb_gen_interval = f64_one, thumb_gen_resolution = (2, 2)\<rparr>"
  have abs: "is_absolute ?d" by (simp add: sample_thumbnail_dir is_absolute_def)
  have zero_lt: "f64_lt f64_zero f64_one" by (simp add: f64_lt_def)
  obtain c fs1 where made: "thumbnails_create asset_a sample_store f64_one (2, 2) ?fs = (Inr c, fs1)" "has_dir ?d fs1"
    "nodes fs1 (path_key ''s'') = nodes ?fs (path_key ''s'')" "\<forall>j. nodes fs1 (path_key (file_for_index ?d j)) = None"
    "c = \<lparr>thumb_asset = asset_a, thumb_dir = ?d, thumb_interval = f64_one, thumb_resolution = (2, 2)\<rparr>"
    "nodes fs1 (path_key (path_join ?d ''meta'')) \<noteq> None"
    by (rule create_succeeds [where fs = ?fs and st = sample_store and i = asset_a and interval = f64_one and res = "(2, 2)"])
      (use abs zero_lt in \<open>auto simp: one_file_def no_files_def split: if_splits\<close>)
  have "read_file ''s'' fs1 = (Inr square_bytes, fs1)"
    using made(2,3) by (intro read_file_node) (simp_all add: one_file_def has_dir_def)
  then obtain s where s: "open_video sample_kinetix () ''s'' fs1 = (Inr (ProxyStream s), fs1)" "streams square_decode [square] s"
    "stream_header s = square_header" "next_index s = 0" "seek_target s = None" "frame_count (stream_video s) = 1"
    "width (stream_video s) = 2" "height (stream_video s) = 2" "frame_rate (stream_video s) = f64_one"
    "video_duration_secs (stream_video s) = f64_one" by (rule square_open)
  have "f64_mul f64_zero f64_one = f64_zero" by (rule f64_mul_one) simp
  then have start: "f64_mul (f64_of_nat 0) f64_one = f64_zero" by (simp only: small_naturals)
  let ?s = "stream_seek_to f64_zero s"
  have zero: "f64_max f64_zero f64_zero = f64_zero" "f64_div f64_zero f64_one = f64_zero" "f64_mul f64_zero f64_one = f64_zero"
    by (simp_all add: f64_max_def div_one f64_mul_one)
  have "f64_to_u64 (f64_round (f64_div (f64_max (f64_mul (f64_of_nat 0) f64_one) f64_zero) f64_one)) = of_nat 0"
    by (rule index_comes_back) (simp_all add: zero_lt start)
  then have index: "f64_to_u64 (f64_round f64_zero) = 0" by (simp only: start zero semiring_1_class.of_nat_0)
  have seek: "streams square_decode [square] ?s" "stream_header ?s = square_header" "next_index ?s = 0" "seek_target ?s = Some f64_zero"
    using s(2,3) index by (simp_all add: stream_seek_to_def Let_def square_header_def zero)
  have "\<not> before_target f64_one square_frame f64_zero"
    unfolding before_target_def by (rule add_not_less) (simp_all add: square_frame_def max_of_one div_one half_valid)
  then have "\<not> dropped square_header [square] (seek_target ?s) 0"
    by (simp only: dropped_def seek(4) option.case square_frame_at) (simp add: square_header_def)
  then obtain s1 s2 where frame: "stream_next_frame square_decode ?s = (Inr (Some square_frame), s1)" by (rule square_next [OF seek(1-3)])
  let ?t = "\<lparr>thumb_time = f64_zero, thumb_data = square, thumb_width = 2, thumb_height = 2\<rparr>"
  obtain fs2 where put_: "write_thumbnail sample_images c ?t fs1 = (Inr (), fs2)"
    by (rule write_succeeds [of c fs1 ?t sample_images square]) (simp_all add: made abs sample_images_def opaque_square)
  have "thumbnails_loop (\<lambda>q. q) sample_kinetix square_decode sample_images reporter_new ?g c 1 0 1 (ProxyStream s) fs1 (False, ()) =
      Some (Inr (), ProxyStream s1, fs2, (False, ()))"
    using frame put_ by (simp add: check_cancelled_def is_cancelled_def start calm_reports sample_images_def square_frame_def
        opaque_square Let_def)
  moreover have "f64_div f64_one f64_one = f64_one" by (rule div_one) simp_all
  ultimately show ?thesis
    using made(1) s(1,10) by (simp add: thumbnail_execute_def thumbnails_generate_def generate_from_source_def square_thumbnails_def
        square_env_simps whole_of_one record_result_def mem_record_cache_entry calm_reports Let_def del: thumbnails_loop.simps)
qed

end
