(* ===== verification/Interleaving.thy ===== *)
theory Interleaving
  imports Pipeline
begin

text \<open>
  The pipeline as a transition system: submitting and cancelling clients and workers run the critical
  sections of theory \<open>Pipeline\<close> in any order.  A thread is the section it runs next.  A critical
  section that takes one lock while it holds another (the tracker inside the queue) is one step: the
  inner lock orders it among the other users of that lock.  What a client may do at any time is to
  start a submission of a job with an id that was not used before, start a cancellation, attach a
  database or stop the pipeline; a worker may be started at any time.

  \<open>sys_inv\<close> is the invariant: each job is in one place (a submission, the queue or a worker), and its
  tracked state is the one of that place; a job that is nowhere is terminal; the completed and the
  dead jobs of the scheduler are tracked as such; a job that runs has its dependencies completed.
\<close>

datatype 'x thread =
    SubmitStart "'x job" "u64 list"
  | SubmitDeps "'x job" "u64 list"
  | SubmitTrack "'x job"
  | SubmitMeta "'x job"
  | SubmitPersist "'x job"
  | SubmitPush "'x job"
  | SubmitReturned "asset_error + u64"
  | CancelStart u64
  | CancelDequeue u64
  | CancelState u64
  | CancelSched u64
  | CancelPersist u64
  | CancelToken u64
  | CancelReturned u64 "asset_error + unit"
  | WorkerLoop
  | WorkerScan
  | WorkerSweep "u64 list"
  | SweepPersist u64 "u64 list"
  | WorkerIdle
  | RunState "'x job"
  | RunPersist "'x job"
  | RunRegister "'x job"
  | RunBody "'x job" nat
  | RunUnregister "'x job" outcome
  | RunFinish "'x job" outcome
  | RunSched "'x job" outcome
  | RunEnd "'x job" outcome
  | WorkerReturned
  | Panicked

text \<open>The locked part of \<open>try_take\<close>: the sweep up to a removal, or to its end and the pop.\<close>

definition scan_section :: "int \<Rightarrow> u64 list \<Rightarrow> ('x, 'd) shared \<Rightarrow> 'x thread \<times> ('x, 'd) shared" where
  "scan_section clock ids sh =
     (case sweep_locked clock ids sh of
        (Some (i, rest), sh) \<Rightarrow> (SweepPersist i rest, sh)
      | (None, sh) \<Rightarrow>
          (case take_next sh of
             (TakeJob job, sh) \<Rightarrow> (RunState job, sh)
           | (TakeEmpty, sh) \<Rightarrow> (WorkerIdle, sh)
           | (TakeShutdown, sh) \<Rightarrow> (WorkerReturned, sh)))"

definition after_persist ::
  "'d upsert \<Rightarrow> int \<Rightarrow> u64 \<Rightarrow> job_state \<Rightarrow> string option \<Rightarrow> 'x thread \<Rightarrow> ('x, 'd) shared
     \<Rightarrow> 'x thread \<times> ('x, 'd) shared" where
  "after_persist upsert clock j st err t sh =
     (case persist upsert clock j st err sh of None \<Rightarrow> (Panicked, sh) | Some sh \<Rightarrow> (t, sh))"

text \<open>The sections whose effect is determined by the state and the clock.\<close>

fun section_of ::
  "'d upsert \<Rightarrow> int \<Rightarrow> 'x thread \<Rightarrow> ('x, 'd) shared \<Rightarrow> 'x thread \<times> ('x, 'd) shared" where
  "section_of up c (SubmitStart job ds) sh =
     (if shutdown sh then (SubmitReturned (Inl ChannelClosed), sh) else (SubmitDeps job ds, sh))"
| "section_of up c (SubmitDeps job ds) sh = (SubmitTrack job, submit_deps job ds sh)"
| "section_of up c (SubmitTrack job) sh = (SubmitMeta job, submit_track c job sh)"
| "section_of up c (SubmitMeta job) sh = (SubmitPersist job, submit_meta c job sh)"
| "section_of up c (SubmitPersist job) sh =
     after_persist up c (job_ident job) Pending None (SubmitPush job) sh"
| "section_of up c (SubmitPush job) sh = (SubmitReturned (Inr (job_ident job)), submit_push job sh)"
| "section_of up c (CancelStart j) sh =
     (if snapshot j (tracker sh) = None then (CancelReturned j (Inl (JobNotFound j)), sh)
      else (CancelDequeue j, sh))"
| "section_of up c (CancelDequeue j) sh =
     (case cancel_dequeue j sh of Some sh' \<Rightarrow> (CancelState j, sh') | None \<Rightarrow> (CancelToken j, sh))"
| "section_of up c (CancelState j) sh = (CancelSched j, set_state c j JobCancelled sh)"
| "section_of up c (CancelSched j) sh = (CancelPersist j, set_dead j sh)"
| "section_of up c (CancelPersist j) sh =
     after_persist up c j JobCancelled None (CancelReturned j (Inr ())) sh"
| "section_of up c (CancelToken j) sh = (CancelReturned j (Inr ()), cancel_token j sh)"
| "section_of up c WorkerLoop sh = (if shutdown sh then (WorkerReturned, sh) else (WorkerScan, sh))"
| "section_of up c WorkerScan sh = scan_section c (blocked_ids sh) sh"
| "section_of up c (WorkerSweep ids) sh = scan_section c ids sh"
| "section_of up c (SweepPersist i rest) sh =
     after_persist up c i JobCancelled (Some dependency_failed) (WorkerSweep rest) sh"
| "section_of up c WorkerIdle sh =
     (if shutdown sh \<and> queue_is_empty (queue sh) then (WorkerReturned, sh) else (WorkerLoop, sh))"
| "section_of up c (RunState job) sh = (RunPersist job, set_state c (job_ident job) Running sh)"
| "section_of up c (RunPersist job) sh =
     after_persist up c (job_ident job) Running None (RunRegister job) sh"
| "section_of up c (RunRegister job) sh =
     (let (n, sh) = run_register (job_ident job) sh in (RunBody job n, sh))"
| "section_of up c (RunUnregister job r) sh = (RunFinish job r, run_unregister (job_ident job) sh)"
| "section_of up c (RunFinish job r) sh =
     (RunSched job r, set_state c (job_ident job) (fst (outcome_state r)) sh)"
| "section_of up c (RunSched job r) sh =
     (RunEnd job r, finish_sched (job_ident job) (fst (outcome_state r)) sh)"
| "section_of up c (RunEnd job r) sh =
     after_persist up c (job_ident job) (fst (outcome_state r)) (snd (outcome_state r)) WorkerLoop sh"
| "section_of up c t sh = (t, sh)"

text \<open>
  What a thread does next.  The body of a job may report, with any number, cancel its own token, and
  end with any outcome.
\<close>

inductive thread_step ::
  "'d upsert \<Rightarrow> 'x thread \<Rightarrow> ('x, 'd) shared \<Rightarrow> 'x thread \<Rightarrow> ('x, 'd) shared \<Rightarrow> bool"
  for up :: "'d upsert" where
  determined: "\<nexists>job n. t = RunBody job n \<Longrightarrow> section_of up c t sh = (t', sh') \<Longrightarrow> thread_step up t sh t' sh'"
| body_report: "report (reporter_for c (job_ident job)) x (flags sh n, tracker sh) = (b, tr) \<Longrightarrow>
    thread_step up (RunBody job n) sh (RunBody job n) (sh\<lparr>tracker := tr\<rparr>)"
| body_message: "report_with_message (reporter_for c (job_ident job)) x msg (flags sh n, tracker sh) = (b, tr) \<Longrightarrow>
    thread_step up (RunBody job n) sh (RunBody job n) (sh\<lparr>tracker := tr\<rparr>)"
| body_cancel: "thread_step up (RunBody job n) sh (RunBody job n) (sh\<lparr>flags := (flags sh)(n := True)\<rparr>)"
| body_end: "thread_step up (RunBody job n) sh (RunUnregister job r) sh"

record ('x, 'd) sys =
  shr :: "('x, 'd) shared"
  threads :: "'x thread list"
  used_ids :: "u64 set"

definition sys_init :: "('x, 'd) sys" where
  "sys_init = \<lparr>shr = shared_default, threads = [], used_ids = {}\<rparr>"

inductive sys_step :: "'d upsert \<Rightarrow> ('x, 'd) sys \<Rightarrow> ('x, 'd) sys \<Rightarrow> bool"
  for up :: "'d upsert" where
  start_submit: "job_ident job \<notin> used_ids s \<Longrightarrow>
    sys_step up s (s\<lparr>threads := threads s @ [SubmitStart job ds], used_ids := insert (job_ident job) (used_ids s)\<rparr>)"
| start_cancel: "sys_step up s (s\<lparr>threads := threads s @ [CancelStart j]\<rparr>)"
| start_worker: "sys_step up s (s\<lparr>threads := threads s @ [WorkerLoop]\<rparr>)"
| attach: "sys_step up s (s\<lparr>shr := attach_db d (shr s)\<rparr>)"
| stop: "sys_step up s (s\<lparr>shr := set_shutdown (shr s)\<rparr>)"
| thread: "i < length (threads s) \<Longrightarrow> thread_step up (threads s ! i) (shr s) t' sh' \<Longrightarrow>
    sys_step up s (s\<lparr>shr := sh', threads := (threads s)[i := t']\<rparr>)"

definition sys_reach :: "'d upsert \<Rightarrow> ('x, 'd) sys \<Rightarrow> ('x, 'd) sys \<Rightarrow> bool" where
  "sys_reach up = (sys_step up)\<^sup>*\<^sup>*"

abbreviation reachable :: "'d upsert \<Rightarrow> ('x, 'd) sys \<Rightarrow> bool" where
  "reachable up s \<equiv> sys_reach up sys_init s"

subsection \<open>Where a job is\<close>

fun about :: "'x thread \<Rightarrow> u64 option" where
  "about (SubmitStart job ds) = Some (job_ident job)"
| "about (SubmitDeps job ds) = Some (job_ident job)"
| "about (SubmitTrack job) = Some (job_ident job)"
| "about (SubmitMeta job) = Some (job_ident job)"
| "about (SubmitPersist job) = Some (job_ident job)"
| "about (SubmitPush job) = Some (job_ident job)"
| "about (CancelState j) = Some j"
| "about (CancelSched j) = Some j"
| "about (CancelPersist j) = Some j"
| "about (SweepPersist j ids) = Some j"
| "about (RunState job) = Some (job_ident job)"
| "about (RunPersist job) = Some (job_ident job)"
| "about (RunRegister job) = Some (job_ident job)"
| "about (RunBody job n) = Some (job_ident job)"
| "about (RunUnregister job r) = Some (job_ident job)"
| "about (RunFinish job r) = Some (job_ident job)"
| "about (RunSched job r) = Some (job_ident job)"
| "about (RunEnd job r) = Some (job_ident job)"
| "about t = None"

text \<open>The tracked state that a thread's job has.\<close>

fun state_at :: "'x thread \<Rightarrow> job_state option" where
  "state_at (SubmitMeta job) = Some Pending"
| "state_at (SubmitPersist job) = Some Pending"
| "state_at (SubmitPush job) = Some Pending"
| "state_at (CancelState j) = Some Pending"
| "state_at (CancelSched j) = Some JobCancelled"
| "state_at (CancelPersist j) = Some JobCancelled"
| "state_at (SweepPersist j ids) = Some JobCancelled"
| "state_at (RunState job) = Some Pending"
| "state_at (RunPersist job) = Some Running"
| "state_at (RunRegister job) = Some Running"
| "state_at (RunBody job n) = Some Running"
| "state_at (RunUnregister job r) = Some Running"
| "state_at (RunFinish job r) = Some Running"
| "state_at (RunSched job r) = Some (fst (outcome_state r))"
| "state_at (RunEnd job r) = Some (fst (outcome_state r))"
| "state_at t = None"

definition terminal_opt :: "job_state option \<Rightarrow> bool" where
  "terminal_opt st \<longleftrightarrow> (\<exists>s. st = Some s \<and> is_terminal s)"

text \<open>The jobs that a thread owns: those it will still move on.\<close>

definition owned :: "'x thread \<Rightarrow> u64 list" where
  "owned t = (case about t of Some j \<Rightarrow> if terminal_opt (state_at t) then [] else [j] | None \<Rightarrow> [])"

definition all_owned :: "'x thread list \<Rightarrow> u64 multiset" where
  "all_owned ts = mset (concat (map owned ts))"

definition places :: "('x, 'd) sys \<Rightarrow> u64 multiset" where
  "places s = mset (queue_ids (queue (shr s))) + all_owned (threads s)"

definition dispatched :: "'x thread \<Rightarrow> bool" where
  "dispatched t \<longleftrightarrow> (\<exists>job n r. t \<in> {RunState job, RunPersist job, RunRegister job, RunBody job n,
     RunUnregister job r, RunFinish job r, RunSched job r})"

abbreviation job_tracked :: "('x, 'd) shared \<Rightarrow> u64 \<Rightarrow> job_state option" where
  "job_tracked sh \<equiv> tracked_state (tracker sh)"

definition thread_ok :: "('x, 'd) shared \<Rightarrow> 'x thread \<Rightarrow> bool" where
  "thread_ok sh t \<longleftrightarrow>
     (\<forall>j. about t = Some j \<longrightarrow>
        job_tracked sh j = state_at t \<and>
        (dispatched t \<longrightarrow> dependencies (scheduler sh) j \<subseteq> completed (scheduler sh)))"

text \<open>What holds of each job.\<close>

definition job_ok :: "('x, 'd) sys \<Rightarrow> u64 \<Rightarrow> bool" where
  "job_ok s j \<longleftrightarrow>
     count (places s) j \<le> 1 \<and>
     (j \<notin> used_ids s \<longrightarrow> job_tracked (shr s) j = None \<and> j \<notin># places s) \<and>
     (j \<in> set (queue_ids (queue (shr s))) \<longrightarrow> job_tracked (shr s) j = Some Pending) \<and>
     (job_tracked (shr s) j \<noteq> None \<longrightarrow> j \<notin># places s \<longrightarrow> terminal_opt (job_tracked (shr s) j)) \<and>
     (j \<in> completed (scheduler (shr s)) \<longrightarrow> job_tracked (shr s) j = Some Completed) \<and>
     (j \<in> dead (scheduler (shr s)) \<longrightarrow> job_tracked (shr s) j \<in> {Some Failed, Some JobCancelled}) \<and>
     (submitted (shr s) j \<noteq> None \<longrightarrow> job_tracked (shr s) j \<noteq> None)"

definition sys_inv :: "('x, 'd) sys \<Rightarrow> bool" where
  "sys_inv s \<longleftrightarrow>
     (\<forall>t \<in> set (threads s). thread_ok (shr s) t \<and> t \<noteq> Panicked) \<and> (\<forall>j. job_ok s j) \<and>
     tracker_ok (tracker (shr s))"

lemma all_owned_Nil [simp]: "all_owned [] = {#}"
  by (simp add: all_owned_def)

lemma all_owned_append [simp]: "all_owned (ts @ us) = all_owned ts + all_owned us"
  by (simp add: all_owned_def)

lemma all_owned_Cons [simp]: "all_owned (t # ts) = mset (owned t) + all_owned ts"
  by (simp add: all_owned_def)

lemma all_owned_update:
  assumes "i < length ts"
  shows "all_owned (ts[i := t]) + mset (owned (ts ! i)) = all_owned ts + mset (owned t)"
proof -
  have "ts = take i ts @ ts ! i # drop (Suc i) ts" by (rule id_take_nth_drop [OF assms])
  then have "all_owned ts = all_owned (take i ts) + mset (owned (ts ! i)) + all_owned (drop (Suc i) ts)"
    by (metis all_owned_append all_owned_Cons add.assoc)
  moreover have "all_owned (ts[i := t]) = all_owned (take i ts) + mset (owned t) + all_owned (drop (Suc i) ts)"
    by (simp add: upd_conv_take_nth_drop [OF assms] add.assoc)
  ultimately show ?thesis by (simp add: ac_simps)
qed

lemma owned_subset: "t \<in> set ts \<Longrightarrow> mset (owned t) \<subseteq># all_owned ts"
  by (induction ts) (auto intro: subset_mset.add_increasing subset_mset.add_increasing2)

lemma owned_two:
  assumes "i < length ts" "k < length ts" "i \<noteq> k" "j \<in> set (owned (ts ! i))" "j \<in> set (owned (ts ! k))"
  shows "2 \<le> count (all_owned ts) j"
proof -
  have split: "all_owned (ts[i := Panicked]) + mset (owned (ts ! i)) = all_owned ts"
    using all_owned_update [OF assms(1), of Panicked] by (simp add: owned_def)
  have "ts ! k \<in> set (ts[i := Panicked])"
    using assms(2,3) by (metis length_list_update nth_list_update_neq nth_mem)
  then have "j \<in># all_owned (ts[i := Panicked])"
    using owned_subset assms(5) by (metis mset_subset_eqD set_mset_mset)
  then have "1 \<le> count (all_owned (ts[i := Panicked])) j" by (simp add: Suc_le_eq)
  moreover have "1 \<le> count (mset (owned (ts ! i))) j" using assms(4) by (simp add: Suc_le_eq)
  moreover have "count (all_owned ts) j =
      count (all_owned (ts[i := Panicked])) j + count (mset (owned (ts ! i))) j"
    using split by (metis count_union)
  ultimately show ?thesis by linarith
qed

subsection \<open>The frame of a step\<close>

lemma sys_invD:
  assumes "sys_inv s"
  shows "t \<in> set (threads s) \<Longrightarrow> thread_ok (shr s) t" "job_ok s j" "tracker_ok (tracker (shr s))"
    "t \<in> set (threads s) \<Longrightarrow> t \<noteq> Panicked"
  using assms by (auto simp: sys_inv_def)

lemma in_owned: "j \<in> set (owned t) \<longleftrightarrow> about t = Some j \<and> \<not> terminal_opt (state_at t)"
  by (auto simp: owned_def split: option.splits)

text \<open>Nobody else is about a job that a thread owns or the queue holds.\<close>

lemma owner_alone:
  assumes "sys_inv s" "i < length (threads s)" "k < length (threads s)" "k \<noteq> i"
    and own: "j \<in> set (owned (threads s ! i)) \<or> j \<in> set (queue_ids (queue (shr s)))"
  shows "about (threads s ! k) \<noteq> Some j"
proof
  assume about: "about (threads s ! k) = Some j"
  have ok: "thread_ok (shr s) (threads s ! i)" "thread_ok (shr s) (threads s ! k)"
    using sys_invD(1) [OF assms(1)] assms(2,3) by simp_all
  have job: "job_ok s j" by (rule sys_invD(2) [OF assms(1)])
  have one: "count (places s) j \<le> 1" using job unfolding job_ok_def by blast
  show False
  proof (cases "terminal_opt (state_at (threads s ! k))")
    case True
    then have "terminal_opt (job_tracked (shr s) j)"
      using ok(2) about by (simp add: thread_ok_def)
    moreover from own have "\<not> terminal_opt (job_tracked (shr s) j)"
    proof
      assume "j \<in> set (owned (threads s ! i))"
      then show ?thesis using ok(1) by (simp add: in_owned thread_ok_def)
    next
      assume "j \<in> set (queue_ids (queue (shr s)))"
      then have "job_tracked (shr s) j = Some Pending" using job unfolding job_ok_def by blast
      then show ?thesis by (simp add: terminal_opt_def is_terminal_def)
    qed
    ultimately show False by blast
  next
    case False
    then have k: "j \<in> set (owned (threads s ! k))" using about by (simp add: in_owned)
    from own show False
    proof
      assume "j \<in> set (owned (threads s ! i))"
      then have "2 \<le> count (all_owned (threads s)) j"
        using owned_two [OF assms(2,3)] assms(4) k by auto
      then show False using one by (simp add: places_def)
    next
      assume "j \<in> set (queue_ids (queue (shr s)))"
      then have "1 \<le> count (mset (queue_ids (queue (shr s)))) j" by (simp add: Suc_le_eq)
      moreover have "j \<in># all_owned (threads s)"
        using k owned_subset [OF nth_mem [OF assms(3)]] by (metis mset_subset_eqD set_mset_mset)
      then have "1 \<le> count (all_owned (threads s)) j" by (simp add: Suc_le_eq)
      ultimately show False using one unfolding places_def count_union by linarith
    qed
  qed
qed

text \<open>A step that concerns one job leaves everything about the others alone.\<close>

definition concerns :: "u64 \<Rightarrow> ('x, 'd) shared \<Rightarrow> ('x, 'd) shared \<Rightarrow> bool" where
  "concerns j sh sh' \<longleftrightarrow>
     (\<forall>k. k \<noteq> j \<longrightarrow> job_tracked sh' k = job_tracked sh k \<and>
        deps (scheduler sh') k = deps (scheduler sh) k \<and>
        (k \<in> completed (scheduler sh') \<longleftrightarrow> k \<in> completed (scheduler sh)) \<and>
        (k \<in> dead (scheduler sh') \<longleftrightarrow> k \<in> dead (scheduler sh)) \<and>
        submitted sh' k = submitted sh k \<and>
        (k \<in> set (queue_ids (queue sh')) \<longrightarrow> k \<in> set (queue_ids (queue sh)))) \<and>
     completed (scheduler sh) \<subseteq> completed (scheduler sh')"

lemma thread_ok_concerns:
  assumes "thread_ok sh t" "concerns j sh sh'"
    and "about t = Some j \<Longrightarrow> job_tracked sh' j = job_tracked sh j \<and> deps (scheduler sh') j = deps (scheduler sh) j"
  shows "thread_ok sh' t"
  unfolding thread_ok_def
proof (intro allI impI conjI)
  fix k assume k: "about t = Some k"
  have same: "job_tracked sh' k = job_tracked sh k \<and> deps (scheduler sh') k = deps (scheduler sh) k"
    using assms(2,3) k unfolding concerns_def by (cases "k = j") auto
  then show "job_tracked sh' k = state_at t" using assms(1) k by (simp add: thread_ok_def)
  assume "dispatched t"
  then have "dependencies (scheduler sh) k \<subseteq> completed (scheduler sh)"
    using assms(1) k by (simp add: thread_ok_def)
  moreover have "completed (scheduler sh) \<subseteq> completed (scheduler sh')"
    using assms(2) by (simp add: concerns_def)
  ultimately show "dependencies (scheduler sh') k \<subseteq> completed (scheduler sh')"
    using same by (simp add: dependencies_def)
qed

definition job_change_ok :: "u64 \<Rightarrow> ('x, 'd) shared \<Rightarrow> ('x, 'd) shared \<Rightarrow> u64 multiset \<Rightarrow> 'x thread \<Rightarrow> bool" where
  "job_change_ok j sh sh' gone t' \<longleftrightarrow>
     (gone = {#} \<or> gone = {#j#} \<and> (job_tracked sh' j = None \<or> terminal_opt (job_tracked sh' j))) \<and>
     (j \<in> set (queue_ids (queue sh')) \<longrightarrow> job_tracked sh' j = Some Pending) \<and>
     (job_tracked sh' j \<noteq> None \<longrightarrow>
        job_tracked sh' j = job_tracked sh j \<or> j \<in> set (owned t') \<or> terminal_opt (job_tracked sh' j)) \<and>
     (j \<in> completed (scheduler sh') \<longrightarrow> job_tracked sh' j = Some Completed) \<and>
     (j \<in> dead (scheduler sh') \<longrightarrow> job_tracked sh' j \<in> {Some Failed, Some JobCancelled}) \<and>
     (submitted sh' j \<noteq> None \<longrightarrow> job_tracked sh' j \<noteq> None)"

lemma thread_step_inv:
  assumes inv: "sys_inv s" and i: "i < length (threads s)"
    and conc: "concerns j (shr s) sh'"
    and moves: "mset (queue_ids (queue (shr s))) + mset (owned (threads s ! i)) =
       gone + mset (queue_ids (queue sh')) + mset (owned t')"
    and change: "job_change_ok j (shr s) sh' gone t'"
    and alone: "j \<in> set (owned (threads s ! i)) \<or> j \<in> set (queue_ids (queue (shr s))) \<or>
       job_tracked sh' j = job_tracked (shr s) j \<and> deps (scheduler sh') j = deps (scheduler (shr s)) j"
    and new: "thread_ok sh' t'" "t' \<noteq> Panicked" "tracker_ok (tracker sh')"
  shows "sys_inv (s\<lparr>shr := sh', threads := (threads s)[i := t']\<rparr>)"
proof -
  define s' where "s' = s\<lparr>shr := sh', threads := (threads s)[i := t']\<rparr>"
  have places: "places s = gone + places s'"
  proof -
    have "places s' + mset (owned (threads s ! i)) =
        mset (queue_ids (queue sh')) + (all_owned (threads s) + mset (owned t'))"
      using all_owned_update [OF i, of t'] by (simp add: s'_def places_def ac_simps)
    then have "gone + places s' + mset (owned (threads s ! i)) =
        (gone + mset (queue_ids (queue sh')) + mset (owned t')) + all_owned (threads s)"
      by (simp add: ac_simps)
    also have "\<dots> = places s + mset (owned (threads s ! i))"
      unfolding moves [symmetric] by (simp add: places_def ac_simps)
    finally show ?thesis by simp
  qed
  have old_thread: "thread_ok sh' (threads s ! k) \<and> threads s ! k \<noteq> Panicked"
    if k: "k < length (threads s)" "k \<noteq> i" for k
  proof -
    have "about (threads s ! k) = Some j \<Longrightarrow>
        job_tracked sh' j = job_tracked (shr s) j \<and> deps (scheduler sh') j = deps (scheduler (shr s)) j"
      using alone owner_alone [OF inv i k, of j] by blast
    then show ?thesis
      using thread_ok_concerns [OF sys_invD(1) [OF inv nth_mem [OF k(1)]] conc]
        sys_invD(4) [OF inv nth_mem [OF k(1)]] by blast
  qed
  have threads: "thread_ok sh' t \<and> t \<noteq> Panicked" if t: "t \<in> set ((threads s)[i := t'])" for t
  proof -
    from t obtain k where k: "k < length (threads s)" "t = (threads s)[i := t'] ! k"
      by (metis in_set_conv_nth length_list_update)
    show ?thesis
      using k new(1,2) old_thread by (cases "k = i") auto
  qed
  have jobs: "job_ok s' k" for k
  proof (cases "k = j")
    case False
    then have "count gone k = 0" using change by (auto simp: job_change_ok_def)
    then have "count (places s') k = count (places s) k" using places by simp
    then have mem: "k \<in># places s' \<longleftrightarrow> k \<in># places s" by (simp only: count_greater_zero_iff [symmetric])
    show ?thesis
      using sys_invD(2) [OF inv, of k] conc False mem \<open>count (places s') k = count (places s) k\<close>
      unfolding job_ok_def concerns_def by (simp add: s'_def)
  next
    case True
    have old: "job_ok s j" by (rule sys_invD(2) [OF inv])
    have le: "count (places s') j \<le> count (places s) j" using places by simp
    have mem: "j \<in># places s' \<Longrightarrow> j \<in># places s" using places by simp
    have own: "j \<in> set (owned t') \<Longrightarrow> j \<in># places s'"
    proof -
      assume "j \<in> set (owned t')"
      moreover have "mset (owned t') \<subseteq># all_owned ((threads s)[i := t'])"
        by (rule owned_subset) (simp add: i set_update_memI)
      ultimately have "j \<in># all_owned ((threads s)[i := t'])" by (metis mset_subset_eqD set_mset_mset)
      then show ?thesis by (simp add: s'_def places_def)
    qed
    have unused: "job_tracked sh' j = None \<and> j \<notin># places s'" if "j \<notin> used_ids s"
    proof -
      have none: "job_tracked (shr s) j = None" "j \<notin># places s"
        using old that unfolding job_ok_def by blast+
      then have "j \<notin> set (queue_ids (queue (shr s)))" by (simp add: places_def)
      moreover have "j \<notin> set (owned (threads s ! i))"
        using none(2) owned_subset [OF nth_mem [OF i]]
        by (metis mset_subset_eqD places_def set_mset_mset union_iff)
      ultimately show ?thesis using alone none mem by auto
    qed
    have settled: "terminal_opt (job_tracked sh' j)" if "job_tracked sh' j \<noteq> None" "j \<notin># places s'"
    proof (rule ccontr)
      assume not: "\<not> terminal_opt (job_tracked sh' j)"
      then have "job_tracked sh' j = job_tracked (shr s) j" "gone = {#}"
        using change that own unfolding job_change_ok_def by blast+
      moreover from this(2) have "j \<notin># places s" using places that(2) by simp
      ultimately show False using old not that(1) unfolding job_ok_def by auto
    qed
    show ?thesis
      using old le change unused settled True
      unfolding job_ok_def job_change_ok_def by (simp add: s'_def)
  qed
  show ?thesis
    using threads jobs new(3) unfolding sys_inv_def s'_def by auto
qed

subsection \<open>The sections keep the invariant\<close>

lemma persist_total:
  assumes "submitted sh j \<noteq> None \<Longrightarrow> job_tracked sh j \<noteq> None"
  obtains d where "persist up c j st err sh = Some (sh\<lparr>job_db := d\<rparr>)"
proof -
  have "\<exists>d. persist up c j st err sh = Some (sh\<lparr>job_db := d\<rparr>)"
    using assms unfolding persist_def
    by (auto simp: tracked_state_def snapshot_def split: option.splits intro: exI [of _ "job_db sh"])
  with that show thesis by blast
qed

text \<open>A step that changes neither the jobs nor the queue.\<close>

definition quiet :: "('x, 'd) shared \<Rightarrow> ('x, 'd) shared \<Rightarrow> bool" where
  "quiet sh sh' \<longleftrightarrow>
     queue sh' = queue sh \<and> job_tracked sh' = job_tracked sh \<and> scheduler sh' = scheduler sh \<and>
     submitted sh' = submitted sh"

lemma quiet_step_inv:
  assumes inv: "sys_inv s" and i: "i < length (threads s)" and q: "quiet (shr s) sh'"
    and t': "owned t' = owned (threads s ! i)" "thread_ok (shr s) t'" "t' \<noteq> Panicked"
    and "tracker_ok (tracker sh')"
  shows "sys_inv (s\<lparr>shr := sh', threads := (threads s)[i := t']\<rparr>)"
proof (rule thread_step_inv [OF inv i, where j = j and gone = "{#}" for j])
  fix j :: u64
  show "concerns j (shr s) sh'" using q by (simp add: concerns_def quiet_def)
  show "mset (queue_ids (queue (shr s))) + mset (owned (threads s ! i)) =
      {#} + mset (queue_ids (queue sh')) + mset (owned t')"
    using q t'(1) by (simp add: quiet_def)
  show "job_change_ok j (shr s) sh' {#} t'"
    using sys_invD(2) [OF inv, of j] q by (auto simp: job_change_ok_def job_ok_def quiet_def)
  show "thread_ok sh' t'" using t'(2) q by (simp add: thread_ok_def quiet_def)
qed (use assms in \<open>simp_all add: quiet_def\<close>)

lemma after_persist_inv:
  assumes inv: "sys_inv s" and i: "i < length (threads s)"
    and step: "after_persist up c j st err t'' (shr s) = (t', sh')"
    and t'': "owned t'' = owned (threads s ! i)" "thread_ok (shr s) t''" "t'' \<noteq> Panicked"
  shows "sys_inv (s\<lparr>shr := sh', threads := (threads s)[i := t']\<rparr>)"
proof -
  have "submitted (shr s) j \<noteq> None \<Longrightarrow> job_tracked (shr s) j \<noteq> None"
    using sys_invD(2) [OF inv, of j] unfolding job_ok_def by blast
  then obtain d where "persist up c j st err (shr s) = Some ((shr s)\<lparr>job_db := d\<rparr>)"
    by (rule persist_total)
  with step have "t' = t''" "sh' = (shr s)\<lparr>job_db := d\<rparr>" by (simp_all add: after_persist_def)
  then show ?thesis
    using sys_invD(3) [OF inv] t'' by (intro quiet_step_inv [OF inv i]) (simp_all add: quiet_def)
qed

text \<open>Taking a job out of the queue.\<close>

lemma pop_ready_ids:
  assumes "pop_ready ready q = Some (job, q')"
  shows "mset (queue_ids q) = add_mset (job_ident job) (mset (queue_ids q'))" "ready (job_ident job)"
    "set (queue_ids q') \<subseteq> set (queue_ids q)" "job_ident job \<in> set (queue_ids q)"
  by (rule pop_ready_entries [OF assms]; force simp: queue_ids_def)+

lemma queue_remove_ids:
  assumes "queue_remove j q = Some (job, q')"
  shows "mset (queue_ids q) = add_mset j (mset (queue_ids q'))"
    "set (queue_ids q') \<subseteq> set (queue_ids q)" "j \<in> set (queue_ids q)"
  using pop_ready_ids [OF assms [unfolded queue_remove_pop]] by auto

lemma queue_remove_None: "queue_remove j q = None \<longleftrightarrow> j \<notin> set (queue_ids q)"
  by (auto simp: queue_remove_pop pop_ready_None)

lemma queue_ids_push:
  fixes q :: "'x job_queue"
  shows "mset (queue_ids (queue_push job q)) = add_mset (job_ident job) (mset (queue_ids q))"
proof -
  have "mset (queue_ids r) = image_mset job_ident (queue_jobs r)" for r :: "'x job_queue"
    by (simp add: queue_ids_def queue_jobs_def image_mset.compositionality o_def)
  then show ?thesis by (simp add: queue_jobs_push)
qed

lemma queue_unique:
  assumes "sys_inv s" "mset (queue_ids (queue (shr s))) = add_mset j (mset (queue_ids q'))"
  shows "j \<notin> set (queue_ids q')"
proof
  assume "j \<in> set (queue_ids q')"
  then have "1 \<le> count (mset (queue_ids q')) j" by (simp add: Suc_le_eq)
  moreover have "count (places s) j = Suc (count (mset (queue_ids q')) j + count (all_owned (threads s)) j)"
    unfolding places_def assms(2) by simp
  ultimately have "2 \<le> count (places s) j" by linarith
  then show False using sys_invD(2) [OF assms(1), of j] unfolding job_ok_def by linarith
qed

lemma terminal_opt_simps [simp]:
  "terminal_opt (Some st) \<longleftrightarrow> is_terminal st" "\<not> terminal_opt None"
  by (simp_all add: terminal_opt_def)

lemma is_terminal_simps [simp]:
  "is_terminal Completed" "is_terminal Failed" "is_terminal JobCancelled" "\<not> is_terminal Pending"
  "\<not> is_terminal Running"
  by (simp_all add: is_terminal_def)

lemma outcome_terminal [simp]: "is_terminal (fst (outcome_state r))"
  by (cases r) auto

lemma step_thread:
  assumes "sys_inv s" "i < length (threads s)" "threads s ! i = t"
  shows "thread_ok (shr s) t" "t \<noteq> Panicked"
  using sys_invD(1,4) [OF assms(1) nth_mem [OF assms(2)]] assms(3) by simp_all

lemmas section_simps = concerns_def job_change_ok_def thread_ok_def owned_def dispatched_def
  submit_deps_def submit_track_def submit_meta_def submit_push_def set_state_def set_dead_def
  finish_sched_def

lemma submit_start_inv:
  assumes inv: "sys_inv s" and i: "i < length (threads s)" "threads s ! i = SubmitStart job ds"
    and t': "t' = SubmitDeps job ds \<or> t' = SubmitReturned r"
  shows "sys_inv (s\<lparr>threads := (threads s)[i := t']\<rparr>)"
proof -
  have ok: "thread_ok (shr s) (SubmitStart job ds)" using step_thread [OF inv i] by simp
  have "sys_inv (s\<lparr>shr := shr s, threads := (threads s)[i := t']\<rparr>)"
    by (rule thread_step_inv [OF inv i(1), where j = "job_ident job" and
          gone = "if t' = SubmitDeps job ds then {#} else {#job_ident job#}"])
      (use t' ok i(2) sys_invD(2) [OF inv, of "job_ident job"] sys_invD(3) [OF inv] in
        \<open>auto simp: section_simps job_ok_def\<close>)
  then show ?thesis by simp
qed

lemma submit_deps_inv:
  assumes inv: "sys_inv s" and i: "i < length (threads s)" "threads s ! i = SubmitDeps job ds"
  shows "sys_inv (s\<lparr>shr := submit_deps job ds (shr s), threads := (threads s)[i := SubmitTrack job]\<rparr>)"
  by (rule thread_step_inv [OF inv i(1), where j = "job_ident job" and gone = "{#}"])
    (use step_thread [OF inv i] i(2) sys_invD(2) [OF inv, of "job_ident job"] sys_invD(3) [OF inv] in
        \<open>auto simp: section_simps job_ok_def\<close>)

lemma submit_track_inv:
  assumes inv: "sys_inv s" and i: "i < length (threads s)" "threads s ! i = SubmitTrack job"
  shows "sys_inv (s\<lparr>shr := submit_track c job (shr s), threads := (threads s)[i := SubmitMeta job]\<rparr>)"
  by (rule thread_step_inv [OF inv i(1), where j = "job_ident job" and gone = "{#}"])
    (use step_thread [OF inv i] i(2) sys_invD(2) [OF inv, of "job_ident job"] sys_invD(3) [OF inv] in
        \<open>auto simp: section_simps job_ok_def tracker_ok_register\<close>)

lemma submit_meta_inv:
  assumes inv: "sys_inv s" and i: "i < length (threads s)" "threads s ! i = SubmitMeta job"
  shows "sys_inv (s\<lparr>shr := submit_meta c job (shr s), threads := (threads s)[i := SubmitPersist job]\<rparr>)"
  by (rule thread_step_inv [OF inv i(1), where j = "job_ident job" and gone = "{#}"])
    (use step_thread [OF inv i] i(2) sys_invD(2) [OF inv, of "job_ident job"] sys_invD(3) [OF inv] in
        \<open>auto simp: section_simps job_ok_def\<close>)

lemma submit_push_inv:
  assumes inv: "sys_inv s" and i: "i < length (threads s)" "threads s ! i = SubmitPush job"
  shows "sys_inv (s\<lparr>shr := submit_push job (shr s), threads := (threads s)[i := SubmitReturned r]\<rparr>)"
proof (rule thread_step_inv [OF inv i(1), where j = "job_ident job" and gone = "{#}"])
  have ids: "set (queue_ids (queue_push job q)) = insert (job_ident job) (set (queue_ids q))" for q
    using queue_ids_push by (metis set_mset_add_mset_insert set_mset_mset)
  show "concerns (job_ident job) (shr s) (submit_push job (shr s))"
    by (auto simp: section_simps ids)
  show "job_change_ok (job_ident job) (shr s) (submit_push job (shr s)) {#} (SubmitReturned r)"
    using step_thread [OF inv i] sys_invD(2) [OF inv, of "job_ident job"]
    by (auto simp: section_simps job_ok_def)
qed (use i(2) sys_invD(3) [OF inv] in \<open>auto simp: section_simps queue_ids_push\<close>)

lemma cancel_dequeue_inv:
  assumes inv: "sys_inv s" and i: "i < length (threads s)" "threads s ! i = CancelDequeue j"
    and deq: "cancel_dequeue j (shr s) = Some sh'"
  shows "sys_inv (s\<lparr>shr := sh', threads := (threads s)[i := CancelState j]\<rparr>)"
proof -
  from deq obtain job q where q: "queue_remove j (queue (shr s)) = Some (job, q)" "sh' = (shr s)\<lparr>queue := q\<rparr>"
    by (auto simp: cancel_dequeue_def)
  note ids = queue_remove_ids [OF q(1)]
  have gone: "j \<notin> set (queue_ids q)" by (rule queue_unique [OF inv ids(1)])
  have pending: "job_tracked (shr s) j = Some Pending"
    using sys_invD(2) [OF inv, of j] ids(3) unfolding job_ok_def by blast
  show ?thesis
    by (rule thread_step_inv [OF inv i(1), where j = j and gone = "{#}"])
      (use q(2) ids gone pending i(2) sys_invD(2) [OF inv, of j] sys_invD(3) [OF inv] in
        \<open>auto simp: section_simps job_ok_def\<close>)
qed

text \<open>What a thread owns is not queued.\<close>

lemma owned_not_queued:
  assumes "sys_inv s" "i < length (threads s)" "j \<in> set (owned (threads s ! i))"
  shows "j \<notin> set (queue_ids (queue (shr s)))"
proof
  assume "j \<in> set (queue_ids (queue (shr s)))"
  then have "1 \<le> count (mset (queue_ids (queue (shr s)))) j" by (simp add: Suc_le_eq)
  moreover have "j \<in># all_owned (threads s)"
    using assms(3) owned_subset [OF nth_mem [OF assms(2)]] by (metis mset_subset_eqD set_mset_mset)
  then have "1 \<le> count (all_owned (threads s)) j" by (simp add: Suc_le_eq)
  moreover have "count (places s) j \<le> 1"
    using sys_invD(2) [OF assms(1), of j] unfolding job_ok_def by blast
  ultimately show False unfolding places_def count_union by linarith
qed

lemma cancel_state_inv:
  assumes inv: "sys_inv s" and i: "i < length (threads s)" "threads s ! i = CancelState j"
  shows "sys_inv (s\<lparr>shr := set_state c j JobCancelled (shr s), threads := (threads s)[i := CancelSched j]\<rparr>)"
  by (rule thread_step_inv [OF inv i(1), where j = j and gone = "{#j#}"])
    (use step_thread [OF inv i] i(2) owned_not_queued [OF inv i(1), of j] sys_invD(2) [OF inv, of j] sys_invD(3) [OF inv] in
        \<open>auto simp: section_simps job_ok_def tracker_ok_update_state\<close>)

lemma cancel_sched_inv:
  assumes inv: "sys_inv s" and i: "i < length (threads s)" "threads s ! i = CancelSched j"
  shows "sys_inv (s\<lparr>shr := set_dead j (shr s), threads := (threads s)[i := CancelPersist j]\<rparr>)"
  by (rule thread_step_inv [OF inv i(1), where j = j and gone = "{#}"])
    (use step_thread [OF inv i] i(2) sys_invD(2) [OF inv, of j] sys_invD(3) [OF inv] in
        \<open>auto simp: section_simps job_ok_def\<close>)

lemma run_state_inv:
  assumes inv: "sys_inv s" and i: "i < length (threads s)" "threads s ! i = RunState job"
  shows "sys_inv (s\<lparr>shr := set_state c (job_ident job) Running (shr s), threads := (threads s)[i := RunPersist job]\<rparr>)"
  by (rule thread_step_inv [OF inv i(1), where j = "job_ident job" and gone = "{#}"])
    (use step_thread [OF inv i] i(2) owned_not_queued [OF inv i(1), of "job_ident job"] sys_invD(2) [OF inv, of "job_ident job"] sys_invD(3) [OF inv] in
        \<open>auto simp: section_simps job_ok_def tracker_ok_update_state\<close>)

lemma run_finish_inv:
  assumes inv: "sys_inv s" and i: "i < length (threads s)" "threads s ! i = RunFinish job r"
  shows "sys_inv (s\<lparr>shr := set_state c (job_ident job) (fst (outcome_state r)) (shr s),
     threads := (threads s)[i := RunSched job r]\<rparr>)"
  by (rule thread_step_inv [OF inv i(1), where j = "job_ident job" and gone = "{#job_ident job#}"])
    (use step_thread [OF inv i] i(2) sys_invD(2) [OF inv, of "job_ident job"] sys_invD(3) [OF inv] in
        \<open>auto simp: section_simps job_ok_def tracker_ok_update_state\<close>)

lemma run_sched_inv:
  assumes inv: "sys_inv s" and i: "i < length (threads s)" "threads s ! i = RunSched job r"
  shows "sys_inv (s\<lparr>shr := finish_sched (job_ident job) (fst (outcome_state r)) (shr s),
     threads := (threads s)[i := RunEnd job r]\<rparr>)"
proof -
  have "fst (outcome_state r) = Completed \<or> fst (outcome_state r) = Failed \<or> fst (outcome_state r) = JobCancelled"
    by (cases r) auto
  then show ?thesis
    by (intro thread_step_inv [OF inv i(1), where j = "job_ident job" and gone = "{#}"])
      (use step_thread [OF inv i] i(2) sys_invD(2) [OF inv, of "job_ident job"] sys_invD(3) [OF inv] in
        \<open>auto simp: section_simps job_ok_def\<close>)
qed

lemma sweep_locked_None: "sweep_locked c ids sh = (None, sh') \<Longrightarrow> sh' = sh"
  by (induction c ids sh rule: sweep_locked.induct) (auto simp: Let_def split: option.splits)

lemma sweep_locked_Some:
  "sweep_locked c ids sh = (Some (j, rest), sh') \<Longrightarrow>
     j \<in> set ids \<and> (\<exists>job q. queue_remove j (queue sh) = Some (job, q) \<and>
       sh' = set_dead j (set_state c j JobCancelled (sh\<lparr>queue := q\<rparr>)))"
  by (induction c ids sh rule: sweep_locked.induct) (auto simp: Let_def split: option.splits)

lemma sweep_inv:
  assumes inv: "sys_inv s" and i: "i < length (threads s)" "owned (threads s ! i) = []"
    and q: "queue_remove j (queue (shr s)) = Some (job, q)"
  shows "sys_inv (s\<lparr>shr := set_dead j (set_state c j JobCancelled ((shr s)\<lparr>queue := q\<rparr>)),
     threads := (threads s)[i := SweepPersist j rest]\<rparr>)"
proof -
  note ids = queue_remove_ids [OF q]
  have gone: "j \<notin> set (queue_ids q)" by (rule queue_unique [OF inv ids(1)])
  have pending: "job_tracked (shr s) j = Some Pending"
    using sys_invD(2) [OF inv, of j] ids(3) unfolding job_ok_def by blast
  show ?thesis
    by (rule thread_step_inv [OF inv i(1), where j = j and gone = "{#j#}"])
      (use ids gone pending i(2) sys_invD(2) [OF inv, of j] sys_invD(3) [OF inv] in
        \<open>auto simp: section_simps job_ok_def tracker_ok_update_state\<close>)
qed

lemma take_job_inv:
  assumes inv: "sys_inv s" and i: "i < length (threads s)" "owned (threads s ! i) = []"
    and q: "pop_ready (\<lambda>i. is_ready i (scheduler (shr s))) (queue (shr s)) = Some (job, q)"
  shows "sys_inv (s\<lparr>shr := (shr s)\<lparr>queue := q\<rparr>, threads := (threads s)[i := RunState job]\<rparr>)"
proof -
  note ids = pop_ready_ids [OF q]
  have gone: "job_ident job \<notin> set (queue_ids q)" by (rule queue_unique [OF inv ids(1)])
  have pending: "job_tracked (shr s) (job_ident job) = Some Pending"
    using sys_invD(2) [OF inv, of "job_ident job"] ids(4) unfolding job_ok_def by blast
  show ?thesis
    by (rule thread_step_inv [OF inv i(1), where j = "job_ident job" and gone = "{#}"])
      (use ids gone pending i(2) sys_invD(2) [OF inv, of "job_ident job"] sys_invD(3) [OF inv] in
        \<open>auto simp: section_simps job_ok_def is_ready_iff\<close>)
qed

lemma take_next_cases:
  assumes "take_next sh = (t, sh')"
  shows "(t = TakeEmpty \<or> t = TakeShutdown) \<and> sh' = sh \<or>
     (\<exists>job q. pop_ready (\<lambda>i. is_ready i (scheduler sh)) (queue sh) = Some (job, q) \<and>
        t = TakeJob job \<and> sh' = sh\<lparr>queue := q\<rparr>)"
  using assms unfolding take_next_def
  by (cases "pop_ready (\<lambda>i. is_ready i (scheduler sh)) (queue sh)")
    (simp_all split: if_splits prod.splits)

lemma scan_section_inv:
  assumes inv: "sys_inv s" and i: "i < length (threads s)" "owned (threads s ! i) = []"
    and step: "scan_section c ids (shr s) = (t', sh')"
  shows "sys_inv (s\<lparr>shr := sh', threads := (threads s)[i := t']\<rparr>)"
proof (cases "sweep_locked c ids (shr s)")
  case (Pair r sh1)
  show ?thesis
  proof (cases r)
    case (Some jr)
    obtain j rest where jr: "jr = (j, rest)" by fastforce
    with step Pair Some have t': "t' = SweepPersist j rest" "sh' = sh1" by (simp_all add: scan_section_def)
    from sweep_locked_Some [of c ids "shr s" j rest sh1] Pair Some jr obtain job q
      where "queue_remove j (queue (shr s)) = Some (job, q)"
        "sh1 = set_dead j (set_state c j JobCancelled ((shr s)\<lparr>queue := q\<rparr>))"
      by auto
    with sweep_inv [OF inv i] t' show ?thesis by simp
  next
    case None
    with sweep_locked_None [of c ids "shr s" sh1] Pair have sh1: "sh1 = shr s" by simp
    have quiet: "sys_inv (s\<lparr>shr := shr s, threads := (threads s)[i := t]\<rparr>)"
      if "t = WorkerIdle \<or> t = WorkerReturned" for t
      by (rule quiet_step_inv [OF inv i(1)])
        (use that i(2) sys_invD(3) [OF inv] in \<open>auto simp: quiet_def owned_def thread_ok_def\<close>)
    obtain tk sh2 where tk: "take_next (shr s) = (tk, sh2)" by fastforce
    have t': "(case (tk, sh2) of (TakeJob job, sh) \<Rightarrow> (RunState job, sh)
        | (TakeEmpty, sh) \<Rightarrow> (WorkerIdle, sh) | (TakeShutdown, sh) \<Rightarrow> (WorkerReturned, sh)) = (t', sh')"
      using step Pair None sh1 tk by (simp add: scan_section_def)
    from take_next_cases [OF tk] show ?thesis
    proof (elim disjE conjE exE)
      assume "tk = TakeEmpty" "sh2 = shr s"
      with t' have "t' = WorkerIdle" "sh' = shr s" by simp_all
      with quiet [of t'] show ?thesis by simp
    next
      assume "tk = TakeShutdown" "sh2 = shr s"
      with t' have "t' = WorkerReturned" "sh' = shr s" by simp_all
      with quiet [of t'] show ?thesis by simp
    next
      fix job q
      assume q: "pop_ready (\<lambda>i. is_ready i (scheduler (shr s))) (queue (shr s)) = Some (job, q)"
        "tk = TakeJob job" "sh2 = (shr s)\<lparr>queue := q\<rparr>"
      with t' have "t' = RunState job" "sh' = (shr s)\<lparr>queue := q\<rparr>" by simp_all
      with take_job_inv [OF inv i q(1)] show ?thesis by (simp only:)
    qed
  qed
qed

lemma section_inv:
  assumes inv: "sys_inv s" and i: "i < length (threads s)" "threads s ! i = t"
    and step: "section_of up c t (shr s) = (t', sh')"
  shows "sys_inv (s\<lparr>shr := sh', threads := (threads s)[i := t']\<rparr>)"
proof -
  note thread = step_thread [OF inv i]
  have stays: "sys_inv (s\<lparr>shr := shr s, threads := (threads s)[i := u]\<rparr>)"
    if "owned u = owned t" "thread_ok (shr s) u" "u \<noteq> Panicked" for u
    by (rule quiet_step_inv [OF inv i(1)]) (use that i(2) sys_invD(3) [OF inv] in \<open>auto simp: quiet_def\<close>)
  note quiet = quiet_step_inv [OF inv i(1)]
  note defs = quiet_def owned_def thread_ok_def
  show ?thesis
  proof (cases t)
    case (SubmitStart job ds)
    with step submit_start_inv [OF inv i(1)] i(2) show ?thesis by (auto split: if_splits)
  next
    case (SubmitDeps job ds)
    with step submit_deps_inv [OF inv i(1)] i(2) show ?thesis by auto
  next
    case (SubmitTrack job)
    with step submit_track_inv [OF inv i(1)] i(2) show ?thesis by auto
  next
    case (SubmitMeta job)
    with step submit_meta_inv [OF inv i(1)] i(2) show ?thesis by auto
  next
    case (SubmitPersist job)
    with step thread i(2) show ?thesis
      by (intro after_persist_inv [OF inv i(1)]) (auto simp: defs dispatched_def)
  next
    case (SubmitPush job)
    with step submit_push_inv [OF inv i(1)] i(2) show ?thesis by auto
  next
    case (CancelStart j)
    with step i(2) show ?thesis
      by (auto simp: defs split: if_splits intro!: stays)
  next
    case (CancelDequeue j)
    show ?thesis
    proof (cases "cancel_dequeue j (shr s)")
      case None
      with CancelDequeue step show ?thesis by (auto simp: defs intro!: stays)
    next
      case (Some sh'')
      with CancelDequeue step cancel_dequeue_inv [OF inv i(1) _ Some] i(2) show ?thesis by simp
    qed
  next
    case (CancelState j)
    with step cancel_state_inv [OF inv i(1)] i(2) show ?thesis by auto
  next
    case (CancelSched j)
    with step cancel_sched_inv [OF inv i(1)] i(2) show ?thesis by auto
  next
    case (CancelPersist j)
    with step i(2) show ?thesis
      by (intro after_persist_inv [OF inv i(1)]) (auto simp: defs)
  next
    case (CancelToken j)
    with step i(2) sys_invD(3) [OF inv] show ?thesis
      by (intro quiet) (auto simp: defs cancel_token_def split: option.splits)
  next
    case WorkerLoop
    with step show ?thesis by (auto simp: defs split: if_splits intro!: stays)
  next
    case WorkerScan
    with step i(2) show ?thesis by (intro scan_section_inv [OF inv i(1)]) (auto simp: owned_def)
  next
    case (WorkerSweep ids)
    with step i(2) show ?thesis by (intro scan_section_inv [OF inv i(1)]) (auto simp: owned_def)
  next
    case (SweepPersist j ids)
    with step i(2) show ?thesis
      by (intro after_persist_inv [OF inv i(1)]) (auto simp: defs)
  next
    case WorkerIdle
    with step show ?thesis by (auto simp: defs split: if_splits intro!: stays)
  next
    case (RunState job)
    with step run_state_inv [OF inv i(1)] i(2) show ?thesis by auto
  next
    case (RunPersist job)
    with step thread i(2) show ?thesis
      by (intro after_persist_inv [OF inv i(1)]) (auto simp: defs dispatched_def)
  next
    case (RunRegister job)
    with step thread i(2) sys_invD(3) [OF inv] show ?thesis
      by (intro quiet) (auto simp: defs run_register_def Let_def dispatched_def)
  next
    case (RunUnregister job r)
    with step thread i(2) sys_invD(3) [OF inv] show ?thesis
      by (intro quiet) (auto simp: defs run_unregister_def dispatched_def)
  next
    case (RunFinish job r)
    with step run_finish_inv [OF inv i(1)] i(2) show ?thesis by auto
  next
    case (RunSched job r)
    with step run_sched_inv [OF inv i(1)] i(2) show ?thesis by auto
  next
    case (RunEnd job r)
    with step i(2) show ?thesis
      by (intro after_persist_inv [OF inv i(1)]) (auto simp: defs)
  next
    case Panicked
    with thread(2) show ?thesis by simp
  qed (use step i(2) thread in \<open>auto simp: list_update_same_conv [THEN iffD2] intro!: stays\<close>)
qed

lemma body_quiet_inv:
  assumes inv: "sys_inv s" and i: "i < length (threads s)" "threads s ! i = RunBody job n"
    and "queue sh' = queue (shr s)" "job_tracked sh' = job_tracked (shr s)" "scheduler sh' = scheduler (shr s)"
      "submitted sh' = submitted (shr s)" "tracker_ok (tracker sh')"
    and t': "t' = RunBody job n \<or> t' = RunUnregister job r"
  shows "sys_inv (s\<lparr>shr := sh', threads := (threads s)[i := t']\<rparr>)"
  using step_thread [OF inv i] i(2) assms(4-)
  by (intro quiet_step_inv [OF inv i(1)]) (auto simp: quiet_def owned_def thread_ok_def dispatched_def)

lemma thread_step_keeps:
  assumes inv: "sys_inv s" and i: "i < length (threads s)"
    and step: "thread_step up (threads s ! i) (shr s) t' sh'"
  shows "sys_inv (s\<lparr>shr := sh', threads := (threads s)[i := t']\<rparr>)"
  using step
proof cases
  case (determined c)
  then show ?thesis using section_inv [OF inv i refl] by blast
next
  case (body_report c job x n b tr)
  then have "tracker_ok tr" "tracked_state tr = job_tracked (shr s)"
    using reports_keep(1,3) [OF sys_invD(3) [OF inv], where clock = c and j = "job_ident job" and x = x
        and c = "flags (shr s) n"] by simp_all
  with body_report show ?thesis by (intro body_quiet_inv [OF inv i]) auto
next
  case (body_message c job x msg n b tr)
  then have "tracker_ok tr" "tracked_state tr = job_tracked (shr s)"
    using reports_keep(2,4) [OF sys_invD(3) [OF inv], where clock = c and j = "job_ident job" and x = x
        and msg = msg and c = "flags (shr s) n"] by simp_all
  with body_message show ?thesis by (intro body_quiet_inv [OF inv i]) auto
next
  case (body_cancel job n)
  then show ?thesis using sys_invD(3) [OF inv] by (intro body_quiet_inv [OF inv i]) auto
next
  case (body_end job n r)
  then show ?thesis using sys_invD(3) [OF inv] by (intro body_quiet_inv [OF inv i]) auto
qed

text \<open>A new thread that owns no job.\<close>

lemma new_thread_inv:
  assumes inv: "sys_inv s" and "owned t = []" "thread_ok (shr s) t" "t \<noteq> Panicked"
  shows "sys_inv (s\<lparr>threads := threads s @ [t]\<rparr>)"
proof -
  have "places (s\<lparr>threads := threads s @ [t]\<rparr>) = places s"
    using assms(2) by (simp add: places_def)
  with inv assms(3,4) show ?thesis by (auto simp: sys_inv_def job_ok_def)
qed

lemma new_submission_inv:
  assumes inv: "sys_inv s" and fresh: "job_ident job \<notin> used_ids s"
  shows "sys_inv (s\<lparr>threads := threads s @ [SubmitStart job ds], used_ids := insert (job_ident job) (used_ids s)\<rparr>)"
    (is "sys_inv ?s")
proof -
  have none: "job_tracked (shr s) (job_ident job) = None" "job_ident job \<notin># places s"
    using sys_invD(2) [OF inv, of "job_ident job"] fresh unfolding job_ok_def by blast+
  have places: "places ?s = add_mset (job_ident job) (places s)"
    by (simp add: places_def owned_def)
  have zero: "count (places s) (job_ident job) = 0" using none(2) by (simp add: not_in_iff)
  have "job_ok ?s k" for k
    using sys_invD(2) [OF inv, of k] none zero places
    by (cases "k = job_ident job") (simp_all add: job_ok_def)
  moreover have "thread_ok (shr s) (SubmitStart job ds)"
    using none(1) by (simp add: thread_ok_def dispatched_def)
  ultimately show ?thesis using inv by (auto simp: sys_inv_def)
qed

lemma shared_change_inv:
  assumes inv: "sys_inv s" and "queue sh' = queue (shr s)" "tracker sh' = tracker (shr s)"
    "scheduler sh' = scheduler (shr s)" "submitted sh' = submitted (shr s)"
  shows "sys_inv (s\<lparr>shr := sh'\<rparr>)"
  using assms by (simp add: sys_inv_def job_ok_def thread_ok_def places_def)

theorem sys_step_inv: "sys_step up s s' \<Longrightarrow> sys_inv s \<Longrightarrow> sys_inv s'"
proof (induction rule: sys_step.induct)
  case (start_submit job s ds)
  then show ?case by (intro new_submission_inv)
next
  case (start_cancel s j)
  then show ?case by (intro new_thread_inv) (simp_all add: owned_def thread_ok_def)
next
  case (start_worker s)
  then show ?case by (intro new_thread_inv) (simp_all add: owned_def thread_ok_def)
next
  case (attach s d)
  then show ?case by (intro shared_change_inv) (simp_all add: attach_db_def)
next
  case (stop s)
  then show ?case by (intro shared_change_inv) (simp_all add: set_shutdown_def)
next
  case (thread i s t' sh')
  then show ?case by (intro thread_step_keeps)
qed

lemma sys_inv_init: "sys_inv sys_init"
  by (simp add: sys_inv_def sys_init_def job_ok_def places_def shared_default_def queue_ids_def queue_new_def
      tracked_state_def tracker_new_def scheduler_new_def tracker_ok_def)

lemma reach_inv: "sys_reach up s s' \<Longrightarrow> sys_inv s \<Longrightarrow> sys_inv s'"
  unfolding sys_reach_def by (induction rule: rtranclp_induct) (auto intro: sys_step_inv)

lemma reachable_inv: "reachable up s \<Longrightarrow> sys_inv s"
  by (rule reach_inv [OF _ sys_inv_init])

subsection \<open>The life of a job\<close>

inductive job_step :: "job_state option \<Rightarrow> job_state option \<Rightarrow> bool" where
  submitted: "job_step None (Some Pending)"
| started: "job_step (Some Pending) (Some Running)"
| dropped: "job_step (Some Pending) (Some JobCancelled)"
| ended: "is_terminal st \<Longrightarrow> job_step (Some Running) (Some st)"

inductive_cases job_step_fromE: "job_step (Some st) st'"

lemma job_step_terminal: "job_step st st' \<Longrightarrow> \<not> terminal_opt st"
  by (induction rule: job_step.induct) simp_all

definition jobs_move :: "('x, 'd) shared \<Rightarrow> ('x, 'd) shared \<Rightarrow> bool" where
  "jobs_move sh sh' \<longleftrightarrow>
     (\<forall>j. job_tracked sh' j = job_tracked sh j \<or> job_step (job_tracked sh j) (job_tracked sh' j))"

lemma jobs_move_same: "job_tracked sh' = job_tracked sh \<Longrightarrow> jobs_move sh sh'"
  by (simp add: jobs_move_def)

lemma jobs_move_set_state:
  "job_tracked sh j = Some st \<Longrightarrow> job_step (Some st) (Some st') \<Longrightarrow> tracker sh' = tracker sh \<Longrightarrow>
     jobs_move sh (set_state c j st' sh')"
  by (simp add: jobs_move_def set_state_def)

lemma after_persist_tracker:
  "after_persist up c j st err t sh = (t', sh') \<Longrightarrow> tracker sh' = tracker sh \<and> scheduler sh' = scheduler sh"
  unfolding after_persist_def persist_def by (auto split: option.splits)

lemma scan_section_moves:
  assumes inv: "sys_inv s" and step: "scan_section c ids (shr s) = (t', sh')"
  shows "jobs_move (shr s) sh'"
proof (cases "sweep_locked c ids (shr s)")
  case (Pair r sh1)
  show ?thesis
  proof (cases r)
    case (Some jr)
    obtain j rest where jr: "jr = (j, rest)" by fastforce
    from sweep_locked_Some [of c ids "shr s" j rest sh1] Pair Some jr obtain job q
      where q: "queue_remove j (queue (shr s)) = Some (job, q)"
        "sh1 = set_dead j (set_state c j JobCancelled ((shr s)\<lparr>queue := q\<rparr>))"
      by auto
    have "job_tracked (shr s) j = Some Pending"
      using sys_invD(2) [OF inv, of j] queue_remove_ids(3) [OF q(1)] unfolding job_ok_def by blast
    then have "jobs_move (shr s) (set_state c j JobCancelled ((shr s)\<lparr>queue := q\<rparr>))"
      by (rule jobs_move_set_state) (simp_all add: job_step.dropped)
    moreover have "sh' = sh1" using step Pair Some jr by (simp add: scan_section_def)
    ultimately show ?thesis by (simp add: q(2) set_dead_def jobs_move_def)
  next
    case None
    with sweep_locked_None [of c ids "shr s" sh1] Pair have sh1: "sh1 = shr s" by simp
    obtain tk sh2 where tk: "take_next (shr s) = (tk, sh2)" by fastforce
    have "sh' = sh2" using step Pair None sh1 tk by (simp add: scan_section_def split: take.splits)
    moreover have "tracker sh2 = tracker (shr s)" using take_next_cases [OF tk] by auto
    ultimately show ?thesis by (simp add: jobs_move_same)
  qed
qed

lemma thread_step_moves:
  assumes inv: "sys_inv s" and i: "i < length (threads s)"
    and step: "thread_step up (threads s ! i) (shr s) t' sh'"
  shows "jobs_move (shr s) sh'"
  using step
proof cases
  case (determined c)
  note thread = step_thread(1) [OF inv i refl]
  note sec = determined(2)
  show ?thesis
  proof (cases "threads s ! i")
    case (SubmitTrack job)
    with sec thread show ?thesis
      by (auto simp: jobs_move_def submit_track_def thread_ok_def job_step.submitted)
  next
    case (CancelState j)
    with sec thread show ?thesis
      by (auto simp: thread_ok_def job_step.dropped intro!: jobs_move_set_state)
  next
    case (RunState job)
    with sec thread show ?thesis
      by (auto simp: thread_ok_def job_step.started intro!: jobs_move_set_state)
  next
    case (RunFinish job r)
    with sec thread show ?thesis
      by (auto simp: thread_ok_def job_step.ended intro!: jobs_move_set_state)
  next
    case WorkerScan
    with sec show ?thesis by (intro scan_section_moves [OF inv]) simp
  next
    case (WorkerSweep ids)
    with sec show ?thesis by (intro scan_section_moves [OF inv]) simp
  qed (use sec in \<open>auto intro!: jobs_move_same dest!: after_persist_tracker
        simp: submit_deps_def submit_meta_def submit_push_def set_dead_def cancel_dequeue_def cancel_token_def
          run_register_def run_unregister_def finish_sched_def Let_def split: if_splits option.splits\<close>)
next
  case (body_report c job x n b tr)
  then show ?thesis
    using reports_keep(3) [OF sys_invD(3) [OF inv], where clock = c and j = "job_ident job" and x = x
        and c = "flags (shr s) n"] by (simp add: jobs_move_same)
next
  case (body_message c job x msg n b tr)
  then show ?thesis
    using reports_keep(4) [OF sys_invD(3) [OF inv], where clock = c and j = "job_ident job" and x = x
        and msg = msg and c = "flags (shr s) n"] by (simp add: jobs_move_same)
qed (simp_all add: jobs_move_same)

lemma sys_step_moves: "sys_step up s s' \<Longrightarrow> sys_inv s \<Longrightarrow> jobs_move (shr s) (shr s')"
proof (induction rule: sys_step.induct)
  case (thread i s t' sh')
  then show ?case using thread_step_moves by simp
qed (simp_all add: jobs_move_same attach_db_def set_shutdown_def)

lemma terminal_stays:
  assumes "sys_reach up s s'" "sys_inv s" "terminal_opt (job_tracked (shr s) j)"
  shows "job_tracked (shr s') j = job_tracked (shr s) j"
  using assms(1) unfolding sys_reach_def
proof (induction rule: rtranclp_induct)
  case (step y z)
  then have "sys_inv y" using reach_inv [OF _ assms(2)] by (simp add: sys_reach_def)
  then have "jobs_move (shr y) (shr z)" by (rule sys_step_moves [OF step.hyps(2)])
  then show ?case
    using step.IH assms(3) job_step_terminal unfolding jobs_move_def by metis
qed simp

end
