(* ===== verification/Runs.thy ===== *)
theory Runs
  imports Interleaving
begin

text \<open>
  Runs of the transition system.  \<open>perform\<close> executes one chosen step and is sound for \<open>sys_step\<close>, so
  a schedule evaluates to a reachable state; the methods of theory \<open>Pipeline\<close> are runs of one thread
  that no other thread interrupts.
\<close>

datatype 'x choice =
    Submit "'x job" "u64 list"
  | Cancel u64
  | Worker
  | Stop
  | Section nat int
  | Report nat int f64
  | End nat outcome

fun body_of :: "'x thread \<Rightarrow> ('x job \<times> nat) option" where
  "body_of (RunBody job n) = Some (job, n)"
| "body_of t = None"

lemma body_of_Some: "body_of t = Some (job, n) \<longleftrightarrow> t = RunBody job n"
  by (cases t) auto

fun perform :: "'d upsert \<Rightarrow> 'x choice \<Rightarrow> ('x, 'd) sys \<Rightarrow> ('x, 'd) sys option" where
  "perform up (Submit job ds) s =
     (if job_ident job \<in> used_ids s then None
      else Some (s\<lparr>threads := threads s @ [SubmitStart job ds], used_ids := insert (job_ident job) (used_ids s)\<rparr>))"
| "perform up (Cancel j) s = Some (s\<lparr>threads := threads s @ [CancelStart j]\<rparr>)"
| "perform up Worker s = Some (s\<lparr>threads := threads s @ [WorkerLoop]\<rparr>)"
| "perform up Stop s = Some (s\<lparr>shr := set_shutdown (shr s)\<rparr>)"
| "perform up (Section i c) s =
     (if i < length (threads s) \<and> body_of (threads s ! i) = None
      then (let r = section_of up c (threads s ! i) (shr s)
            in Some (s\<lparr>shr := snd r, threads := (threads s)[i := fst r]\<rparr>))
      else None)"
| "perform up (Report i c x) s =
     (if i < length (threads s) then
        (case body_of (threads s ! i) of
           Some (job, n) \<Rightarrow>
             Some (s\<lparr>shr := (shr s)\<lparr>tracker :=
               snd (report (reporter_for c (job_ident job)) x (flags (shr s) n, tracker (shr s)))\<rparr>\<rparr>)
         | None \<Rightarrow> None)
      else None)"
| "perform up (End i r) s =
     (if i < length (threads s) then
        (case body_of (threads s ! i) of
           Some (job, n) \<Rightarrow> Some (s\<lparr>threads := (threads s)[i := RunUnregister job r]\<rparr>)
         | None \<Rightarrow> None)
      else None)"

fun perform_all :: "'d upsert \<Rightarrow> 'x choice list \<Rightarrow> ('x, 'd) sys \<Rightarrow> ('x, 'd) sys option" where
  "perform_all up [] s = Some s"
| "perform_all up (ch # chs) s = Option.bind (perform up ch s) (perform_all up chs)"

lemma perform_step: "perform up ch s = Some s' \<Longrightarrow> sys_step up s s'"
proof (induction up ch s rule: perform.induct)
  case (1 up job ds s)
  then show ?case using sys_step.start_submit by (fastforce split: if_splits)
next
  case (2 up j s)
  then show ?case using sys_step.start_cancel by fastforce
next
  case (3 up s)
  then show ?case using sys_step.start_worker by fastforce
next
  case (4 up s)
  then show ?case using sys_step.stop by fastforce
next
  case (5 up i c s)
  then have i: "i < length (threads s)" "body_of (threads s ! i) = None"
    and s': "s' = s\<lparr>shr := snd (section_of up c (threads s ! i) (shr s)),
      threads := (threads s)[i := fst (section_of up c (threads s ! i) (shr s))]\<rparr>"
    by (auto simp: Let_def split: if_splits)
  have "\<nexists>job n. threads s ! i = RunBody job n" using i(2) by (metis body_of_Some option.distinct(1))
  then show ?case
    unfolding s' by (intro sys_step.thread i(1) determined) simp_all
next
  case (6 up i c x s)
  then obtain job n where i: "i < length (threads s)" "threads s ! i = RunBody job n"
    by (auto simp: body_of_Some split: if_splits option.splits)
  obtain b tr where rep: "report (reporter_for c (job_ident job)) x (flags (shr s) n, tracker (shr s)) = (b, tr)"
    by fastforce
  have "(threads s)[i := RunBody job n] = threads s" by (metis i(2) list_update_id)
  then have "s' = s\<lparr>shr := (shr s)\<lparr>tracker := tr\<rparr>, threads := (threads s)[i := RunBody job n]\<rparr>"
    using 6 i rep by (cases s) auto
  then show ?case using sys_step.thread [OF i(1)] body_report [OF rep, of up] i(2) by simp
next
  case (7 up i r s)
  then obtain job n where i: "i < length (threads s)" "threads s ! i = RunBody job n"
    by (auto simp: body_of_Some split: if_splits option.splits)
  then have "s' = s\<lparr>shr := shr s, threads := (threads s)[i := RunUnregister job r]\<rparr>"
    using 7 by simp
  moreover have "sys_step up s (s\<lparr>shr := shr s, threads := (threads s)[i := RunUnregister job r]\<rparr>)"
    by (intro sys_step.thread [OF i(1)]) (simp add: i(2) body_end)
  ultimately show ?case by (simp only:)
qed

lemma perform_all_reach: "perform_all up chs s = Some s' \<Longrightarrow> sys_reach up s s'"
proof (induction chs arbitrary: s)
  case (Cons ch chs)
  then obtain s1 where s1: "perform up ch s = Some s1" "perform_all up chs s1 = Some s'"
    by (auto simp: bind_eq_Some_conv)
  from Cons.IH [OF s1(2)] perform_step [OF s1(1)] show ?case
    unfolding sys_reach_def by (rule converse_rtranclp_into_rtranclp [rotated])
qed (simp add: sys_reach_def)

subsection \<open>The methods as uninterrupted runs\<close>

definition thread_run ::
  "'d upsert \<Rightarrow> 'x thread \<times> ('x, 'd) shared \<Rightarrow> 'x thread \<times> ('x, 'd) shared \<Rightarrow> bool" where
  "thread_run up = (\<lambda>p q. thread_step up (fst p) (snd p) (fst q) (snd q))\<^sup>*\<^sup>*"

lemma thread_run_refl: "thread_run up p p"
  by (simp add: thread_run_def)

lemma thread_run_section:
  assumes "body_of t = None" "thread_run up (section_of up c t sh) p"
  shows "thread_run up (t, sh) p"
proof -
  have "\<nexists>job n. t = RunBody job n" using assms(1) by (metis body_of_Some option.distinct(1))
  then have "thread_step up t sh (fst (section_of up c t sh)) (snd (section_of up c t sh))"
    by (intro determined) simp_all
  with assms(2) show ?thesis
    unfolding thread_run_def by (intro converse_rtranclp_into_rtranclp [of _ "(t, sh)"]) simp_all
qed

lemma thread_run_persist:
  assumes "persist up c j st err sh = Some sh'" "thread_run up (t, sh') p"
  shows "thread_run up (after_persist up c j st err t sh) p"
  using assms by (simp add: after_persist_def)

text \<open>\<open>submit_with_deps\<close> is the run of a submission, and \<open>cancel\<close> that of a cancellation.\<close>

lemma submit_is_run:
  assumes "submit_with_deps up c job ds sh = Some (r, sh')"
  shows "thread_run up (SubmitStart job ds, sh) (SubmitReturned r, sh')"
proof (cases "shutdown sh")
  case True
  with assms have "r = Inl ChannelClosed" "sh' = sh" by (simp_all add: submit_with_deps_def)
  with True show ?thesis
    by (intro thread_run_section [where c = c]) (simp_all add: thread_run_refl)
next
  case False
  define sh1 where "sh1 = submit_meta c job (submit_track c job (submit_deps job ds sh))"
  from False assms obtain sh2 where p: "persist up c (job_ident job) Pending None sh1 = Some sh2"
    "r = Inr (job_ident job)" "sh' = submit_push job sh2"
    by (auto simp: submit_with_deps_def Let_def sh1_def bind_eq_Some_conv)
  have "thread_run up (SubmitPush job, sh2) (SubmitReturned r, sh')"
    by (rule thread_run_section [where c = c]) (simp_all add: p(2,3) thread_run_refl)
  then have "thread_run up (SubmitPersist job, sh1) (SubmitReturned r, sh')"
    by (intro thread_run_section [where c = c and t = "SubmitPersist job"])
      (simp_all add: thread_run_persist [OF p(1)])
  then have "thread_run up (SubmitDeps job ds, sh) (SubmitReturned r, sh')"
    unfolding sh1_def
    by (intro thread_run_section [where c = c and t = "SubmitDeps job ds"], simp, simp,
        intro thread_run_section [where c = c and t = "SubmitTrack job"], simp, simp,
        intro thread_run_section [where c = c and t = "SubmitMeta job"]) simp_all
  with False show ?thesis
    by (intro thread_run_section [where c = c]) simp_all
qed

lemma cancel_is_run:
  assumes "cancel up c j sh = Some (r, sh')"
  shows "thread_run up (CancelStart j, sh) (CancelReturned j r, sh')"
proof (cases "snapshot j (tracker sh)")
  case None
  with assms show ?thesis
    by (intro thread_run_section [where c = c]) (auto simp: cancel_def thread_run_refl)
next
  case found: (Some p)
  have "thread_run up (CancelDequeue j, sh) (CancelReturned j r, sh')"
  proof (cases "cancel_dequeue j sh")
    case None
    with found assms have "r = Inr ()" "sh' = cancel_token j sh" by (simp_all add: cancel_def)
    with None show ?thesis
      by (intro thread_run_section [where c = c and t = "CancelDequeue j"], simp, simp,
          intro thread_run_section [where c = c]) (simp_all add: thread_run_refl)
  next
    case (Some sh1)
    with found assms obtain sh2 where
      p: "persist up c j JobCancelled None (set_dead j (set_state c j JobCancelled sh1)) = Some sh2"
      "r = Inr ()" "sh' = sh2"
      by (auto simp: cancel_def Let_def bind_eq_Some_conv)
    have "thread_run up (CancelPersist j, set_dead j (set_state c j JobCancelled sh1)) (CancelReturned j r, sh')"
      by (rule thread_run_section [where c = c])
        (simp_all add: p thread_run_persist [OF p(1)] thread_run_refl)
    then show ?thesis
      using Some
      by (intro thread_run_section [where c = c and t = "CancelDequeue j"], simp, simp,
          intro thread_run_section [where c = c and t = "CancelState j"], simp, simp,
          intro thread_run_section [where c = c and t = "CancelSched j"]) simp_all
  qed
  with found show ?thesis
    by (intro thread_run_section [where c = c and t = "CancelStart j"]) simp_all
qed

subsection \<open>Schedules of a small pipeline\<close>

lemmas run_simps = sys_init_def shared_default_def queue_new_def scheduler_new_def tracker_new_def
  after_persist_def persist_def submit_deps_def submit_track_def submit_meta_def submit_push_def
  sched_register_def tracker_register_def queue_push_def partition_point_def list_insert_def
  entry_order_le_def Let_def scan_section_def blocked_ids_def queue_ids_def is_blocked_forever_def
  take_next_def queue_is_empty_def pop_ready_def is_ready_def list_remove_def snapshot_def
  cancel_dequeue_def queue_remove_def cancel_token_def set_state_def set_dead_def update_state_def
  is_terminal_def run_register_def run_unregister_def finish_sched_def mark_completed_def mark_dead_def
  tracked_state_def dependency_failed_def

definition sample_job :: "u64 \<Rightarrow> unit job" where
  "sample_job j =
     \<lparr>job_ident = j, job_prio = Normal, job_asset = from_parts 1 2 3, job_kind = ''waveform'',
      job_payload = [], job_body = ()\<rparr>"

text \<open>Thread 0 submits job 1; thread 1 is a worker that takes it.\<close>

definition taken_schedule :: "unit choice list" where
  "taken_schedule =
     [Submit (sample_job 1) [], Section 0 0, Section 0 0, Section 0 0, Section 0 0, Section 0 0, Section 0 0,
      Worker, Section 1 0, Section 1 0]"

text \<open>Thread 2 cancels the job and returns before the worker registers its reporter.\<close>

definition cancelled_schedule :: "unit choice list" where
  "cancelled_schedule = [Cancel 1, Section 2 0, Section 2 0, Section 2 0]"

text \<open>The worker runs the job to its end with the given outcome.\<close>

definition finish_schedule :: "outcome \<Rightarrow> unit choice list" where
  "finish_schedule r =
     [Section 1 0, Section 1 0, Section 1 0, End 1 r, Section 1 0, Section 1 0, Section 1 0, Section 1 0]"

lemma taken_run:
  "\<exists>s. perform_all up taken_schedule sys_init = Some s \<and>
     threads s = [SubmitReturned (Inr 1), RunState (sample_job 1)] \<and> job_tracked (shr s) 1 = Some Pending"
  by (simp add: taken_schedule_def sample_job_def run_simps)

lemma lost_cancel_run:
  "\<exists>s1 s2. perform_all up (taken_schedule @ cancelled_schedule) sys_init = Some s1 \<and>
     threads s1 = [SubmitReturned (Inr 1), RunState (sample_job 1), CancelReturned 1 (Inr ())] \<and>
     job_tracked (shr s1) 1 = Some Pending \<and>
     perform_all up (finish_schedule JobOk) s1 = Some s2 \<and>
     job_tracked (shr s2) 1 = Some Completed \<and> (\<forall>n. \<not> flags (shr s2) n)"
  by (simp add: taken_schedule_def cancelled_schedule_def finish_schedule_def sample_job_def run_simps)

text \<open>Job 1 runs to its end, then job 2, which depends on it, is submitted and taken.\<close>

definition chain_schedule :: "unit choice list" where
  "chain_schedule =
     taken_schedule @ finish_schedule JobOk @
     [Submit (sample_job 2) [1], Section 2 0, Section 2 0, Section 2 0, Section 2 0, Section 2 0, Section 2 0,
      Section 1 0, Section 1 0, Section 1 0]"

lemma chain_run:
  "\<exists>s. perform_all up chain_schedule sys_init = Some s \<and>
     threads s = [SubmitReturned (Inr 1), RunPersist (sample_job 2), SubmitReturned (Inr 2)] \<and>
     1 \<in> dependencies (scheduler (shr s)) 2 \<and> job_tracked (shr s) 1 = Some Completed"
  by (simp add: chain_schedule_def taken_schedule_def finish_schedule_def sample_job_def run_simps
      dependencies_def)

text \<open>The same with a failing job 1: the worker sweeps job 2 out of the queue.\<close>

definition broken_chain_schedule :: "unit choice list" where
  "broken_chain_schedule =
     taken_schedule @ finish_schedule JobPanic @
     [Submit (sample_job 2) [1], Section 2 0, Section 2 0, Section 2 0, Section 2 0, Section 2 0, Section 2 0,
      Section 1 0, Section 1 0, Section 1 0]"

lemma broken_chain_run:
  "\<exists>s. perform_all up broken_chain_schedule sys_init = Some s \<and>
     job_tracked (shr s) 1 = Some Failed \<and> job_tracked (shr s) 2 = Some JobCancelled"
  by (simp add: broken_chain_schedule_def taken_schedule_def finish_schedule_def sample_job_def run_simps)

end
