(* ===== verification/Workers.thy ===== *)
theory Workers
  imports Runs
begin

text \<open>
  The worker (\<open>tpt-av-asset-pipeline/src/worker.rs\<close>) is a run of the transition system too: the sweep over the blocked
  jobs, the pop, and the run of a job whose body does nothing to the pipeline but report and cancel its own token.
\<close>

subsection \<open>Bodies\<close>

text \<open>What the body of a job may do to the flag of its reporter and to the registry, and a body that does nothing else.\<close>

inductive body_step :: "int \<Rightarrow> u64 \<Rightarrow> tracker shared_flag \<Rightarrow> tracker shared_flag \<Rightarrow> bool" for c j where
  reported: "body_step c j p (report (reporter_for c j) x p)"
| reported_text: "body_step c j p (report_with_message (reporter_for c j) x msg p)"
| cancelled_itself: "body_step c j p (reporter_cancel p)"

abbreviation body_steps :: "int \<Rightarrow> u64 \<Rightarrow> tracker shared_flag \<Rightarrow> tracker shared_flag \<Rightarrow> bool" where
  "body_steps c j \<equiv> (body_step c j)\<^sup>*\<^sup>*"

definition honest_body :: "int \<Rightarrow> 'x execute \<Rightarrow> bool" where
  "honest_body c execute \<longleftrightarrow> (\<forall>x j p. body_steps c j p (snd (execute x (reporter_for c j) p)))"

lemma reporter_for_flag: "fst (report (reporter_for c j) x p) = fst p" "fst (report_with_message (reporter_for c j) x msg p) = fst p"
  by (cases p; simp add: report_def report_with_message_def report_event_def reporter_for_def with_callback_def reporter_default_def)+

text \<open>The body's part of the shared state, when it holds flag \<open>n\<close>.\<close>

definition with_body :: "nat \<Rightarrow> tracker shared_flag \<Rightarrow> ('x, 'd) shared \<Rightarrow> ('x, 'd) shared" where
  "with_body n p sh = sh\<lparr>flags := (flags sh)(n := fst p), tracker := snd p\<rparr>"

lemma with_body_simps [simp]: "flags (with_body n p sh) n = fst p" "tracker (with_body n p sh) = snd p"
  by (simp_all add: with_body_def)

lemma body_step_thread:
  assumes "body_step c (job_ident job) p q"
  shows "thread_step up (RunBody job n) (with_body n p sh) (RunBody job n) (with_body n q sh)"
  using assms
proof cases
  case (reported x)
  have "thread_step up (RunBody job n) (with_body n p sh) (RunBody job n) ((with_body n p sh)\<lparr>tracker := snd q\<rparr>)"
    by (rule body_report [of c job x _ n "fst q"]) (simp add: reported)
  moreover have "(with_body n p sh)\<lparr>tracker := snd q\<rparr> = with_body n q sh" by (simp add: with_body_def reported reporter_for_flag)
  ultimately show ?thesis by simp
next
  case (reported_text x msg)
  have "thread_step up (RunBody job n) (with_body n p sh) (RunBody job n) ((with_body n p sh)\<lparr>tracker := snd q\<rparr>)"
    by (rule body_message [of c job x msg _ n "fst q"]) (simp add: reported_text)
  moreover have "(with_body n p sh)\<lparr>tracker := snd q\<rparr> = with_body n q sh" by (simp add: with_body_def reported_text reporter_for_flag)
  ultimately show ?thesis by simp
next
  case cancelled_itself
  have "thread_step up (RunBody job n) (with_body n p sh) (RunBody job n) ((with_body n p sh)\<lparr>flags := (flags (with_body n p sh))(n := True)\<rparr>)"
    by (rule body_cancel)
  moreover have "(with_body n p sh)\<lparr>flags := (flags (with_body n p sh))(n := True)\<rparr> = with_body n q sh"
    by (simp add: with_body_def cancelled_itself reporter_cancel_def)
  ultimately show ?thesis by simp
qed

lemma thread_run_trans: "thread_run up a b \<Longrightarrow> thread_run up b c \<Longrightarrow> thread_run up a c"
  unfolding thread_run_def by (rule rtranclp_trans)

lemma body_run:
  assumes "body_steps c (job_ident job) p q"
  shows "thread_run up (RunBody job n, with_body n p sh) (RunBody job n, with_body n q sh)"
  using assms
proof (induction rule: rtranclp_induct)
  case (step q r)
  have "thread_run up (RunBody job n, with_body n q sh) (RunBody job n, with_body n r sh)"
    unfolding thread_run_def by (rule r_into_rtranclp) (simp add: body_step_thread [OF step(2)])
  with step.IH show ?case by (rule thread_run_trans)
qed (simp add: thread_run_refl)

subsection \<open>Running a job\<close>

lemma run_job_is_run:
  assumes "run_job up c execute job sh = Some sh'" "honest_body c execute"
  shows "thread_run up (RunState job, sh) (WorkerLoop, sh')"
proof -
  let ?j = "job_ident job"
  obtain sh1 where sh1: "persist up c ?j Running None (set_state c ?j Running sh) = Some sh1"
    using assms(1) by (auto simp: run_job_def Let_def bind_eq_Some_conv)
  obtain n sh2 where reg: "run_register ?j sh1 = (n, sh2)" by fastforce
  obtain r p where ex: "execute (job_body job) (reporter_for c ?j) (flags sh2 n, tracker sh2) = (r, p)" by (metis prod.collapse)
  let ?sh3 = "run_unregister ?j (with_body n p sh2)"
  let ?sh4 = "finish_sched ?j (fst (outcome_state r)) (set_state c ?j (fst (outcome_state r)) ?sh3)"
  have last: "persist up c ?j (fst (outcome_state r)) (snd (outcome_state r)) ?sh4 = Some sh'"
    using assms(1) sh1 reg ex by (cases p) (auto simp: run_job_def Let_def with_body_def split: prod.splits)
  have "with_body n (flags sh2 n, tracker sh2) sh2 = sh2" by (simp add: with_body_def)
  moreover have "body_steps c ?j (flags sh2 n, tracker sh2) p" using assms(2) ex unfolding honest_body_def by (metis snd_conv)
  ultimately have body: "thread_run up (RunBody job n, sh2) (RunBody job n, with_body n p sh2)" using body_run by metis
  have "thread_run up (RunEnd job r, ?sh4) (WorkerLoop, sh')"
    by (rule thread_run_section [where c = c]) (simp_all add: thread_run_persist [OF last] thread_run_refl)
  then have "thread_run up (RunUnregister job r, with_body n p sh2) (WorkerLoop, sh')"
    by (intro thread_run_section [where c = c and t = "RunUnregister job r"], simp, simp,
        intro thread_run_section [where c = c and t = "RunFinish job r"], simp, simp,
        intro thread_run_section [where c = c and t = "RunSched job r"]) simp_all
  moreover have "thread_run up (RunBody job n, with_body n p sh2) (RunUnregister job r, with_body n p sh2)"
    unfolding thread_run_def by (rule r_into_rtranclp) (simp add: body_end)
  ultimately have "thread_run up (RunBody job n, sh2) (WorkerLoop, sh')" using body thread_run_trans by blast
  then have "thread_run up (RunRegister job, sh1) (WorkerLoop, sh')"
    by (intro thread_run_section [where c = c and t = "RunRegister job"]) (simp_all add: reg)
  then have "thread_run up (RunPersist job, set_state c ?j Running sh) (WorkerLoop, sh')"
    by (intro thread_run_section [where c = c and t = "RunPersist job"]) (simp_all add: thread_run_persist [OF sh1])
  then show ?thesis by (intro thread_run_section [where c = c and t = "RunState job"]) simp_all
qed

subsection \<open>A turn of the loop\<close>

fun after_take :: "'x take \<Rightarrow> 'x thread" where
  "after_take (TakeJob job) = RunState job"
| "after_take TakeEmpty = WorkerIdle"
| "after_take TakeShutdown = WorkerReturned"

lemma sweep_is_run:
  assumes "sweep up c ids sh = Some sh1" "take_next sh1 = (t, sh')"
  shows "thread_run up (scan_section c ids sh) (after_take t, sh')"
  using assms
proof (induction up c ids sh rule: sweep.induct)
  case (1 up c ids sh)
  obtain x sh2 where locked: "sweep_locked c ids sh = (x, sh2)" by fastforce
  show ?case
  proof (cases x)
    case None
    with locked 1(2,3) have "scan_section c ids sh = (after_take t, sh')"
      by (cases t) (simp_all add: sweep.simps [of up c ids] scan_section_def)
    then show ?thesis by (simp add: thread_run_refl)
  next
    case (Some y)
    obtain i rest where y: "y = (i, rest)" by fastforce
    obtain sh3 where p: "persist up c i JobCancelled (Some dependency_failed) sh2 = Some sh3" "sweep up c rest sh3 = Some sh1"
      using 1(2) locked Some y by (auto simp: sweep.simps [of up c ids] bind_eq_Some_conv)
    have "thread_run up (scan_section c rest sh3) (after_take t, sh')"
      using 1(1) [OF locked [symmetric]] Some y p 1(3) by blast
    then have "thread_run up (WorkerSweep rest, sh3) (after_take t, sh')"
      by (intro thread_run_section [where c = c]) simp_all
    then have "thread_run up (SweepPersist i rest, sh2) (after_take t, sh')"
      by (intro thread_run_section [where c = c]) (simp_all add: thread_run_persist [OF p(1)])
    moreover have "scan_section c ids sh = (SweepPersist i rest, sh2)" using locked Some y by (simp add: scan_section_def)
    ultimately show ?thesis by simp
  qed
qed

lemma worker_turn_is_run:
  assumes "worker_turn up c execute sh = Some (finished, sh')" "honest_body c execute"
  shows "thread_run up (WorkerScan, sh) (if finished then WorkerReturned else WorkerLoop, sh')"
proof -
  obtain sh1 where swept: "sweep up c (blocked_ids sh) sh = Some sh1"
    using assms(1) by (auto simp: worker_turn_def try_take_def bind_eq_Some_conv)
  obtain t sh2 where next_: "take_next sh1 = (t, sh2)" by fastforce
  note taken = swept next_
  have scan: "thread_run up (WorkerScan, sh) (after_take t, sh2)"
    using sweep_is_run [OF taken] by (intro thread_run_section [where c = c]) simp_all
  note turn = assms(1) [unfolded worker_turn_def try_take_def, unfolded taken(1), simplified, unfolded taken(2)]
  have "thread_run up (after_take t, sh2) (if finished then WorkerReturned else WorkerLoop, sh')"
  proof (cases t)
    case (TakeJob job)
    with turn have "run_job up c execute job sh2 = Some sh'" "\<not> finished" by auto
    with run_job_is_run [OF this(1) assms(2)] TakeJob show ?thesis by simp
  next
    case TakeEmpty
    with turn have "finished \<longleftrightarrow> shutdown sh2 \<and> queue_is_empty (queue sh2)" "sh' = sh2" by auto
    with TakeEmpty show ?thesis
      by (intro thread_run_section [where c = c]) (simp_all add: thread_run_refl)
  next
    case TakeShutdown
    with turn show ?thesis by (auto simp: thread_run_refl)
  qed
  with scan show ?thesis by (rule thread_run_trans)
qed

text \<open>The whole loop, for any number of turns.\<close>

lemma worker_run_is_run:
  assumes "worker_run up c execute fuel sh = Some sh'" "honest_body c execute"
  shows "\<exists>t. t \<in> {WorkerLoop, WorkerReturned} \<and> thread_run up (WorkerLoop, sh) (t, sh')"
  using assms(1)
proof (induction fuel arbitrary: sh)
  case 0
  then show ?case by (auto intro: exI [of _ WorkerLoop] thread_run_refl)
next
  case (Suc fuel)
  show ?case
  proof (cases "shutdown sh")
    case True
    with Suc.prems show ?thesis
      by (intro exI [of _ WorkerReturned] conjI thread_run_section [where c = c]) (simp_all add: thread_run_refl)
  next
    case False
    with Suc.prems obtain finished sh1 where turn: "worker_turn up c execute sh = Some (finished, sh1)"
      "(if finished then Some sh1 else worker_run up c execute fuel sh1) = Some sh'" by (auto simp: bind_eq_Some_conv)
    have one: "thread_run up (WorkerLoop, sh) (if finished then WorkerReturned else WorkerLoop, sh1)"
      using worker_turn_is_run [OF turn(1) assms(2)] False by (intro thread_run_section [where c = c]) simp_all
    show ?thesis
    proof (cases finished)
      case True
      with turn(2) one show ?thesis by (intro exI [of _ WorkerReturned]) simp
    next
      case False
      with turn(2) have "worker_run up c execute fuel sh1 = Some sh'" by simp
      then obtain t where t: "t \<in> {WorkerLoop, WorkerReturned}" "thread_run up (WorkerLoop, sh1) (t, sh')"
        using Suc.IH by blast
      from one False have "thread_run up (WorkerLoop, sh) (WorkerLoop, sh1)" by simp
      from thread_run_trans [OF this t(2)] t(1) show ?thesis by blast
    qed
  qed
qed

end
