(* ===== verification/WaveformJobs.thy ===== *)
theory WaveformJobs
  imports JobEffects ThumbnailFiles
begin

text \<open>
  What a waveform job leaves (\<open>tpt-av-asset-pipeline/src/jobs.rs\<close>): it opens the peaks file of its asset, which may
  hold a first part of the peaks from an earlier run, generates the rest behind it, and registers the file.
\<close>

subsection \<open>What a run never changes of a cache\<close>

definition cache_params :: "waveform_cache \<Rightarrow> string \<times> u32 \<times> u32" where
  "cache_params c = (peaks_path c, reader_chunk_size (peaks_reader c), reader_sample_rate (peaks_reader c))"

lemma cache_params_file [simp]: "cache_params (c\<lparr>peaks_file := f\<rparr>) = cache_params c"
  "cache_params (c\<lparr>peaks_reader := (peaks_reader c)\<lparr>reader_count := n\<rparr>\<rparr>) = cache_params c"
  by (simp_all add: cache_params_def)

lemma on_file_params: "on_file m c = (r, c') \<Longrightarrow> cache_params c' = cache_params c"
  by (auto simp: on_file_def split: prod.splits)

lemma set_chunk_count_params: "set_chunk_count n c = (r, c') \<Longrightarrow> cache_params c' = cache_params c"
  unfolding set_chunk_count_def by (erule then_tryE | erule on_file_params [THEN trans [rotated]] | fastforce dest: on_file_params)+

lemma write_chunk_params: "write_chunk chunk c = (r, c') \<Longrightarrow> cache_params c' = cache_params c"
  unfolding write_chunk_def Let_def
  by (erule then_tryE | fastforce dest: on_file_params set_chunk_count_params split: if_splits)+

lemma waveform_finish_params: "waveform_finish c = (r, c') \<Longrightarrow> cache_params c' = cache_params c"
  unfolding waveform_finish_def by (rule on_file_params)

lemma peaks_loop_params:
  assumes "peaks_loop env decode rep nch buf_len tot index done_frames c s p = Some y"
  shows "cache_params (fst (snd y)) = cache_params c"
proof (rule peaks_loop.raw_induct [where P = "\<lambda>env decode rep nch buf_len tot index done_frames c s p y.
      cache_params (fst (snd y)) = cache_params c", OF _ assms], goal_cases)
  case (1 loop env decode rep nch buf_len tot index done_frames c s p y)
  from 1(2) show ?case
    by (auto simp: Let_def dest!: 1(1) write_chunk_params split: sum.splits prod.splits if_splits)
qed

lemma generate_stream_params:
  assumes "generate_stream env decode rep g info c s p = Some (r, c', s', p')"
  shows "cache_params c' = cache_params c"
proof -
  let ?nch = "max 1 (unat (stream_channels info))" and ?n = "reader_count (peaks_reader c)"
  let ?tot = "case total_frames info of Some n \<Rightarrow> n
      | None \<Rightarrow> f64_to_u64 (f64_mul (case stream_duration info of Some d \<Rightarrow> d | None \<Rightarrow> f64_zero)
          (f64_of_nat (max 1 (unat (stream_sample_rate info)))))"
  obtain r1 s1 p1 where skip: "skip_loop env decode ?nch (unat (gen_chunk_size g) * ?nch) (unat (?n * ucast (gen_chunk_size g))) s p = (r1, s1, p1)"
    by (metis prod.collapse)
  note run = assms [unfolded generate_stream_def Let_def skip]
  show ?thesis
  proof (cases r1)
    case (Inl e)
    with run show ?thesis by simp
  next
    case (Inr u)
    with run obtain y where loop: "peaks_loop env decode rep ?nch (unat (gen_chunk_size g) * ?nch) ?tot ?n (?n * ucast (gen_chunk_size g)) c s1 p1 = Some y"
      and rest: "(case y of (Inl e, c, s, p) \<Rightarrow> Some (Inl e, c, s, p)
        | (Inr _, c, s, p) \<Rightarrow> (case waveform_finish c of (Inl e, c) \<Rightarrow> Some (Inl e, c, s, p)
          | (Inr _, c) \<Rightarrow> Some (Inr (), c, s, report rep f64_one p))) = Some (r, c', s', p')"
      by (auto simp: bind_eq_Some_conv)
    have "cache_params c' = cache_params (fst (snd y))"
      using rest by (auto dest: waveform_finish_params split: sum.splits prod.splits)
    with peaks_loop_params [OF loop] show ?thesis by simp
  qed
qed

subsection \<open>What the file holds\<close>

text \<open>The disk before a run: no file yet, a fresh one, or one with a first part of the peaks.\<close>

definition peaks_on_disk :: "u32 \<Rightarrow> u32 \<Rightarrow> f32 list list \<Rightarrow> nat \<Rightarrow> node option \<Rightarrow> bool" where
  "peaks_on_disk csize rate blocks q n \<longleftrightarrow>
     (case n of
        None \<Rightarrow> q = 0
      | Some DirNode \<Rightarrow> False
      | Some (FileNode bs) \<Rightarrow> peaks_content csize rate blocks q bs \<or> q = 0 \<and> peaks_content 0 0 blocks 0 bs)"

lemma empty_header_content: "peaks_content 0 0 blocks 0 empty_header"
  by (simp add: peaks_content_def empty_header_def slice_def u32_to_le_def u64_to_le_def le_bytes_zero replicate_add [symmetric])

subsection \<open>Opening\<close>

text \<open>An opened cache holds the bytes of its file, which is the one that was there, or a new one.\<close>

abbreviation opened_cache :: "asset_id \<Rightarrow> string \<Rightarrow> u32 \<Rightarrow> u32 \<Rightarrow> nat \<Rightarrow> bytes \<Rightarrow> waveform_cache" where
  "opened_cache i p csize rate q bs \<equiv> \<lparr>waveform_asset = i, peaks_path = p, peaks_file = closed_file bs,
     peaks_reader = \<lparr>reader_chunk_size = csize, reader_sample_rate = rate, reader_count = of_nat q\<rparr>\<rparr>"

lemma reader_open_content:
  assumes "peaks_content csize rate blocks q bs"
  shows "reader_open p (closed_file bs) =
    (Inr \<lparr>reader_chunk_size = csize, reader_sample_rate = rate, reader_count = of_nat q\<rparr>, closed_file bs)"
  using assms reader_open_peaks [of bs csize rate p] by (simp add: peaks_content_def from_to_le)

lemma waveform_open_found:
  assumes "waveform_open i st fs = (Inr c, fs')" "fails fs Stat (path_key (waveform_path st i)) = None"
    "peaks_on_disk csize rate blocks q (nodes fs (path_key (waveform_path st i)))"
  obtains cs rt bs where "c = opened_cache i (waveform_path st i) cs rt q bs" "peaks_content cs rt blocks q bs"
    "cs = csize \<and> rt = rate \<or> q = 0 \<and> cs = 0 \<and> rt = 0"
proof -
  let ?p = "waveform_path st i"
  obtain fs1 bs where run: "(if fs_exists ?p fs then (Inr (), fs)
      else then_try (case path_parent ?p of None \<Rightarrow> give () | Some parent \<Rightarrow> create_dir_all parent) (\<lambda>_.
        then_try (write_file ?p []) (\<lambda>_. write_file ?p empty_header)) fs) = (Inr (), fs1)"
    and read: "read_file ?p fs1 = (Inr bs, fs')"
    and opened: "(case reader_open ?p (closed_file bs) of (Inl e, _) \<Rightarrow> (Inl e, fs')
      | (Inr r, f) \<Rightarrow> (Inr \<lparr>waveform_asset = i, peaks_path = ?p, peaks_file = f, peaks_reader = r\<rparr>, fs')) = (Inr c, fs')"
    using assms(1) unfolding waveform_open_def Let_def
    by (fastforce simp: then_try_eq_Inr dest!: read_file_Inr split: sum.splits prod.splits)
  have node: "nodes fs1 (path_key ?p) = Some (FileNode bs)" using read_file_Inr [OF read] by simp
  have "peaks_content csize rate blocks q bs \<or> q = 0 \<and> peaks_content 0 0 blocks 0 bs"
  proof (cases "nodes fs (path_key ?p)")
    case None
    then have "\<not> fs_exists ?p fs" by (simp add: fs_exists_def fs_node_def)
    with run obtain fs2 where "write_file ?p empty_header fs2 = (Inr (), fs1)" by (auto simp: then_try_eq_Inr)
    from write_file_written [OF this] node have "bs = empty_header" by simp
    with None assms(3) empty_header_content show ?thesis by (simp add: peaks_on_disk_def)
  next
    case (Some n)
    with assms(2) have "fs_exists ?p fs" by (simp add: fs_exists_def fs_node_def)
    with run have "fs1 = fs" by simp
    with Some node assms(3) show ?thesis by (simp add: peaks_on_disk_def)
  qed
  then obtain cs rt where holds: "peaks_content cs rt blocks q bs" "cs = csize \<and> rt = rate \<or> q = 0 \<and> cs = 0 \<and> rt = 0"
    by blast
  from opened reader_open_content [OF holds(1), of ?p] have "c = opened_cache i ?p cs rt q bs" by simp
  then show thesis by (rule that [OF _ holds])
qed

text \<open>A fresh file stays without chunks, whatever becomes of its parameters.\<close>

lemma fresh_params:
  assumes "peaks_content 0 0 blocks 0 bs" "length bs \<le> length bs'" "slice 0 8 bs' = slice 0 8 bs" "slice 16 8 bs' = slice 16 8 bs"
  shows "peaks_content (u32_from_le (slice 8 4 bs')) (u32_from_le (slice 12 4 bs')) blocks 0 bs'"
proof -
  have len: "32 \<le> length bs" and cnt: "slice 16 8 bs = u64_to_le 0" and old: "slice 0 16 bs = PEAKS_MAGIC @ u32_to_le 0 @ u32_to_le 0"
    using assms(1) by (simp_all add: peaks_content_def)
  from old have "slice 0 8 (slice 0 16 bs) = PEAKS_MAGIC" by (simp add: slice_def)
  then have "slice 0 8 bs' = PEAKS_MAGIC" using assms(3) by (simp add: slice_slice)
  then have "slice 0 16 bs' = PEAKS_MAGIC @ slice 8 4 bs' @ slice 12 4 bs'"
    using slice_cat [of 8 0 8 bs' 8] slice_cat [of 12 8 4 bs' 4] by simp
  then show ?thesis using assms(2,4) len cnt by (simp add: peaks_content_def to_from_le32 length_slice)
qed

text \<open>
  The parameters of an older file are found equal; those of a fresh file are set, or a failing write leaves it fresh or with
  others, and without chunks.
\<close>

lemma ensure_params_leaves:
  assumes "peaks_content cs rt blocks q bs" "cs = csize \<and> rt = rate \<or> q = 0 \<and> cs = 0 \<and> rt = 0"
    "ensure_params csize rate ((opened_cache i p cs rt q bs)\<lparr>peaks_file := \<lparr>content = bs, offset = n, faults = fl\<rparr>\<rparr>) = (r, c')"
  shows "\<exists>cs' rt'. peaks_content cs' rt' blocks q (content (peaks_file c')) \<and> (cs' = csize \<and> rt' = rate \<or> q = 0)"
    "r = Inr () \<longrightarrow> holds_peaks c' blocks q \<and> cache_params c' = (p, csize, rate)"
    "peaks_path c' = p" "fl = [] \<longrightarrow> r = Inr () \<and> faults (peaks_file c') = []"
proof -
  let ?c = "(opened_cache i p cs rt q bs)\<lparr>peaks_file := \<lparr>content = bs, offset = n, faults = fl\<rparr>\<rparr>"
  have q: "unat (of_nat q :: u64) = q" using assms(1) by (simp add: peaks_content_def unat_of_nat take_bit_eq_mod)
  show "peaks_path c' = p"
    using assms(3) by (auto simp: ensure_params_def Let_def cache_params_def elim!: then_tryE dest!: on_file_params split: if_splits)
  have "(\<exists>cs' rt'. peaks_content cs' rt' blocks q (content (peaks_file c')) \<and> (cs' = csize \<and> rt' = rate \<or> q = 0)) \<and>
    (r = Inr () \<longrightarrow> holds_peaks c' blocks q \<and> cache_params c' = (p, csize, rate)) \<and> (fl = [] \<longrightarrow> r = Inr () \<and> faults (peaks_file c') = [])"
  proof (cases "cs = csize \<and> rt = rate")
    case True
    then have "r = Inr ()" "c' = ?c" using assms(3) by (simp_all add: ensure_params_def)
    with True assms(1) q show ?thesis by (auto simp: holds_peaks_def chunk_count_def cache_params_def)
  next
    case False
    with assms(2) have zero: "q = 0" "cs = 0" "rt = 0" by simp_all
    let ?a = "u32_to_le csize" and ?b = "u32_to_le rate"
    let ?g = "overwrite 8 ?a bs"
    have len: "32 \<le> length bs" and fresh: "peaks_content 0 0 blocks 0 bs" using assms(1) zero by (simp_all add: peaks_content_def)
    have g: "length ?g = length bs" using len by (simp add: length_overwrite length_to_le)
    have torn1: "\<exists>cs' rt'. peaks_content cs' rt' blocks 0 (overwrite 8 (take k ?a) bs)" for k
      using fresh_params [OF fresh length_overwrite_ge, of 8 "take k ?a"] len by (force simp: slice_overwrite_other length_to_le)
    have torn2: "peaks_content (u32_from_le (slice 8 4 bs2)) (u32_from_le (slice 12 4 bs2)) blocks 0 bs2"
      if "bs2 = overwrite 12 (take k ?b) ?g" for k bs2
    proof (rule fresh_params [OF fresh])
      show "length bs \<le> length bs2" using length_overwrite_ge [of ?g 12 "take k ?b"] g that by simp
      show "slice 0 8 bs2 = slice 0 8 bs" "slice 16 8 bs2 = slice 16 8 bs"
        unfolding that by (subst slice_overwrite_other; use g len in \<open>simp add: slice_overwrite_other length_to_le\<close>)+
    qed
    have full: "peaks_content csize rate blocks 0 (overwrite 12 ?b ?g)"
    proof -
      have "slice 12 4 (overwrite 12 ?b ?g) = ?b" "slice 8 4 ?g = ?a"
        using slice_overwrite_same [of 12 ?b ?g] slice_overwrite_same [of 8 ?a bs] len g by (simp_all add: length_to_le)
      moreover have "slice 8 4 (overwrite 12 ?b ?g) = slice 8 4 ?g" by (rule slice_overwrite_other) (use len g in \<open>simp_all add: length_to_le\<close>)
      ultimately show ?thesis using torn2 [of "overwrite 12 ?b ?g" 4] by (simp add: length_to_le from_to_le)
    qed
    let ?E = "\<lambda>c. \<exists>cs' rt'. peaks_content cs' rt' blocks 0 (content (peaks_file c))"
    let ?rd = "\<lparr>reader_chunk_size = 0, reader_sample_rate = 0, reader_count = 0\<rparr> :: waveform_reader"
    have seek: "ends_in (\<lambda>c. content (peaks_file c) = bs \<and> peaks_reader c = ?rd) (on_file (file_seek 8))
        (\<lambda>_ c. (content (peaks_file c) = bs \<and> offset (peaks_file c) = 8) \<and> peaks_reader c = ?rd) ?E"
      by (rule ends_in_weaken [OF on_file_ends [OF file_steps_end(1)]]) (use fresh in auto)
    have size: "ends_in (\<lambda>c. (content (peaks_file c) = bs \<and> offset (peaks_file c) = 8) \<and> peaks_reader c = ?rd) (on_file (file_write ?a))
        (\<lambda>_ c. (content (peaks_file c) = ?g \<and> offset (peaks_file c) = 12) \<and> peaks_reader c = ?rd) ?E"
      by (rule ends_in_weaken [OF on_file_ends [OF file_steps_end(4)]]) (use torn1 in \<open>auto simp: length_to_le\<close>)
    have rate: "ends_in (\<lambda>c. (content (peaks_file c) = ?g \<and> offset (peaks_file c) = 12) \<and> peaks_reader c = ?rd) (on_file (file_write ?b))
        (\<lambda>_ c. content (peaks_file c) = overwrite 12 ?b ?g \<and> peaks_reader c = ?rd) ?E"
      by (rule ends_in_weaken [OF on_file_ends [OF file_steps_end(4)]]) (use torn2 in blast)+
    have set_: "ends_in (\<lambda>c. content (peaks_file c) = overwrite 12 ?b ?g \<and> peaks_reader c = ?rd)
        (\<lambda>c. (Inr (), c\<lparr>peaks_reader := (peaks_reader c)\<lparr>reader_chunk_size := csize, reader_sample_rate := rate\<rparr>\<rparr>))
        (\<lambda>_ c. content (peaks_file c) = overwrite 12 ?b ?g \<and>
           peaks_reader c = \<lparr>reader_chunk_size = csize, reader_sample_rate = rate, reader_count = 0\<rparr>) ?E"
      by (auto simp: ends_in_def)
    note whole = ends_in_then [OF seek ends_in_then [OF size ends_in_then [OF rate set_]]]
    have run: "then_try (on_file (file_seek 8)) (\<lambda>_. then_try (on_file (file_write ?a)) (\<lambda>_. then_try (on_file (file_write ?b)) (\<lambda>_ c.
        (Inr (), c\<lparr>peaks_reader := (peaks_reader c)\<lparr>reader_chunk_size := csize, reader_sample_rate := rate\<rparr>\<rparr>)))) ?c = (r, c')"
      using assms(3) False zero by (auto simp: ensure_params_def Let_def)
    have left: "case r of Inl _ \<Rightarrow> ?E c' | Inr _ \<Rightarrow> content (peaks_file c') = overwrite 12 ?b ?g \<and>
        peaks_reader c' = \<lparr>reader_chunk_size = csize, reader_sample_rate = rate, reader_count = 0\<rparr>"
      using ends_inD [OF whole _ run] zero by simp
    moreover have "fl = [] \<longrightarrow> r = Inr () \<and> faults (peaks_file c') = []"
      using run by (auto simp: then_try_def on_file_def)
    ultimately show ?thesis
      using zero full \<open>peaks_path c' = p\<close> by (cases r) (auto simp: holds_peaks_def chunk_count_def cache_params_def)
  qed
  then show "\<exists>cs' rt'. peaks_content cs' rt' blocks q (content (peaks_file c')) \<and> (cs' = csize \<and> rt' = rate \<or> q = 0)"
    "r = Inr () \<longrightarrow> holds_peaks c' blocks q \<and> cache_params c' = (p, csize, rate)"
    "fl = [] \<longrightarrow> r = Inr () \<and> faults (peaks_file c') = []" by blast+
qed

subsection \<open>The job\<close>

abbreviation wj_peaks :: "waveform_job \<Rightarrow> string" where "wj_peaks j \<equiv> waveform_path (wj_storage j) (wj_asset j)"

text \<open>Once the cache and the source are open, the source is a steady decoder, whose samples make these blocks.\<close>

definition steady_source :: "('s, 'm, 'h, 't, 'd, 'e, 'p) job_env \<Rightarrow> waveform_job \<Rightarrow> ('s \<Rightarrow> f32 list) \<Rightarrow> f32 list list \<Rightarrow> file_system \<Rightarrow> bool" where
  "steady_source E j rest blocks fs \<longleftrightarrow>
     (\<forall>c fs1 s info fs2. waveform_open (wj_asset j) (wj_storage j) fs = (Inr c, fs1) \<longrightarrow>
        open_audio (env_wav E) (env_flac E) (wj_path j) fs1 = (Inr (s, info), fs2) \<longrightarrow>
        (let nch = max 1 (unat (stream_channels info)) in
         steady (env_samples E) rest nch \<and> nch dvd length (rest s) \<and> blocks = chunks_of (unat (wj_chunk_size j) * nch) (rest s)))"

definition waveform_opens :: "('s, 'm, 'h, 't, 'd, 'e, 'p) job_env \<Rightarrow> waveform_job \<Rightarrow> file_system \<Rightarrow> bool" where
  "waveform_opens E j fs \<longleftrightarrow>
     (\<exists>c fs1 s info fs2. waveform_open (wj_asset j) (wj_storage j) fs = (Inr c, fs1) \<and>
        open_audio (env_wav E) (env_flac E) (wj_path j) fs1 = (Inr (s, info), fs2))"

text \<open>A run from an opened cache: what it leaves in the file, and how it ends.\<close>

lemma waveform_generate_leaves:
  assumes c: "peaks_content cs rt blocks q bs" "cs = gen_chunk_size g \<and> rt = gen_sample_rate g \<or> q = 0 \<and> cs = 0 \<and> rt = 0"
    and small: "0 < gen_chunk_size g" "32 + 12 * length blocks < 2 ^ 64" "length blocks * unat (gen_chunk_size g) < 2 ^ 64"
    and stream: "\<forall>s info fs2. open_audio wav_open flac_open src fs = (Inr (s, info), fs2) \<longrightarrow>
      steady decode rest (max 1 (unat (stream_channels info))) \<and> max 1 (unat (stream_channels info)) dvd length (rest s) \<and>
      blocks = chunks_of (unat (gen_chunk_size g) * max 1 (unat (stream_channels info))) (rest s)"
  shows "\<exists>r c' z'. waveform_generate env wav_open flac_open decode rep g src fs
      ((opened_cache i p cs rt q bs)\<lparr>peaks_file := (closed_file bs)\<lparr>faults := fl\<rparr>\<rparr>) z = Some (r, c', z') \<and> peaks_path c' = p \<and>
    (\<exists>cs' rt' q'. peaks_content cs' rt' blocks q' (content (peaks_file c')) \<and> (cs' = gen_chunk_size g \<and> rt' = gen_sample_rate g \<or> q' = 0) \<and>
       (fl = [] \<longrightarrow> cs' = gen_chunk_size g \<and> rt' = gen_sample_rate g \<and> q \<le> q')) \<and>
    (r = Inr () \<longrightarrow> peaks_content (gen_chunk_size g) (gen_sample_rate g) blocks (length blocks) (content (peaks_file c'))) \<and>
    (fl = [] \<and> calm env rep z \<and> never_fails decode \<and> (\<exists>s info fs2. open_audio wav_open flac_open src fs = (Inr (s, info), fs2)) \<longrightarrow> r = Inr ())"
    (is "\<exists>r c' z'. ?run r c' z' \<and> peaks_path c' = p \<and> ?left c' \<and> ?whole r c' \<and> ?runs r")
proof -
  let ?c = "(opened_cache i p cs rt q bs)\<lparr>peaks_file := \<lparr>content = bs, offset = 0, faults = fl\<rparr>\<rparr>"
  obtain x c1 where params: "ensure_params (gen_chunk_size g) (gen_sample_rate g) ?c = (x, c1)" by fastforce
  note ens = ensure_params_leaves [OF c params]
  show ?thesis
  proof (cases x)
    case (Inl e)
    then have "?run (Inl e) c1 z" using params by (simp add: waveform_generate_def)
    with ens Inl show ?thesis by (metis Inl_Inr_False)
  next
    case (Inr u)
    with ens(2) have c1: "holds_peaks c1 blocks q" "peaks_path c1 = p" "reader_chunk_size (peaks_reader c1) = gen_chunk_size g"
      "reader_sample_rate (peaks_reader c1) = gen_sample_rate g" "cache_params c1 = (p, gen_chunk_size g, gen_sample_rate g)"
      by (simp_all add: cache_params_def)
    then have first: "peaks_content (gen_chunk_size g) (gen_sample_rate g) blocks q (content (peaks_file c1))" by (simp add: holds_peaks_def)
    obtain y fs2 where opened: "open_audio wav_open flac_open src fs = (y, fs2)" by fastforce
    show ?thesis
    proof (cases y)
      case (Inl e)
      then have "?run (Inl e) c1 z" using params Inr opened by (simp add: waveform_generate_def)
      with first c1(2) opened Inl show ?thesis by (metis Inl_Inr_False order_refl prod.inject)
    next
      case ok: (Inr si)
      obtain s info where si: "si = (s, info)" by fastforce
      note str = stream [rule_format, OF opened [unfolded ok si]]
      have "q \<le> length blocks" using first by (simp add: peaks_content_def)
      then have "q * unat (gen_chunk_size g) \<le> length blocks * unat (gen_chunk_size g)" by (rule mult_le_mono1)
      then have few: "q * unat (gen_chunk_size g) < 2 ^ 64" using small(3) by (rule le_less_trans)
      have pos: "0 < unat (gen_chunk_size g)" using small(1) by (simp add: unat_gt_0)
      obtain r c' s' z' e where gen: "generate_stream env decode rep g info c1 s z = Some (r, c', s', z')" "peaks_run blocks e c1 q r c'"
        "faults (peaks_file c1) = [] \<and> calm env rep z \<and> never_fails decode \<longrightarrow> r = Inr ()"
        using generate_stream_resumes [of decode rest info g s blocks c1 q env rep z] str pos c1(1) small(2) few by blast
      have params2: "peaks_path c' = p" "reader_chunk_size (peaks_reader c') = gen_chunk_size g" "reader_sample_rate (peaks_reader c') = gen_sample_rate g"
        using generate_stream_params [OF gen(1)] c1(5) by (simp_all add: cache_params_def)
      have "?run r c' z'" using params Inr opened ok si gen(1) by (simp add: waveform_generate_def)
      moreover have "?left c'" using gen(2) ens(4) unfolding peaks_run_def c1(3,4) by blast
      moreover have "?whole r c'" using gen(2) unfolding peaks_run_def holds_peaks_def params2 by blast
      moreover have "?runs r" using gen(3) ens(4) by blast
      ultimately show ?thesis using params2(1) by blast
    qed
  qed
qed

text \<open>
  A run of the job on a disk with the first \<open>q\<close> chunks.  It returns.  When it succeeds the disk holds all chunks and the entry
  is set; when it fails the database is as it was.  If the file could be opened, each record that its header counts is that of
  its block afterwards, and if no write failed there are no fewer than before.
\<close>

lemma waveform_job_effect:
  fixes j :: waveform_job
  defines "k \<equiv> path_key (wj_peaks j)"
  assumes disk: "fails fs Stat k = None" "peaks_on_disk (wj_chunk_size j) (wj_sample_rate j) blocks q (nodes fs k)"
    and stream: "steady_source E j rest blocks fs" "0 < wj_chunk_size j" "32 + 12 * length blocks < 2 ^ 64"
      "length blocks * unat (wj_chunk_size j) < 2 ^ 64"
    and laws: "redb_laws R dr wr rr" "storable_str (to_string_lossy (wj_peaks j))"
  shows "\<exists>r fs' d' z'. job_execute E R rep (WaveformJob j) fs d z = Some (r, fs', d', z') \<and>
    (case r of
       Inr _ \<Rightarrow> peaks_on_disk (wj_chunk_size j) (wj_sample_rate j) blocks (length blocks) (nodes fs' k) \<and>
         entry_set (wj_asset j) WaveformPeaks (wj_peaks j) (dr d) (dr d')
     | Inl _ \<Rightarrow> d' = d) \<and>
    (\<forall>c fs1. waveform_open (wj_asset j) (wj_storage j) fs = (Inr c, fs1) \<longrightarrow>
       (\<exists>bs cs rt q'. nodes fs' k = Some (FileNode bs) \<and> peaks_content cs rt blocks q' bs \<and>
          (cs = wj_chunk_size j \<and> rt = wj_sample_rate j \<or> q' = 0) \<and>
          (env_faults E = [] \<longrightarrow> cs = wj_chunk_size j \<and> rt = wj_sample_rate j \<and> q \<le> q'))) \<and>
    (calm (env_flag E) rep z \<and> env_faults E = [] \<and> never_fails (env_samples E) \<and> waveform_opens E j fs \<longrightarrow>
       peaks_on_disk (wj_chunk_size j) (wj_sample_rate j) blocks (length blocks) (nodes fs' k))"
proof -
  let ?g = "\<lparr>gen_chunk_size = wj_chunk_size j, gen_sample_rate = wj_sample_rate j\<rparr>"
  obtain x fs1 where opened: "waveform_open (wj_asset j) (wj_storage j) fs = (x, fs1)" by fastforce
  show ?thesis
  proof (cases x)
    case (Inl e)
    with opened have "job_execute E R rep (WaveformJob j) fs d z = Some (Inl e, fs1, d, z)" by (simp add: waveform_execute_def)
    with opened Inl show ?thesis by (auto simp: waveform_opens_def)
  next
    case (Inr c)
    obtain cs rt bs where c: "c = opened_cache (wj_asset j) (wj_peaks j) cs rt q bs" "peaks_content cs rt blocks q bs"
      "cs = wj_chunk_size j \<and> rt = wj_sample_rate j \<or> q = 0 \<and> cs = 0 \<and> rt = 0"
      using waveform_open_found [OF opened [unfolded Inr] disk [unfolded k_def]] by blast
    have str: "\<forall>s info fs2. open_audio (env_wav E) (env_flac E) (wj_path j) fs1 = (Inr (s, info), fs2) \<longrightarrow>
        steady (env_samples E) rest (max 1 (unat (stream_channels info))) \<and> max 1 (unat (stream_channels info)) dvd length (rest s) \<and>
        blocks = chunks_of (unat (wj_chunk_size j) * max 1 (unat (stream_channels info))) (rest s)"
      using stream(1) opened Inr unfolding steady_source_def Let_def by blast
    obtain g c2 z2 where gen: "waveform_generate (env_flag E) (env_wav E) (env_flac E) (env_samples E) rep ?g (wj_path j) fs1
        (c\<lparr>peaks_file := (peaks_file c)\<lparr>faults := env_faults E\<rparr>\<rparr>) z = Some (g, c2, z2)" "peaks_path c2 = wj_peaks j"
      "\<exists>cs' rt' q'. peaks_content cs' rt' blocks q' (content (peaks_file c2)) \<and> (cs' = wj_chunk_size j \<and> rt' = wj_sample_rate j \<or> q' = 0) \<and>
         (env_faults E = [] \<longrightarrow> cs' = wj_chunk_size j \<and> rt' = wj_sample_rate j \<and> q \<le> q')"
      "g = Inr () \<longrightarrow> peaks_content (wj_chunk_size j) (wj_sample_rate j) blocks (length blocks) (content (peaks_file c2))"
      "env_faults E = [] \<and> calm (env_flag E) rep z \<and> never_fails (env_samples E) \<and>
         (\<exists>s info fs2. open_audio (env_wav E) (env_flac E) (wj_path j) fs1 = (Inr (s, info), fs2)) \<longrightarrow> g = Inr ()"
      using waveform_generate_leaves [where g = ?g and env = "env_flag E" and rep = rep and i = "wj_asset j" and p = "wj_peaks j" and fl = "env_faults E" and z = z,
          unfolded waveform_generator.select_convs, OF c(2,3) stream(2-4) str]
      unfolding c(1) waveform_cache.select_convs by blast
    obtain r fs' d' z' where res: "record_result R (wj_asset j) WaveformPeaks (wj_peaks j) g (settle_peaks c2 fs1) d z2 = (r, fs', d', z')"
      by (metis prod.collapse)
    have run: "job_execute E R rep (WaveformJob j) fs d z = Some (r, fs', d', z')"
      using opened Inr gen(1,2) res by (simp add: waveform_execute_def)
    note eff = record_result_effect [OF res laws]
    have node: "nodes fs' k = Some (FileNode (content (peaks_file c2)))" using eff(1) gen(2) by (simp add: settle_peaks_def k_def)
    have all: "g = Inr () \<longrightarrow> peaks_on_disk (wj_chunk_size j) (wj_sample_rate j) blocks (length blocks) (nodes fs' k)"
      using gen(4) node by (simp add: peaks_on_disk_def)
    have "case r of Inr _ \<Rightarrow> peaks_on_disk (wj_chunk_size j) (wj_sample_rate j) blocks (length blocks) (nodes fs' k) \<and>
         entry_set (wj_asset j) WaveformPeaks (wj_peaks j) (dr d) (dr d') | Inl _ \<Rightarrow> d' = d"
      using all eff by (cases r) auto
    moreover have "waveform_opens E j fs \<longrightarrow> (\<exists>s info fs2. open_audio (env_wav E) (env_flac E) (wj_path j) fs1 = (Inr (s, info), fs2))"
      using opened by (auto simp: waveform_opens_def)
    ultimately show ?thesis using run gen(3,5) node all by blast
  qed
qed

end
