(* ===== verification/JobRuns.thy ===== *)
theory JobRuns
  imports Workers WaveformJobs
begin

text \<open>
  The bodies of the cache jobs (\<open>tpt-av-asset-pipeline/src/jobs.rs\<close>) on a worker: what they do to the pipeline is to report
  and to poll their token, so they are bodies that theory Workers allows.
\<close>

lemma bind_SomeE: "Option.bind m f = Some y \<Longrightarrow> (\<And>x. m = Some x \<Longrightarrow> f x = Some y \<Longrightarrow> thesis) \<Longrightarrow> thesis"
  by (auto simp: bind_eq_Some_conv)

lemma map_SomeE: "map_option f m = Some y \<Longrightarrow> (\<And>x. m = Some x \<Longrightarrow> f x = y \<Longrightarrow> thesis) \<Longrightarrow> thesis"
  by auto

subsection \<open>What a job relies on\<close>

text \<open>
  The reporter a job is given, and whatever sets its token meanwhile, keep a property of the token and the callback's world.
  Then a job keeps it, as it has no other way to change them.
\<close>

locale reporter_contract =
  fixes rep :: "'p reporter" and env :: "'p shared_flag \<Rightarrow> 'p shared_flag" and P :: "'p shared_flag \<Rightarrow> bool"
  assumes callback: "callback_keeps rep P"
    and meanwhile: "P p \<Longrightarrow> P (env p)"
begin

lemmas reports = report_keeps [OF callback]

lemma skip_loop_keeps: "P p \<Longrightarrow> P (snd (snd (skip_loop env decode nch buf_len to_skip s p)))"
proof (induction to_skip arbitrary: s p rule: less_induct)
  case (less to_skip)
  then show ?case
    by (subst skip_loop.simps) (auto simp: Let_def meanwhile split: sum.split prod.split)
qed

lemma peaks_loop_keeps:
  assumes "peaks_loop env decode rep nch buf_len tot index done_frames c s p = Some z" "P p"
  shows "P (snd (snd (snd z)))"
proof -
  have "env = env \<longrightarrow> rep = rep \<longrightarrow> P p \<longrightarrow> P (snd (snd (snd z)))"
  proof (rule peaks_loop.raw_induct [where P = "\<lambda>env' decode rep' nch buf_len tot index done_frames c s p z.
      env' = env \<longrightarrow> rep' = rep \<longrightarrow> P p \<longrightarrow> P (snd (snd (snd z)))", OF _ assms(1)], goal_cases)
    case (1 loop env' decode rep' nch buf_len tot index done_frames c s p z)
    then show ?case
      by (auto simp: Let_def meanwhile reports split: sum.splits prod.splits if_splits)
  qed
  with assms(2) show ?thesis by blast
qed

lemma audio_loop_keeps:
  assumes "audio_loop env decode rep nch tot done_frames w s p = Some z" "P p"
  shows "P (snd (snd z))"
proof -
  have "env = env \<longrightarrow> rep = rep \<longrightarrow> P p \<longrightarrow> P (snd (snd z))"
  proof (rule audio_loop.raw_induct [where P = "\<lambda>env' decode rep' nch tot done_frames w s p z.
      env' = env \<longrightarrow> rep' = rep \<longrightarrow> P p \<longrightarrow> P (snd (snd z))", OF _ assms(1)], goal_cases)
    case (1 loop env' decode rep' nch tot done_frames w s p z)
    then show ?case
      by (auto simp: Let_def meanwhile reports split: sum.splits prod.splits if_splits)
  qed
  with assms(2) show ?thesis by blast
qed

lemma video_loop_keeps:
  assumes "video_loop env k decode img encode rep keep tot frames_out index last_bucket src sink p = Some z" "P p"
  shows "P (snd (snd z))"
proof -
  have "env = env \<longrightarrow> rep = rep \<longrightarrow> P p \<longrightarrow> P (snd (snd z))"
  proof (rule video_loop.raw_induct [where P = "\<lambda>env' k decode img encode rep' keep tot frames_out index last_bucket src sink p z.
      env' = env \<longrightarrow> rep' = rep \<longrightarrow> P p \<longrightarrow> P (snd (snd z))", OF _ assms(1)], goal_cases)
    case (1 loop env' k decode img encode rep' keep tot frames_out index last_bucket src sink p z)
    show ?case
    proof (intro impI)
      assume same: "env' = env" "rep' = rep" and "P p"
      then have kept: "P (env p)" by (simp add: meanwhile)
      note body = 1(2) [unfolded Let_def same]
      show "P (snd (snd z))"
      proof (cases "check_cancelled (env p)")
        case (Inl e)
        with body kept show ?thesis by auto
      next
        case going: (Inr u)
        then obtain r src' where next_: "source_next_frame k decode src = Some (r, src')" using body by (auto simp: bind_eq_Some_conv)
        obtain c b where c: "keep index last_bucket = (c, b)" by fastforce
        have more: "P (snd (snd z))"
          if "loop env k decode img encode rep keep tot n i l src' sink' q = Some z" "P q" for n i l sink' q
          using 1(1) [OF that(1) [folded same]] same that(2) by blast
        show ?thesis
        proof (cases "\<exists>frame. r = Inr (Some frame)")
          case False
          with body going next_ kept show ?thesis by (auto split: sum.splits option.splits)
        next
          case True
          then obtain frame where frame: "r = Inr (Some frame)" by blast
          obtain y sink1 where w: "write_resized img encode frame sink = (y, sink1)" by fastforce
          show ?thesis
            using body going next_ frame c w more [OF _ kept] more [OF _ reports(3) [OF kept]] kept
            by (cases c; cases y) auto
        qed
      qed
    qed
  qed
  with assms(2) show ?thesis by blast
qed

lemma thumbnails_loop_keeps:
  "thumbnails_loop env k decode img rep g c tot i n src fs p = Some (r, src', fs', p') \<Longrightarrow> P p \<Longrightarrow> P p'"
proof (induction n arbitrary: i src fs p)
  case (Suc n)
  let ?secs = "f64_mul (f64_of_nat i) (thumb_gen_interval g)"
  have kept: "P (env p)" using Suc.prems(2) by (rule meanwhile)
  show ?case
  proof (cases "check_cancelled (env p)")
    case (Inl e)
    with Suc.prems(1) kept show ?thesis by (auto simp: Let_def)
  next
    case going: (Inr u)
    then obtain x src1 where next_: "source_next_frame k decode (source_seek_to k ?secs src) = Some (x, src1)"
      using Suc.prems(1) by (auto simp: Let_def bind_eq_Some_conv)
    show ?thesis
    proof (cases "\<exists>frame. x = Inr (Some frame) \<and> image_from_raw img (frame_width frame) (frame_height frame) (frame_data frame)")
      case False
      with Suc.prems(1) going next_ kept show ?thesis by (auto simp: Let_def split: sum.splits option.splits if_splits)
    next
      case True
      then obtain frame :: rgba_frame where frame: "x = Inr (Some frame)" "image_from_raw img (frame_width frame) (frame_height frame) (frame_data frame)"
        by blast
      obtain y fs1 where w: "write_thumbnail img c \<lparr>thumb_time = ?secs,
          thumb_data = image_resize img (frame_width frame) (frame_height frame) (frame_data frame)
            (fst (thumb_gen_resolution g)) (snd (thumb_gen_resolution g)),
          thumb_width = fst (thumb_gen_resolution g), thumb_height = snd (thumb_gen_resolution g)\<rparr> fs = (y, fs1)" by fastforce
      show ?thesis
        using Suc.prems(1) Suc.IH [OF _ reports(3) [OF kept]] going next_ frame w kept
        by (cases y) (auto simp: Let_def case_prod_unfold)
    qed
  qed
qed simp

lemma generate_stream_keeps:
  assumes "generate_stream env decode rep g info c s p = Some (r, c', s', p')" "P p"
  shows "P p'"
proof -
  let ?nch = "max 1 (unat (stream_channels info))"
  obtain x s1 p1 where skip: "skip_loop env decode ?nch (unat (gen_chunk_size g) * ?nch)
      (unat (reader_count (peaks_reader c) * ucast (gen_chunk_size g) :: u64)) s p = (x, s1, p1)" by (metis prod.collapse)
  have "P p1" using skip_loop_keeps [OF assms(2)] skip by (metis snd_conv)
  show ?thesis
  proof (cases x)
    case (Inl e)
    with assms(1) skip \<open>P p1\<close> show ?thesis by (auto simp: generate_stream_def Let_def)
  next
    case (Inr u)
    note run = assms(1) [unfolded generate_stream_def Let_def skip, unfolded Inr prod.case sum.case]
    show ?thesis
    proof (rule bind_SomeE [OF run], goal_cases)
      case (1 z)
      obtain y c1 s2 p2 where z: "z = (y, c1, s2, p2)" by (metis prod.collapse)
      obtain v c2 where fin: "waveform_finish c1 = (v, c2)" by fastforce
      have "P p2" using peaks_loop_keeps [OF 1(1) \<open>P p1\<close>] by (simp add: z)
      with 1(2) reports(1) [OF this] show ?case by (cases y; cases v) (auto simp: z fin)
    qed
  qed
qed

lemma waveform_generate_keeps:
  "waveform_generate env wav flac decode rep g f fs c p = Some (r, c', p') \<Longrightarrow> P p \<Longrightarrow> P p'"
  unfolding waveform_generate_def by (auto split: sum.splits prod.splits dest: generate_stream_keeps)

lemma thumbnails_generate_keeps:
  assumes "thumbnails_generate env k decoder decode img rep g c f fs p = Some (r, fs', p')" "P p"
  shows "P p'"
proof -
  obtain x fs1 where opened: "open_video k decoder f fs = (x, fs1)" by fastforce
  show ?thesis
  proof (cases x)
    case (Inl e)
    with assms opened show ?thesis by (simp add: thumbnails_generate_def)
  next
    case (Inr src)
    let ?n = "max 1 (unat (f64_to_u64 (f64_ceil (f64_div (video_duration_secs (source_info src)) (thumb_gen_interval g)))))"
    obtain src1 fs2 q where "thumbnails_loop env k decode img rep g c ?n 0 ?n src fs1 p = Some (r, src1, fs2, q)"
      and p': "p' = (case r of Inl _ \<Rightarrow> q | Inr _ \<Rightarrow> report rep f64_one q)"
      using assms(1) opened Inr by (auto simp: thumbnails_generate_def generate_from_source_def Let_def)
    then have "P q" using thumbnails_loop_keeps assms(2) by blast
    then show ?thesis by (cases r) (simp_all add: p' reports)
  qed
qed

lemma audio_proxy_keeps:
  assumes "audio_proxy env wav flac decode rep fl src out pf fs p = Some (r, fs', p')" "P p"
  shows "P p'"
proof (cases "profile_validate pf")
  case (Inl e)
  with assms show ?thesis by (simp add: audio_proxy_def)
next
  case valid: (Inr u)
  obtain x fs1 where opened: "open_audio wav flac src fs = (x, fs1)" by fastforce
  show ?thesis
  proof (cases x)
    case (Inl e)
    with assms valid opened show ?thesis by (simp add: audio_proxy_def)
  next
    case (Inr y)
    obtain s info where y: "y = (s, info)" by fastforce
    obtain v fs2 where made: "wav_new fl out \<lparr>spec_rate = stream_sample_rate info, spec_channels = stream_channels info\<rparr> fs1 = (v, fs2)"
      by fastforce
    show ?thesis
    proof (cases v)
      case (Inl e)
      with assms valid opened Inr y made show ?thesis by (simp add: audio_proxy_def)
    next
      case (Inr w)
      have run: "map_option (\<lambda>(r, w, p).
            case r of
              Inl e \<Rightarrow> (Inl e, settle out (wav_file w) fs2, p)
            | Inr _ \<Rightarrow>
                (case wav_finish w of
                   (Inl e, w) \<Rightarrow> (Inl e, settle out (wav_file w) fs2, p)
                 | (Inr _, w) \<Rightarrow> (Inr (), settle out (wav_file w) fs2, report rep f64_one p)))
          (audio_loop env decode rep (max 1 (unat (stream_channels info)))
            (f64_of_nat (max 1 (unat (case total_samples info of None \<Rightarrow> 0 | Some n \<Rightarrow> n)))) f64_zero w s p) = Some (r, fs', p')"
        using assms(1) by (simp only: audio_proxy_def valid opened \<open>x = Inr y\<close> y made Inr sum.case prod.case Let_def)
      show ?thesis
      proof (rule map_SomeE [OF run], goal_cases)
        case (1 z)
        obtain g w1 q where z: "z = (g, w1, q)" by (metis prod.collapse)
        obtain n w2 where fin: "wav_finish w1 = (n, w2)" by fastforce
        have "P q" using audio_loop_keeps [OF 1(1) assms(2)] by (simp add: z)
        with 1(2) reports(1) [OF this] show ?case by (cases g; cases n) (auto simp: z fin)
      qed
    qed
  qed
qed

lemma video_proxy_keeps:
  assumes "video_proxy env k decoder decode img encoder encode rep fl src out pf fs p = Some (r, fs', p')" "P p"
  shows "P p'"
proof (cases "profile_validate pf")
  case (Inl e)
  with assms show ?thesis by (simp add: video_proxy_def)
next
  case valid: (Inr u)
  obtain x fs1 where opened: "open_video k decoder src fs = (x, fs1)" by fastforce
  show ?thesis
  proof (cases x)
    case (Inl e)
    with assms valid opened show ?thesis by (simp add: video_proxy_def)
  next
    case s: (Inr s)
    let ?rate = "if f64_lt f64_zero (frame_rate (source_info s)) then frame_rate (source_info s) else f64_30"
    obtain v fs2 where made: "sink_open fl encoder out pf (width (source_info s)) (height (source_info s)) ?rate fs1 = (v, fs2)" by fastforce
    show ?thesis
    proof (cases v)
      case (Inl e)
      with assms valid opened s made show ?thesis by (simp add: video_proxy_def Let_def)
    next
      case (Inr sink)
      let ?target = "case profile_rate pf of Some r \<Rightarrow> r | None \<Rightarrow> ?rate"
      have run: "map_option (\<lambda>(r, sink, p).
            case r of
              Inl e \<Rightarrow> (Inl e, settle out (writer_file (sink_writer sink)) fs2, p)
            | Inr _ \<Rightarrow>
                (case sink_finish sink of
                   (Inl e, sink) \<Rightarrow> (Inl e, settle out (writer_file (sink_writer sink)) fs2, p)
                 | (Inr _, sink) \<Rightarrow> (Inr (), settle out (writer_file (sink_writer sink)) fs2, report rep f64_one p)))
          (video_loop env k decode img encode rep (keep_frame pf ?target ?rate) (max 1 (unat (frame_count (source_info s)))) 0 0 (- 1)
            s sink p) = Some (r, fs', p')"
        using assms(1) by (simp only: video_proxy_def valid opened s made Inr sum.case prod.case Let_def)
      show ?thesis
      proof (rule map_SomeE [OF run], goal_cases)
        case (1 z)
        obtain g sink1 q where z: "z = (g, sink1, q)" by (metis prod.collapse)
        obtain n sink2 where fin: "sink_finish sink1 = (n, sink2)" by fastforce
        have "P q" using video_loop_keeps [OF 1(1) assms(2)] by (simp add: z)
        with 1(2) reports(1) [OF this] show ?case by (cases g; cases n) (auto simp: z fin)
      qed
    qed
  qed
qed

lemma generate_proxies_keep:
  "generate_audio_proxy env wav flac samples rep fl src out pf fs p = Some (r, fs', p') \<Longrightarrow> P p \<Longrightarrow> P p'"
  "generate_video_proxy env k decoder decode img encoder encode rep fl src out pf fs p = Some (r, fs', p') \<Longrightarrow> P p \<Longrightarrow> P p'"
  by (auto simp: generate_audio_proxy_def generate_video_proxy_def dest: audio_proxy_keeps video_proxy_keeps)

lemma record_result_keeps: "record_result R i ty q r fs d p = (r', fs', d', p') \<Longrightarrow> p' = p"
  by (auto simp: record_result_def split: sum.splits prod.splits)

lemma job_execute_keeps:
  assumes "job_execute E R rep j fs d p = Some (r, fs', d', p')" "env_flag E = env" "P p"
  shows "P p'"
proof (cases j)
  case (WaveformJob x)
  with assms(1,3) show ?thesis
    by (auto simp: waveform_execute_def assms(2) split: sum.splits prod.splits dest!: record_result_keeps waveform_generate_keeps)
next
  case (ThumbnailJob x)
  with assms(1,3) show ?thesis
    by (auto simp: thumbnail_execute_def assms(2) split: sum.splits prod.splits dest!: record_result_keeps thumbnails_generate_keeps)
next
  case (VideoProxyJob x)
  with assms(1,3) show ?thesis
    by (auto simp: video_execute_def assms(2) split: sum.splits prod.splits dest!: record_result_keeps generate_proxies_keep)
next
  case (AudioProxyJob x)
  with assms(1,3) show ?thesis
    by (auto simp: audio_execute_def assms(2) split: sum.splits prod.splits dest!: record_result_keeps generate_proxies_keep)
qed

end

subsection \<open>Jobs are honest bodies\<close>

lemma reporter_for_body_steps: "callback_keeps (reporter_for c j) (body_steps c j p)"
  unfolding callback_keeps_def
proof (intro allI impI)
  fix cb :: "progress_event \<Rightarrow> tracker shared_flag \<Rightarrow> tracker shared_flag" and ev :: progress_event and q
  assume cb: "callback (reporter_for c j) = Some cb" and unit: "unit_fraction (fraction ev)" and reached: "body_steps c j p q"
  have finite: "f64_is_finite (fraction ev)"
    using unit by (auto simp: unit_fraction_def f64_le_def f64_is_finite_def f64_key_def f64_is_nan_def f64_inf_eq split: if_splits)
  have "body_step c j q (cb ev q)"
  proof (cases "message ev")
    case None
    then have "\<lparr>fraction = fraction ev, message = None\<rparr> = ev" by simp
    then have "report (reporter_for c j) (fraction ev) q = cb ev q"
      using cb finite f64_clamp_unit [OF unit] by (simp add: report_def report_event_def)
    then show ?thesis using reported [of c j q "fraction ev"] by simp
  next
    case (Some msg)
    then have "\<lparr>fraction = fraction ev, message = Some msg\<rparr> = ev" by simp
    then have "report_with_message (reporter_for c j) (fraction ev) msg q = cb ev q"
      using cb finite f64_clamp_unit [OF unit] by (simp add: report_with_message_def report_event_def)
    then show ?thesis using reported_text [of c j q "fraction ev" msg] by simp
  qed
  with reached show "body_steps c j p (cb ev q)" by (rule rtranclp.rtrancl_into_rtrancl)
qed

interpretation job_body: reporter_contract "reporter_for c j" "\<lambda>q. q" "body_steps c j p" for c j p
  by unfold_locales (simp_all add: reporter_for_body_steps)

definition job_outcome :: "asset_error + unit \<Rightarrow> outcome" where
  "job_outcome r = (case r of Inl e \<Rightarrow> JobErr e | Inr _ \<Rightarrow> JobOk)"

text \<open>A body that is the execution of the cache jobs, each on the disk and the database that it finds.\<close>

definition runs_jobs ::
  "('s, 'm, 'h, 't, 'dd, 'e, tracker) job_env \<Rightarrow> ('db, 'w, 'r) redb \<Rightarrow> cache_job execute \<Rightarrow> bool" where
  "runs_jobs E R execute \<longleftrightarrow>
     (\<forall>x c j p. \<exists>fs d r fs' d' p'. job_execute E R (reporter_for c j) x fs d p = Some (r, fs', d', p') \<and>
        execute x (reporter_for c j) p = (job_outcome r, p'))"

lemma runs_jobs_honest:
  assumes "runs_jobs E R execute" "env_flag E = (\<lambda>q. q)"
  shows "honest_body c execute"
  unfolding honest_body_def
proof (intro allI)
  fix x j p
  obtain fs d r fs' d' p' where run: "job_execute E R (reporter_for c j) x fs d p = Some (r, fs', d', p')"
    "execute x (reporter_for c j) p = (job_outcome r, p')" using assms(1) unfolding runs_jobs_def by blast
  have "body_steps c j p p'" by (rule job_body.job_execute_keeps [OF run(1) assms(2)]) simp
  then show "body_steps c j p (snd (execute x (reporter_for c j) p))" by (simp add: run(2))
qed

subsection \<open>The run of one cache job\<close>

text \<open>The entry a job makes.\<close>

fun job_entry :: "cache_job \<Rightarrow> asset_id \<times> cache_type \<times> string" where
  "job_entry (WaveformJob j) = (wj_asset j, WaveformPeaks, waveform_path (wj_storage j) (wj_asset j))"
| "job_entry (ThumbnailJob j) = (tj_asset j, VideoThumbnails, thumbnail_dir (tj_storage j) (tj_asset j))"
| "job_entry (VideoProxyJob j) = (pj_asset j, VideoProxy, pj_output j)"
| "job_entry (AudioProxyJob j) = (pj_asset j, AudioProxy, pj_output j)"

lemma ensure_params_path: "ensure_params csize rate c = (r, c') \<Longrightarrow> peaks_path c' = peaks_path c"
  by (auto simp: ensure_params_def Let_def on_file_def fail_def give_def elim!: then_tryE split: if_splits prod.splits)

lemma opened_path:
  "(case reader_open p f of (Inl e, f) \<Rightarrow> (Inl e, fs)
    | (Inr r, f) \<Rightarrow> (Inr \<lparr>waveform_asset = i, peaks_path = p, peaks_file = f, peaks_reader = r\<rparr>, fs)) = (Inr c, fs') \<Longrightarrow> peaks_path c = p"
  by (auto split: prod.splits sum.splits)

lemma waveform_open_path: "waveform_open i st fs = (Inr c, fs') \<Longrightarrow> peaks_path c = waveform_path st i"
  by (auto simp: waveform_open_def Let_def then_try_eq_Inr dest!: opened_path)

lemma waveform_generate_path: "waveform_generate env wav flac decode rep g f fs c p = Some (r, c', p') \<Longrightarrow> peaks_path c' = peaks_path c"
  by (auto simp: waveform_generate_def cache_params_def split: sum.splits prod.splits
      dest!: ensure_params_path generate_stream_params)

text \<open>A job that succeeds makes its entry, and one that fails leaves the database.\<close>

lemma job_execute_entry:
  assumes "job_execute E R rep x fs d q = Some (r, fs', d', q')" "redb_laws R dr wr rr" "job_entry x = (i, ty, p)"
    "storable_str (to_string_lossy p)"
  shows "(r = Inr () \<longrightarrow> entry_set i ty p (dr d) (dr d')) \<and> (r \<noteq> Inr () \<longrightarrow> d' = d)"
proof -
  have "d' = d \<and> r \<noteq> Inr () \<or> (\<exists>g fs1 q1. record_result R i ty p g fs1 d q1 = (r, fs', d', q'))"
  proof (cases x)
    case (WaveformJob j)
    with assms(1,3) show ?thesis
      by (auto simp: waveform_execute_def split: sum.splits prod.splits dest!: waveform_generate_path waveform_open_path)
  next
    case (ThumbnailJob j)
    with assms(1,3) show ?thesis by (auto simp: thumbnail_execute_def split: sum.splits prod.splits)
  next
    case (VideoProxyJob j)
    with assms(1,3) show ?thesis by (auto simp: video_execute_def)
  next
    case (AudioProxyJob j)
    with assms(1,3) show ?thesis by (auto simp: audio_execute_def)
  qed
  then show ?thesis
  proof (elim disjE exE)
    fix g fs1 q1 assume "record_result R i ty p g fs1 d q1 = (r, fs', d', q')"
    from record_result_effect(3,4) [OF this assms(2,4)] show ?thesis by blast
  qed simp
qed

text \<open>
  From the start of its body to the section that persists its end, uninterrupted: the registry says what the job's execution
  returned.
\<close>

fun outcome_tracked :: "asset_error + unit \<Rightarrow> job_state" where
  "outcome_tracked (Inr _) = Completed"
| "outcome_tracked (Inl e) = (if e = Cancelled then JobCancelled else Failed)"

lemma outcome_tracked_state: "fst (outcome_state (job_outcome r)) = outcome_tracked r"
  by (cases r) (simp_all add: job_outcome_def)

lemma body_steps_states:
  assumes "body_steps c j p q"
  shows "tracked_state (snd q) = tracked_state (snd p)"
  using assms
proof (induction rule: rtranclp_induct)
  case (step q r)
  have "tracked_state (snd r) = tracked_state (snd q)"
    using step(2) report_keeps [OF reporter_for_states [of c j], of q] by cases (simp_all add: reporter_cancel_def)
  with step.IH show ?case by simp
qed simp

lemma cache_job_runs:
  assumes "job_execute E R (reporter_for c (job_ident (boxed_job x))) x fs d (flags sh n, tracker sh) = Some (r, fs', d', p')" "env_flag E = (\<lambda>q. q)"
    "tracked_state (tracker sh) (job_ident (boxed_job x)) = Some Running"
  shows "\<exists>sh'. thread_run up (RunBody (boxed_job x) n, sh) (RunEnd (boxed_job x) (job_outcome r), sh') \<and>
     tracked_state (tracker sh') (job_ident (boxed_job x)) = Some (outcome_tracked r)"
proof -
  let ?b = "boxed_job x" and ?j = "job_ident (boxed_job x)"
  have steps: "body_steps c ?j (flags sh n, tracker sh) p'" by (rule job_body.job_execute_keeps [OF assms(1,2)]) simp
  let ?sh1 = "with_body n p' sh"
  let ?sh2 = "set_state c ?j (outcome_tracked r) (run_unregister ?j ?sh1)"
  let ?sh3 = "finish_sched ?j (outcome_tracked r) ?sh2"
  have "with_body n (flags sh n, tracker sh) sh = sh" by (simp add: with_body_def)
  with body_run [OF steps] have body: "thread_run up (RunBody ?b n, sh) (RunBody ?b n, ?sh1)" by metis
  have "thread_run up (RunUnregister ?b (job_outcome r), ?sh1) (RunEnd ?b (job_outcome r), ?sh3)"
    by (intro thread_run_section [where c = c and t = "RunUnregister ?b (job_outcome r)"], simp, simp,
        intro thread_run_section [where c = c and t = "RunFinish ?b (job_outcome r)"], simp, simp,
        intro thread_run_section [where c = c and t = "RunSched ?b (job_outcome r)"])
      (simp_all add: outcome_tracked_state thread_run_refl)
  moreover have "thread_run up (RunBody ?b n, ?sh1) (RunUnregister ?b (job_outcome r), ?sh1)"
    unfolding thread_run_def by (rule r_into_rtranclp) (simp add: body_end)
  ultimately have run: "thread_run up (RunBody ?b n, sh) (RunEnd ?b (job_outcome r), ?sh3)" using body thread_run_trans by blast
  have "tracked_state (snd p') = tracked_state (tracker sh)" using body_steps_states [OF steps] by simp
  with assms(3) have "tracked_state (tracker ?sh3) ?j = Some (outcome_tracked r)"
    by (simp add: finish_sched_def set_state_def run_unregister_def)
  with run show ?thesis by blast
qed

end
