(* ===== verification/Cli.thy ===== *)
theory Cli
  imports Importer Watching "HOL-Library.Char_ord"
begin

text \<open>
  The command line (\<open>tpt-av-asset-cli/src/main.rs\<close>): the engine a command opens, and its commands.

  What a command prints is not modelled beyond what it computes for it: the bars of a waveform, the cells of the
  progress bar.  The parser of the arguments (clap) is not in the repository.  A command that makes jobs is in two parts,
  before and after the workers have run.
\<close>

subsection \<open>The engine\<close>

datatype profile_preset = PresetLow | PresetMedium | PresetFlac

fun preset_profile :: "profile_preset \<Rightarrow> proxy_profile" where
  "preset_profile PresetLow = proxy_1080p_low"
| "preset_profile PresetMedium = proxy_720p_medium"
| "preset_profile PresetFlac = audio_proxy_flac"

definition engine_home :: "(string \<Rightarrow> string option) \<Rightarrow> string" where
  "engine_home var_os =
     (case var_os ''TPT_AV_ASSET_HOME'' of
        Some h \<Rightarrow> h
      | None \<Rightarrow>
          (case var_os ''HOME'' of Some h \<Rightarrow> path_join h ''.tpt-av-asset'' | None \<Rightarrow> ''.tpt-av-asset''))"

text \<open>The database (lib.rs of tpt-av-asset-db): \<open>create\<close> is redb's constructor, and the first transaction makes the tables.\<close>

definition asset_db_open :: "('d, 'w, 'r) redb \<Rightarrow> (string \<Rightarrow> string + 'd) \<Rightarrow> string \<Rightarrow> (file_system, 'd) step" where
  "asset_db_open R create p =
     then_try (case path_parent p of
         None \<Rightarrow> give ()
       | Some q \<Rightarrow> if q \<noteq> '''' then create_dir_all q else give ()) (\<lambda>_ fs.
       (rbind (db_try (create p)) (\<lambda>d.
        rbind (db_try (begin_write R d)) (\<lambda>txn.
        rbind (db_try (open_table_w R ASSETS txn)) (\<lambda>txn.
        rbind (db_try (open_table_w R CACHE_ENTRIES txn)) (\<lambda>txn.
        rbind (db_try (open_table_w R JOBS txn)) (\<lambda>txn.
          db_try (commit R txn)))))), fs))"

definition open_engine ::
  "('d, 'w, 'r) redb \<Rightarrow> (string \<Rightarrow> string + 'd) \<Rightarrow> (string \<Rightarrow> string option) \<Rightarrow> (file_system, 'd \<times> cache_storage) step" where
  "open_engine R create var_os =
     (let home = engine_home var_os in
      then_try (asset_db_open R create (path_join (path_join home ''db'') ''assets.redb'')) (\<lambda>d.
      let st = storage_new (path_join home ''cache'') in
      then_try (ensure_layout st) (\<lambda>_. give (d, st))))"

subsection \<open>Import\<close>

text \<open>Up to the submission of the jobs; \<open>spawns\<close> are the failures of the workers' spawns.\<close>

definition cmd_import ::
  "os_files \<Rightarrow> ('s, 'm, 'h, 't, 'dd, 'e, 'p) job_env \<Rightarrow> ('d, 'w, 'r) redb \<Rightarrow> (string \<Rightarrow> string + 'd) \<Rightarrow> (string \<Rightarrow> string option)
     \<Rightarrow> io_error option list \<Rightarrow> (u64 \<Rightarrow> int) \<Rightarrow> string \<Rightarrow> nat \<Rightarrow> file_system
     \<Rightarrow> ((asset_error + (asset_id \<times> u64 list) \<times> pipeline_handle \<times> 'd engine) \<times> file_system) option" where
  "cmd_import os E R create var_os spawns clock p workers fs =
     (case open_engine R create var_os fs of
        (Inl e, fs) \<Rightarrow> Some (Inl e, fs)
      | (Inr (d, st), fs) \<Rightarrow>
          (case with_db (max workers 1) d of
             Inl e \<Rightarrow> Some (Inl e, fs)
           | Inr sh \<Rightarrow>
               (case pipeline_start spawns (handle_new (max workers 1)) of
                  (Inl e, h) \<Rightarrow> Some (Inl e, fs)
                | (Inr _, h) \<Rightarrow>
                    map_option (\<lambda>(x, s, fs). (rbind x (\<lambda>ids. Inr (ids, h, s)), fs))
                      (import_with_jobs os E R (upsert_job R) clock (importer_new st) p (sh, d) fs))))"

text \<open>The rounds of waiting: what each wait sees, and whether the deadline has passed after the round.\<close>

type_synonym await_round = "(u64 \<Rightarrow> (tracker \<times> bool) list) \<times> bool"

definition wait_settles :: "u64 \<Rightarrow> (tracker \<times> bool) list \<Rightarrow> bool" where
  "wait_settles j views =
     (case wait_for_timeout j views of
        None \<Rightarrow> False | Some (Inl _) \<Rightarrow> True | Some (Inr p) \<Rightarrow> progress_is_terminal p)"

fun await_jobs :: "u64 list \<Rightarrow> await_round list \<Rightarrow> (asset_error + unit) option" where
  "await_jobs ids [] = None"
| "await_jobs ids ((views, late) # rounds) =
     (if length (filter (\<lambda>j. wait_settles j (views j)) ids) = length ids then Some (Inr ())
      else if late then Some (Inl (validation ''jobs did not finish in time''))
      else await_jobs ids rounds)"

subsection \<open>Waveform\<close>

definition f32_round_usize :: "f32 \<Rightarrow> nat" where
  "f32_round_usize x =
     (if f32_is_nan x \<or> f32_neg x then 0
      else if f32_mag x = f32_inf then 2 ^ 64 - 1
      else min (2 ^ 64 - 1) ((2 * fp_scaled 23 (f32_mag x) + f32_unit) div (2 * f32_unit)))"

definition f32_abs :: "f32 \<Rightarrow> f32" where "f32_abs x = f32_make False (f32_mag x)"

definition f32_12 :: f32 where "f32_12 = 0x41400000"

record wave_bar =
  bar_index :: u64
  bar_up :: nat
  bar_down :: nat
  bar_rms :: f32

definition wave_bar_of :: "u64 \<Rightarrow> waveform_chunk \<Rightarrow> wave_bar" where
  "wave_bar_of i c =
     \<lparr>bar_index = i, bar_up = min (f32_round_usize (f32_mul (chunk_max c) f32_12)) 12,
      bar_down = min (f32_round_usize (f32_mul (f32_abs (chunk_min c)) f32_12)) 12, bar_rms = chunk_rms c\<rparr>"

definition bar_step :: "u64 \<Rightarrow> u64" where
  "bar_step tot = of_nat (max ((unat tot + 59) div 60) 1)"

text \<open>The loop over the chunks; a chunk that is not there is a panic.\<close>

partial_function (option) wave_bars ::
  "waveform_reader \<Rightarrow> u64 \<Rightarrow> u64 \<Rightarrow> u64 \<Rightarrow> open_file \<Rightarrow> ((asset_error + wave_bar list) \<times> open_file) option" where
  "wave_bars r tot step index f =
     (if index < tot then
        (case read_chunk r index f of
           (Inl e, f) \<Rightarrow> Some (Inl e, f)
         | (Inr None, f) \<Rightarrow> None
         | (Inr (Some c), f) \<Rightarrow>
             Option.bind (wave_bars r tot step (index + step) f) (\<lambda>(x, f). Some (rbind x (\<lambda>bs. Inr (wave_bar_of index c # bs)), f)))
      else Some (Inr [], f))"

text \<open>\<open>dup\<close>: the failure of the clone of the handle.\<close>

definition show_waveform :: "io_error option \<Rightarrow> waveform_cache \<Rightarrow> ((asset_error + wave_bar list) \<times> open_file) option" where
  "show_waveform dup c =
     (case dup of
        Some e \<Rightarrow> Some (Inl (Io e), peaks_file c)
      | None \<Rightarrow>
          (let r = peaks_reader c; tot = reader_count r in
           wave_bars r tot (bar_step tot) 0 (peaks_file c)))"

definition cmd_waveform ::
  "os_files \<Rightarrow> ('s, 'm, 'h, 't, 'dd, 'e, 'p) job_env \<Rightarrow> ('d, 'w, 'r) redb \<Rightarrow> (string \<Rightarrow> string + 'd) \<Rightarrow> (string \<Rightarrow> string option)
     \<Rightarrow> 'p reporter \<Rightarrow> io_error option \<Rightarrow> string \<Rightarrow> u32 \<Rightarrow> file_system \<Rightarrow> 'p shared_flag
     \<Rightarrow> ((asset_error + wave_bar list) \<times> file_system) option" where
  "cmd_waveform os E R create var_os rep dup p csize fs q =
     (case open_engine R create var_os fs of
        (Inl e, fs) \<Rightarrow> Some (Inl e, fs)
      | (Inr (_, st), fs) \<Rightarrow>
          (case from_path os p of
             Inl e \<Rightarrow> Some (Inl e, fs)
           | Inr i \<Rightarrow>
               (case waveform_open i st fs of
                  (Inl e, fs) \<Rightarrow> Some (Inl e, fs)
                | (Inr c, fs) \<Rightarrow>
                    Option.bind
                      (if chunk_count c = 0
                       then waveform_generate (env_flag E) (env_wav E) (env_flac E) (env_samples E) rep
                              \<lparr>gen_chunk_size = csize, gen_sample_rate = 44100\<rparr> p fs
                              (c\<lparr>peaks_file := (peaks_file c)\<lparr>faults := env_faults E\<rparr>\<rparr>) q
                       else Some (Inr (), c, q)) (\<lambda>(r, c, q).
                      case r of
                        Inl e \<Rightarrow> Some (Inl e, settle_peaks c fs)
                      | Inr _ \<Rightarrow> map_option (\<lambda>(bs, f). (bs, settle_peaks c fs)) (show_waveform dup c)))))"


subsection \<open>Thumbnail\<close>

text \<open>The slots of the cache and their times.\<close>

definition show_thumbnails ::
  "dir_reader \<Rightarrow> asset_id \<Rightarrow> cache_storage \<Rightarrow> (file_system, thumbnail_cache \<times> (nat \<times> f64) list) step" where
  "show_thumbnails read_dir i st =
     then_try (thumbnails_open i st) (\<lambda>c fs.
       (Inr (c, enumerate 0 (thumbnail_times read_dir c fs)), fs))"

definition cmd_thumbnail ::
  "os_files \<Rightarrow> ('s, 'm, 'h, 't, 'dd, 'e, 'p) job_env \<Rightarrow> ('d, 'w, 'r) redb \<Rightarrow> (string \<Rightarrow> string + 'd) \<Rightarrow> (string \<Rightarrow> string option)
     \<Rightarrow> dir_reader \<Rightarrow> 'p reporter \<Rightarrow> string \<Rightarrow> f64 \<Rightarrow> u32 \<times> u32 \<Rightarrow> file_system \<Rightarrow> 'p shared_flag
     \<Rightarrow> ((asset_error + thumbnail_cache \<times> (nat \<times> f64) list) \<times> file_system) option" where
  "cmd_thumbnail os E R create var_os read_dir rep p interval res fs q =
     (case open_engine R create var_os fs of
        (Inl e, fs) \<Rightarrow> Some (Inl e, fs)
      | (Inr (_, st), fs) \<Rightarrow>
          (case from_path os p of
             Inl e \<Rightarrow> Some (Inl e, fs)
           | Inr i \<Rightarrow>
               (case thumbnails_open i st fs of
                  (opened, fs) \<Rightarrow>
                    if (case opened of Inl _ \<Rightarrow> 0 | Inr c \<Rightarrow> thumbnail_count read_dir c fs) = 0
                    then
                      (case thumbnails_create i st interval res fs of
                         (Inl e, fs) \<Rightarrow> Some (Inl e, fs)
                       | (Inr c, fs) \<Rightarrow>
                           map_option (\<lambda>(r, fs, q). case r of Inl e \<Rightarrow> (Inl e, fs) | Inr _ \<Rightarrow> show_thumbnails read_dir i st fs)
                             (thumbnails_generate (env_flag E) (env_kinetix E) (env_decoder E) (env_decode E) (env_images E) rep
                                \<lparr>thumb_gen_interval = interval, thumb_gen_resolution = res\<rparr> c p fs q))
                    else Some (show_thumbnails read_dir i st fs))))"

subsection \<open>Proxy\<close>

definition is_audio_source :: "string \<Rightarrow> bool" where
  "is_audio_source p \<longleftrightarrow> lower_extension p \<in> {Some ''wav'', Some ''flac''}"

definition is_media_source :: "string \<Rightarrow> bool" where
  "is_media_source p \<longleftrightarrow> lower_extension p \<in> {Some ''wav'', Some ''flac'', Some ''tkvp'', Some ''mp4''}"

text \<open>Paths are sorted by their components.  Entries that cannot be read are skipped.\<close>

definition proxy_sources :: "dir_reader \<Rightarrow> string \<Rightarrow> (file_system, string list) step" where
  "proxy_sources read_dir p fs =
     (if fs_is_dir p fs then
        (case read_dir fs p of
           Inl e \<Rightarrow> (Inl (Io e), fs)
         | Inr names \<Rightarrow>
             (Inr (sort_key components
                (filter (\<lambda>q. fs_is_file q fs \<and> is_media_source q)
                  (List.map_filter (\<lambda>x. case x of Inl _ \<Rightarrow> None | Inr n \<Rightarrow> Some (path_join p n)) names))), fs))
      else (Inr [p], fs))"

definition proxy_out_dir :: "string \<Rightarrow> string option \<Rightarrow> file_system \<Rightarrow> string" where
  "proxy_out_dir p out fs =
     (case out of
        Some o' \<Rightarrow> o'
      | None \<Rightarrow>
          if fs_is_dir p fs then path_join p ''proxies''
          else (case path_parent p of Some q \<Rightarrow> path_join q ''proxies'' | None \<Rightarrow> ''proxies''))"

definition proxy_target :: "string \<Rightarrow> string \<Rightarrow> string" where
  "proxy_target out_dir source =
     path_join out_dir
       ((case path_file_stem source of Some s \<Rightarrow> to_string_lossy s | None \<Rightarrow> ''media'') @ ''_proxy.'' @
        (if is_audio_source source then ''wav'' else ''tkvp''))"

definition render_source ::
  "('s, 'm, 'h, 't, 'dd, 'e, 'p) job_env \<Rightarrow> 'p reporter \<Rightarrow> proxy_profile \<Rightarrow> string \<Rightarrow> string \<Rightarrow> file_system \<Rightarrow> 'p shared_flag
     \<Rightarrow> ((asset_error + unit) \<times> file_system \<times> 'p shared_flag) option" where
  "render_source E rep pf out_dir source fs q =
     (if is_audio_source source
      then generate_audio_proxy (env_flag E) (env_wav E) (env_flac E) (env_samples E) rep (env_faults E) source
             (proxy_target out_dir source) pf fs q
      else generate_video_proxy (env_flag E) (env_kinetix E) (env_decoder E) (env_decode E) (env_images E) (env_encoder E) (env_encode E)
             rep (env_faults E) source (proxy_target out_dir source) pf fs q)"

text \<open>Each source has a reporter of its own, which is not cancelled.  The result: what became of each source.\<close>

fun render_sources ::
  "('s, 'm, 'h, 't, 'dd, 'e, 'p) job_env \<Rightarrow> 'p reporter \<Rightarrow> proxy_profile \<Rightarrow> string \<Rightarrow> string list \<Rightarrow> file_system \<Rightarrow> 'p
     \<Rightarrow> ((asset_error + unit) list \<times> file_system \<times> 'p) option" where
  "render_sources E rep pf out_dir [] fs u = Some ([], fs, u)"
| "render_sources E rep pf out_dir (source # sources) fs u =
     Option.bind (render_source E rep pf out_dir source fs (False, u)) (\<lambda>(r, fs, q).
     Option.bind (render_sources E rep pf out_dir sources fs (snd q)) (\<lambda>(rs, fs, u).
       Some (r # rs, fs, u)))"

definition render_failed :: "(asset_error + unit) list \<Rightarrow> nat" where
  "render_failed rs = length (filter (\<lambda>r. r \<noteq> Inr ()) rs)"

definition cmd_proxy ::
  "('s, 'm, 'h, 't, 'dd, 'e, 'p) job_env \<Rightarrow> dir_reader \<Rightarrow> 'p reporter \<Rightarrow> string \<Rightarrow> proxy_profile \<Rightarrow> string option \<Rightarrow> file_system \<Rightarrow> 'p
     \<Rightarrow> ((asset_error + unit) \<times> file_system \<times> 'p) option" where
  "cmd_proxy E read_dir rep p pf out fs u =
     (case profile_validate pf of
        Inl e \<Rightarrow> Some (Inl e, fs, u)
      | Inr _ \<Rightarrow>
          (case proxy_sources read_dir p fs of
             (Inl e, fs) \<Rightarrow> Some (Inl e, fs, u)
           | (Inr sources, fs) \<Rightarrow>
               if sources = [] then Some (Inr (), fs, u)
               else
                 (case create_dir_all (proxy_out_dir p out fs) fs of
                    (Inl e, fs') \<Rightarrow> Some (Inl e, fs', u)
                  | (Inr _, fs') \<Rightarrow>
                      map_option (\<lambda>(rs, fs, u).
                          (if render_failed rs > 0
                           then Inl (validation (dec_string (render_failed rs) @ '' render(s) failed'')) else Inr (), fs, u))
                        (render_sources E rep pf (proxy_out_dir p out fs) sources fs' u))))"

subsection \<open>Watch\<close>

text \<open>The events that arrived: how many invalidated an asset, and the errors, which are printed only.\<close>

fun handle_arrived ::
  "os_files \<Rightarrow> ('d, 'w, 'r) redb \<Rightarrow> cache_storage \<Rightarrow> file_event list \<Rightarrow> nat \<Rightarrow> file_system \<times> 'd \<Rightarrow> nat \<times> asset_error list \<times> file_system \<times> 'd" where
  "handle_arrived os R st [] n s = (n, [], s)"
| "handle_arrived os R st (e # es) n s =
     (case handle_event os R st e s of
        (Inl err, s) \<Rightarrow> (case handle_arrived os R st es n s of (n, errs, s) \<Rightarrow> (n, err # errs, s))
      | (Inr hit, s) \<Rightarrow> handle_arrived os R st es (if hit then n + 1 else n) s)"

text \<open>The loop: one element of the list is what one turn's \<open>try_recv\<close> finds in the channel.  While it runs the result is the
  events it still holds; it returns with the error of \<open>try_recv\<close>.\<close>

fun watch_loop ::
  "os_files \<Rightarrow> ('d, 'w, 'r) redb \<Rightarrow> cache_storage \<Rightarrow> (file_key, file_event \<times> nat) hash_order
     \<Rightarrow> ((file_event \<times> nat) list \<times> bool \<times> nat) list \<Rightarrow> file_event list \<Rightarrow> 'b media_watcher \<Rightarrow> file_system \<times> 'd
     \<Rightarrow> (asset_error + file_event list) \<times> 'b media_watcher \<times> file_system \<times> 'd" where
  "watch_loop os R st order [] arrived w s = (Inr arrived, w, s)"
| "watch_loop os R st order ((msgs, alive, t) # turns) arrived w s =
     (case handle_arrived os R st arrived 0 s of
        (_, _, s) \<Rightarrow>
          (case try_recv order msgs alive t w of
             (Inl e, w) \<Rightarrow> (Inl e, w, s)
           | (Inr None, w) \<Rightarrow> watch_loop os R st order turns [] w s
           | (Inr (Some e), w) \<Rightarrow> watch_loop os R st order turns [e] w s))"

definition cmd_watch ::
  "os_files \<Rightarrow> ('d, 'w, 'r) redb \<Rightarrow> (string \<Rightarrow> string + 'd) \<Rightarrow> (string \<Rightarrow> string option) \<Rightarrow> 'b watcher_backend \<Rightarrow> 'b
     \<Rightarrow> (file_key, file_event \<times> nat) hash_order \<Rightarrow> ((file_event \<times> nat) list \<times> bool \<times> nat) list \<Rightarrow> string \<Rightarrow> nat \<Rightarrow> file_system
     \<Rightarrow> (asset_error + file_event list) \<times> file_system" where
  "cmd_watch os R create var_os bk b order turns p debounce_ms fs =
     (case open_engine R create var_os fs of
        (Inl e, fs) \<Rightarrow> (Inl e, fs)
      | (Inr (d, st), fs) \<Rightarrow>
          (case watcher_watch bk os p (with_backend b (max debounce_ms 25 * 1000000)) of
             (Inl e, _) \<Rightarrow> (Inl e, fs)
           | (Inr _, w) \<Rightarrow> (case watch_loop os R st order turns [] w (fs, d) of (x, _, fs, _) \<Rightarrow> (x, fs))))"

subsection \<open>The progress bar\<close>

text \<open>The filled and the empty cells; more than 30 filled cells are a panic.\<close>

definition bar_cells :: f64 where "bar_cells = f64_of_nat 30"

definition progress_cells :: "f64 \<Rightarrow> (nat \<times> nat) option" where
  "progress_cells f =
     (let filled = unat (f64_to_u64 (f64_round (f64_mul f bar_cells))) in
      if filled \<le> 30 then Some (filled, 30 - filled) else None)"


subsection \<open>The bars of a waveform\<close>

lemma read_chunk_ok:
  assumes "peaks_ok c" "faults (peaks_file c) = []" "44 + 12 * j < 2 ^ 64" "j < chunk_count c"
  shows "read_chunk (peaks_reader c) (of_nat j) (peaks_file c) = (Inr (Some (chunk_at c j)), peaks_file c)"
proof -
  obtain r f where run: "read_chunk (peaks_reader c) (of_nat j) (peaks_file c) = (r, f)" by (metis prod.collapse)
  have "cache_read_chunk j c = (Inr (Some (chunk_at c j)), c)" using cache_read_chunk_ok [OF assms(1-3)] assms(4) by simp
  with run have "r = Inr (Some (chunk_at c j))" "c\<lparr>peaks_file := f\<rparr> = c" by (simp_all add: cache_read_chunk_def on_file_def)
  then have "f = peaks_file c" by (metis waveform_cache.select_convs(3) waveform_cache.surjective waveform_cache.update_convs(3))
  with run \<open>r = _\<close> show ?thesis by simp
qed

definition shown_bar :: "waveform_cache \<Rightarrow> nat \<Rightarrow> wave_bar" where
  "shown_bar c j = wave_bar_of (of_nat j) (chunk_at c j)"

lemma of_nat_less_u64: "x < 2 ^ 64 \<Longrightarrow> of_nat x < (w :: u64) \<longleftrightarrow> x < unat w"
  by (simp add: word_less_nat_alt unat_of_nat take_bit_eq_mod)

lemma wave_bars_run:
  assumes ok: "peaks_ok c" "faults (peaks_file c) = []" and n: "44 + 12 * chunk_count c < 2 ^ 64" and s: "0 < s" "s \<le> chunk_count c + 1"
  shows "a \<le> (chunk_count c + s - 1) div s \<Longrightarrow>
    wave_bars (peaks_reader c) (reader_count (peaks_reader c)) (of_nat s) (of_nat (a * s)) (peaks_file c) =
      Some (Inr (map (\<lambda>m. shown_bar c (m * s)) [a..<(chunk_count c + s - 1) div s]), peaks_file c)"
proof (induction "(chunk_count c + s - 1) div s - a" arbitrary: a)
  case 0
  define n where "n = chunk_count c"
  have "n + s - 1 < ((n + s - 1) div s + 1) * s" using s(1) by (metis dividend_less_div_times mult.commute mult_Suc_right add.commute Suc_eq_plus1)
  moreover have "a = (n + s - 1) div s" using 0 by (simp add: n_def)
  ultimately have "n \<le> a * s" using s(1) by (simp add: algebra_simps)
  moreover have "a * s \<le> n + s - 1" using \<open>a = _\<close> by simp
  moreover have "n + s < 2 ^ 64" using assms(3) s(2) by (simp add: n_def)
  ultimately have "\<not> of_nat (a * s) < reader_count (peaks_reader c)"
    using of_nat_less_u64 [of "a * s" "reader_count (peaks_reader c)"] unfolding n_def chunk_count_def by linarith
  then show ?case using \<open>a = _\<close> by (subst wave_bars.simps) (simp add: n_def)
next
  case (Suc d)
  define n where "n = chunk_count c"
  have lt: "a < (n + s - 1) div s" using Suc.hyps(2) by (simp add: n_def)
  then have "(a + 1) * s \<le> n + s - 1" by (metis Suc_eq_plus1 Suc_leI less_eq_div_iff_mult_less_eq s(1))
  then have in_range: "a * s < n" using s(1) by (simp add: algebra_simps)
  moreover have "n < 2 ^ 64" using assms(3) by (simp add: n_def)
  ultimately have "of_nat (a * s) < reader_count (peaks_reader c)"
    using of_nat_less_u64 [of "a * s" "reader_count (peaks_reader c)"] unfolding n_def chunk_count_def by linarith
  moreover have "read_chunk (peaks_reader c) (of_nat (a * s)) (peaks_file c) = (Inr (Some (chunk_at c (a * s))), peaks_file c)"
    by (rule read_chunk_ok [OF ok]) (use in_range n in \<open>simp_all add: n_def\<close>)
  moreover have "wave_bars (peaks_reader c) (reader_count (peaks_reader c)) (of_nat s) (of_nat ((a + 1) * s)) (peaks_file c) =
      Some (Inr (map (\<lambda>m. shown_bar c (m * s)) [a + 1..<(n + s - 1) div s]), peaks_file c)"
    unfolding n_def by (rule Suc.hyps(1)) (use Suc.hyps(2) lt in \<open>simp_all add: n_def\<close>)
  moreover have "[a..<(n + s - 1) div s] = a # [a + 1..<(n + s - 1) div s]" using lt by (simp add: upt_rec)
  ultimately show ?case
    by (subst wave_bars.simps) (simp add: n_def shown_bar_def rbind_def algebra_simps)
qed

lemma bar_step_bounds:
  fixes n :: nat
  assumes "n < 2 ^ 63"
  defines "s \<equiv> max ((n + 59) div 60) 1"
  shows "0 < s" "s \<le> n + 1" "(n + s - 1) div s \<le> 60" "bar_step (of_nat n) = of_nat s"
proof -
  show pos: "0 < s" by (simp add: s_def)
  show "s \<le> n + 1" by (simp add: s_def)
  have "n \<le> 60 * s" unfolding s_def by linarith
  then have "n + s - 1 < 61 * s" using pos by linarith
  then have "(n + s - 1) div s < 61" by (simp add: less_mult_imp_div_less)
  then show "(n + s - 1) div s \<le> 60" by simp
  have "unat (of_nat n :: u64) = n" using assms(1) by (simp add: unat_of_nat take_bit_eq_mod)
  then show "bar_step (of_nat n) = of_nat s" by (simp add: bar_step_def s_def)
qed

lemma show_waveform_ok:
  assumes "peaks_ok c" "faults (peaks_file c) = []" "44 + 12 * chunk_count c < 2 ^ 64"
  obtains s where "0 < s" "(chunk_count c + s - 1) div s \<le> 60"
    "show_waveform None c = Some (Inr (map (\<lambda>m. shown_bar c (m * s)) [0..<(chunk_count c + s - 1) div s]), peaks_file c)"
proof -
  let ?s = "max ((chunk_count c + 59) div 60) 1"
  have "chunk_count c < 2 ^ 63" using assms(3) by simp
  note s = bar_step_bounds [OF this]
  have "reader_count (peaks_reader c) = of_nat (chunk_count c)" by (simp add: chunk_count_def)
  then have "bar_step (reader_count (peaks_reader c)) = of_nat ?s" using s(4) by simp
  then have "show_waveform None c = Some (Inr (map (\<lambda>m. shown_bar c (m * ?s)) [0..<(chunk_count c + ?s - 1) div ?s]), peaks_file c)"
    using wave_bars_run [OF assms s(1,2), of 0] by (simp add: show_waveform_def Let_def)
  with s(1,3) show ?thesis by (rule that)
qed

lemma shown_bar_fits: "bar_up (shown_bar c j) \<le> 12" "bar_down (shown_bar c j) \<le> 12"
  by (simp_all add: shown_bar_def wave_bar_of_def)


subsection \<open>The progress bar\<close>

lemma f64_mul_commute: "f64_mul a b = f64_mul b a"
  by (cases "f64_neg a"; cases "f64_neg b") (auto simp: f64_mul_def Let_def mult.commute)

lemma progress_cells_total:
  assumes "unit_fraction f"
  obtains n where "n \<le> 30" "progress_cells f = Some (n, 30 - n)"
proof -
  note thirty = f64_of_nat_value [of 30]
  have bounds: "\<not> f64_is_nan f" "0 \<le> f64_key f" "f64_key f \<le> f64_key f64_one"
    using assms by (auto simp: unit_fraction_def f64_le_def)
  then have mag: "f64_mag f \<le> f64_mag f64_one"
    by (auto simp: f64_key_def f64_one_def f64_neg_def split: if_splits)
  have "f64_mag f64_one < f64_inf" by (simp add: f64_one_def f64_mag_def f64_inf_eq)
  with mag have fin: "f64_is_finite f" by (simp add: f64_is_finite_def)
  have val: "f64_value f \<le> f64_unit"
    using fp_scaled_mono [OF mag, of 52] f64_one_value unfolding f64_value_def by simp
  show ?thesis
  proof (cases "f64_neg f")
    case False
    let ?x = "f64_mul (f64_of_nat 30) f" and ?u = f64_unit
    have "2 ^ 53 * f64_value ?x \<le> (2 ^ 53 + 1) * (30 * f64_value f) + 2 ^ 52" "f64_is_finite ?x" "\<not> f64_neg ?x"
      by (rule f64_mul_le [OF _ fin False val], simp)+
    note x = this
    have "(2 ^ 53 + 1) * (30 * f64_value f) \<le> (2 ^ 53 + 1) * (30 * ?u)" using val by (intro mult_le_mono2) simp
    then have "2 ^ 53 * f64_value ?x \<le> (2 ^ 53 + 1) * (30 * ?u) + 2 ^ 52" by (rule le_trans [OF x(1) add_right_mono])
    then have "9007199254740992 * f64_value ?x \<le> 270215977642229790 * ?u + 4503599627370496" by simp
    moreover have "2 \<le> ?u" using f64_unit_bounds(1) by simp
    ultimately have "2 * f64_value ?x + ?u < 31 * (2 * ?u)" by linarith
    then have n: "(2 * f64_value ?x + ?u) div (2 * ?u) < 31" by (rule less_mult_imp_div_less)
    define n where "n = (2 * f64_value ?x + ?u) div (2 * ?u)"
    have "f64_to_u64 (f64_round ?x) = of_nat n"
      unfolding n_def by (rule f64_round_u64 [OF x(2,3) less_le_trans [OF n]]) simp
    then have "unat (f64_to_u64 (f64_round (f64_mul f (f64_of_nat 30)))) = n"
      using n by (simp add: f64_mul_commute [of f] n_def [symmetric] unat_of_nat take_bit_eq_mod)
    with n show ?thesis by (intro that [of n]) (simp_all add: progress_cells_def bar_cells_def n_def [symmetric])
  next
    case True
    with bounds have "f64_mag f = 0" by (simp add: f64_key_def)
    moreover have "f64_mag f \<noteq> f64_inf" using fin by (simp add: f64_is_finite_def)
    ultimately have mul: "f64_mul f (f64_of_nat 30) = f64_pack True 0 f64_unit"
      using True thirty(2,3) f64_finite_facts [OF thirty(2)] bounds(1) by (simp add: f64_mul_def Let_def fp_scaled_def)
    let ?x = "f64_pack True 0 f64_unit"
    note x = f64_pack_finite [OF f64_unit_pos, of 0 True]
    have "2 ^ 53 * (f64_unit * f64_value ?x) \<le> 2 ^ 52 * f64_unit"
      using fp_round_le [OF f64_unit_pos, of 52 0] x(3) by (simp add: f64_value_def)
    then have "9007199254740992 * (f64_unit * f64_value ?x) \<le> 4503599627370496 * f64_unit" by simp
    then have "f64_unit * (2 * f64_value ?x) \<le> f64_unit * 1" by simp
    then have "2 * f64_value ?x \<le> 1" using f64_unit_pos by (simp only: nat_mult_le_cancel_disj)
    then have "f64_value ?x = 0" by simp
    then have "f64_whole_near ?x = 0" using f64_unit_pos by (simp add: f64_whole_near_def f64_value_def)
    then have "f64_round ?x = f64_pack True (0 * f64_unit) 1" using x(1,2) by (simp add: f64_round_def f64_integral_def)
    then have "f64_neg (f64_round ?x)" using f64_whole_value(3) [of 0 True] by simp
    then have "f64_to_u64 (f64_round ?x) = 0" by (simp add: f64_to_u64_def)
    then show ?thesis by (intro that [of 0]) (simp_all add: progress_cells_def bar_cells_def mul)
  qed
qed

end
