(* ===== verification/Database.thy ===== *)
theory Database
  imports JobTable Watching
begin

text \<open>
  The database as a whole (crate tpt-av-asset-db: \<open>asset_table.rs\<close>, \<open>cache_table.rs\<close>, \<open>job_table.rs\<close>, which \<open>lib.rs\<close> puts
  together): its three tables under any sequence of writes, of which any may fail.
\<close>

datatype db_write =
    UpsertAsset media_info
  | RemoveAsset asset_id
  | RecordEntry asset_id cache_type string
  | InvalidateEntries asset_id
  | UpsertJob int job_record
  | DeleteJob u64

definition without_value :: "(asset_error + 'a) \<times> 'd \<Rightarrow> (asset_error + unit) \<times> 'd" where
  "without_value x = (case x of (Inl e, d) \<Rightarrow> (Inl e, d) | (Inr _, d) \<Rightarrow> (Inr (), d))"

lemma without_value_eq [simp]:
  "without_value x = (Inl e, d) \<longleftrightarrow> x = (Inl e, d)" "without_value x = (Inr u, d) \<longleftrightarrow> (\<exists>v. x = (Inr v, d))"
  by (auto simp: without_value_def split: prod.splits sum.splits)

text \<open>The writes; the first argument of \<open>UpsertJob\<close> is the reading of the clock.\<close>

fun db_apply :: "('d, 'w, 'r) redb \<Rightarrow> db_write \<Rightarrow> 'd \<Rightarrow> (asset_error + unit) \<times> 'd" where
  "db_apply R (UpsertAsset m) d = upsert_asset R m d"
| "db_apply R (RemoveAsset i) d = remove_asset R i d"
| "db_apply R (RecordEntry i ty p) d = record_cache_entry R i ty p d"
| "db_apply R (InvalidateEntries i) d = without_value (invalidate_caches R i d)"
| "db_apply R (UpsertJob clock r) d = upsert_job R clock r d"
| "db_apply R (DeleteJob j) d = without_value (delete_job R j d)"

text \<open>What is written can be encoded.\<close>

fun writable :: "db_write \<Rightarrow> bool" where
  "writable (UpsertAsset m) \<longleftrightarrow> storable_info m"
| "writable (RecordEntry i ty p) \<longleftrightarrow> storable_str (to_string_lossy p)"
| "writable (UpsertJob clock r) \<longleftrightarrow> storable_job r"
| "writable _ \<longleftrightarrow> True"

fun written_table :: "db_write \<Rightarrow> table" where
  "written_table (UpsertAsset m) = ASSETS"
| "written_table (RemoveAsset i) = ASSETS"
| "written_table (RecordEntry i ty p) = CACHE_ENTRIES"
| "written_table (InvalidateEntries i) = CACHE_ENTRIES"
| "written_table (UpsertJob clock r) = JOBS"
| "written_table (DeleteJob j) = JOBS"

text \<open>Every row of every table has the form its readers expect, under the key of what it holds.\<close>

definition tables_wf :: "rows \<Rightarrow> bool" where
  "tables_wf rows \<longleftrightarrow> assets_wf rows \<and> cache_wf rows \<and> jobs_wf rows"

lemma tables_wf_other:
  "assets_wf (rows(CACHE_ENTRIES := f)) = assets_wf rows" "assets_wf (rows(JOBS := f)) = assets_wf rows"
  "cache_wf (rows(ASSETS := f)) = cache_wf rows" "cache_wf (rows(JOBS := f)) = cache_wf rows"
  "jobs_wf (rows(ASSETS := f)) = jobs_wf rows" "jobs_wf (rows(CACHE_ENTRIES := f)) = jobs_wf rows"
  by (simp_all add: assets_wf_def cache_wf_def jobs_wf_def)

lemma db_apply_failed: "db_apply R op d = (Inl e, d') \<Longrightarrow> d' = d"
  by (cases op; auto simp: upsert_asset_def remove_asset_def record_cache_entry_def invalidate_caches_def
      upsert_job_def delete_job_def Let_def dest!: with_write_txn_Inl)

text \<open>A write changes one table only, and keeps it well formed.\<close>

lemma db_apply_done:
  assumes "db_apply R op d = (Inr u, d')" "redb_laws R dr wr rr" "writable op" "tables_wf (dr d)"
  shows "tables_wf (dr d') \<and> (\<exists>f. dr d' = (dr d)(written_table op := f))"
proof (cases op)
  case (UpsertAsset m)
  with assms have run: "upsert_asset R m d = (Inr (), d')" by simp
  show ?thesis
    using upsert_asset_rows [OF run assms(2)] upsert_asset_wf [OF run assms(2)] assms(3,4) UpsertAsset
    by (auto simp: tables_wf_def tables_wf_other)
next
  case (RemoveAsset i)
  with assms have run: "remove_asset R i d = (Inr (), d')" by simp
  show ?thesis
    using remove_asset_rows [OF run assms(2)] remove_asset_wf [OF run assms(2)] assms(4) RemoveAsset
    by (auto simp: tables_wf_def tables_wf_other)
next
  case (RecordEntry i ty p)
  with assms have run: "record_cache_entry R i ty p d = (Inr (), d')" by simp
  show ?thesis
    using record_cache_entry_rows [OF run assms(2)] record_cache_entry_wf [OF run assms(2)] assms(3,4) RecordEntry
    by (auto simp: tables_wf_def tables_wf_other)
next
  case (InvalidateEntries i)
  with assms obtain n where run: "invalidate_caches R i d = (Inr n, d')" by auto
  have "cache_wf (dr d')" using invalidate_caches_spares(3) [OF run assms(2)] assms(4) by (simp add: tables_wf_def)
  moreover have "dr d' = (dr d)(CACHE_ENTRIES := dr d' CACHE_ENTRIES)"
    using invalidate_caches_spares(1) [OF run assms(2)] by (auto simp: fun_eq_iff)
  ultimately show ?thesis using assms(4) InvalidateEntries by (metis tables_wf_def tables_wf_other(1,6) written_table.simps(4))
next
  case (UpsertJob clock r)
  with assms have run: "upsert_job R clock r d = (Inr (), d')" by simp
  show ?thesis
    using upsert_job_rows [OF run assms(2)] upsert_job_wf [OF run assms(2)] assms(3,4) UpsertJob
    by (auto simp: tables_wf_def tables_wf_other)
next
  case (DeleteJob j)
  with assms obtain b where run: "delete_job R j d = (Inr b, d')" by auto
  have "jobs_wf ((dr d)(JOBS := (dr d JOBS)(KNum j := None)))" if "jobs_wf (dr d)"
    using that by (auto simp: jobs_wf_def)
  then show ?thesis
    using delete_job_view(1) [OF run assms(2)] assms(4) DeleteJob by (auto simp: tables_wf_def tables_wf_other)
qed

definition db_run :: "('d, 'w, 'r) redb \<Rightarrow> db_write list \<Rightarrow> 'd \<Rightarrow> 'd" where
  "db_run R ops d = foldl (\<lambda>d op. snd (db_apply R op d)) d ops"

lemma db_run_wf:
  assumes "redb_laws R dr wr rr" "\<forall>op \<in> set ops. writable op" "tables_wf (dr d)"
  shows "tables_wf (dr (db_run R ops d)) \<and> (\<forall>t. t \<notin> written_table ` set ops \<longrightarrow> dr (db_run R ops d) t = dr d t)"
  using assms(2,3)
proof (induction ops arbitrary: d)
  case (Cons op ops)
  obtain r d1 where step: "db_apply R op d = (r, d1)" by (metis prod.collapse)
  have "tables_wf (dr d1) \<and> (\<forall>t. t \<noteq> written_table op \<longrightarrow> dr d1 t = dr d t)"
    using db_apply_failed [of R op d] db_apply_done [OF _ assms(1), of op d] step Cons.prems by (cases r) fastforce+
  with Cons.IH [of d1] Cons.prems step show ?case by (auto simp: db_run_def)
qed (simp add: db_run_def)

subsection \<open>Reading a well-formed database\<close>

text \<open>The store serves the reads of a database: none of its own calls fails.\<close>

definition serves :: "('d, 'w, 'r) redb \<Rightarrow> 'd \<Rightarrow> bool" where
  "serves R d \<longleftrightarrow> (\<exists>txn. begin_read R d = Inr txn \<and> (\<forall>t. open_table_r R t txn = Inr ()) \<and>
     (\<forall>t k. \<exists>v. get_r R t k txn = Inr v) \<and> (\<forall>t. \<exists>kvs. iter_r R t txn = Inr (map Inr kvs)) \<and>
     (\<forall>t k. \<exists>kvs. range_r R t k txn = Inr (map Inr kvs)))"

lemma collect_rows_ok: "\<forall>kv \<in> set kvs. is_ok (f (fst kv) (snd kv)) \<Longrightarrow> is_ok (collect_rows f (map Inr kvs))"
  by (induction kvs) (auto simp: rbind_def is_ok_def split: sum.splits)

lemma list_rows_ok:
  "\<forall>kv \<in> set kvs. own_key prefix (fst kv) \<longrightarrow> is_ok (row_entry (fst kv) (snd kv)) \<Longrightarrow> is_ok (list_rows prefix (map Inr kvs))"
proof (induction kvs)
  case (Cons kv kvs)
  then have "is_ok (list_rows prefix (map Inr kvs))" by simp
  with Cons.prems show ?case
    by (cases kv) (auto simp: row_entry_def rbind_def Let_def is_ok_def split: sum.splits)
qed simp

text \<open>No read of a well-formed database is stopped by a row.\<close>

lemma wf_reads:
  assumes laws: "redb_laws R dr wr rr" and wf: "tables_wf (dr d)" and "serves R d"
  shows "is_ok (get_asset R i d)" "is_ok (list_assets R d)" "is_ok (get_cache_entry R i ty d)"
    "is_ok (list_cache_entries R i d)" "is_ok (get_job R j d)" "is_ok (all_jobs R d)"
proof -
  obtain txn where txn: "begin_read R d = Inr txn" "\<And>t. open_table_r R t txn = Inr ()" "\<And>t k. \<exists>v. get_r R t k txn = Inr v"
    "\<And>t. \<exists>kvs. iter_r R t txn = Inr (map Inr kvs)" "\<And>t k. \<exists>kvs. range_r R t k txn = Inr (map Inr kvs)"
    using assms(3) by (auto simp: serves_def)
  note rows = redb_lawsD(2) [OF laws txn(1)]
  have get: "get_r R t k txn = Inr (dr d t k)" for t k
    using txn(3) [of t k] redb_lawsD(8) [OF laws, of t k txn] rows by auto
  have row: "dr d t (fst kv) = Some (snd kv)" if "iterates (dr d t) P kvs" "kv \<in> set kvs" for t P kvs kv
    using that by (cases kv) (auto simp: iterates_def)
  have assets: "dr d ASSETS k = Some x \<Longrightarrow> is_ok (decode_media_info x)" for k x
    using wf by (fastforce simp: tables_wf_def assets_wf_def is_ok_def)
  have entries: "dr d CACHE_ENTRIES k = Some x \<Longrightarrow> \<exists>i ty p. k = entry_key i ty \<and> entry_path x = Some p" for k x
    using wf by (simp add: tables_wf_def cache_wf_def)
  have jobs: "dr d JOBS k = Some x \<Longrightarrow> is_ok (decode_job_record (key_num k) x)" for k x
    using wf by (fastforce simp: tables_wf_def jobs_wf_def is_ok_def)
  show "is_ok (get_asset R i d)" "is_ok (get_job R j d)"
    using assets [of "KBytes (asset_key i)"] jobs [of "KNum j"]
    by (auto simp: get_asset_def get_job_def with_read_txn_def txn(1,2) get rbind_def is_ok_def split: option.splits sum.splits)
  show "is_ok (get_cache_entry R i ty d)"
    using entries [of "entry_key i ty"]
    by (auto simp: get_cache_entry_def txn(1,2) get rbind_def is_ok_def entry_path_eq_Some split: option.splits sum.splits)
  obtain kvs where "iter_r R ASSETS txn = Inr (map Inr kvs)" "iterates (dr d ASSETS) (\<lambda>_. True) kvs"
    using txn(4) [of ASSETS] redb_lawsD(9) [OF laws] rows scans_clean by metis
  then show "is_ok (list_assets R d)"
    using collect_rows_ok [of kvs "\<lambda>_. decode_media_info"] assets [OF row [of ASSETS "\<lambda>_. True" kvs]]
    by (simp add: list_assets_def txn(1,2) rbind_def)
  obtain kvs where "iter_r R JOBS txn = Inr (map Inr kvs)" "iterates (dr d JOBS) (\<lambda>_. True) kvs"
    using txn(4) [of JOBS] redb_lawsD(9) [OF laws] rows scans_clean by metis
  then show "is_ok (all_jobs R d)"
    using collect_rows_ok [of kvs "\<lambda>k. decode_job_record (key_num k)"] jobs [OF row [of JOBS "\<lambda>_. True" kvs]]
    by (simp add: all_jobs_def txn(1,2) rbind_def)
  obtain kvs where it: "range_r R CACHE_ENTRIES (KBytes (key_bytes i)) txn = Inr (map Inr kvs)"
    "iterates (dr d CACHE_ENTRIES) (\<lambda>k. KBytes (key_bytes i) \<le> k) kvs"
    using txn(5) [of CACHE_ENTRIES "KBytes (key_bytes i)"] redb_lawsD(10) [OF laws] rows scans_clean by metis
  have "is_ok (row_entry (fst kv) (snd kv))" if "kv \<in> set kvs" for kv
  proof -
    note at = row [OF it(2) that]
    obtain i' ty p where "fst kv = entry_key i' ty" "entry_path (snd kv) = Some p" using entries [OF at] by blast
    then have "row_entry (fst kv) (snd kv) = Inr (ty, p)" using row_entry_key by metis
    then show ?thesis by simp
  qed
  then show "is_ok (list_cache_entries R i d)"
    using it(1) list_rows_ok [of kvs "key_bytes i"] by (simp add: list_cache_entries_def Let_def txn(1,2) rbind_def)
qed

end
