(* ===== verification/Scanner.thy ===== *)
theory Scanner
  imports Polling
begin

text \<open>
  The thread of the polling backend (\<open>start_scanner\<close> in
  \<open>tpt-av-asset-watcher/src/backend/read_dir.rs\<close>).

  A turn of its loop is given by what the thread sees during it: the shutdown flag at the head of the loop, the time
  elapsed and the flag whenever it wakes up, whether the lock can be had, what calls of \<open>watch\<close> and \<open>unwatch\<close> did
  to the shared state before it was locked, and what the system answers to the scan.
\<close>

record scan_turn =
  turn_shutdown :: bool
  turn_naps :: "(nat \<times> bool) list"
  turn_lock :: bool
  turn_clients :: "poll_state \<Rightarrow> poll_state"
  turn_lister :: dir_lister
  turn_stamp :: "string \<Rightarrow> nat"

text \<open>Sleeping in slices: whether the interval has passed, or the flag was seen; \<open>None\<close> while it sleeps.\<close>

fun sleep_interval :: "nat \<Rightarrow> (nat \<times> bool) list \<Rightarrow> bool option" where
  "sleep_interval interval [] = None"
| "sleep_interval interval ((elapsed, stop) # naps) =
     (if elapsed < interval then if stop then Some False else sleep_interval interval naps else Some True)"

datatype scanner_end = Scanning | Stopped | Poisoned

text \<open>What the thread has sent by the last turn, the shared state, and whether it has returned.\<close>

fun scanner ::
  "(string, file_state) hash_order \<Rightarrow> nat \<Rightarrow> scan_turn list \<Rightarrow> poll_state \<Rightarrow> file_event list \<times> poll_state \<times> scanner_end" where
  "scanner order interval [] st = ([], st, Scanning)"
| "scanner order interval (t # turns) st =
     (if turn_shutdown t then ([], st, Stopped)
      else case sleep_interval interval (turn_naps t) of
        None \<Rightarrow> ([], st, Scanning)
      | Some False \<Rightarrow> ([], st, Stopped)
      | Some True \<Rightarrow>
          if \<not> turn_lock t then ([], st, Poisoned)
          else (case poll_round order (turn_stamp t) (turn_lister t) (turn_clients t st) of
            (events, st) \<Rightarrow> (case scanner order interval turns st of (sent, r) \<Rightarrow> (events @ sent, r))))"

text \<open>What a receiver of the events believes to be there.\<close>

definition replay_event :: "string set \<Rightarrow> file_event \<Rightarrow> string set" where
  "replay_event ps e =
     (case event_type e of Created \<Rightarrow> insert (event_path e) ps | Deleted \<Rightarrow> ps - {event_path e} | _ \<Rightarrow> ps)"

definition replay :: "file_event list \<Rightarrow> string set \<Rightarrow> string set" where
  "replay es ps = foldl replay_event ps es"

lemma replay_append: "replay (es @ es') ps = replay es' (replay es ps)"
  by (simp add: replay_def)

text \<open>Events of different paths: each path is as its event says.\<close>

lemma replay_distinct:
  assumes "distinct (map event_path es)"
  shows "p \<in> replay es ps \<longleftrightarrow>
    (\<exists>e \<in> set es. event_path e = p \<and> event_type e = Created) \<or>
    p \<in> ps \<and> \<not> (\<exists>e \<in> set es. event_path e = p \<and> event_type e = Deleted)"
  using assms
proof (induction es arbitrary: ps)
  case (Cons e es)
  have "replay (e # es) ps = replay es (replay_event ps e)" by (simp add: replay_def)
  moreover have "p \<in> replay_event ps e \<longleftrightarrow>
      (if event_path e = p \<and> event_type e = Created then True else if event_path e = p \<and> event_type e = Deleted then False else p \<in> ps)"
    by (auto simp: replay_event_def split: file_event_type.splits)
  moreover have "\<forall>x \<in> set es. event_path x \<noteq> event_path e" using Cons.prems by (auto simp: image_iff)
  ultimately show ?case using Cons.IH [of "replay_event ps e"] Cons.prems by (cases "event_path e = p") auto
qed (simp add: replay_def)

lemma replay_round:
  assumes "hash_iterates order" "finite (dom (poll_files st))" "poll_round order stamp ls st = (es, st')"
  shows "replay es (dom (poll_files st)) = dom (poll_files st')" "finite (dom (poll_files st'))"
proof -
  have es: "es = poll_events order stamp (poll_files st) (poll_files st')" and st': "poll_files st' = scan_all ls (poll_directories st)"
    using assms(3) by (auto simp: poll_round_def Let_def)
  show fin: "finite (dom (poll_files st'))" unfolding st' by (rule finite_scan_all)
  note exact = poll_events_exact [OF assms(1,2) fin, where stamp = stamp, folded es]
  have made: "(\<exists>e \<in> set es. event_path e = p \<and> event_type e = ty) \<longleftrightarrow> event_now (stamp p) ty p \<in> set es" for p ty
  proof
    assume "\<exists>e \<in> set es. event_path e = p \<and> event_type e = ty"
    then show "event_now (stamp p) ty p \<in> set es" using exact(4) by (force simp: event_now_def)
  qed (force simp: event_now_def)
  show "replay es (dom (poll_files st)) = dom (poll_files st')"
    unfolding set_eq_iff replay_distinct [OF exact(5)] made exact(1,2) by auto
qed

lemma scanner_replay:
  assumes "hash_iterates order" "\<forall>t \<in> set turns. \<forall>st. poll_files (turn_clients t st) = poll_files st"
    "finite (dom (poll_files st))" "scanner order interval turns st = (sent, st', r)"
  shows "replay sent (dom (poll_files st)) = dom (poll_files st')"
  using assms(2-4)
proof (induction turns arbitrary: st sent)
  case (Cons t turns)
  show ?case
  proof (cases "\<not> turn_shutdown t \<and> sleep_interval interval (turn_naps t) = Some True \<and> turn_lock t")
    case True
    obtain es st1 where round: "poll_round order (turn_stamp t) (turn_lister t) (turn_clients t st) = (es, st1)"
      by (metis prod.collapse)
    obtain sent1 where rest: "scanner order interval turns st1 = (sent1, st', r)" "sent = es @ sent1"
      using Cons.prems(3) True round by (auto split: prod.splits)
    have known: "poll_files (turn_clients t st) = poll_files st" using Cons.prems(1) by simp
    note one = replay_round [OF assms(1) _ round, unfolded known, OF Cons.prems(2)]
    have "replay sent1 (dom (poll_files st1)) = dom (poll_files st')"
      by (rule Cons.IH [OF _ one(2) rest(1)]) (use Cons.prems(1) in simp)
    with one(1) rest(2) show ?thesis by (simp add: replay_append)
  next
    case False
    then have "sent = [] \<and> st' = st" using Cons.prems(3) by (auto split: option.splits bool.splits if_splits)
    then show ?thesis by (simp add: replay_def)
  qed
qed (simp add: replay_def)

text \<open>Once the flag is set the thread sends nothing of later turns, and it returns unless it never wakes up.\<close>

lemma scanner_stops:
  assumes "k < length turns" "turn_shutdown (turns ! k)" "\<forall>t \<in> set (take k turns). sleep_interval interval (turn_naps t) \<noteq> None"
  shows "snd (snd (scanner order interval turns st)) \<noteq> Scanning \<and>
    fst (scanner order interval turns st) = fst (scanner order interval (take k turns) st)"
  using assms
proof (induction turns arbitrary: k st)
  case (Cons t turns)
  show ?case
  proof (cases k)
    case 0
    with Cons.prems(2) show ?thesis by simp
  next
    case (Suc j)
    with Cons.prems have j: "j < length turns" "turn_shutdown (turns ! j)"
      "\<forall>t \<in> set (take j turns). sleep_interval interval (turn_naps t) \<noteq> None" "sleep_interval interval (turn_naps t) \<noteq> None" by simp_all
    obtain b where nap: "sleep_interval interval (turn_naps t) = Some b" using j(4) by blast
    obtain es st1 where round: "poll_round order (turn_stamp t) (turn_lister t) (turn_clients t st) = (es, st1)"
      by (metis prod.collapse)
    show ?thesis
      using Cons.IH [OF j(1-3), of st1] nap round Suc by (cases b) (auto split: prod.splits)
  qed
qed simp

end
