(* ===== verification/Spec2Isabelle.thy ===== *)
theory Spec2Isabelle
  imports SampleVideos JobRuns Runs Cli WaveformJobs Database Scanner
begin

text \<open>
  Verification of tpt-av-asset, a background asset manager for audio and video: asset ids, an embedded
  database of assets, cache entries and jobs, a cache of derived files, proxies, a file watcher and a
  pipeline of background jobs.

  Structure.  Each theory models a part of the program, one definition per function of the code:
  \<^item> \<open>Prelude\<close>, \<open>Utf8\<close>, \<open>Floats\<close>, \<open>Paths\<close>: what the code uses of Rust's standard library: results and
    options, little-endian bytes, decimal and hexadecimal text, UTF-8, IEEE 754 doubles as bit patterns
    (add, subtract, multiply and divide round to nearest even), Unix paths.
  \<^item> \<open>Errors\<close>, \<open>AssetIds\<close>, \<open>Media\<close>, \<open>Progress\<close>: crate tpt-av-asset-utils.
  \<^item> \<open>Schema\<close>, \<open>Redb\<close>, \<open>AssetTable\<close>, \<open>CacheTable\<close>, \<open>JobTable\<close>, \<open>Database\<close>: crate tpt-av-asset-db.  The redb engine is
    not in the repository: it is the record \<open>redb\<close> of the calls the code makes, with their documented
    laws \<open>redb_laws\<close>; \<open>mem_redb\<close> is a store that meets them.
  \<^item> \<open>Queue\<close>, \<open>Scheduler\<close>, \<open>Tracker\<close>, \<open>Pipeline\<close>: crate tpt-av-asset-pipeline, one definition for each
    critical section and the methods composed of them.  \<open>Interleaving\<close> lets any number of clients and
    workers run these sections in any order and proves the invariant \<open>sys_inv\<close>; \<open>Runs\<close> performs
    schedules of them on concrete states.
  \<^item> \<open>Files\<close>, \<open>Storage\<close>, \<open>Casts\<close>, \<open>Peaks\<close>, \<open>PeakGen\<close>, \<open>Container\<close>, \<open>Video\<close>, \<open>Thumbnails\<close>,
    \<open>ThumbnailFiles\<close>, \<open>ThumbnailTimes\<close>: crate tpt-av-asset-cache.  \<open>Files\<close> is a file system whose calls may fail, and open files whose writes may be cut
    short; \<open>Casts\<close> has singles, rounding and the casts between numbers.  Decoders, codecs and the image library are
    not in the repository: they are parameters (\<open>opener\<close>, \<open>decoder_fn\<close>, \<open>kinetix\<close>, \<open>image_lib\<close>).  What a decoder or a
    source delivers, errors included, is the list of \<open>read_blocks\<close> or \<open>source_frames\<close>, and what a proxy holds is stated by these
    lists; a \<open>steady\<close> decoder fills the buffer as long as it has samples.
  \<^item> \<open>Rounding\<close>, \<open>Proxies\<close>, \<open>Endings\<close>: crate tpt-av-asset-proxy: error bounds of the arithmetic that sizes a proxy,
    the audio and video proxies with their profiles and writers, and that a source of frames ends.
  \<^item> \<open>Debounce\<close>, \<open>Polling\<close>, \<open>Scanner\<close>, \<open>Watching\<close>: crate tpt-av-asset-watcher.  The notify crate is the parameter
    \<open>notify_lib\<close>; the order in which a hash map is iterated is the parameter \<open>hash_order\<close>.
  \<^item> \<open>FloatText\<close>, \<open>Jobs\<close>, \<open>JobEffects\<close>, \<open>WaveformJobs\<close>, \<open>ThumbnailJobs\<close>, \<open>Recovery\<close>, \<open>Importer\<close>: the jobs that fill the caches, starting and stopping, crash
    recovery and import, of crate tpt-av-asset-pipeline.  They build on all crates above.  \<open>Workers\<close> and
    \<open>JobRuns\<close> show that a worker's turn and the execution of a cache job are runs of the transition system of
    \<open>Interleaving\<close>.  \<open>FloatText\<close> is the text of a double and its parser.
  \<^item> \<open>Cli\<close>: the commands of tpt-av-asset-cli.
  \<^item> \<open>Samples\<close> and \<open>SampleVideos\<close>: concrete values that the witnesses share; the second runs a proxy job and a
    thumbnail job on a stream of one frame to their successful end.

  Interfaces.  Locale \<open>row_codec\<close> is what a row needs of a field's encoder and decoder, interpreted for
  every field type; locale \<open>priority_fifo\<close> is what the pipeline needs of its queue, interpreted for the
  sorted vector of queue.rs; locale \<open>reporter_contract\<close> is what a job's body needs of the reporter and of the flag it is given, interpreted for the reporter
  of a worker and the steps of \<open>Interleaving\<close>.

  Bounds and fuel.  Integers have the width of the code.  \<open>usize\<close> is a natural number, as lengths of
  vectors in memory do not reach its bound.  \<open>read_blocks\<close> and \<open>source_frames\<close> bound the number of calls; any bound that
  suffices gives the same list.  Loops end by structural recursion or a measure; a wait on a condition variable is a function of the states seen at its wake-ups and \<open>None\<close> when it has not
  returned by the last; the worker loop takes its number of turns as fuel, and \<open>Interleaving\<close> has no
  such bound.  A thread may be stopped between any two critical sections.  Panics by a poisoned lock do
  not occur, as no section panics while it holds a lock other than by the \<open>expect\<close> of \<open>persist\<close>, which
  is the result \<open>None\<close>.

  What the lemmas show.  What is proved of the sections of the pipeline holds in every interleaving.  Rows, container
  headers, peaks and payloads read back what was written, and what was cut short is refused or leaves the rest intact.
  The tables, the queue and the debouncer refine maps, lines and histories.  A proxy job, whatever calls fail, registers all
  of its source or leaves no partial file and no entry; a waveform job leaves the peaks of a first part of its source.  Invalidation
  removes what belongs to an asset and nothing else, recovery and import queue exactly the jobs they should, and the loops
  over decoders and chunks end.

  Not modelled: logging, formatting for debugging, the text that commands print,
  symbolic links, and what the components list of the manifest says.
\<close>

section \<open>The pipeline\<close>

text \<open>C1: In every reachable state, a job that a worker has taken from the queue, and until its end is
  noted in the scheduler, has all of its dependencies completed; in particular a job with a failed or
  cancelled dependency is never run.  As \<open>job.rs\<close> demands, no two submissions use the same job id: a submission of the
  transition system takes an id that was not used before.  (Recovery breaks this demand: the ids of recovered jobs may be handed out again.)\<close>

theorem dispatched_dependencies_completed:
  assumes "reachable up s" "t \<in> set (threads s)" "dispatched t" "about t = Some j"
    "d \<in> dependencies (scheduler (shr s)) j"
  shows "job_tracked (shr s) d = Some Completed \<and> d \<notin> dead (scheduler (shr s))"
proof -
  have inv: "sys_inv s" by (rule reachable_inv [OF assms(1)])
  have "d \<in> completed (scheduler (shr s))"
    using sys_invD(1) [OF inv assms(2)] assms(3-5) unfolding thread_ok_def by blast
  then show ?thesis using sys_invD(2) [OF inv, of d] unfolding job_ok_def by auto
qed

theorem dispatched_dependencies_completed_witness:
  "\<forall>up :: unit upsert. \<exists>s :: (unit, unit) sys. reachable up s \<and> RunPersist (sample_job 2) \<in> set (threads s) \<and> 1 \<notin> dead (scheduler (shr s))"
  (is "\<forall>up. ?P up")
proof
  fix up :: "unit upsert"
  obtain s where s: "perform_all up chain_schedule sys_init = Some s"
    "threads s = [SubmitReturned (Inr 1), RunPersist (sample_job 2), SubmitReturned (Inr 2)]"
    "1 \<in> dependencies (scheduler (shr s)) 2"
    using chain_run by blast
  have "reachable up s" by (rule perform_all_reach [OF s(1)])
  moreover from this have "1 \<notin> dead (scheduler (shr s))"
    using dispatched_dependencies_completed [of up s "RunPersist (sample_job 2)" 2 1] s(2,3)
    by (simp add: dispatched_def sample_job_def)
  ultimately show "?P up" using s(2) by auto
qed

text \<open>C2: In every step of the pipeline, each job's tracked state stays or makes one of the moves:
  none to pending, pending to running or cancelled, running to completed, failed or cancelled.  (No job id is submitted twice.)\<close>

theorem job_life_cycle:
  assumes "reachable up s" "sys_step up s s'"
  shows "job_tracked (shr s') j = job_tracked (shr s) j \<or>
     job_step (job_tracked (shr s) j) (job_tracked (shr s') j)"
  using sys_step_moves [OF assms(2) reachable_inv [OF assms(1)]] by (simp add: jobs_move_def)

theorem job_life_cycle_witness:
  "\<forall>up :: unit upsert. \<exists>(s :: (unit, unit) sys) s'. reachable up s \<and> sys_step up s s' \<and>
     (job_tracked (shr s') 1 = Some Pending \<or> job_step (Some Pending) (job_tracked (shr s') 1))"
  (is "\<forall>up. ?P up")
proof
  fix up :: "unit upsert"
  obtain s where s: "perform_all up taken_schedule sys_init = Some s"
    "threads s = [SubmitReturned (Inr 1), RunState (sample_job 1)]" "job_tracked (shr s) 1 = Some Pending"
    using taken_run by blast
  obtain s' where s': "perform up (Section 1 0) s = Some s'" using s(2) by simp
  have "reachable up s" "sys_step up s s'"
    by (rule perform_all_reach [OF s(1)], rule perform_step [OF s'])
  then show "?P up" using job_life_cycle [of up s s' 1] s(3) by metis
qed

text \<open>C3: Once a job is completed, failed or cancelled, its state never changes again.  (No job id is submitted twice.)\<close>

theorem terminal_state_is_final:
  assumes "reachable up s" "sys_reach up s s'" "terminal_opt (job_tracked (shr s) j)"
  shows "job_tracked (shr s') j = job_tracked (shr s) j"
  by (rule terminal_stays [OF assms(2) reachable_inv [OF assms(1)] assms(3)])

theorem terminal_state_is_final_witness:
  "\<forall>up :: unit upsert. \<exists>s :: (unit, unit) sys. reachable up s \<and> (\<forall>s'. sys_reach up s s' \<longrightarrow> job_tracked (shr s') 1 = Some Completed)"
  (is "\<forall>up. ?P up")
proof
  fix up :: "unit upsert"
  obtain s where s: "perform_all up chain_schedule sys_init = Some s" "job_tracked (shr s) 1 = Some Completed"
    using chain_run by blast
  have "reachable up s" by (rule perform_all_reach [OF s(1)])
  then show "?P up"
    using terminal_state_is_final [of up s _ 1] s(2) by (metis is_terminal_simps(1) terminal_opt_simps(1))
qed

text \<open>C4: In every reachable state a job is in at most one place: never queued twice, owned by two
  threads (so run by two workers), or both queued and owned; and no thread has panicked, so that a
  job that is persisted is always tracked.  (No job id
  is submitted twice.)\<close>

theorem job_in_one_place:
  assumes "reachable up s"
  shows "count (mset (queue_ids (queue (shr s)))) j + count (all_owned (threads s)) j \<le> 1 \<and>
     Panicked \<notin> set (threads s)"
proof -
  have inv: "sys_inv s" by (rule reachable_inv [OF assms])
  have "count (mset (queue_ids (queue (shr s)))) j + count (all_owned (threads s)) j \<le> 1"
    using sys_invD(2) [OF inv, of j] by (simp add: job_ok_def places_def)
  then show ?thesis using sys_invD(4) [OF inv] by blast
qed

theorem job_in_one_place_witness:
  "\<forall>up :: unit upsert. \<exists>s :: (unit, unit) sys. reachable up s \<and> 1 \<in># all_owned (threads s) \<and>
     1 \<notin> set (queue_ids (queue (shr s)))"
  (is "\<forall>up. ?P up")
proof
  fix up :: "unit upsert"
  obtain s where s: "perform_all up taken_schedule sys_init = Some s"
    "threads s = [SubmitReturned (Inr 1), RunState (sample_job 1)]"
    using taken_run by blast
  have reach: "reachable up s" by (rule perform_all_reach [OF s(1)])
  have own: "count (all_owned (threads s)) 1 = 1" by (simp add: s(2) owned_def sample_job_def)
  then have "count (mset (queue_ids (queue (shr s)))) 1 = 0"
    using job_in_one_place [OF reach, of 1] by linarith
  then have "1 \<notin> set (queue_ids (queue (shr s)))" by (metis count_mset_0_iff)
  moreover have "1 \<in># all_owned (threads s)" using own by (simp add: count_greater_zero_iff [symmetric])
  ultimately show "?P up" using reach by blast
qed

text \<open>C5: In every reachable state, each snapshot of the progress registry is filed under its own job
  and holds a fraction between zero and one, whatever numbers the jobs reported.\<close>

theorem fractions_bounded:
  assumes "reachable up s" "tracker (shr s) j = Some p"
  shows "progress_job p = j \<and> f64_le f64_zero (fraction_done p) \<and> f64_le (fraction_done p) f64_one"
  using sys_invD(3) [OF reachable_inv [OF assms(1)]] assms(2) by (auto simp: tracker_ok_def unit_fraction_def)

theorem fractions_bounded_witness:
  "\<forall>up :: unit upsert. \<exists>(s :: (unit, unit) sys) p. reachable up s \<and> tracker (shr s) 1 = Some p \<and> f64_le (fraction_done p) f64_one"
  (is "\<forall>up. ?P up")
proof
  fix up :: "unit upsert"
  obtain s where s: "perform_all up taken_schedule sys_init = Some s" "job_tracked (shr s) 1 = Some Pending"
    using taken_run by blast
  then obtain p where p: "tracker (shr s) 1 = Some p" by (auto simp: tracked_state_def)
  have "reachable up s" by (rule perform_all_reach [OF s(1)])
  with p fractions_bounded [OF this p] show "?P up" by blast
qed

text \<open>C6: A cancellation can be lost.  There is a run in which a client cancels a job that is still
  pending and is told that this succeeded, yet the job, which a worker had taken from the queue but not
  yet registered as running, is executed to its end and completes, its cancellation flag never set.\<close>

theorem cancellation_can_be_lost:
  "\<exists>(s1 :: (unit, 'd) sys) s2. reachable up s1 \<and> CancelReturned 1 (Inr ()) \<in> set (threads s1) \<and>
     job_tracked (shr s1) 1 = Some Pending \<and> sys_reach up s1 s2 \<and>
     job_tracked (shr s2) 1 = Some Completed \<and> (\<forall>n. \<not> flags (shr s2) n)"
proof -
  obtain s1 s2 where run: "perform_all up (taken_schedule @ cancelled_schedule) sys_init = Some s1"
    "perform_all up (finish_schedule JobOk) s1 = Some s2" and states: "threads s1 = [SubmitReturned (Inr 1), RunState (sample_job 1), CancelReturned 1 (Inr ())]"
    "job_tracked (shr s1) 1 = Some Pending"
    "job_tracked (shr s2) 1 = Some Completed" "\<forall>n. \<not> flags (shr s2) n"
    using lost_cancel_run [of up] by blast
  have "reachable up s1" "sys_reach up s1 s2"
    by (rule perform_all_reach [OF run(1)], rule perform_all_reach [OF run(2)])
  with states show ?thesis by (intro exI [of _ s1] exI [of _ s2]) simp
qed

text \<open>C7: A cancellation that nothing interrupts: an unknown job is an error; a queued job is taken out
  of the queue, cancelled in the registry and dead for its dependents; of a running job the
  cancellation flag is set and nothing else changes; any other job is left alone.\<close>

theorem cancel_effect:
  assumes "cancel up c j sh = Some (r, sh')"
  shows "if job_tracked sh j = None then r = Inl (JobNotFound j) \<and> sh' = sh
     else r = Inr () \<and>
       (if j \<in> set (queue_ids (queue sh))
        then job_tracked sh' j = Some JobCancelled \<and> j \<in> dead (scheduler sh') \<and>
          j \<notin> completed (scheduler sh') \<and>
          mset (queue_ids (queue sh)) = add_mset j (mset (queue_ids (queue sh'))) \<and>
          (\<forall>k. k \<noteq> j \<longrightarrow> tracker sh' k = tracker sh k) \<and> flags sh' = flags sh
        else (case running sh j of
                None \<Rightarrow> sh' = sh
              | Some n \<Rightarrow> sh' = sh\<lparr>flags := (flags sh)(n := True)\<rparr>))"
proof (cases "tracker sh j")
  case None
  with assms show ?thesis by (simp add: cancel_def snapshot_def tracked_state_def)
next
  case found: (Some p)
  show ?thesis
  proof (cases "cancel_dequeue j sh")
    case None
    then have "j \<notin> set (queue_ids (queue sh))"
      by (simp add: cancel_dequeue_def queue_remove_None [symmetric])
    with None found assms show ?thesis
      by (auto simp: cancel_def snapshot_def tracked_state_def cancel_token_def split: option.splits)
  next
    case (Some sh1)
    then obtain job q where q: "queue_remove j (queue sh) = Some (job, q)" "sh1 = sh\<lparr>queue := q\<rparr>"
      by (auto simp: cancel_dequeue_def)
    from Some found assms have "r = Inr ()"
      "persist up c j JobCancelled None (set_dead j (set_state c j JobCancelled sh1)) = Some sh'"
      by (auto simp: cancel_def snapshot_def Let_def bind_eq_Some_conv)
    moreover from this(2) obtain d where "sh' = (set_dead j (set_state c j JobCancelled sh1))\<lparr>job_db := d\<rparr>"
      using persist_only_db by blast
    ultimately show ?thesis
      using found queue_remove_ids [OF q(1)]
      by (auto simp: q(2) set_dead_def set_state_def tracked_state_def update_state_eq)
  qed
qed

theorem cancel_effect_witness:
  "\<exists>sh sh' :: (unit, unit) shared. cancel (\<lambda>c r d. (Inr (), d)) 0 1 sh = Some (Inr (), sh') \<and>
     1 \<in> set (queue_ids (queue sh)) \<and> job_tracked sh' 1 = Some JobCancelled"
proof -
  obtain sh :: "(unit, unit) shared" where
    "submit (\<lambda>c r d. (Inr (), d)) 0 (sample_job 1) shared_default = Some (Inr 1, sh)" and
    queued: "1 \<in> set (queue_ids (queue sh))" "job_tracked sh 1 = Some Pending" "job_db sh = None"
    by (simp add: submit_def submit_with_deps_def run_simps sample_job_def)
  moreover from queued obtain sh' where
    "cancel (\<lambda>c r d. (Inr (), d)) 0 1 sh = Some (Inr (), sh')"
    using queue_remove_None [of 1 "queue sh"]
    by (auto simp: cancel_def snapshot_def tracked_state_def cancel_dequeue_def persist_def set_dead_def
        set_state_def Let_def)
  ultimately show ?thesis using cancel_effect [of "\<lambda>c r d. (Inr (), d)" 0 1 sh "Inr ()" sh'] by auto
qed

text \<open>C8: The queue serves, of the jobs that are ready, one of the highest priority, and of those the one
  submitted first; the jobs it passes over keep their places.\<close>

theorem queue_serves_in_order:
  assumes "queue_inv q" "pop_ready ready q = Some (j, q')"
  shows "ready (job_ident j) \<and>
     (\<forall>p. job_prio j < p \<longrightarrow> (\<forall>k \<in> set (queue_line q p). \<not> ready (job_ident k))) \<and>
     (\<exists>before after. queue_line q (job_prio j) = before @ j # after \<and>
        (\<forall>k \<in> set before. \<not> ready (job_ident k)) \<and>
        queue_line q' = (queue_line q)(job_prio j := before @ after)) \<and> queue_inv q'"
  using jq.pop_line [OF assms] jq.pop_above [OF assms] jq.pop_inv [OF assms] by blast

theorem queue_serves_in_order_witness:
  "\<exists>q'. pop_ready (\<lambda>i. i \<noteq> 1) (queue_push (sample_job 2) (queue_push (sample_job 1) queue_new)) =
       Some (sample_job 2, q') \<and> queue_inv q'"
proof -
  have "queue_inv (queue_push (sample_job 2) (queue_push (sample_job 1) queue_new))"
    by (intro queue_push_inv queue_inv_new) (simp_all add: queue_room_def queue_push_def queue_new_def Let_def)
  moreover obtain q' where
    "pop_ready (\<lambda>i. i \<noteq> 1) (queue_push (sample_job 2) (queue_push (sample_job 1) queue_new)) = Some (sample_job 2, q')"
    by (simp add: run_simps sample_job_def)
  ultimately show ?thesis using queue_serves_in_order by blast
qed

text \<open>A job that is pushed joins the end of the line of its priority and no other line changes; the
  vector stays ordered, as long as the sequence counter has a successor.\<close>

theorem queue_push_joins_its_line:
  assumes "queue_inv q" "queue_room q"
  shows "queue_inv (queue_push j q) \<and>
     queue_line (queue_push j q) = (queue_line q)(job_prio j := queue_line q (job_prio j) @ [j])"
  using jq.push_inv [OF assms] jq.push_line [OF assms] by blast

theorem queue_push_joins_its_line_witness:
  "queue_line (queue_push (sample_job 1) queue_new) Normal = [sample_job 1]"
  using queue_push_joins_its_line [OF queue_inv_new, of "sample_job 1"]
  by (simp add: queue_room_def queue_new_def queue_line_def sample_job_def)

section \<open>The database\<close>

text \<open>C9: An asset's row reads back the metadata that was written, with the path made valid UTF-8 and the
  size taken from the id; a row that ends early is a database error, and so are bytes after it.\<close>

theorem media_info_row_roundtrip:
  assumes "storable_info m"
  shows "decode_media_info (encode_media_info m) = Inr (stored_info m) \<and>
     (\<forall>part rest. encode_media_info m = part @ rest \<longrightarrow> rest \<noteq> [] \<longrightarrow>
        (\<exists>e. decode_media_info part = Inl (Db e))) \<and>
     (\<forall>rest. rest \<noteq> [] \<longrightarrow>
        decode_media_info (encode_media_info m @ rest) = Inl (Db ''corrupt row: trailing bytes''))"
  using decode_encode_media_info [OF assms] decode_cut_media_info [OF assms] decode_trailing_media_info [OF assms]
  by blast

theorem media_info_row_roundtrip_witness:
  "decode_media_info (encode_media_info sample_info) = Inr (stored_info sample_info) \<and>
   (\<exists>e. decode_media_info [] = Inl (Db e))"
proof -
  have "0 < length (encode_media_info m)" for m
    by (simp add: encode_media_info_fields enc_u64_def)
  then have "encode_media_info sample_info = [] @ encode_media_info sample_info"
    "encode_media_info sample_info \<noteq> []" by auto
  then show ?thesis using media_info_row_roundtrip [OF storable_sample_info] by blast
qed

text \<open>C10: The assets table is a map from ids to metadata.  An upsert that succeeds updates the map at the
  info's id and keeps the table well formed; a removal deletes the id.  Of the reads that succeed, a lookup returns the map's
  value, and the listing returns exactly the map's values, one for each id, in the order of their keys.\<close>

theorem assets_table:
  assumes "redb_laws R dr wr rr" "assets_wf (dr d)"
  shows "(\<forall>m d'. storable_info m \<longrightarrow> upsert_asset R m d = (Inr (), d') \<longrightarrow>
       assets_of (dr d') = (assets_of (dr d))(id m \<mapsto> stored_info m) \<and> assets_wf (dr d')) \<and>
     (\<forall>i d'. remove_asset R i d = (Inr (), d') \<longrightarrow>
       assets_of (dr d') = (assets_of (dr d))(i := None) \<and> assets_wf (dr d')) \<and>
     (\<forall>i x. get_asset R i d = Inr x \<longrightarrow> x = assets_of (dr d) i) \<and>
     (\<forall>ms. list_assets R d = Inr ms \<longrightarrow>
        set ms = ran (assets_of (dr d)) \<and> distinct (map id ms) \<and>
        sorted_wrt (<) (map (\<lambda>m. KBytes (asset_key (id m))) ms))"
  using upsert_asset_view [OF _ assms(1)] upsert_asset_wf [OF _ assms(1) _ assms(2)]
    remove_asset_view [OF _ assms(1)] remove_asset_wf [OF _ assms]
    get_asset_view [OF _ assms(1)] list_assets_view [OF _ assms] list_assets_distinct by blast

theorem assets_table_witness:
  "get_asset mem_redb (id sample_info) (snd (upsert_asset mem_redb sample_info mem_empty)) =
     Inr (Some (stored_info sample_info))"
proof -
  define d where "d = snd (upsert_asset mem_redb sample_info mem_empty)"
  have wf: "assets_wf (mem_rows d)"
    using upsert_asset_wf [where dr = mem_rows and d = mem_empty,
        OF mem_upsert_asset mem_redb_laws storable_sample_info mem_empty_wf(1)]
    by (simp add: d_def mem_upsert_asset)
  have "assets_of (mem_rows d) (id sample_info) = Some (stored_info sample_info)"
    using assets_table [where dr = mem_rows and d = mem_empty, OF mem_redb_laws mem_empty_wf(1)] storable_sample_info
    by (simp add: d_def mem_upsert_asset)
  moreover obtain x where "get_asset mem_redb (id sample_info) d = Inr x"
    using decode_encode_media_info [OF storable_sample_info]
    by (simp add: get_asset_def with_read_txn_def d_def mem_upsert_asset)
  ultimately show ?thesis
    using assets_table [where dr = mem_rows and d = d, OF mem_redb_laws wf] unfolding d_def [symmetric] by fastforce
qed

text \<open>A write that fails is a database error and leaves the database as it was.\<close>

theorem failed_writes_change_nothing:
  "(upsert_asset R m d = (Inl e, d') \<longrightarrow> d' = d \<and> (\<exists>t. e = Db t)) \<and>
   (upsert_job R clock r d = (Inl e, d') \<longrightarrow> d' = d \<and> (\<exists>t. e = Db t)) \<and>
   (invalidate_caches R i d = (Inl e, d') \<longrightarrow> d' = d)"
proof -
  have "invalidate_caches R i d = (Inl e, d') \<Longrightarrow> d' = d"
    unfolding invalidate_caches_def Let_def by (rule with_write_txn_Inl)
  moreover note upsert_asset_error [of R m d e d'] upsert_job_error [of R clock r d e d']
  ultimately show ?thesis by blast
qed

theorem failed_writes_change_nothing_witness:
  "upsert_asset (mem_redb\<lparr>commit := \<lambda>_. Inl ''disk full''\<rparr>) sample_info mem_empty = (Inl (Db ''disk full''), mem_empty)"
proof -
  have fails: "fst (upsert_asset (mem_redb\<lparr>commit := \<lambda>_. Inl ''disk full''\<rparr>) sample_info mem_empty) = Inl (Db ''disk full'')"
    by (simp add: upsert_asset_def with_write_txn_def Let_def)
  obtain d' where d': "upsert_asset (mem_redb\<lparr>commit := \<lambda>_. Inl ''disk full''\<rparr>) sample_info mem_empty = (Inl (Db ''disk full''), d')"
    by (metis fails prod.collapse)
  then have "d' = mem_empty"
    using failed_writes_change_nothing [of "mem_redb\<lparr>commit := \<lambda>_. Inl ''disk full''\<rparr>" sample_info mem_empty
        "Db ''disk full''" d'] by blast
  with d' show ?thesis by simp
qed

text \<open>C37: The database stays well formed.  Whatever sequence of writes is applied, of which any may fail, every row of every
  table keeps the form its readers expect, and a table that none of the writes is for keeps its rows; a write that fails leaves
  the database as it was.  (The strings that are written have to fit their length prefix: such writes are
  \<open>writable\<close>.)  And no read of a well formed database is stopped by a row: while the store serves it, every lookup
  and every listing returns.\<close>

theorem database_stays_well_formed:
  assumes "redb_laws R dr wr rr" "tables_wf (dr d)" "\<forall>op \<in> set ops. writable op"
  shows "tables_wf (dr (db_run R ops d)) \<and> (\<forall>t. t \<notin> written_table ` set ops \<longrightarrow> dr (db_run R ops d) t = dr d t) \<and>
    (\<forall>op d1 e d2. db_apply R op d1 = (Inl e, d2) \<longrightarrow> d2 = d1) \<and>
    (serves R (db_run R ops d) \<longrightarrow>
       (\<forall>i. is_ok (get_asset R i (db_run R ops d)) \<and> is_ok (list_cache_entries R i (db_run R ops d)) \<and>
          (\<forall>ty. is_ok (get_cache_entry R i ty (db_run R ops d)))) \<and>
       (\<forall>j. is_ok (get_job R j (db_run R ops d))) \<and>
       is_ok (list_assets R (db_run R ops d)) \<and> is_ok (all_jobs R (db_run R ops d)))"
proof -
  note wf = db_run_wf [OF assms(1,3,2)]
  have "\<forall>op d1 e d2. db_apply R op d1 = (Inl e, d2) \<longrightarrow> d2 = d1"
    by (intro allI impI) (rule db_apply_failed)
  moreover have "serves R (db_run R ops d) \<longrightarrow>
       (\<forall>i. is_ok (get_asset R i (db_run R ops d)) \<and> is_ok (list_cache_entries R i (db_run R ops d)) \<and>
          (\<forall>ty. is_ok (get_cache_entry R i ty (db_run R ops d)))) \<and>
       (\<forall>j. is_ok (get_job R j (db_run R ops d))) \<and>
       is_ok (list_assets R (db_run R ops d)) \<and> is_ok (all_jobs R (db_run R ops d))"
    using wf_reads [OF assms(1) conjunct1 [OF wf]] by blast
  ultimately show ?thesis using conjunct1 [OF wf] conjunct2 [OF wf] by (intro conjI)
qed

theorem database_stays_well_formed_witness:
  "is_ok (list_assets mem_redb (db_run mem_redb [UpsertAsset sample_info, RecordEntry asset_a AudioProxy ''/p.wav'', InvalidateEntries asset_a] mem_empty))"
proof -
  let ?ops = "[UpsertAsset sample_info, RecordEntry asset_a AudioProxy ''/p.wav'', InvalidateEntries asset_a]"
  have "tables_wf (mem_rows mem_empty)" by (simp add: tables_wf_def mem_empty_wf)
  moreover have "storable_str (to_string_lossy ''/p.wav'')" by (simp add: storable_str_def to_string_lossy_valid utf8_valid_ascii)
  then have "\<forall>op \<in> set ?ops. writable op" by (simp add: storable_sample_info)
  moreover have "serves mem_redb d" for d by (simp add: serves_def)
  ultimately show ?thesis
    using database_stays_well_formed [OF mem_redb_laws, of mem_empty ?ops] by blast
qed

text \<open>C11: Listing an asset's cache entries returns exactly the recorded ones, in the order of their types:
  the scan may stop at the first foreign key, because the keys of an asset lie together.\<close>

theorem cache_listing_is_exact:
  assumes "redb_laws R dr wr rr" "cache_wf (dr d)" "list_cache_entries R i d = Inr es"
  shows "es = entries_of (cache_of (dr d) i)"
  by (rule list_cache_entries_view [OF assms(3,1,2)])

theorem cache_listing_is_exact_witness:
  "list_cache_entries mem_redb (from_parts 1 0 0) sample_cache =
     Inr [(WaveformPeaks, ''/c/w''), (VideoThumbnails, ''/c/t'')]"
proof -
  obtain es where es: "list_cache_entries mem_redb (from_parts 1 0 0) sample_cache = Inr es"
    using mem_list_total [OF sample_cache_rows(1)] by blast
  have "es = entries_of (cache_of (mem_rows sample_cache) (from_parts 1 0 0))"
    by (rule cache_listing_is_exact [where dr = mem_rows, OF mem_redb_laws sample_cache_rows(1) es])
  then show ?thesis
    using es by (simp add: sample_cache_rows(2) entries_of_def all_cache_types_def List.map_filter_simps)
qed

text \<open>C12: Invalidating an asset's caches removes exactly its entries, leaves every other asset's entries
  and the other tables, and returns how many there were, provided that no row of the scan fails to read.\<close>

theorem invalidation_is_exact:
  assumes "redb_laws R dr wr rr" "cache_wf (dr d)" "invalidate_caches R i d = (Inr n, d')"
    and "\<And>w it. range_w R CACHE_ENTRIES (KBytes (key_bytes i)) w = Inr it \<Longrightarrow> \<exists>kvs. it = map Inr kvs"
  shows "cache_of (dr d') = (cache_of (dr d))(i := \<lambda>_. None) \<and>
     n = card {ty. cache_of (dr d) i ty \<noteq> None} \<and>
     (\<forall>t. t \<noteq> CACHE_ENTRIES \<longrightarrow> dr d' t = dr d t) \<and> cache_wf (dr d')"
proof -
  note laws = assms(3,1,2)
  have "dr d' = (dr d)(CACHE_ENTRIES :=
      (\<lambda>k. if \<exists>ty. k = entry_key i ty then None else dr d CACHE_ENTRIES k))"
    by (rule invalidate_caches_rows(1) [OF laws]) (rule assms(4))
  then have "\<forall>t. t \<noteq> CACHE_ENTRIES \<longrightarrow> dr d' t = dr d t" by simp
  moreover have "n = card {ty. cache_of (dr d) i ty \<noteq> None}"
    by (rule invalidate_caches_rows(2) [OF laws]) (rule assms(4))
  moreover have "cache_of (dr d') = (cache_of (dr d))(i := \<lambda>_. None)"
    by (rule invalidate_caches_view(1) [OF laws]) (rule assms(4))
  moreover have "cache_wf (dr d')"
    by (rule invalidate_caches_view(2) [where dr = dr and d' = d', OF laws]) (rule assms(4))
  ultimately show ?thesis by blast
qed

theorem invalidation_is_exact_witness:
  "\<exists>d'. invalidate_caches mem_redb (from_parts 1 0 0) sample_cache = (Inr 2, d') \<and>
     cache_of (mem_rows d') (from_parts 2 0 0) = [WaveformPeaks \<mapsto> ''/c/b'']"
proof -
  obtain n d' where inv: "invalidate_caches mem_redb (from_parts 1 0 0) sample_cache = (Inr n, d')"
    using mem_invalidate_total by blast
  have "cache_of (mem_rows d') = (cache_of (mem_rows sample_cache))(from_parts 1 0 0 := \<lambda>_. None) \<and>
      n = card {ty. cache_of (mem_rows sample_cache) (from_parts 1 0 0) ty \<noteq> None}"
    using invalidation_is_exact [where dr = mem_rows and d = sample_cache and d' = d',
        OF mem_redb_laws sample_cache_rows(1) inv] by auto
  moreover have "{ty. cache_of (mem_rows sample_cache) (from_parts 1 0 0) ty \<noteq> None} = {WaveformPeaks, VideoThumbnails}"
    by (auto simp: sample_cache_rows(2) split: if_splits)
  ultimately show ?thesis
    using inv sample_cache_rows(3) by (auto simp: from_parts_def)
qed

text \<open>A job's row reads back the record that was written, with the update time raised to the clock; a
  row that ends early is a database error, while bytes after it are ignored.\<close>

theorem job_row_roundtrip:
  assumes "storable_job r"
  shows "decode_job_record (job_id r) (job_row clock r) = Inr (stored_job clock r) \<and>
     (\<forall>rest. decode_job_record (job_id r) (job_row clock r @ rest) = Inr (stored_job clock r)) \<and>
     (\<forall>part rest. job_row clock r = part @ rest \<longrightarrow> rest \<noteq> [] \<longrightarrow>
        (\<exists>e. decode_job_record (job_id r) part = Inl (Db e)))"
  using decode_job_row [OF assms] decode_job_row_trailing [OF assms] decode_cut_job_row [OF assms] by blast

theorem job_row_roundtrip_witness:
  "decode_job_record 42 (job_row 0 sample_record @ [7]) = Inr sample_record"
proof -
  have "stored_job 0 sample_record = sample_record"
    by (simp add: stored_job_def sample_record_def now_ms_def)
  then show ?thesis
    using job_row_roundtrip [OF storable_sample_record, of 0] by (simp add: sample_record_def)
qed

text \<open>C13: The jobs table is a map from job ids to records.  An upsert that succeeds updates it; asking for
  the jobs in a state returns exactly the map's records in that state, in the order of their ids; a
  lookup returns the map's value; a deletion removes the id and tells whether it had a row.\<close>

theorem jobs_table:
  assumes "redb_laws R dr wr rr" "jobs_wf (dr d)"
  shows "(\<forall>clock r d'. storable_job r \<and> upsert_job R clock r d = (Inr (), d') \<longrightarrow>
       jobs_of (dr d') = (jobs_of (dr d))(job_id r \<mapsto> stored_job clock r) \<and> jobs_wf (dr d')) \<and>
     (\<forall>jid x. get_job R jid d = Inr x \<longrightarrow> x = jobs_of (dr d) jid) \<and>
     (\<forall>st js. jobs_in_state R st d = Inr js \<longrightarrow>
        set js = {j \<in> ran (jobs_of (dr d)). state j = st} \<and> sorted_wrt (<) (map job_id js)) \<and>
     (\<forall>jid b d'. delete_job R jid d = (Inr b, d') \<longrightarrow>
        jobs_of (dr d') = (jobs_of (dr d))(jid := None) \<and> b = (dr d JOBS (KNum jid) \<noteq> None))"
proof (intro conjI allI impI)
  fix clock r d'
  assume "storable_job r \<and> upsert_job R clock r d = (Inr (), d')"
  then show "jobs_of (dr d') = (jobs_of (dr d))(job_id r \<mapsto> stored_job clock r)" "jobs_wf (dr d')"
    using upsert_job_view [OF _ assms(1)] upsert_job_wf [OF _ assms(1) _ assms(2)] by blast+
next
  fix jid x assume "get_job R jid d = Inr x"
  then show "x = jobs_of (dr d) jid" by (rule get_job_view [OF _ assms(1)])
next
  fix st js assume "jobs_in_state R st d = Inr js"
  then show "set js = {j \<in> ran (jobs_of (dr d)). state j = st}" "sorted_wrt (<) (map job_id js)"
    using jobs_in_state_view [OF _ assms] by blast+
next
  fix jid b d' assume "delete_job R jid d = (Inr b, d')"
  then show "jobs_of (dr d') = (jobs_of (dr d))(jid := None)" "b = (dr d JOBS (KNum jid) \<noteq> None)"
    using delete_job_view [OF _ assms(1)] by blast+
qed

theorem jobs_table_witness:
  "jobs_in_state mem_redb Failed sample_jobs = Inr [stored_job 0 sample_record]"
proof -
  obtain js where js: "jobs_in_state mem_redb Failed sample_jobs = Inr js" using mem_jobs_total by blast
  then have set: "set js = {j \<in> ran (jobs_of (mem_rows sample_jobs)). state j = Failed}"
    and sorted: "sorted_wrt (<) (map job_id js)"
    using jobs_table [where dr = mem_rows and d = sample_jobs, OF mem_redb_laws sample_jobs_rows(1)] by blast+
  have "set js = {stored_job 0 sample_record}"
    unfolding set sample_jobs_rows(2) by (auto simp: sample_record_def)
  then have "js = [stored_job 0 sample_record]"
    using sorted by (intro sorted_by_key_unique [where f = job_id]) simp_all
  with js show ?thesis by simp
qed

section \<open>Identifiers, progress and time ranges\<close>

text \<open>The combined hash of an asset id changes whenever exactly one of its parts changes.\<close>

theorem hash_detects_one_change:
  "(hash (from_parts p t s) = hash (from_parts p' t s) \<longleftrightarrow> p = p') \<and>
   (hash (from_parts p t s) = hash (from_parts p t' s) \<longleftrightarrow> t = t') \<and>
   (hash (from_parts p t s) = hash (from_parts p t s') \<longleftrightarrow> s = s')"
  by (simp add: hash_eq_iff from_parts_def mult_inject_phi mult_inject_fmix1 mult_inject_fmix2)

text \<open>A database key is 24 bytes and reads back its asset id; any other length is refused, and what is
  read from a key has that key.\<close>

theorem key_bytes_roundtrip:
  "length (key_bytes i) = 24 \<and> from_key_bytes (key_bytes i) = Inr i \<and>
   (length bs = 24 \<longleftrightarrow> (\<exists>i. from_key_bytes bs = Inr i \<and> key_bytes i = bs)) \<and>
   (length bs \<noteq> 24 \<longleftrightarrow> from_key_bytes bs =
      Inl (Validation (''asset key must be 24 bytes, got '' @ dec_string (length bs))))"
proof -
  have "length bs = 24 \<longleftrightarrow> (\<exists>i. from_key_bytes bs = Inr i)"
    "length bs \<noteq> 24 \<longleftrightarrow> from_key_bytes bs =
      Inl (Validation (''asset key must be 24 bytes, got '' @ dec_string (length bs)))"
    by (simp_all add: from_key_bytes_def validation_def)
  moreover have "from_key_bytes bs = Inr j \<Longrightarrow> key_bytes j = bs" for j
    by (rule key_bytes_from_key_bytes)
  ultimately show ?thesis by auto
qed

text \<open>Two paths of valid UTF-8 that differ in one byte have different path hashes.\<close>

theorem hash_path_detects_one_byte:
  assumes "utf8_valid (p @ x # q)" "utf8_valid (p @ y # q)" "x \<noteq> y"
  shows "hash_path (p @ x # q) \<noteq> hash_path (p @ y # q)"
proof -
  have "as_bytes [x] \<noteq> as_bytes [y]" using assms(3) by simp
  then show ?thesis
    using assms by (simp add: hash_path_def to_string_lossy_valid as_bytes_def fnv_foldl_inject fnv_step_inject_byte)
qed

theorem hash_path_detects_one_byte_witness: "hash_path ''/a.mp4'' \<noteq> hash_path ''/b.mp4''"
  using hash_path_detects_one_byte [of "''/''" "CHR ''a''" "''.mp4''" "CHR ''b''"]
  by (simp add: utf8_valid_ascii)

text \<open>Whatever a job reports, a reporter's callback only ever sees fractions between zero and one;
  reports that are not finite, and ratios of a total that is not positive, deliver nothing.\<close>

theorem reporter_delivers_unit_fractions:
  "\<exists>evs'. report recording x (c, evs) = (c, evs @ evs') \<and> (\<forall>ev \<in> set evs'. unit_fraction (fraction ev)) \<and>
     (f64_is_finite x \<longleftrightarrow> evs' \<noteq> []) \<and>
     (f64_le tot f64_zero \<longrightarrow> report_ratio recording x tot (c, evs) = (c, evs))"
  using unit_fraction_clamp [OF f64_finite_not_nan, of x]
  by (auto simp: report_recording report_ratio_def)

theorem reporter_delivers_unit_fractions_witness:
  "report_ratio recording f64_one f64_zero (False, []) = (False, [])"
proof -
  have "f64_le f64_zero f64_zero"
    by (simp add: f64_le_def f64_is_nan_def f64_mag_def f64_inf_def fp_inf_def f64_zero_def)
  then show ?thesis using reporter_delivers_unit_fractions [of f64_one False "[]" f64_zero] by auto
qed

text \<open>The overlap of two time ranges is none exactly when they have no instant in common, and
  otherwise is a valid range whose instants are exactly the common ones.\<close>

theorem overlap_is_intersection:
  assumes "valid_range r" "valid_range q"
  shows "case overlap r q of
       None \<Rightarrow> \<forall>t. \<not> (contains r t \<and> contains q t)
     | Some v \<Rightarrow> valid_range v \<and> (\<forall>t. contains v t \<longleftrightarrow> contains r t \<and> contains q t)"
proof (cases "intersects r q")
  case True
  note nan = valid_range_not_nan [OF assms(1)] valid_range_not_nan [OF assms(2)]
  show ?thesis
    using True nan valid_range_overlap [OF assms True]
    by (auto simp: overlap_eq [OF assms] contains_def f64_max_le f64_lt_min)
next
  case False
  have "\<not> (contains r t \<and> contains q t)" for t
    using False f64_le_lt_trans unfolding intersects_def contains_def by blast
  then show ?thesis using False by (simp add: overlap_eq [OF assms])
qed

theorem overlap_is_intersection_witness:
  "overlap \<lparr>start_secs = f64_zero, end_secs = f64_one\<rparr> \<lparr>start_secs = f64_one, end_secs = 0x4000000000000000\<rparr> = None"
proof -
  have valid: "valid_range \<lparr>start_secs = f64_zero, end_secs = f64_one\<rparr>"
    "valid_range \<lparr>start_secs = f64_one, end_secs = 0x4000000000000000\<rparr>"
    by (simp_all add: valid_range_def f64_is_finite_def f64_le_def f64_lt_def f64_key_def f64_is_nan_def
        f64_mag_def f64_neg_def f64_inf_def fp_inf_def f64_zero_def f64_one_def)
  have "\<not> (contains \<lparr>start_secs = f64_zero, end_secs = f64_one\<rparr> f64_one)"
    by (simp add: contains_def)
  then show ?thesis
    using overlap_is_intersection [OF valid] valid_range_overlap [OF valid]
    by (simp add: overlap_eq [OF valid] intersects_def)
qed

section \<open>The cache on disk\<close>

text \<open>C14: Invalidating an asset, whether it succeeds or fails, leaves alone every path of the cache that belongs to an asset
  of another hash, and everything below it, provided the entries registered for the asset lie at its own paths.  It also
  leaves the rows of every other asset and the other tables as they are, whatever lies at the registered paths.\<close>

theorem invalidation_spares_other_assets:
  assumes "invalidate_asset R st i (fs, d) = (r, fs', d')"
    "\<forall>es. list_cache_entries R i d = Inr es \<longrightarrow> (\<forall>e \<in> set es. layout_path st i (snd e))"
    "hash j \<noteq> hash i" "layout_path st j q" "key_below k (path_key q)"
  shows "nodes fs' k = nodes fs k \<and>
    (redb_laws R dr wr rr \<longrightarrow> (\<forall>a. a \<noteq> i \<longrightarrow> cache_of (dr d') a = cache_of (dr d) a) \<and> (\<forall>t. t \<noteq> CACHE_ENTRIES \<longrightarrow> dr d' t = dr d t))"
proof (intro conjI impI)
  show "\<forall>a. a \<noteq> i \<longrightarrow> cache_of (dr d') a = cache_of (dr d) a" "\<forall>t. t \<noteq> CACHE_ENTRIES \<longrightarrow> dr d' t = dr d t" if "redb_laws R dr wr rr"
    using invalidate_asset_spares [OF assms(1) that] by blast+
  show "nodes fs' k = nodes fs k"
proof (rule ccontr)
  assume "nodes fs' k \<noteq> nodes fs k"
  with removes_only_changed [OF invalidate_asset_only [OF assms(1)]] obtain p where p: "key_below k (path_key p)"
    "p \<in> sweep_paths st i \<or> (\<exists>es ty. list_cache_entries R i d = Inr es \<and> (ty, p) \<in> set es)"
    by blast
  have "layout_path st i p"
    using p(2) assms(2) by (force simp: sweep_layout)
  then show False using layout_below [OF _ assms(4) p(1) assms(5)] assms(3) by simp
qed
qed

theorem invalidation_spares_other_assets_witness:
  "\<exists>r fs' d'. invalidate_asset mem_redb sample_store asset_a (sample_tree, sample_registry) = (r, fs', d') \<and>
     nodes fs' (path_key (waveform_path sample_store asset_b)) = Some (FileNode [2]) \<and>
     cache_of (mem_rows d') asset_b = cache_of (mem_rows sample_registry) asset_b"
proof -
  obtain r fs' d' where inv: "invalidate_asset mem_redb sample_store asset_a (sample_tree, sample_registry) = (r, fs', d')"
    using prod_cases3 by blast
  have "nodes fs' (path_key (waveform_path sample_store asset_b)) = nodes sample_tree (path_key (waveform_path sample_store asset_b)) \<and>
      (redb_laws mem_redb mem_rows mem_rows mem_rows \<longrightarrow>
         (\<forall>a. a \<noteq> asset_a \<longrightarrow> cache_of (mem_rows d') a = cache_of (mem_rows sample_registry) a) \<and>
         (\<forall>t. t \<noteq> CACHE_ENTRIES \<longrightarrow> mem_rows d' t = mem_rows sample_registry t))"
    by (rule invalidation_spares_other_assets [OF inv, where j = asset_b and q = "waveform_path sample_store asset_b"])
      (use asset_hash_ab in \<open>simp_all add: sample_registry_list asset_hash_inject\<close>)
  moreover have "asset_b \<noteq> asset_a" using asset_hash_ab by auto
  moreover have "nodes sample_tree (path_key (waveform_path sample_store asset_b)) = Some (FileNode [2])"
    using asset_hash_ab by (simp add: sample_tree_def layout_keys)
  ultimately show ?thesis using inv mem_redb_laws by metis
qed

text \<open>C15: After an invalidation that succeeds, the asset's waveform file, thumbnail directory and its
  \<open>.mp4\<close> and \<open>.flac\<close> proxies are gone; so is every registered file or directory that the system does not
  refuse to remove; the database lists no entry for the asset, the result is how many it had, and the
  entries of other assets are the same.  This is said of a store that can read all rows in the range of the asset: the code
  skips rows that cannot be read.\<close>

theorem invalidation_clears_the_asset:
  assumes "invalidate_asset R st i (fs, d) = (Inr n, fs', d')" "redb_laws R dr wr rr" "cache_wf (dr d)"
    and "\<And>w it. range_w R CACHE_ENTRIES (KBytes (key_bytes i)) w = Inr it \<Longrightarrow> \<exists>kvs. it = map Inr kvs"
  shows "swept st i fs' \<and>
    (\<forall>ty p. cache_of (dr d) i ty = Some p \<longrightarrow> (\<forall>ty p. cache_of (dr d) i ty = Some p \<longrightarrow> (\<forall>c. fails fs c (path_key p) = None)) \<longrightarrow>
       entry_gone fs' (ty, p)) \<and>
    cache_of (dr d') = (cache_of (dr d))(i := \<lambda>_. None) \<and> n = card {ty. cache_of (dr d) i ty \<noteq> None}"
proof -
  from assms(1) obtain es where es: "list_cache_entries R i d = Inr es"
    by (cases rule: invalidate_asset_cases) auto
  have "es = entries_of (cache_of (dr d) i)" by (rule list_cache_entries_view [OF es assms(2,3)])
  then have entries: "(ty, p) \<in> set es \<longleftrightarrow> cache_of (dr d) i ty = Some p" for ty p
    by (simp add: set_entries_of)
  have inv: "invalidate_caches R i d = (Inr n, d')" using invalidate_asset_swept [OF assms(1)] by simp
  have "cache_of (dr d') = (cache_of (dr d))(i := \<lambda>_. None)"
    by (rule invalidate_caches_view(1) [OF inv assms(2,3)]) (rule assms(4))
  moreover have "n = card {ty. cache_of (dr d) i ty \<noteq> None}"
    by (rule invalidate_caches_rows(2) [OF inv assms(2,3)]) (rule assms(4))
  moreover have "entry_gone fs' (ty, p)"
    if "cache_of (dr d) i ty = Some p" "\<forall>ty p. cache_of (dr d) i ty = Some p \<longrightarrow> (\<forall>c. fails fs c (path_key p) = None)" for ty p
    using invalidate_asset_swept [OF assms(1)] es that entries by fastforce
  ultimately show ?thesis using invalidate_asset_swept [OF assms(1)] by blast
qed

theorem invalidation_clears_the_asset_witness:
  "\<exists>n fs' d'. invalidate_asset mem_redb sample_store asset_a (sample_tree, sample_registry) = (Inr n, fs', d') \<and>
     \<not> fs_exists (waveform_path sample_store asset_a) fs' \<and> cache_of (mem_rows d') asset_a = Map.empty"
proof -
  let ?fs = "foldl (\<lambda>fs e. remove_entry e fs) sample_tree [(WaveformPeaks, waveform_path sample_store asset_a)]"
  have only: "removes_only (snd ` set [(WaveformPeaks, waveform_path sample_store asset_a)]) sample_tree ?fs"
    by (rule remove_entries_only)
  have "fails ?fs = (\<lambda>_ _. None)" using only sample_tree_plain(1) by (simp only: removes_only_def)
  moreover have "nodes ?fs k \<noteq> Some DirNode" for k
    by (rule removes_only_no_dir [OF only sample_tree_plain(2)])
  ultimately obtain m fs1 where "remove_asset_files sample_store asset_a ?fs = (Inr m, fs1)"
    using remove_asset_files_total by blast
  moreover obtain n d' where "invalidate_caches mem_redb asset_a sample_registry = (Inr n, d')"
    using mem_invalidate_total by blast
  ultimately have inv: "invalidate_asset mem_redb sample_store asset_a (sample_tree, sample_registry) = (Inr n, fs1, d')"
    by (simp add: invalidate_asset_def sample_registry_list)
  have "swept sample_store asset_a fs1 \<and> cache_of (mem_rows d') = (cache_of (mem_rows sample_registry))(asset_a := \<lambda>_. None)"
    using invalidation_clears_the_asset [where dr = mem_rows, OF inv mem_redb_laws sample_registry_rows(1)] by auto
  then show ?thesis using inv by (auto simp: swept_def)
qed

text \<open>A proxy that is on disk but not yet registered survives the invalidation of its asset: the sweep of
  the standard locations looks for \<open>.mp4\<close> and \<open>.flac\<close>, and proxies are written as \<open>.tkvp\<close> and \<open>.wav\<close>.\<close>

theorem unregistered_proxies_survive:
  assumes "invalidate_asset R st i (fs, d) = (r, fs', d')" "list_cache_entries R i d = Inr []"
    "ext \<in> {''tkvp'', ''wav''}"
  shows "nodes fs' (path_key (proxy_path st i ext)) = nodes fs (path_key (proxy_path st i ext))"
proof (rule ccontr)
  assume "nodes fs' (path_key (proxy_path st i ext)) \<noteq> nodes fs (path_key (proxy_path st i ext))"
  note removes_only_changed [OF invalidate_asset_only [OF assms(1)] this]
  then obtain p where p: "p \<in> sweep_paths st i" "key_below (path_key (proxy_path st i ext)) (path_key p)"
    using assms(2) by auto
  have "layout_path st i p" "layout_path st i (proxy_path st i ext)"
    using p(1) assms(3) by (auto simp: sweep_layout)
  then have "path_key p = path_key (proxy_path st i ext)" using layout_below p(2) by simp
  then show False using p(1) assms(3) by (auto simp: sweep_paths_def layout_keys)
qed

theorem unregistered_proxies_survive_witness:
  "\<exists>r fs' d'. invalidate_asset mem_redb sample_store asset_a (sample_tree, mem_empty) = (r, fs', d') \<and>
     nodes fs' (path_key (proxy_path sample_store asset_a ''tkvp'')) = Some (FileNode [3])"
proof -
  obtain r fs' d' where inv: "invalidate_asset mem_redb sample_store asset_a (sample_tree, mem_empty) = (r, fs', d')"
    using prod_cases3 by blast
  have none: "list_cache_entries mem_redb asset_a mem_empty = Inr []"
    by (simp add: list_cache_entries_def mem_empty_def in_order_def Let_def)
  have "nodes fs' (path_key (proxy_path sample_store asset_a ''tkvp'')) =
      nodes sample_tree (path_key (proxy_path sample_store asset_a ''tkvp''))"
    by (rule unregistered_proxies_survive [OF inv none]) simp
  moreover have "nodes sample_tree (path_key (proxy_path sample_store asset_a ''tkvp'')) = Some (FileNode [3])"
    by (simp add: sample_tree_def)
  ultimately show ?thesis using inv by auto
qed

section \<open>Waveform peaks\<close>

text \<open>C16: Writing a chunk that the system does not refuse gives it back on reading, keeps every other chunk, and
  raises the number of chunks to hold its index; reading beyond that number gives none.\<close>

theorem peaks_write_then_read:
  assumes "peaks_ok c" "faults (peaks_file c) = []" "addressable (chunk_index chunk)"
  shows "\<exists>c'. write_chunk chunk c = (Inr (), c') \<and> peaks_ok c' \<and>
     chunk_count c' = max (chunk_count c) (unat (chunk_index chunk) + 1) \<and>
     (\<forall>j. 44 + 12 * j < 2 ^ 64 \<longrightarrow>
        (\<exists>found. cache_read_chunk j c' = (Inr found, c') \<and> (found = None \<longleftrightarrow> chunk_count c' \<le> j) \<and>
           (j = unat (chunk_index chunk) \<longrightarrow> found = Some chunk) \<and>
           (j \<noteq> unat (chunk_index chunk) \<longrightarrow> j < chunk_count c \<longrightarrow> cache_read_chunk j c = (Inr found, c))))"
proof -
  obtain c' where c': "write_chunk chunk c = (Inr (), c')" "peaks_ok c'" "faults (peaks_file c') = []"
    "chunk_count c' = max (chunk_count c) (unat (chunk_index chunk) + 1)"
    "chunk_at c' (unat (chunk_index chunk)) = chunk"
    "\<forall>j < chunk_count c. j \<noteq> unat (chunk_index chunk) \<longrightarrow> chunk_at c' j = chunk_at c j"
    using write_chunk_ok [OF assms(1,3,2)] by blast
  have "\<exists>found. cache_read_chunk j c' = (Inr found, c') \<and> (found = None \<longleftrightarrow> chunk_count c' \<le> j) \<and>
      (j = unat (chunk_index chunk) \<longrightarrow> found = Some chunk) \<and>
      (j \<noteq> unat (chunk_index chunk) \<longrightarrow> j < chunk_count c \<longrightarrow> cache_read_chunk j c = (Inr found, c))"
    if "44 + 12 * j < 2 ^ 64" for j
    using cache_read_chunk_ok [OF c'(2,3) that] cache_read_chunk_ok [OF assms(1,2) that] c'(4-6) by auto
  with c' show ?thesis by blast
qed

theorem peaks_write_then_read_witness:
  "\<exists>c'. write_chunk (peaks_of 2 [f32_one]) (fresh_cache asset_a ''p'') = (Inr (), c') \<and> chunk_count c' = 3 \<and>
     cache_read_chunk 2 c' = (Inr (Some (peaks_of 2 [f32_one])), c')"
proof -
  have "addressable (chunk_index (peaks_of 2 [f32_one]))" by (simp add: addressable_def)
  from peaks_write_then_read [OF fresh_cache_ok(1,3) this, of asset_a "''p''"]
  obtain c' where c': "write_chunk (peaks_of 2 [f32_one]) (fresh_cache asset_a ''p'') = (Inr (), c')"
    "chunk_count c' = max 0 (unat (2 :: u64) + 1)"
    and "\<forall>j. 44 + 12 * j < 2 ^ 64 \<longrightarrow> (\<exists>found. cache_read_chunk j c' = (Inr found, c') \<and>
       (found = None \<longleftrightarrow> chunk_count c' \<le> j) \<and> (j = unat (2 :: u64) \<longrightarrow> found = Some (peaks_of 2 [f32_one])))"
    unfolding fresh_cache_ok(2) chunk_index_peaks_of by blast
  from this(3) [rule_format, of 2] obtain found where "cache_read_chunk 2 c' = (Inr found, c')"
    "found = Some (peaks_of 2 [f32_one])" by auto
  with c' show ?thesis by auto
qed

text \<open>C17: However writing a chunk ends, and wherever a write is cut short, the file can be opened again with its
  parameters; the number of chunks it then has is not above the old one and the one that was to be
  reached, each of them can be read, and the old ones other than the chunk written are as they were.\<close>

theorem interrupted_write_keeps_peaks:
  assumes "peaks_ok c" "addressable (chunk_index chunk)" "write_chunk chunk c = (r, c')"
    "length (content (peaks_file c)) < 2 ^ 64"
  shows "\<exists>rd. reader_open p (closed_file (content (peaks_file c'))) = (Inr rd, closed_file (content (peaks_file c'))) \<and>
     reader_chunk_size rd = reader_chunk_size (peaks_reader c) \<and> reader_sample_rate rd = reader_sample_rate (peaks_reader c) \<and>
     unat (reader_count rd) \<le> max (chunk_count c) (unat (chunk_index chunk) + 1) \<and>
     (\<forall>j < unat (reader_count rd). \<exists>found.
        read_chunk rd (of_nat j) (closed_file (content (peaks_file c'))) = (Inr (Some found), closed_file (content (peaks_file c'))) \<and>
        (j < chunk_count c \<longrightarrow> j \<noteq> unat (chunk_index chunk) \<longrightarrow> found = chunk_at c j))"
proof -
  let ?m = "max (chunk_count c) (unat (chunk_index chunk) + 1)"
  have "partly_written chunk (reader_count (peaks_reader c)) (content (peaks_file c)) (content (peaks_file c'))"
    by (rule write_chunk_ends(2) [OF assms(2,3)])
  note kept = partly_written_kept [OF assms(1,2) this]
  have "32 + 12 * chunk_count c < 2 ^ 64" and magic: "slice 0 16 (content (peaks_file c)) =
      PEAKS_MAGIC @ u32_to_le (reader_chunk_size (peaks_reader c)) @ u32_to_le (reader_sample_rate (peaks_reader c))"
    using assms(1,4) by (simp_all add: peaks_ok_def Let_def chunk_count_def)
  then have "32 + 12 * ?m < 2 ^ 64" using assms(2) by (simp add: addressable_def max_def)
  note peaks_kept_reads [OF kept magic this, of p]
  then show ?thesis
    by (intro exI [of _ "\<lparr>reader_chunk_size = reader_chunk_size (peaks_reader c),
          reader_sample_rate = reader_sample_rate (peaks_reader c),
          reader_count = u64_from_le (slice 16 8 (content (peaks_file c')))\<rparr>"]) (auto simp: chunk_at_def)
qed

theorem interrupted_write_keeps_peaks_witness:
  "\<exists>r c' rd. write_chunk (peaks_of 2 [f32_one])
       ((fresh_cache asset_a ''p'')\<lparr>peaks_file := \<lparr>content = empty_header, offset = 0, faults = [None, None, None, Some (5, not_found)]\<rparr>\<rparr>) = (r, c') \<and>
     reader_open ''p'' (closed_file (content (peaks_file c'))) = (Inr rd, closed_file (content (peaks_file c'))) \<and>
     unat (reader_count rd) \<le> 3"
proof -
  let ?c = "(fresh_cache asset_a ''p'')\<lparr>peaks_file := \<lparr>content = empty_header, offset = 0, faults = [None, None, None, Some (5, not_found)]\<rparr>\<rparr>"
  have "peaks_ok ?c" using fresh_cache_ok(1) by (simp add: peaks_ok_def fresh_cache_def)
  moreover have "addressable (chunk_index (peaks_of 2 [f32_one]))" by (simp add: addressable_def)
  moreover obtain r c' where run: "write_chunk (peaks_of 2 [f32_one]) ?c = (r, c')" by fastforce
  moreover have "length (content (peaks_file ?c)) < 2 ^ 64" by (simp add: empty_header_def)
  ultimately obtain rd where "reader_open ''p'' (closed_file (content (peaks_file c'))) = (Inr rd, closed_file (content (peaks_file c')))"
    "unat (reader_count rd) \<le> max (chunk_count ?c) (unat (2 :: u64) + 1)"
    using interrupted_write_keeps_peaks [of ?c "peaks_of 2 [f32_one]" r c' "''p''"] by auto
  moreover have "chunk_count ?c = 0" by (simp add: fresh_cache_def chunk_count_def)
  ultimately show ?thesis using run by auto
qed

text \<open>C36: A short read breaks the resumption of peaks.  A decoder may fill less than the buffer, and a chunk then covers fewer
  frames than the chunk size; but a resumed run skips the chunk size for every chunk that is there.  With a decoder of one
  channel that gives one sample per call, a run from a cache that holds the chunks of the first \<open>q\<close> samples ends well, and the
  chunks behind them are those of the samples from the one at \<open>q\<close> times the chunk size on: the samples in between are in no
  chunk, unlike in a run that was not interrupted (\<open>q = 0\<close>).\<close>

theorem short_reads_misplace_peaks:
  assumes "drips decode rest" "stream_channels info = 1" "gen_chunk_size g \<noteq> 0" "calm env rep p"
    "holds_peaks c (map (\<lambda>x. [x]) (rest s)) q" "faults (peaks_file c) = []" "32 + 12 * length (rest s) < 2 ^ 64"
    "q * unat (gen_chunk_size g) < 2 ^ 64"
  shows "\<exists>c' s' p'. generate_stream env decode rep g info c s p = Some (Inr (), c', s', p') \<and>
     holds_peaks c' (map (\<lambda>x. [x]) (take q (rest s) @ drop (q * unat (gen_chunk_size g)) (rest s)))
       (q + (length (rest s) - q * unat (gen_chunk_size g)))"
  by (rule generate_stream_drips [OF assms(1,2) _ assms(4-8)]) (use assms(3) in \<open>simp add: unat_gt_0\<close>)

theorem short_reads_misplace_peaks_witness:
  "\<exists>c c' s' p'. holds_peaks c [[f32_one], [f32_minus_one], [f32_one]] 1 \<and>
     generate_stream (\<lambda>q. q) drip_decode reporter_new \<lparr>gen_chunk_size = 2, gen_sample_rate = 48000\<rparr> sample_stream c
       [f32_one, f32_minus_one, f32_one] (False, ()) = Some (Inr (), c', s', p') \<and>
     holds_peaks c' [[f32_one], [f32_one]] 2"
proof -
  let ?g = "\<lparr>gen_chunk_size = 2 :: u32, gen_sample_rate = 48000 :: u32\<rparr>" and ?c = "fresh_cache asset_a ''p''"
  let ?s = "[f32_one, f32_minus_one, f32_one]" and ?blocks = "[[f32_one], [f32_minus_one], [f32_one]]"
  have start: "holds_peaks ?c ?blocks 0" by (simp add: holds_peaks_iff fresh_cache_ok)
  have "faults (peaks_file ?c) = []" by (simp add: fresh_cache_def)
  then obtain c where c: "write_chunk (peaks_of (of_nat 0) (?blocks ! 0)) ?c = (Inr (), c)" "faults (peaks_file c) = []"
    using write_chunk_runs [of ?c "peaks_of (of_nat 0) (?blocks ! 0)"] by blast
  have holds: "holds_peaks c (map (\<lambda>x. [x]) ?s) 1" using write_next_chunk(1) [OF start _ _ c(1)] by simp
  have one: "stream_channels sample_stream = 1" by (simp add: sample_stream_def)
  have "\<exists>c' s' p'. generate_stream (\<lambda>q. q) drip_decode reporter_new ?g sample_stream c ?s (False, ()) = Some (Inr (), c', s', p') \<and>
      holds_peaks c' (map (\<lambda>x. [x]) (take 1 ?s @ drop (1 * unat (gen_chunk_size ?g)) ?s)) (1 + (length ?s - 1 * unat (gen_chunk_size ?g)))"
    by (rule short_reads_misplace_peaks [OF drip_decode_drips one _ calm_default holds c(2)]) simp_all
  moreover have "map (\<lambda>x. [x]) (take 1 ?s @ drop (1 * unat (gen_chunk_size ?g)) ?s) = [[f32_one], [f32_one]]"
    "1 + (length ?s - 1 * unat (gen_chunk_size ?g)) = 2" by simp_all
  moreover have "holds_peaks c ?blocks 1" using holds by simp
  ultimately show ?thesis by metis
qed

section \<open>Video\<close>

text \<open>C18: What the writer writes, the stream reads.  A stream opened on the finished file of a writer that has
  written frames delivers them in order, with the size and times of the header, pixels equal but opaque,
  and then the end, if the codec loses nothing.  The calls of the writer may be ones that fail: then nothing is said.\<close>

theorem proxy_stream_roundtrip:
  assumes "lossless_codec encode decode" "writer_create fl e p w h fps fs = (Inr wr, fs1)"
    "write_frames encode frames wr = (Inr (), wr1)" "writer_finish wr1 = (Inr (), wr2)"
    "w \<noteq> 0" "h \<noteq> 0" "f64_is_finite fps" "\<not> f64_le fps f64_zero"
    "read_file q fs2 = (Inr (content (inner (writer_file wr2))), fs2)"
  shows "\<exists>s. proxy_stream_open d q fs2 = (Inr s, fs2) \<and> frame_count (stream_video s) = of_nat (length frames) \<and>
    stream_frames decode (length frames + 1) s =
      map (\<lambda>i. Inr (Some \<lparr>frame_index = i, frame_time = f64_div (f64_of_nat i) (f64_max fps f64_1e_9),
                         frame_width = w, frame_height = h, frame_data = opaque (frames ! i)\<rparr>)) [0..<length frames] @ [Inr None]"
proof -
  note new = writer_create_writes [OF assms(2)]
  obtain ps where ps: "has_written ps wr1" "list_all2 (payload_of decode (writer_header wr)) ps frames" "writer_header wr1 = writer_header wr"
    using write_frames_streams [OF assms(1) new(1) assms(3)] by auto
  define hdr where "hdr = (writer_header wr1)\<lparr>header_frames := of_nat (length ps)\<rparr>"
  have "content (inner (writer_file wr2)) = header_bytes hdr @ concat (map frame_bytes ps)"
    using writer_finish_content(1) [OF ps(1) assms(4)] by (simp add: hdr_def)
  moreover have "valid_header hdr" using assms(5-8) ps(3) new(2) by (simp add: valid_header_def hdr_def)
  moreover have "list_all2 (payload_of decode hdr) ps frames" using ps(2,3) by (simp add: hdr_def)
  ultimately obtain s where "proxy_stream_open d q fs2 = (Inr s, fs2)" "streams decode frames s" "stream_header s = hdr"
    "next_index s = 0" "seek_target s = None" "frame_count (stream_video s) = of_nat (length frames)"
    using proxy_stream_open_streams [of q fs2 hdr ps decode frames d] assms(9) by auto
  then show ?thesis
    using stream_frames_all [of decode frames s "length frames"] ps(3) new(2) by (simp add: stream_frame_def hdr_def)
qed

theorem proxy_stream_roundtrip_witness:
  "\<exists>wr2 s. proxy_stream_open () ''p'' (one_file ''p'' (content (inner (writer_file (wr2 :: unit stream_writer))))) =
      (Inr s, one_file ''p'' (content (inner (writer_file wr2)))) \<and>
    map (map_sum (\<lambda>e. e) (map_option frame_data)) (stream_frames pixel_decode 2 s) = [Inr (Some [0, 0, 0, 255]), Inr None]"
proof -
  obtain wr fs wr1 wr2 where "writer_create [] () ''p'' 1 1 f64_one no_files = (Inr wr, fs)"
    "write_frames pixel_encode [black] wr = (Inr (), wr1)" "writer_finish wr1 = (Inr (), wr2)"
    by (rule sample_writer)
  then obtain s where s: "proxy_stream_open () ''p'' (one_file ''p'' (content (inner (writer_file wr2)))) =
      (Inr s, one_file ''p'' (content (inner (writer_file wr2))))"
    "stream_frames pixel_decode 2 s = [Inr (Some \<lparr>frame_index = 0, frame_time = f64_div (f64_of_nat 0) (f64_max f64_one f64_1e_9),
       frame_width = 1, frame_height = 1, frame_data = opaque black\<rparr>), Inr None]"
    using proxy_stream_roundtrip [OF pixel_codec, of "[]" "()" "''p''" 1 1 f64_one no_files wr fs "[black]" wr1 wr2 "''p''"
        "one_file ''p'' (content (inner (writer_file wr2)))" "()"] one_valid
    by (auto simp: numeral_2_eq_2 simp del: stream_frames.simps write_frames.simps)
  moreover have "opaque black = [0, 0, 0, 255]" by (simp add: opaque_def black_def)
  ultimately show ?thesis by (intro exI [of _ wr2] exI [of _ s]) (simp del: stream_frames.simps)
qed

text \<open>C19: The frame table of any file, damaged or hostile, is that of the whole frames the file begins with:
  what follows the header is a sequence of frames and a rest that is not a whole frame, the table has an entry
  for each of these frames, and every entry lies inside the file.\<close>

theorem frame_table_is_valid_prefix:
  assumes "faults f = []" "offset f = 32" "32 \<le> length (content f)"
  shows "\<exists>ps rest. content f = take 32 (content f) @ concat (map frame_bytes ps) @ rest \<and> cut_frame rest \<and>
    fst (scan_frame_table (length (content f)) f) = frame_table 32 ps \<and>
    (\<forall>(start, len) \<in> set (fst (scan_frame_table (length (content f)) f)). 36 \<le> start \<and> start + len \<le> length (content f))"
proof -
  obtain ps rest where ps: "drop 32 (content f) = concat (map frame_bytes ps) @ rest" "cut_frame rest" "\<forall>p \<in> set ps. length p < 2 ^ 32"
    using frames_of_bytes by blast
  then have "fst (scan_frame_table (length (content f)) f) = frame_table 32 ps"
    using scan_loop_table [of f 32 ps rest] assms by (simp add: scan_frame_table_def)
  moreover have whole: "content f = take 32 (content f) @ concat (map frame_bytes ps) @ rest"
    using append_take_drop_id [of 32 "content f"] ps(1) by simp
  moreover have "\<forall>(start, len) \<in> set (frame_table 32 ps). 36 \<le> start \<and> start + len \<le> length (content f)"
    using frame_table_bounds [of _ _ 32 ps] arg_cong [OF whole, of length] assms(3) by fastforce
  ultimately show ?thesis using ps(2) by (intro exI [of _ ps] exI [of _ rest]) simp
qed

theorem frame_table_is_valid_prefix_witness:
  "\<exists>ps rest. replicate 32 0 @ [1, 0, 0, 0, 9, 200, 0, 0, 0, 5] = replicate 32 0 @ concat (map frame_bytes ps) @ rest \<and> cut_frame rest \<and>
    fst (scan_frame_table 42 \<lparr>content = replicate 32 0 @ [1, 0, 0, 0, 9, 200, 0, 0, 0, 5], offset = 32, faults = []\<rparr>) = frame_table 32 ps"
  using frame_table_is_valid_prefix [of "\<lparr>content = replicate 32 0 @ [1, 0, 0, 0, 9, 200, 0, 0, 0, 5], offset = 32, faults = []\<rparr>"]
  by auto

text \<open>C20: A header is accepted exactly if it is, but for byte 7, the bytes of a header with a positive size and
  rate.\<close>

theorem container_header_exact:
  assumes "length raw = 32"
  shows "header_parse raw = Inr hdr \<longleftrightarrow> valid_header hdr \<and> raw[7 := 0] = header_bytes hdr"
proof
  show "header_parse raw = Inr hdr" if "valid_header hdr \<and> raw[7 := 0] = header_bytes hdr"
    using header_parse_bytes [of hdr] header_parse_update [of raw] that by metis
qed (rule header_parse_Inr [OF assms])

theorem container_header_exact_witness:
  "header_parse ((header_bytes \<lparr>header_width = 2, header_height = 1, header_fps = f64_one, header_frames = 0\<rparr>)[7 := 9]) =
    Inr \<lparr>header_width = 2, header_height = 1, header_fps = f64_one, header_frames = 0\<rparr>"
proof -
  let ?hdr = "\<lparr>header_width = 2, header_height = 1, header_fps = f64_one, header_frames = 0\<rparr>"
  have "header_bytes ?hdr ! 7 = 0" by (simp add: header_bytes_def nth_append)
  then have "(header_bytes ?hdr)[7 := 0] = header_bytes ?hdr" by (metis list_update_id)
  moreover have "valid_header ?hdr" using one_valid by (simp add: valid_header_def)
  ultimately show ?thesis using container_header_exact [of "(header_bytes ?hdr)[7 := 9]" ?hdr] by simp
qed

text \<open>C21: After a seek to a time, the next frame is the first one, from the frame whose index is the time rounded to frames on,
  that does not lie more than half a frame before that time, and the end if there is none; from there on frames follow one
  another again.  So the frame may lie before the time, by up to half a frame, where \<open>video.rs\<close> documents the first frame
  at or after it: the witness gets a frame before the time.\<close>

theorem stream_seek_finds_first:
  assumes "streams decode frames s"
  shows "\<exists>r s'. stream_next_frame decode (stream_seek_to t s) = (Inr r, s') \<and> streams decode frames s' \<and> seek_target s' = None \<and>
    (let hdr = stream_header s; clamped = f64_max t f64_zero;
         start = unat (f64_to_u64 (f64_round (f64_mul clamped (header_fps hdr))));
         early = (\<lambda>i. before_target (header_fps hdr) (stream_frame hdr frames i) clamped)
     in case r of
          Some frame \<Rightarrow> \<exists>j. start \<le> j \<and> j < length frames \<and> frame = stream_frame hdr frames j \<and> \<not> early j \<and>
            next_index s' = j + 1 \<and> (\<forall>i. start \<le> i \<and> i < j \<longrightarrow> early i)
        | None \<Rightarrow> \<forall>i. start \<le> i \<and> i < length frames \<longrightarrow> early i)"
proof -
  have seek: "streams decode frames (stream_seek_to t s)" "stream_header (stream_seek_to t s) = stream_header s"
    "next_index (stream_seek_to t s) = unat (f64_to_u64 (f64_round (f64_mul (f64_max t f64_zero) (header_fps (stream_header s)))))"
    "seek_target (stream_seek_to t s) = Some (f64_max t f64_zero)"
    using assms by (simp_all add: stream_seek_to_def Let_def)
  note next_ = stream_next_frame_streams [OF seek(1), unfolded seek(2-4) dropped_def option.case]
  then show ?thesis
  proof (elim disjE exE conjE)
    fix j s' assume "stream_next_frame decode (stream_seek_to t s) = (Inr (Some (stream_frame (stream_header s) frames j)), s')"
      "streams decode frames s'" "seek_target s' = None" "next_index s' = j + 1" "j < length frames"
    moreover assume "unat (f64_to_u64 (f64_round (f64_mul (f64_max t f64_zero) (header_fps (stream_header s))))) \<le> j"
      "\<not> before_target (header_fps (stream_header s)) (stream_frame (stream_header s) frames j) (f64_max t f64_zero)"
      "\<forall>i\<ge>unat (f64_to_u64 (f64_round (f64_mul (f64_max t f64_zero) (header_fps (stream_header s))))). i < j \<longrightarrow>
         before_target (header_fps (stream_header s)) (stream_frame (stream_header s) frames i) (f64_max t f64_zero)"
    ultimately show ?thesis
      by (intro exI [of _ "Some (stream_frame (stream_header s) frames j)"] exI [of _ s']) (auto simp: Let_def)
  next
    fix s' assume "stream_next_frame decode (stream_seek_to t s) = (Inr None, s')" "streams decode frames s'" "seek_target s' = None"
      "\<forall>i\<ge>unat (f64_to_u64 (f64_round (f64_mul (f64_max t f64_zero) (header_fps (stream_header s))))). i < length frames \<longrightarrow>
         before_target (header_fps (stream_header s)) (stream_frame (stream_header s) frames i) (f64_max t f64_zero)"
    then show ?thesis by (intro exI [of _ None] exI [of _ s']) (auto simp: Let_def)
  qed
qed

theorem stream_seek_finds_first_witness:
  "\<exists>s s'. streams square_decode [square] s \<and> stream_next_frame square_decode (stream_seek_to quarter s) = (Inr (Some square_frame), s') \<and>
     f64_lt (frame_time square_frame) quarter"
proof -
  obtain s where s: "streams square_decode [square] s" "stream_header s = square_header"
    by (rule square_open [of "''p''" "one_file ''p'' square_bytes" sample_kinetix]) (simp_all add: read_one_file)
  have early: "\<not> before_target f64_one (stream_frame square_header [square] 0) quarter"
    unfolding square_frame_at by (rule square_not_early)
  have rate: "header_fps square_header = f64_one" by (simp add: square_header_def)
  obtain r s' where run: "stream_next_frame square_decode (stream_seek_to quarter s) = (Inr r, s')"
    and found: "case r of Some frame \<Rightarrow> \<exists>j. j < length [square] \<and> frame = stream_frame square_header [square] j
      | None \<Rightarrow> \<forall>i. i < length [square] \<longrightarrow> before_target f64_one (stream_frame square_header [square] i) quarter"
    using stream_seek_finds_first [OF s(1), of quarter, unfolded s(2) Let_def rate quarter_value(4) quarter_rounds]
    by (auto split: option.splits)
  have "r = Some square_frame" using found early by (cases r) (auto simp: square_frame_at)
  with run s(1) square_not_early(2) show ?thesis by blast
qed

text \<open>C22: The conversion of a sample for the decoder accepts exactly the samples that are one or more units behind
  their lengths, with at most three bytes after them, and replaces the lengths by start codes.\<close>

theorem avcc_conversion_exact:
  "avcc_to_annexb data = Inr out \<longleftrightarrow>
     (\<exists>nals rest. nals \<noteq> [] \<and> data = concat (map nal_bytes nals) @ rest \<and> length rest < 4 \<and>
        (\<forall>nal \<in> set nals. length nal < 2 ^ 32) \<and> out = concat (map annexb_unit nals))"
  (is "_ \<longleftrightarrow> ?units")
proof
  assume "avcc_to_annexb data = Inr out"
  then have "annexb_loop data = Inr out" "out \<noteq> []"
    by (auto simp: avcc_to_annexb_def rbind_eq_Inr split: if_splits)
  then show ?units using annexb_loop_Inr [of data out] by (metis concat.simps(1) list.map(1))
next
  assume ?units
  then obtain nals rest where units: "nals \<noteq> []" "data = concat (map nal_bytes nals) @ rest" "length rest < 4"
    "\<forall>nal \<in> set nals. length nal < 2 ^ 32" "out = concat (map annexb_unit nals)" by blast
  moreover have "out \<noteq> []" using units(1,5) by (cases nals) (simp_all add: annexb_unit_def)
  ultimately show "avcc_to_annexb data = Inr out"
    using annexb_loop_units [OF units(3,4)] by (simp add: avcc_to_annexb_def)
qed

theorem avcc_conversion_exact_witness: "avcc_to_annexb (nal_bytes [5, 6] @ [0]) = Inr (annexb_unit [5, 6])"
  unfolding avcc_conversion_exact by (intro exI [of _ "[[5, 6]]"] exI [of _ "[0]"]) simp

section \<open>Proxies\<close>

text \<open>C23: A video proxy has even sides of at least two pixels, none of them above the profile's or the source's
  (a side of one pixel apart).\<close>

theorem target_size_bounds:
  "case target_size pf sw sh of (w, h) \<Rightarrow>
     2 \<le> unat w \<and> even (unat w) \<and> unat w \<le> max 2 (unat (fst (resolution pf))) \<and> unat w \<le> max 2 (unat sw) \<and>
     2 \<le> unat h \<and> even (unat h) \<and> unat h \<le> max 2 (unat (snd (resolution pf))) \<and> unat h \<le> max 2 (unat sh)"
proof -
  obtain v v' where t: "target_size pf sw sh = (ucast (and (max v 2) (not 1) :: u64), ucast (and (max v' 2) (not 1) :: u64))"
    "unat v \<le> min (max 1 (unat (fst (resolution pf)))) (max 1 (unat sw))"
    "unat v' \<le> min (max 1 (unat (snd (resolution pf)))) (max 1 (unat sh))"
    using target_size_parts by blast
  have two: "max 2 (max 1 n) = max 2 n" for n :: nat by simp
  show ?thesis
    unfolding t(1) prod.case
    using even_size [OF t(2) u32_max_1(1), unfolded two] even_size [OF t(3) u32_max_1(1), unfolded two] by blast
qed

section \<open>Watching\<close>

text \<open>C24: The debouncer is its history.  Whatever is pushed, popped and flushed, and however the map is iterated, what comes
  out is allowed by the window: a pop gives, of the events that are the last of their paths and have been quiet
  for the window, one that has been quiet longest, and nothing exactly if there is none; a flush gives all of
  them, those quiet longest first; what is pending is the last event of each path that has not come out.\<close>

theorem debouncer_is_its_history:
  assumes "hash_iterates order" "debounce_run order ops (debouncer_new w) = (h, d)"
  shows "history_allowed w Map.empty h \<and> pending_events d = pending_of w (latest h)"
  using debounce_run_allowed [OF assms(1) debouncer_new_ok _ assms(2), of Map.empty]
  by (simp add: latest_def debouncer_new_def pending_of_upd)

theorem debouncer_is_its_history_witness:
  "debounce_run sorted_order [Push sample_event 5, Pop 7, Pop 15] (debouncer_new 10) =
      ([Pushed sample_event 5, Idle 7, Popped sample_event 15], debouncer_new 10) \<and>
    history_allowed 10 Map.empty [Pushed sample_event 5, Idle 7, Popped sample_event 15]"
proof -
  have "debounce_run sorted_order [Push sample_event 5, Pop 7, Pop 15] (debouncer_new 10) =
      ([Pushed sample_event 5, Idle 7, Popped sample_event 15], debouncer_new 10)"
    by (simp add: debounce_do_def debouncer_new_def debouncer_push_def debouncer_pop_ready_def)
  with debouncer_is_its_history [OF sorted_order_iterates this] show ?thesis by simp
qed

text \<open>C25: A blocking receive that has not returned has found nothing ready at any of its turns, and has kept every event that
  came.  One that returns an event returns a last event of its path that has been quiet for the window.  When the
  channel is closed and nothing is ready, it discards all that is still pending.\<close>

theorem recv_waits_for_quiet:
  fixes w :: "'b media_watcher"
  assumes "hash_iterates order" "watcher_refines m w"
  shows "case recv order turns w of
      None \<Rightarrow> history_allowed (watcher_window w) m (waited turns)
    | Some (r, w') \<Rightarrow> \<exists>k h. k < length turns \<and> recv_ends (turns ! k) r h \<and>
        history_allowed (watcher_window w) m (waited (take k turns) @ h) \<and>
        watcher_refines (latest_after (waited (take k turns) @ h) m) w'"
  by (rule recv_history [OF assms])

theorem recv_waits_for_quiet_witness:
  "recv sorted_order [(0, Received sample_event, 5), (7, TimedOut, 8), (15, TimedOut, 16)] (with_backend () 10) =
      Some (Inr sample_event, with_backend () 10) \<and>
    (\<exists>k h. k < 3 \<and> history_allowed 10 Map.empty
       (waited (take k [(0, Received sample_event, 5), (7, TimedOut, 8), (15, TimedOut, 16)]) @ h))"
proof -
  let ?turns = "[(0, Received sample_event, 5), (7, TimedOut, 8), (15, TimedOut, 16)] :: (nat \<times> received \<times> nat) list"
  have run: "recv sorted_order ?turns (with_backend () 10) = Some (Inr sample_event, with_backend () 10)"
    by (simp add: with_backend_def watcher_pop_def watcher_push_def debouncer_new_def debouncer_push_def debouncer_pop_ready_def)
  have ref: "watcher_refines Map.empty (with_backend () 10)"
    by (simp add: watcher_refines_def with_backend_def debouncer_new_ok) (simp add: debouncer_new_def pending_of_upd)
  obtain k h where "k < length ?turns"
    "history_allowed (watcher_window (with_backend () 10)) Map.empty (waited (take k ?turns) @ h)"
    using recv_waits_for_quiet [OF sorted_order_iterates ref, of ?turns, unfolded run option.case prod.case] by blast
  moreover have "watcher_window (with_backend () 10) = 10" by (simp add: with_backend_def debouncer_new_def)
  ultimately have "k < 3 \<and> history_allowed 10 Map.empty (waited (take k ?turns) @ h)" by simp
  with run show ?thesis by blast
qed

text \<open>C26: A round of the polling backend reports the difference between the files it knew and the files it finds in the watched
  trees, at most sixteen levels below them: one event for each path that is gone, new or different, and none for
  another; then it knows the files it found.\<close>

theorem poll_round_is_difference:
  assumes "hash_iterates order" "finite (dom (poll_files st))" "poll_round order stamp ls st = (es, st')"
  shows "scan_adds (\<lambda>p s. \<exists>d \<in> set (poll_directories st). found ls d 0 p s) Map.empty (poll_files st') \<and>
     distinct (map event_path es) \<and>
     (\<forall>p. (event_now (stamp p) Deleted p \<in> set es \<longleftrightarrow> poll_files st p \<noteq> None \<and> poll_files st' p = None) \<and>
        (event_now (stamp p) Created p \<in> set es \<longleftrightarrow> poll_files st p = None \<and> poll_files st' p \<noteq> None) \<and>
        (event_now (stamp p) Modified p \<in> set es \<longleftrightarrow>
           poll_files st p \<noteq> None \<and> poll_files st' p \<noteq> None \<and> poll_files st p \<noteq> poll_files st' p)) \<and>
     (\<forall>e \<in> set es. \<exists>p. e \<in> {event_now (stamp p) Deleted p, event_now (stamp p) Created p, event_now (stamp p) Modified p})"
proof -
  have run: "es = poll_events order stamp (poll_files st) (poll_files st')" "poll_files st' = scan_all ls (poll_directories st)"
    using assms(3) by (auto simp: poll_round_def Let_def)
  have found: "scan_adds (\<lambda>p s. \<exists>d \<in> set (poll_directories st). found ls d 0 p s) Map.empty (poll_files st')"
    unfolding run(2) by (rule scan_all_scans)
  have "finite (dom (poll_files st'))" unfolding run(2) by (rule finite_scan_all)
  note exact = poll_events_exact [OF assms(1,2) this, of stamp, folded run(1)]
  have "distinct (map event_path es) \<and>
     (\<forall>p. (event_now (stamp p) Deleted p \<in> set es \<longleftrightarrow> poll_files st p \<noteq> None \<and> poll_files st' p = None) \<and>
        (event_now (stamp p) Created p \<in> set es \<longleftrightarrow> poll_files st p = None \<and> poll_files st' p \<noteq> None) \<and>
        (event_now (stamp p) Modified p \<in> set es \<longleftrightarrow>
           poll_files st p \<noteq> None \<and> poll_files st' p \<noteq> None \<and> poll_files st p \<noteq> poll_files st' p)) \<and>
     (\<forall>e \<in> set es. \<exists>p. e \<in> {event_now (stamp p) Deleted p, event_now (stamp p) Created p, event_now (stamp p) Modified p})"
    by (intro conjI allI exact)
  with found show ?thesis by (rule conjI)
qed

theorem poll_round_is_difference_witness:
  "\<exists>es st'. poll_round sorted_order (\<lambda>_. 9) sample_ls (poll_default\<lparr>poll_directories := [''/d'']\<rparr>) = (es, st') \<and>
     event_now 9 Created ''/d/a'' \<in> set es"
proof -
  let ?st = "poll_default\<lparr>poll_directories := [''/d'']\<rparr>"
  obtain es st' where run: "poll_round sorted_order (\<lambda>_. 9) sample_ls ?st = (es, st')" by fastforce
  then have "poll_files st' ''/d/a'' \<noteq> None" by (auto simp: poll_round_def Let_def sample_scan)
  then have "event_now 9 Created ''/d/a'' \<in> set es"
    using poll_round_is_difference [OF sorted_order_iterates _ run, THEN conjunct2] by (simp add: poll_default_def)
  with run show ?thesis by blast
qed

text \<open>C38: A receiver of the polling thread can mirror the watched trees.  While no call changes what is known, applying the
  creations and deletions that the thread has sent, in their order, to the paths known at the start gives the paths known at
  the end, those of the last scan.  And the thread obeys its flag: once it is set at the head of a turn, and the thread woke up
  from its sleeps before, the thread has returned and has sent nothing of that turn or a later one.\<close>

theorem scanner_mirrors_trees:
  assumes "hash_iterates order" "\<forall>t \<in> set turns. \<forall>st. poll_files (turn_clients t st) = poll_files st"
    "finite (dom (poll_files st))" "scanner order interval turns st = (sent, st', r)"
  shows "replay sent (dom (poll_files st)) = dom (poll_files st') \<and>
    (\<forall>k < length turns. turn_shutdown (turns ! k) \<longrightarrow>
       (\<forall>t \<in> set (take k turns). sleep_interval interval (turn_naps t) \<noteq> None) \<longrightarrow>
       r \<noteq> Scanning \<and> sent = fst (scanner order interval (take k turns) st))"
proof
  show "replay sent (dom (poll_files st)) = dom (poll_files st')" by (rule scanner_replay [OF assms])
  show "\<forall>k < length turns. turn_shutdown (turns ! k) \<longrightarrow>
       (\<forall>t \<in> set (take k turns). sleep_interval interval (turn_naps t) \<noteq> None) \<longrightarrow>
       r \<noteq> Scanning \<and> sent = fst (scanner order interval (take k turns) st)"
    using scanner_stops [of _ turns interval order st] assms(4) by simp
qed

theorem scanner_mirrors_trees_witness:
  "\<exists>sent st'. scanner sorted_order 5
     [\<lparr>turn_shutdown = False, turn_naps = [(3, False), (6, True)], turn_lock = True, turn_clients = (\<lambda>st. st),
       turn_lister = sample_ls, turn_stamp = (\<lambda>_. 9)\<rparr>,
      \<lparr>turn_shutdown = True, turn_naps = [], turn_lock = True, turn_clients = (\<lambda>st. st),
       turn_lister = sample_ls, turn_stamp = (\<lambda>_. 9)\<rparr>]
     (poll_default\<lparr>poll_directories := [''/d'']\<rparr>) = (sent, st', Stopped) \<and> replay sent {} = {''/d/a''}"
proof -
  let ?st = "poll_default\<lparr>poll_directories := [''/d'']\<rparr>"
  let ?t = "\<lparr>turn_shutdown = False, turn_naps = [(3, False), (6, True)], turn_lock = True, turn_clients = (\<lambda>st. st),
       turn_lister = sample_ls, turn_stamp = (\<lambda>_. 9)\<rparr>"
  let ?u = "\<lparr>turn_shutdown = True, turn_naps = [], turn_lock = True, turn_clients = (\<lambda>st. st),
       turn_lister = sample_ls, turn_stamp = (\<lambda>_. 9)\<rparr>"
  obtain es st' where round: "poll_round sorted_order (\<lambda>_. 9) sample_ls ?st = (es, st')" by fastforce
  then have run: "scanner sorted_order 5 [?t, ?u] ?st = (es, st', Stopped)" by simp
  have known: "poll_files st' = [''/d/a'' \<mapsto> \<lparr>state_size = 3, state_modified = 7\<rparr>]" "poll_files ?st = Map.empty"
    using round by (auto simp: poll_round_def Let_def sample_scan poll_default_def)
  have "replay es (dom (poll_files ?st)) = dom (poll_files st')"
    using scanner_mirrors_trees [OF sorted_order_iterates _ _ run] known(2) by simp
  with run known show ?thesis by auto
qed

text \<open>C27: An event that is handled without an error invalidates exactly the assets registered at its path (at the old path of a
  rename), whatever their versions: they have no cache entries and no swept files any more, the entries of all
  other assets are the same, and the result says whether there was any such asset.  Here too the store can read all rows in
  the ranges of the registered assets.\<close>

theorem event_invalidates_its_assets:
  assumes "handle_event os R st e (fs, d) = (Inr hit, fs', d')" "redb_laws R dr wr rr" "cache_wf (dr d)" "assets_wf (dr d)"
    "\<forall>info \<in> ran (assets_of (dr d)). clean_ranges R (id info)"
  shows "(hit \<longleftrightarrow> event_assets os (ran (assets_of (dr d))) e \<noteq> {}) \<and>
    cache_of (dr d') =
      (\<lambda>i. if i \<in> id ` event_assets os (ran (assets_of (dr d))) e then Map.empty else cache_of (dr d) i) \<and>
    (\<forall>info \<in> event_assets os (ran (assets_of (dr d))) e. swept st (id info) fs')"
  using handle_event_view [OF assms] by blast

theorem event_invalidates_its_assets_witness:
  "\<exists>fs' d'. handle_event sample_os mem_redb sample_store sample_event (no_files, sample_assets) = (Inr True, fs', d') \<and>
     event_assets sample_os (ran (assets_of (mem_rows sample_assets))) sample_event \<noteq> {}"
proof -
  obtain fs' d' where run: "handle_event sample_os mem_redb sample_store sample_event (no_files, sample_assets) = (Inr True, fs', d')"
    using sample_handle_event by blast
  have "\<forall>info \<in> ran (assets_of (mem_rows sample_assets)). clean_ranges mem_redb (id info)" by (simp add: mem_clean_ranges)
  with event_invalidates_its_assets [where dr = mem_rows, OF run mem_redb_laws sample_assets_rows(2,1)] run show ?thesis by blast
qed


text \<open>C28: A job survives a crash.  The record that a submission writes is the pending record of the job; when the write
  succeeds the jobs table has it under the job's id and nothing else changed, and when it fails the table is as it
  was.  Rebuilding the record gives the same job, except that the cache is the current one and that a proxy job has
  the default profile of its kind, whatever profile it was submitted with.\<close>

theorem interrupted_job_is_rebuilt:
  assumes "submit (upsert_job R) clock (boxed_job j) sh = Some (Inr i, sh')" "job_db sh = Some d" "redb_laws R dr wr rr"
    "storable_str (job_payload (boxed_job j))" "persistent_job j"
  shows "\<exists>r x d'. upsert_job R clock r d = (x, d') \<and> job_db sh' = Some d' \<and>
    jobs_of (dr d') = (if x = Inr () then (jobs_of (dr d))(i \<mapsto> r) else jobs_of (dr d)) \<and>
    state r = Pending \<and> (\<forall>st. rebuild_job r st = Some (recovered_job st j))"
proof -
  obtain r x d' where r: "upsert_job R clock r d = (x, d')" "job_db sh' = Some d'" "pending_record (boxed_job j) r"
    "x = Inr () \<longrightarrow> jobs_of (dr d') = (jobs_of (dr d))(job_id r \<mapsto> r)" "x = Inr () \<longrightarrow> jobs_wf (dr d) \<longrightarrow> jobs_wf (dr d')"
    "x \<noteq> Inr () \<longrightarrow> d' = d"
    by (rule submit_persists [OF assms(1-4)])
  have "job_id r = i" "state r = Pending" "records_job (boxed_job j) r"
    using r(3) submit_ident [OF assms(1)] by (simp_all add: pending_record_def records_job_def)
  with r rebuild_recorded [OF assms(5)] show ?thesis by (intro exI [of _ r] exI [of _ x] exI [of _ d']) auto
qed

theorem interrupted_job_is_rebuilt_witness:
  "\<exists>sh' r x d'. submit (upsert_job mem_redb) 5 (boxed_job sample_waveform) (attach_db mem_empty shared_default) = Some (Inr 7, sh') \<and>
     upsert_job mem_redb 5 r mem_empty = (x, d') \<and> job_db sh' = Some d' \<and>
     rebuild_job r (storage_new ''/d'') = Some (recovered_job (storage_new ''/d'') sample_waveform)"
proof -
  let ?sh = "attach_db mem_empty shared_default :: (cache_job, mem_db) shared"
  have sh: "\<not> shutdown ?sh" "job_db ?sh = Some mem_empty" by (simp_all add: attach_db_def shared_default_def)
  have "job_ident (boxed_job sample_waveform) = 7" by (simp add: sample_waveform_def)
  then obtain sh' where run: "submit (upsert_job mem_redb) 5 (boxed_job sample_waveform) ?sh = Some (Inr 7, sh')"
    using submit_total [of "upsert_job mem_redb" 5 "boxed_job sample_waveform" ?sh] sh(1) by auto
  from interrupted_job_is_rebuilt [OF run sh(2) mem_redb_laws sample_payload(2) sample_waveform_persistent] run show ?thesis by blast
qed

text \<open>C29: A recovery returns.  One that succeeds has queued, beside what was queued before, exactly the jobs that can be
  rebuilt from the pending and the running records of the jobs table as it was, and answers how many they are.  They keep
  the ids of their records, but the counter for new ids stays as it was.\<close>

theorem recovery_requeues_interrupted_jobs:
  assumes "redb_laws R dr wr rr" "jobs_wf (dr (engine_db s))"
    "\<forall>r \<in> ran (jobs_of (dr (engine_db s))). state r = Pending \<longrightarrow> resubmittable st r"
  shows "\<exists>x s'. recover_interrupted R (upsert_job R) clock st s = Some (x, s') \<and> next_id (fst s') = next_id (fst s) \<and>
    (\<forall>n. x = Inr n \<longrightarrow> (\<exists>ps rs. records_in Pending (jobs_of (dr (engine_db s))) ps \<and>
       records_in Running (jobs_of (dr (engine_db s))) rs \<and>
       queued_jobs (fst s') = queued_jobs (fst s) + mset (rebuilt_jobs st (ps @ rs)) \<and> n = length (rebuilt_jobs st (ps @ rs))))"
proof -
  obtain x s' where run: "recover_interrupted R (upsert_job R) clock st s = Some (x, s')"
    using recover_interrupted_total by blast
  moreover have "\<exists>ps rs. records_in Pending (jobs_of (dr (engine_db s))) ps \<and>
       records_in Running (jobs_of (dr (engine_db s))) rs \<and>
       queued_jobs (fst s') = queued_jobs (fst s) + mset (rebuilt_jobs st (ps @ rs)) \<and> n = length (rebuilt_jobs st (ps @ rs))"
    if "x = Inr n" for n
    by (rule recover_interrupted_exact [OF run [unfolded that] assms]) blast
  ultimately show ?thesis using recover_interrupted_next [OF run] by blast
qed

theorem recovery_requeues_interrupted_jobs_witness:
  "\<exists>s'. recover_interrupted mem_redb (upsert_job mem_redb) (\<lambda>_. 9) (storage_new ''/d'') sample_crash = Some (Inr 1, s') \<and>
     queued_jobs (fst s') = {# boxed_job (recovered_job (storage_new ''/d'') sample_waveform) #}"
proof -
  let ?st = "storage_new ''/d''"
  have store: "\<forall>r \<in> ran (jobs_of (mem_rows (engine_db sample_crash))). state r = Pending \<longrightarrow> resubmittable ?st r"
    by (simp add: sample_crash_rows(2) sample_resubmittable)
  have idle: "\<not> shutdown (fst sample_crash)" "queued_jobs (fst sample_crash) = {#}"
    by (simp_all add: sample_crash_def shared_default_def queued_jobs_def queue_new_def)
  obtain n s' where run: "recover_interrupted mem_redb (upsert_job mem_redb) (\<lambda>_. 9) ?st sample_crash = Some (Inr n, s')"
    using mem_recover_total [OF idle(1) sample_crash_rows(1) store] by blast
  obtain x s'' where "recover_interrupted mem_redb (upsert_job mem_redb) (\<lambda>_. 9) ?st sample_crash = Some (x, s'')"
    "\<forall>n. x = Inr n \<longrightarrow> (\<exists>ps rs. records_in Pending (jobs_of (mem_rows (engine_db sample_crash))) ps \<and>
       records_in Running (jobs_of (mem_rows (engine_db sample_crash))) rs \<and>
       queued_jobs (fst s'') = queued_jobs (fst sample_crash) + mset (rebuilt_jobs ?st (ps @ rs)) \<and>
       n = length (rebuilt_jobs ?st (ps @ rs)))"
    using recovery_requeues_interrupted_jobs [where dr = mem_rows and clock = "\<lambda>_. 9", OF mem_redb_laws sample_crash_rows(1) store]
    by blast
  with run have "\<exists>ps rs. records_in Pending [7 \<mapsto> sample_pending] ps \<and> records_in Running [7 \<mapsto> sample_pending] rs \<and>
      queued_jobs (fst s') = mset (rebuilt_jobs ?st (ps @ rs)) \<and> n = length (rebuilt_jobs ?st (ps @ rs))"
    unfolding sample_crash_rows(2) idle(2) by simp
  then obtain ps rs where rows: "records_in Pending [7 \<mapsto> sample_pending] ps" "records_in Running [7 \<mapsto> sample_pending] rs"
    "queued_jobs (fst s') = mset (rebuilt_jobs ?st (ps @ rs))" "n = length (rebuilt_jobs ?st (ps @ rs))"
    by blast
  have pending: "state sample_pending = Pending" by (simp add: sample_pending_def)
  have "ran [7 \<mapsto> sample_pending] = {sample_pending}" by simp
  then have "set ps = {sample_pending}" "set rs = {}" using rows(1,2) pending unfolding records_in_def by auto
  then have "ps = [sample_pending]" "rs = []"
    using rows(1) sorted_by_key_unique [where f = job_id and xs = ps and ys = "[sample_pending]"] unfolding records_in_def by simp_all
  with rows(3,4) run show ?thesis by (simp add: sample_rebuild)
qed

text \<open>C30: An import into a pipeline that is not shutting down returns.  One that fails has queued nothing.  One that succeeds answers the id
  of the file it probed and has written its asset to the database before it queued the jobs of its media type under two fresh
  ids: peaks and an audio proxy for audio, thumbnails and a video proxy for video, nothing for an image.\<close>

theorem import_is_all_or_nothing:
  assumes "\<not> shutdown (fst s)"
  shows "\<exists>x s' fs'. import_with_jobs os E R upsert clock imp p s fs = Some (x, s', fs') \<and>
    (case x of
       Inl _ \<Rightarrow> queued_jobs (fst s') = queued_jobs (fst s)
     | Inr (i, is) \<Rightarrow> from_path os p = Inr i \<and>
         (\<exists>info s1 js. probe_media_info os E p fs = (Inr info, fs') \<and> id info = i \<and> path info = p \<and>
            on_engine_db (upsert_asset R info) s = (Inr (), s1) \<and> (\<forall>j \<in> set js. job_asset (boxed_job j) = i) \<and>
            map (\<lambda>j. job_kind (boxed_job j)) js =
              (case media_type info of Audio \<Rightarrow> [''waveform'', ''audio_proxy''] | Video \<Rightarrow> [''thumbnails'', ''video_proxy'']
               | Image \<Rightarrow> []) \<and>
            is = (if media_type info = Image then [] else [next_id (fst s) + 1, next_id (fst s) + 2]) \<and>
            map (\<lambda>j. job_ident (boxed_job j)) js = is \<and>
            queued_jobs (fst s') = queued_jobs (fst s) + mset (map boxed_job js)))"
  using assms
proof (cases rule: import_all_or_nothing [where os = os and E = E and R = R and upsert = upsert and clock = clock and imp = imp
      and p = p and fs = fs])
  case (runs i "is" s' fs')
  from runs(1) show ?thesis
  proof (rule import_with_jobs_effect)
    fix info s1 js sh1
    assume e: "probe_media_info os E p fs = (Inr info, fs')" "i = id info" "on_engine_db (upsert_asset R info) s = (Inr (), s1)"
      "import_jobs imp info (fst s1) = (js, sh1)" "is = map (\<lambda>j. job_ident (boxed_job j)) js"
      "queued_jobs (fst s') = queued_jobs (fst s) + mset (map boxed_job js)"
    note jobs = import_jobs_facts(2-4) [OF e(4), unfolded on_engine_db_next [OF e(3)]] and probed = probe_media_info_facts [OF e(1)]
    show ?thesis
      by (intro exI [of _ "Inr (i, is)"] exI [of _ s'] exI [of _ fs'] conjI runs(1), simp only: sum.case prod.case)
        (intro conjI exI [of _ info] exI [of _ s1] exI [of _ js] e(1,3,6), use e(2,5) jobs probed in simp_all)
  qed
qed auto

theorem import_is_all_or_nothing_witness:
  "\<exists>i s'. import_with_jobs sample_disk sample_env mem_redb (upsert_job mem_redb) (\<lambda>_. 9) (importer_new sample_store) ''s''
     (shared_default, mem_empty) (one_file ''s'' []) = Some (Inr (i, [1, 2]), s', one_file ''s'' []) \<and> size (queued_jobs (fst s')) = 2"
proof -
  let ?s = "(shared_default, mem_empty) :: mem_db engine"
  obtain i s' where run: "import_with_jobs sample_disk sample_env mem_redb (upsert_job mem_redb) (\<lambda>_. 9) (importer_new sample_store)
      ''s'' ?s (one_file ''s'' []) = Some (Inr (i, [1, 2]), s', one_file ''s'' [])"
    using sample_import by blast
  have idle: "\<not> shutdown (fst ?s)" "queued_jobs (fst ?s) = {#}" by (simp_all add: shared_default_def queued_jobs_def queue_new_def)
  have "\<exists>js. map (\<lambda>j. job_ident (boxed_job j)) js = [1, 2] \<and> queued_jobs (fst s') = queued_jobs (fst ?s) + mset (map boxed_job js)"
    using import_is_all_or_nothing [OF idle(1), of sample_disk sample_env mem_redb "upsert_job mem_redb" "\<lambda>_. 9"
      "importer_new sample_store" "''s''" "one_file ''s'' []"]
    unfolding run option.inject prod.inject by (elim exE conjE, hypsubst, unfold sum.case prod.case, elim exE conjE) (rule exI, rule conjI)
  then obtain js where "map (\<lambda>j. job_ident (boxed_job j)) js = [1, 2]" "queued_jobs (fst s') = queued_jobs (fst ?s) + mset (map boxed_job js)"
    by (elim exE conjE) (rule that)
  moreover from this(1) have "length js = 2" by (metis length_Cons length_map list.size(3) numeral_2_eq_2)
  ultimately have "size (queued_jobs (fst s')) = 2" using idle(2) by simp
  with run show ?thesis by blast
qed


text \<open>C31: The command that shows a waveform returns: it reads the chunks at equal distances, never one that the peaks
  file does not have, and prints at most sixty bars of at most twelve cells to each side.\<close>

theorem waveform_is_shown:
  assumes "peaks_ok c" "faults (peaks_file c) = []" "44 + 12 * chunk_count c < 2 ^ 64"
  shows "\<exists>s bars. 0 < s \<and> show_waveform None c = Some (Inr bars, peaks_file c) \<and> length bars \<le> 60 \<and>
    bars = map (\<lambda>m. wave_bar_of (of_nat (m * s)) (chunk_at c (m * s))) [0..<(chunk_count c + s - 1) div s] \<and>
    (\<forall>b \<in> set bars. bar_up b \<le> 12 \<and> bar_down b \<le> 12)"
proof -
  obtain s where s: "0 < s" "(chunk_count c + s - 1) div s \<le> 60"
    "show_waveform None c = Some (Inr (map (\<lambda>m. shown_bar c (m * s)) [0..<(chunk_count c + s - 1) div s]), peaks_file c)"
    by (rule show_waveform_ok [OF assms])
  have "\<forall>b \<in> set (map (\<lambda>m. shown_bar c (m * s)) [0..<(chunk_count c + s - 1) div s]). bar_up b \<le> 12 \<and> bar_down b \<le> 12"
    using shown_bar_fits by auto
  with s show ?thesis by (intro exI conjI) (auto simp: shown_bar_def)
qed

theorem waveform_is_shown_witness:
  "\<exists>b. show_waveform None sample_peaks = Some (Inr [b], peaks_file sample_peaks) \<and> bar_up b \<le> 12"
proof -
  have "44 + 12 * chunk_count sample_peaks < 2 ^ 64" by (simp add: sample_peaks_ok(2))
  from waveform_is_shown [OF sample_peaks_ok(1,3) this, unfolded sample_peaks_ok(2)]
  obtain s bars where s: "0 < s" "show_waveform None sample_peaks = Some (Inr bars, peaks_file sample_peaks)"
    "bars = map (\<lambda>m. wave_bar_of (of_nat (m * s)) (chunk_at sample_peaks (m * s))) [0..<(1 + s - 1) div s]"
    "\<forall>b \<in> set bars. bar_up b \<le> 12 \<and> bar_down b \<le> 12" by blast
  have "(1 + s - 1) div s = 1" using s(1) by simp
  then have "bars = [wave_bar_of 0 (chunk_at sample_peaks 0)]" unfolding s(3) by simp
  with s(2,4) show ?thesis by simp
qed

text \<open>The progress bar of the command line is drawn for every event that a reporter delivers: thirty cells, of which
  never more than thirty are filled.\<close>

theorem progress_bar_is_drawn:
  "\<exists>evs'. report recording x (c, evs) = (c, evs @ evs') \<and>
     (\<forall>ev \<in> set evs'. \<exists>n. n \<le> 30 \<and> progress_cells (fraction ev) = Some (n, 30 - n))"
proof -
  obtain evs' where evs': "report recording x (c, evs) = (c, evs @ evs')" "\<forall>ev \<in> set evs'. unit_fraction (fraction ev)"
    using unit_fraction_clamp [OF f64_finite_not_nan, of x] by (auto simp: report_recording)
  then have "\<exists>n. n \<le> 30 \<and> progress_cells (fraction ev) = Some (n, 30 - n)" if "ev \<in> set evs'" for ev
    using progress_cells_total that by blast
  with evs'(1) show ?thesis by blast
qed

theorem progress_bar_is_drawn_witness:
  "\<exists>ev n. report recording f64_one (False, []) = (False, [ev]) \<and> progress_cells (fraction ev) = Some (n, 30 - n)"
proof -
  have "f64_is_finite f64_one" using one_valid(1) .
  then obtain ev where ev: "report recording f64_one (False, []) = (False, [ev])" by (auto simp: report_recording)
  with progress_bar_is_drawn [of f64_one False "[]"] show ?thesis by auto
qed


text \<open>C32: Where reads do not fail, a thumbnail cache that has been created opens with the same parameters, and a thumbnail
  that has been written is what is decoded from its file for every time of its index, while the thumbnails of other
  indices that could be read still can.\<close>

theorem thumbnails_read_back:
  assumes "readable fs"
  shows "(\<forall>i st interval res c fs'. thumbnails_create i st interval res fs = (Inr c, fs') \<longrightarrow> thumbnails_open i st fs' = (Inr c, fs')) \<and>
    (\<forall>img c t fs'. write_thumbnail img c t fs = (Inr (), fs') \<longrightarrow>
      (\<exists>jpeg. jpeg_encode img (thumb_width t) (thumb_height t) (thumb_data t) = Inr jpeg \<and>
        (\<forall>u. index_for_time c u = index_for_time c (thumb_time t) \<longrightarrow>
           read_thumbnail img c u fs' = (decoded_thumbnail img c (index_for_time c u) jpeg, fs')) \<and>
        (\<forall>u x. index_for_time c u \<noteq> index_for_time c (thumb_time t) \<longrightarrow> read_thumbnail img c u fs = (Inr (Some x), fs) \<longrightarrow>
           read_thumbnail img c u fs' = (Inr (Some x), fs'))))"
proof (intro conjI allI impI)
  fix i st interval res c fs'
  assume "thumbnails_create i st interval res fs = (Inr c, fs')"
  then show "thumbnails_open i st fs' = (Inr c, fs')" using assms by (rule thumbnails_create_open)
next
  fix img c t fs'
  assume "write_thumbnail img c t fs = (Inr (), fs')"
  then show "\<exists>jpeg. jpeg_encode img (thumb_width t) (thumb_height t) (thumb_data t) = Inr jpeg \<and>
      (\<forall>u. index_for_time c u = index_for_time c (thumb_time t) \<longrightarrow>
         read_thumbnail img c u fs' = (decoded_thumbnail img c (index_for_time c u) jpeg, fs')) \<and>
      (\<forall>u x. index_for_time c u \<noteq> index_for_time c (thumb_time t) \<longrightarrow> read_thumbnail img c u fs = (Inr (Some x), fs) \<longrightarrow>
         read_thumbnail img c u fs' = (Inr (Some x), fs'))"
    using assms by (rule thumbnail_written) blast
qed

theorem thumbnails_read_back_witness:
  "\<exists>c fs. thumbnails_create asset_a sample_store f64_one (1, 1) no_files = (Inr c, fs) \<and>
     thumbnails_open asset_a sample_store fs = (Inr c, fs)"
proof -
  have "readable no_files" by (simp add: readable_def no_files_def)
  with sample_thumbnails thumbnails_read_back show ?thesis by blast
qed


text \<open>C33: An audio proxy job returns.  When it succeeds its output is the WAV file of all the samples of the source: the
  blocks that the decoder delivers up to the end of the stream, none of whose calls fails, whatever their sizes; and the entry
  of the asset's audio proxy is set to it and nothing else in the cache table changed.  When it fails, by a cancellation, an
  error of the source, the codec or the output, or of the database, the database is as it was, and there is no output unless
  it is that whole file and only its entry failed.  When nobody cancels, nothing is refused and the decoder comes to the end
  without an error, the file is written.  Said of a decoder that comes to an end or an error, of an output that the system
  lets the job remove, and of a store that keeps redb's laws.\<close>

theorem audio_job_registers_whole_file:
  assumes "audio_ends (env_wav E) (env_flac E) (env_samples E) (pj_path j) fs" "fails fs RemoveFileCall (path_key (pj_output j)) = None"
    "redb_laws R dr wr rr" "storable_str (to_string_lossy (pj_output j))"
  shows "\<exists>r fs' d' q'. job_execute E R rep (AudioProxyJob j) fs d q = Some (r, fs', d', q') \<and>
    (case r of
       Inr _ \<Rightarrow> audio_job_whole E j fs fs' \<and> entry_set (pj_asset j) AudioProxy (pj_output j) (dr d) (dr d')
     | Inl e \<Rightarrow> d' = d \<and> (\<not> is_file_node (nodes fs' (path_key (pj_output j))) \<or> audio_job_whole E j fs fs')) \<and>
    (calm (env_flag E) rep q \<and> env_faults E = [] \<and>
       audio_ready (env_wav E) (env_flac E) (env_samples E) (pj_path j) (pj_output j) (pj_profile j) fs \<longrightarrow> audio_job_whole E j fs fs')"
  by (rule audio_job_effect [OF assms])

theorem audio_job_registers_whole_file_witness:
  "\<exists>r fs' d' q'. job_execute sample_env mem_redb reporter_new
     (AudioProxyJob \<lparr>pj_id = 1, pj_asset = asset_a, pj_path = ''s'', pj_output = ''p'', pj_profile = audio_proxy_flac\<rparr>)
     (one_file ''s'' []) mem_empty (False, ()) = Some (r, fs', d', q') \<and>
     nodes fs' (path_key ''p'') = Some (FileNode (wav_image \<lparr>spec_rate = 48000, spec_channels = 1\<rparr> [f32_one]))"
proof -
  let ?j = "\<lparr>pj_id = 1, pj_asset = asset_a, pj_path = ''s'', pj_output = ''p'', pj_profile = audio_proxy_flac\<rparr>"
  let ?info = "stream_info ''wav'' sample_raw" and ?fs = "one_file ''s'' []"
  have info: "stream_sample_rate ?info = 48000" "stream_channels ?info = 1" by (simp_all add: stream_info_def sample_raw_def)
  have env: "env_wav sample_env = sample_opener" "env_flac sample_env = sample_opener" "env_samples sample_env = list_decode"
    "env_faults sample_env = []" "env_flag sample_env = (\<lambda>q. q)" by (simp_all add: sample_env_def)
  have opened: "open_audio sample_opener sample_opener ''s'' ?fs = (Inr (x, i), ?fs) \<longleftrightarrow> x = [f32_one] \<and> i = ?info" for x i
    by (auto simp: sample_open_audio)
  have blocks: "read_blocks (Suc (Suc 0)) list_decode 1 (READ_FRAMES * 1) [f32_one] = Some ([[f32_one]], None)"
    by (simp add: stream_decode_def list_decode_def READ_FRAMES_def)
  have valid: "profile_validate audio_proxy_flac = Inr ()"
    by (simp add: profile_validate_def audio_proxy_flac_def is_audio_only_def AUDIO_CODEC_def rbind_def)
  obtain w fs1 where w: "wav_new [] ''p'' \<lparr>spec_rate = 48000, spec_channels = 1\<rparr> ?fs = (Inr w, fs1)" by (rule sample_wav_new)
  have ends: "audio_ends (env_wav sample_env) (env_flac sample_env) (env_samples sample_env) (pj_path ?j) ?fs"
    unfolding env audio_ends_def proxy_job.select_convs opened Let_def using blocks by (auto simp: info intro!: exI [of _ "Suc (Suc 0)"])
  have ready: "audio_ready (env_wav sample_env) (env_flac sample_env) (env_samples sample_env) (pj_path ?j) (pj_output ?j) (pj_profile ?j) ?fs"
    unfolding env audio_ready_def proxy_job.select_convs opened Let_def
    using valid w blocks by (auto simp: info intro!: exI [of _ "Suc (Suc 0)"])
  have removable: "fails ?fs RemoveFileCall (path_key (pj_output ?j)) = None" by (simp add: one_file_def no_files_def)
  have stored: "storable_str (to_string_lossy (pj_output ?j))" by (simp add: storable_str_def to_string_lossy_valid utf8_valid_ascii)
  have calm: "calm (env_flag sample_env) reporter_new (False, ())" unfolding env by (rule calm_default)
  obtain r fs' d' q' where run: "job_execute sample_env mem_redb reporter_new (AudioProxyJob ?j) ?fs mem_empty (False, ()) = Some (r, fs', d', q')"
    and whole: "audio_job_whole sample_env ?j ?fs fs'"
    using audio_job_registers_whole_file [where d = mem_empty and rep = reporter_new and q = "(False, ())",
        OF ends removable mem_redb_laws stored] calm ready env(4) by blast
  obtain k bs where "read_blocks k list_decode 1 (READ_FRAMES * 1) [f32_one] = Some (bs, None)"
    "nodes fs' (path_key ''p'') = Some (FileNode (wav_image \<lparr>spec_rate = 48000, spec_channels = 1\<rparr> (concat bs)))"
    using whole unfolding audio_job_whole_def whole_wav_def env proxy_job.select_convs opened Let_def by (auto simp: info)
  moreover from read_blocks_unique [OF blocks this(1)] have "bs = [[f32_one]]" by simp
  ultimately have "nodes fs' (path_key ''p'') = Some (FileNode (wav_image \<lparr>spec_rate = 48000, spec_channels = 1\<rparr> [f32_one]))" by simp
  with run show ?thesis by blast
qed

text \<open>C34: A video proxy job returns.  When it succeeds its output is the whole video of the source: a stream of the size and
  rate of its profile that opens, counts and delivers, in order, exactly the frames that the source delivers up to its end,
  thinned out to the rate of the profile and resized; and the entry of the asset's video proxy is set to it and nothing else in
  the cache table changed.  When it fails, be it by a cancellation, by an error of the source, of the encoder, of a write that
  is cut short, or of the database, the database is as it was, and there is no output unless it is that whole stream and only its
  entry failed: no partial proxy is ever left or registered.  When nobody cancels, no call fails and the frames are well formed,
  the output is written.  Said of a source that is a proxy stream, or an MP4 file with a finite frame rate whose demuxer runs
  out of packets; of a codec that loses nothing; of an output that the system lets the job remove and us read; and of a store
  that keeps redb's laws.\<close>

theorem video_job_registers_complete_stream:
  assumes "finite_source (env_kinetix E) (env_decoder E) (pj_path j) fs" "lossless_codec (env_encode E) (env_decode E)"
    "fails fs ReadCall (path_key (pj_output j)) = None" "fails fs RemoveFileCall (path_key (pj_output j)) = None"
    "redb_laws R dr wr rr" "storable_str (to_string_lossy (pj_output j))"
  shows "\<exists>r fs' d' q'. job_execute E R rep (VideoProxyJob j) fs d q = Some (r, fs', d', q') \<and>
    (case r of
       Inr _ \<Rightarrow> video_job_whole E j fs fs' \<and> entry_set (pj_asset j) VideoProxy (pj_output j) (dr d) (dr d')
     | Inl e \<Rightarrow> d' = d \<and> (\<not> is_file_node (nodes fs' (path_key (pj_output j))) \<or> video_job_whole E j fs fs')) \<and>
    (calm (env_flag E) rep q \<and> env_faults E = [] \<and> video_job_ready E j fs \<longrightarrow> video_job_whole E j fs fs')"
  by (rule video_job_effect [OF assms])

theorem video_job_registers_complete_stream_witness:
  "\<exists>fs' d' q'. job_execute (square_env :: (_, _, _, _, _, _, unit) job_env) mem_redb reporter_new (VideoProxyJob square_job)
       (one_file ''s'' square_bytes) mem_empty (False, ()) = Some (Inr (), fs', d', q') \<and>
     video_job_ready (square_env :: (_, _, _, _, _, _, unit) job_env) square_job (one_file ''s'' square_bytes) \<and>
     complete_stream square_decode () ''p'' (2, 2) f64_one [square] fs' \<and>
     entry_set asset_a VideoProxy ''p'' (mem_rows mem_empty) (mem_rows d')"
proof -
  let ?fs = "one_file ''s'' square_bytes" and ?E = "square_env :: (_, _, _, _, _, _, unit) job_env"
  have job: "pj_asset square_job = asset_a" "pj_output square_job = ''p''" by (simp_all add: square_job_def)
  have plain: "fails ?fs c (path_key (pj_output square_job)) = None" for c by (simp add: one_file_def no_files_def)
  have stored: "storable_str (to_string_lossy (pj_output square_job))"
    by (simp add: job storable_str_def to_string_lossy_valid utf8_valid_ascii)
  have source: "finite_source (env_kinetix ?E) (env_decoder ?E) (pj_path square_job) ?fs"
    unfolding square_env_simps by (rule sample_finite_source)
  have codec: "lossless_codec (env_encode ?E) (env_decode ?E)" unfolding square_env_simps by (rule square_codec)
  obtain fs1 d1 q1 where run: "job_execute ?E mem_redb reporter_new (VideoProxyJob square_job) ?fs mem_empty (False, ()) =
      Some (Inr (), fs1, d1, q1)" using square_job_runs [OF calm_default [of "()"]] by blast
  have "video_job_whole ?E square_job ?fs fs1 \<and> entry_set asset_a VideoProxy ''p'' (mem_rows mem_empty) (mem_rows d1)"
    using video_job_registers_complete_stream [where d = mem_empty and rep = reporter_new and q = "(False, ())",
        OF source codec plain plain mem_redb_laws stored] run by (auto simp: job)
  with run square_whole square_ready show ?thesis by blast
qed



text \<open>C39: A thumbnail job returns.  When it succeeds, the cache opens with the job's interval and resolution, and for every
  index below the number of thumbnails of the video, and below \<open>2 ^ 50\<close> at a finite time, reading at the time of the index gives
  the thumbnail of this index, made from the frame that the source delivered next when it was sought to that time in the turn of
  this index: the product and the quotient that lead from an index to its time and back are rounded, and the index comes back
  all the same, so that no turn overwrites the thumbnail of another.  (Only turns beyond these bounds might.)  The entry of the asset's thumbnails is set to the directory and nothing else in the
  cache table changed; when the job fails the database is as it was.  Said of a demuxer that runs out of packets, of files that can be read,
  and of a store that keeps redb's laws.\<close>

theorem thumbnail_job_stores_all:
  assumes "ends_anywhere (env_kinetix E)" "readable fs" "redb_laws R dr wr rr"
    "storable_str (to_string_lossy (thumbnail_dir (tj_storage j) (tj_asset j)))"
  shows "\<exists>r fs' d' z'. job_execute E R rep (ThumbnailJob j) fs d z = Some (r, fs', d', z') \<and>
    (case r of
       Inl _ \<Rightarrow> d' = d
     | Inr _ \<Rightarrow> entry_set (tj_asset j) VideoThumbnails (thumbnail_dir (tj_storage j) (tj_asset j)) (dr d) (dr d') \<and>
         (\<exists>c fs1 src. thumbnails_create (tj_asset j) (tj_storage j) (tj_interval j) (tj_resolution j) fs = (Inr c, fs1) \<and>
            open_video (env_kinetix E) (env_decoder E) (tj_path j) fs1 = (Inr src, fs1) \<and>
            thumbnails_complete E j src (thumbnail_total (source_info src) (tj_interval j)) fs'))"
  by (rule thumbnail_job_effect [OF assms])

theorem thumbnail_job_stores_all_witness:
  "\<exists>fs' d' z' c src fs1. job_execute (square_env :: (_, _, _, _, _, _, unit) job_env) mem_redb reporter_new (ThumbnailJob square_thumbnails) (one_file ''s'' square_bytes) mem_empty
       (False, ()) = Some (Inr (), fs', d', z') \<and>
     thumbnails_create asset_a sample_store f64_one (2, 2) (one_file ''s'' square_bytes) = (Inr c, fs1) \<and>
     open_video sample_kinetix () ''s'' fs1 = (Inr src, fs1) \<and>
     thumbnails_complete (square_env :: (_, _, _, _, _, _, unit) job_env) square_thumbnails src (thumbnail_total (source_info src) f64_one) fs' \<and>
     entry_set asset_a VideoThumbnails (thumbnail_dir sample_store asset_a) (mem_rows mem_empty) (mem_rows d')"
proof -
  let ?fs = "one_file ''s'' square_bytes"
  have job: "tj_asset square_thumbnails = asset_a" "tj_storage square_thumbnails = sample_store" "tj_path square_thumbnails = ''s''"
    "tj_interval square_thumbnails = f64_one" "tj_resolution square_thumbnails = (2, 2)" by (simp_all add: square_thumbnails_def)
  have "packets_end sample_kinetix (Suc 0) m" for m by (simp add: sample_kinetix_def)
  then have ends: "ends_anywhere (env_kinetix square_env)" unfolding square_env_simps ends_anywhere_def by blast
  have readable: "readable ?fs" by (simp add: readable_def one_file_def no_files_def)
  have stored: "storable_str (to_string_lossy (thumbnail_dir (tj_storage square_thumbnails) (tj_asset square_thumbnails)))"
    unfolding job by (rule sample_thumbnail_text)
  obtain fs1 d1 where run: "job_execute square_env mem_redb reporter_new (ThumbnailJob square_thumbnails) ?fs mem_empty (False, ()) =
      Some (Inr (), fs1, d1, (False, ()))" using square_thumbnails_run by blast
  with thumbnail_job_stores_all [where d = mem_empty and rep = reporter_new and z = "(False, ())", OF ends readable mem_redb_laws stored]
  show ?thesis by (auto simp: job square_env_simps; blast)
qed

text \<open>C40: A cache job on a worker.  From the start of its body to the section that persists its end, if no other thread
  interrupts it, the worker runs the job's execution; the registry then says completed, cancelled or failed as the execution
  returned.  If it says completed, the entry of the job's asset and cache is set to its file and the other entries are as they
  were; otherwise the database is as it was.\<close>

theorem cache_job_on_worker:
  assumes "job_execute E R (reporter_for c (job_ident (boxed_job x))) x fs d (flags sh n, tracker sh) = Some (r, fs', d', p')"
    "env_flag E = (\<lambda>q. q)" "job_tracked sh (job_ident (boxed_job x)) = Some Running"
    "redb_laws R dr wr rr" "job_entry x = (i, ty, p)" "storable_str (to_string_lossy p)"
  shows "\<exists>sh'. thread_run up (RunBody (boxed_job x) n, sh) (RunEnd (boxed_job x) (job_outcome r), sh') \<and>
     job_tracked sh' (job_ident (boxed_job x)) =
       Some (case r of Inr _ \<Rightarrow> Completed | Inl e \<Rightarrow> if e = Cancelled then JobCancelled else Failed) \<and>
     (if job_tracked sh' (job_ident (boxed_job x)) = Some Completed then entry_set i ty p (dr d) (dr d') else d' = d)"
proof -
  let ?t = "case r of Inr _ \<Rightarrow> Completed | Inl e \<Rightarrow> if e = Cancelled then JobCancelled else Failed"
  obtain sh' where run: "thread_run up (RunBody (boxed_job x) n, sh) (RunEnd (boxed_job x) (job_outcome r), sh')"
    and state: "job_tracked sh' (job_ident (boxed_job x)) = Some (outcome_tracked r)"
    using cache_job_runs [OF assms(1-3), where up = up] by blast
  have "outcome_tracked r = ?t" by (cases r) simp_all
  moreover have "if ?t = Completed then entry_set i ty p (dr d) (dr d') else d' = d"
    using job_execute_entry [OF assms(1,4-6)] by (cases r) auto
  ultimately have "job_tracked sh' (job_ident (boxed_job x)) = Some ?t \<and>
      (if job_tracked sh' (job_ident (boxed_job x)) = Some Completed then entry_set i ty p (dr d) (dr d') else d' = d)"
    using state by simp
  with run show ?thesis by blast
qed

theorem cache_job_on_worker_witness:
  "\<exists>(sh :: (cache_job, mem_db) shared) sh' d'. thread_run (upsert_job mem_redb) (RunBody (boxed_job (VideoProxyJob square_job)) 0, sh)
       (RunEnd (boxed_job (VideoProxyJob square_job)) JobOk, sh') \<and>
     job_tracked sh' 1 = Some Completed \<and> entry_set asset_a VideoProxy ''p'' (mem_rows mem_empty) (mem_rows d')"
proof -
  let ?x = "VideoProxyJob square_job"
  let ?t = "update_state 0 1 Running (tracker_register 0 1 tracker_new)"
  define sh :: "(cache_job, mem_db) shared" where "sh = shared_default\<lparr>tracker := ?t\<rparr>"
  have sh: "job_ident (boxed_job ?x) = 1" "job_tracked sh (job_ident (boxed_job ?x)) = Some Running" "\<not> flags sh 0"
    by (simp_all add: square_job_def sh_def shared_default_def)
  have "calm (\<lambda>q. q) (reporter_for 0 (job_ident (boxed_job ?x))) (flags sh 0, tracker sh)"
    using sh(3) by (auto simp: calm_def is_cancelled_def callback_keeps_def reporter_for_def with_callback_def reporter_default_def)
  then obtain fs' d' q' where run: "job_execute square_env mem_redb (reporter_for 0 (job_ident (boxed_job ?x))) ?x (one_file ''s'' square_bytes) mem_empty
      (flags sh 0, tracker sh) = Some (Inr (), fs', d', q')" using square_job_runs by blast
  have entry: "job_entry ?x = (asset_a, VideoProxy, ''p'')" by (simp add: square_job_def)
  have stored: "storable_str (to_string_lossy ''p'')" by (simp add: storable_str_def to_string_lossy_valid utf8_valid_ascii)
  obtain sh' where run_end: "thread_run (upsert_job mem_redb) (RunBody (boxed_job ?x) 0, sh) (RunEnd (boxed_job ?x) (job_outcome (Inr ())), sh')"
    and tracked: "job_tracked sh' (job_ident (boxed_job ?x)) = Some Completed"
    and entry: "entry_set asset_a VideoProxy ''p'' (mem_rows mem_empty) (mem_rows d')"
    using cache_job_on_worker [OF run square_env_simps(1) sh(2) mem_redb_laws entry stored, of "upsert_job mem_redb"] by auto
  from run_end have "thread_run (upsert_job mem_redb) (RunBody (boxed_job ?x) 0, sh) (RunEnd (boxed_job ?x) JobOk, sh')"
    by (simp only: job_outcome_def sum.case)
  with tracked entry show ?thesis unfolding sh(1) by blast
qed

end
